(* ===== verification/PyPrelude.thy ===== *)
theory PyPrelude
  imports Main "HOL-Library.Sublist"
begin

text \<open>
  Shared vocabulary of the development: the Python errors the modelled code raises, the
  result type of a fallible call, and the list and string operations of Python that several
  components use.  Python strings are lists; the operations are polymorphic in the character
  type, so that they serve both \<open>string\<close> (code points below 256) and lists of code points.
\<close>

section \<open>Errors and results\<close>

datatype py_error =
    ValueError
  | KeyError
  | IndexError
  | ParseError
  | AssertionError
  | AttributeError
  | TypeError
  | InvalidOperation

type_synonym 'a result = "py_error + 'a"

fun bind_result :: "'e + 'a \<Rightarrow> ('a \<Rightarrow> 'e + 'b) \<Rightarrow> 'e + 'b" where
  "bind_result (Inl e) f = Inl e"
| "bind_result (Inr x) f = f x"

lemma bind_result_Inr:
  "bind_result r f = Inr y \<longleftrightarrow> (\<exists>x. r = Inr x \<and> f x = Inr y)"
  by (cases r) auto

lemma bind_result_Inl:
  "bind_result r f = Inl e \<longleftrightarrow> r = Inl e \<or> (\<exists>x. r = Inr x \<and> f x = Inl e)"
  by (cases r) auto

section \<open>Prefix, suffix and search\<close>

definition startswith :: "'a list \<Rightarrow> 'a list \<Rightarrow> bool" where
  "startswith s p \<longleftrightarrow> take (length p) s = p"

definition endswith :: "'a list \<Rightarrow> 'a list \<Rightarrow> bool" where
  "endswith s p \<longleftrightarrow> startswith (rev s) (rev p)"

fun contains :: "'a list \<Rightarrow> 'a list \<Rightarrow> bool" where
  "contains s [] = startswith [] s"
| "contains s (x # xs) = (startswith (x # xs) s \<or> contains s xs)"

lemma startswith_prefix: "startswith s p \<longleftrightarrow> prefix p s"
  unfolding startswith_def prefix_def
  by (metis append_eq_conv_conj append_take_drop_id)

lemma startswith_append [simp]: "startswith (p @ s) p"
  by (simp add: startswith_def)

lemma startswith_refl [simp]: "startswith s s"
  by (simp add: startswith_def)

lemma startswith_Nil [simp]: "startswith s []"
  by (simp add: startswith_def)

lemma startswith_Cons [simp]:
  "startswith (x # xs) (y # ys) \<longleftrightarrow> x = y \<and> startswith xs ys"
  by (auto simp: startswith_def)

lemma startswith_Nil_Cons [simp]: "\<not> startswith [] (y # ys)"
  by (simp add: startswith_def)

lemma startswith_split: "startswith s p \<Longrightarrow> s = p @ drop (length p) s"
  by (metis append_take_drop_id startswith_def)

lemma endswith_suffix: "endswith s p \<longleftrightarrow> suffix p s"
  by (simp add: endswith_def startswith_prefix suffix_to_prefix)

lemma contains_sublist: "contains s t \<longleftrightarrow> sublist s t"
proof (induction t)
  case Nil
  then show ?case by (cases s) auto
next
  case (Cons x xs)
  then show ?case
    by (simp add: startswith_prefix sublist_Cons_right)
qed

section \<open>Stripping\<close>

definition lstrip_by :: "('a \<Rightarrow> bool) \<Rightarrow> 'a list \<Rightarrow> 'a list" where
  "lstrip_by p s = dropWhile p s"

definition rstrip_by :: "('a \<Rightarrow> bool) \<Rightarrow> 'a list \<Rightarrow> 'a list" where
  "rstrip_by p s = rev (dropWhile p (rev s))"

definition strip_by :: "('a \<Rightarrow> bool) \<Rightarrow> 'a list \<Rightarrow> 'a list" where
  "strip_by p s = rstrip_by p (lstrip_by p s)"

lemma lstrip_by_id: "s = [] \<or> \<not> p (hd s) \<Longrightarrow> lstrip_by p s = s"
  by (cases s) (auto simp: lstrip_by_def)

lemma rstrip_by_id: "s = [] \<or> \<not> p (last s) \<Longrightarrow> rstrip_by p s = s"
  by (cases s rule: rev_cases) (auto simp: rstrip_by_def)

lemma strip_by_id:
  "s = [] \<or> \<not> p (hd s) \<and> \<not> p (last s) \<Longrightarrow> strip_by p s = s"
  by (auto simp: strip_by_def lstrip_by_id rstrip_by_id)

lemma lstrip_by_not_all: "x \<in> set s \<Longrightarrow> \<not> p x \<Longrightarrow> lstrip_by p s \<noteq> []"
  by (auto simp: lstrip_by_def dropWhile_eq_Nil_conv)

lemma set_lstrip_by: "set (lstrip_by p s) \<subseteq> set s"
  by (auto simp: lstrip_by_def dest: set_dropWhileD)

lemma set_rstrip_by: "set (rstrip_by p s) \<subseteq> set s"
  using set_dropWhileD [of _ p "rev s"] by (auto simp: rstrip_by_def)

lemma set_strip_by: "set (strip_by p s) \<subseteq> set s"
  using set_rstrip_by [of p "lstrip_by p s"] set_lstrip_by [of p s]
  by (auto simp: strip_by_def)

lemma strip_by_hd:
  assumes "strip_by p s \<noteq> []"
  shows "\<not> p (hd (strip_by p s))"
proof -
  define t where "t = lstrip_by p s"
  have strip: "strip_by p s = rstrip_by p t"
    by (simp add: strip_by_def t_def)
  have "t \<noteq> []"
    using assms strip by (auto simp: rstrip_by_def)
  then have hd_t: "\<not> p (hd t)"
    unfolding t_def lstrip_by_def by (rule hd_dropWhile)
  have "t = rstrip_by p t @ rev (takeWhile p (rev t))"
    unfolding rstrip_by_def by (metis rev_append rev_rev_ident takeWhile_dropWhile_id)
  with assms strip have "hd t = hd (rstrip_by p t)"
    by (metis hd_append2)
  with hd_t strip show ?thesis by simp
qed

lemma strip_by_last: "strip_by p s \<noteq> [] \<Longrightarrow> \<not> p (last (strip_by p s))"
  using hd_dropWhile [of p "rev (lstrip_by p s)"]
  by (simp add: strip_by_def rstrip_by_def last_rev)

lemma find_mem: "find P xs = Some x \<Longrightarrow> x \<in> set xs"
  by (induction xs) (auto split: if_splits)

text \<open>How an update in place changes the number of elements with a property.\<close>

lemma length_filter_update:
  "i < length xs \<Longrightarrow>
     length (filter P (xs[i := y])) + (if P (xs ! i) then 1 else 0) = length (filter P xs) + (if P y then 1 else 0)"
proof (induction xs arbitrary: i)
  case Nil
  then show ?case by simp
next
  case (Cons x xs)
  then show ?case by (cases i) (auto split: if_splits)
qed

section \<open>Association lists as Python dicts\<close>

text \<open>
  A Python dict that is iterated in insertion order is an association list.  Assignment
  replaces the value at the key's position, or appends a new pair.
\<close>

fun alist_set :: "'k \<Rightarrow> 'v \<Rightarrow> ('k \<times> 'v) list \<Rightarrow> ('k \<times> 'v) list" where
  "alist_set k v [] = [(k, v)]"
| "alist_set k v ((k', v') # kvs) =
     (if k' = k then (k, v) # kvs else (k', v') # alist_set k v kvs)"

definition alist_del :: "'k \<Rightarrow> ('k \<times> 'v) list \<Rightarrow> ('k \<times> 'v) list" where
  "alist_del k kvs = filter (\<lambda>kv. fst kv \<noteq> k) kvs"

lemma alist_set_new: "k \<notin> fst ` set kvs \<Longrightarrow> alist_set k v kvs = kvs @ [(k, v)]"
  by (induction kvs) auto

lemma map_of_alist_set: "map_of (alist_set k v kvs) = (map_of kvs)(k \<mapsto> v)"
  by (induction kvs) (auto simp: fun_eq_iff)

lemma map_fst_alist_set:
  "map fst (alist_set k v kvs) =
     (if k \<in> set (map fst kvs) then map fst kvs else map fst kvs @ [k])"
proof (induction kvs)
  case Nil
  then show ?case by simp
next
  case (Cons kv kvs)
  then show ?case by (cases kv) (simp del: set_map)
qed

lemma set_fst_alist_set: "fst ` set (alist_set k v kvs) = insert k (fst ` set kvs)"
  using arg_cong [OF map_fst_alist_set [of k v kvs], of set] by (auto split: if_splits)

lemma distinct_alist_set:
  "distinct (map fst kvs) \<Longrightarrow> distinct (map fst (alist_set k v kvs))"
  by (simp add: map_fst_alist_set del: set_map)

lemma map_of_alist_del: "map_of (alist_del k kvs) = (map_of kvs)(k := None)"
  by (induction kvs) (auto simp: alist_del_def)

lemma alist_del_id: "k \<notin> fst ` set m \<Longrightarrow> alist_del k m = m"
  unfolding alist_del_def by (rule filter_True) auto

lemma alist_del_Cons: "alist_del k (kv # m) = (if fst kv = k then alist_del k m else kv # alist_del k m)"
  by (simp add: alist_del_def)

lemma length_alist_del:
  "distinct (map fst m) \<Longrightarrow> map_of m k = Some v \<Longrightarrow> Suc (length (alist_del k m)) = length m"
  by (induction m) (auto simp: alist_del_Cons alist_del_id split: if_splits)

lemma distinct_alist_del: "distinct (map fst m) \<Longrightarrow> distinct (map fst (alist_del k m))"
  by (induction m) (auto simp: alist_del_def)

lemma distinct_filter_fst: "distinct (map fst kvs) \<Longrightarrow> distinct (map fst (filter P kvs))"
  by (induction kvs) auto

section \<open>Text codecs\<close>

text \<open>
  The interface of a printer and a parser over one value type: what the printer emits for an
  admissible value, the parser accepts, and it reads back an equal value.  Equality is equality
  of \<open>val\<close>, since two representations may denote the same value.
\<close>

locale text_codec =
  fixes enc :: "'a \<Rightarrow> 's result"
    and dec_text :: "'s \<Rightarrow> 'a result"
    and val :: "'a \<Rightarrow> 'v"
    and ok :: "'a \<Rightarrow> bool"
  assumes total: "ok x \<Longrightarrow> \<exists>s. enc x = Inr s"
    and roundtrip: "ok x \<Longrightarrow> enc x = Inr s \<Longrightarrow> \<exists>y. dec_text s = Inr y \<and> val y = val x"
begin

lemma enc_inj:
  assumes "ok x" "ok y" "enc x = enc y"
  shows "val x = val y"
proof -
  obtain s where s: "enc x = Inr s" using total [OF assms(1)] by blast
  show ?thesis
    using roundtrip [OF assms(1) s] roundtrip [OF assms(2), of s] s assms(3) by fastforce
qed

lemma roundtrip_total: "ok x \<Longrightarrow> \<exists>y. bind_result (enc x) dec_text = Inr y \<and> val y = val x"
  using total [of x] roundtrip [of x] by fastforce

end

section \<open>Text up to a character\<close>

lemma first_at_inj:
  "xs @ c # ys = xs' @ c # ys' \<Longrightarrow> c \<notin> set xs \<Longrightarrow> c \<notin> set xs' \<Longrightarrow> xs = xs' \<and> ys = ys'"
  by (induction xs arbitrary: xs') (auto simp: Cons_eq_append_conv append_eq_Cons_conv)

lemma until: "c \<notin> set f \<Longrightarrow> c \<notin> set f' \<Longrightarrow> f @ c # r = f' @ c # r' \<longleftrightarrow> f = f' \<and> r = r'"
  using first_at_inj [of f c r f' r'] by blast

end
