(* ===== verification/Float64.thy ===== *)
theory Float64
  imports PyPrelude "HOL-Library.Log_Nat" Complex_Main
begin

text \<open>
  Python's \<open>float\<close> is an IEEE 754 double.  A finite double is modelled by the rational it
  denotes, and every arithmetic operation of the code is the exact rational operation followed
  by \<open>fl\<close>, rounding to nearest with ties to even at 53 significant bits (gradual underflow at
  exponent -1074).  Infinities and NaN are outside the model: every value the modelled code
  computes is far below \<open>2 ^ 1024\<close>.
\<close>

section \<open>Rounding a rational to the nearest integer, ties to even\<close>

definition round_half_even :: "rat \<Rightarrow> int" where
  "round_half_even x =
     (let f = \<lfloor>x\<rfloor>; r = x - of_int f in
      if r < 1 / 2 then f
      else if 1 / 2 < r then f + 1
      else if even f then f else f + 1)"

lemma round_half_even_of_int [simp]: "round_half_even (of_int n) = n"
  by (simp add: round_half_even_def)

lemma round_half_even_0 [simp]: "round_half_even 0 = 0"
  by (simp add: round_half_even_def)

lemma round_half_even_bounds: "\<lfloor>x\<rfloor> \<le> round_half_even x" "round_half_even x \<le> \<lfloor>x\<rfloor> + 1"
  by (auto simp: round_half_even_def Let_def)

lemma round_half_even_mono:
  assumes "x \<le> y"
  shows "round_half_even x \<le> round_half_even y"
proof (cases "\<lfloor>x\<rfloor> = \<lfloor>y\<rfloor>")
  case True
  with assms show ?thesis by (auto simp: round_half_even_def Let_def)
next
  case False
  with assms have "\<lfloor>x\<rfloor> + 1 \<le> \<lfloor>y\<rfloor>"
    using floor_mono by fastforce
  then show ?thesis
    using round_half_even_bounds [of x] round_half_even_bounds [of y] by linarith
qed

lemma round_half_even_error: "\<bar>of_int (round_half_even x) - x\<bar> \<le> 1 / 2"
proof -
  have "of_int \<lfloor>x\<rfloor> \<le> x" "x < of_int \<lfloor>x\<rfloor> + 1"
    by linarith+
  then show ?thesis by (auto simp: round_half_even_def Let_def)
qed

lemma round_half_even_minus: "round_half_even (- x) = - round_half_even x"
proof (cases "x = of_int \<lfloor>x\<rfloor>")
  case True
  then show ?thesis by (metis of_int_minus round_half_even_of_int)
next
  case False
  define f where "f = \<lfloor>x\<rfloor>"
  have fl: "of_int f < x" "x < of_int f + 1"
    using False f_def by linarith+
  then have "\<lfloor>- x\<rfloor> = - f - 1"
    by (intro floor_unique) auto
  then show ?thesis
    using fl by (auto simp: round_half_even_def Let_def f_def [symmetric])
qed

section \<open>The binary exponent of a rational\<close>

definition ilog2 :: "rat \<Rightarrow> int" where
  "ilog2 x =
     (let (n, d) = quotient_of x; k = bitlen n - bitlen d in
      if 2 powi k \<le> x then k else k - 1)"

lemma powi_nat_diff: "(2::rat) powi (int a - int b) = 2 ^ a / 2 ^ b"
  by (simp add: power_int_diff)

lemma ilog2_bounds:
  assumes "0 < x"
  shows "2 powi ilog2 x \<le> x" "x < 2 powi (ilog2 x + 1)"
proof -
  obtain n d where nd: "quotient_of x = (n, d)"
    by (cases "quotient_of x")
  have d: "0 < d"
    using nd by (rule quotient_of_denom_pos)
  have x: "x = of_int n / of_int d"
    using nd by (rule quotient_of_div)
  with assms d have n: "0 < n"
    by (simp add: zero_less_divide_iff)
  define a b where "a = nat (bitlen n)" and "b = nat (bitlen d)"
  have "0 < bitlen n" "0 < bitlen d"
    using n d bitlen_eq_zero_iff [of n] bitlen_eq_zero_iff [of d]
      bitlen_nonneg [of n] bitlen_nonneg [of d] by linarith+
  then have a: "bitlen n = int a" "0 < a" and b: "bitlen d = int b" "0 < b"
    by (auto simp: a_def b_def)
  have nb: "2 ^ (a - 1) \<le> n" "n < 2 ^ a"
    using bitlen_bounds [OF n] a by (auto simp: nat_diff_distrib)
  have db: "2 ^ (b - 1) \<le> d" "d < 2 ^ b"
    using bitlen_bounds [OF d] b by (auto simp: nat_diff_distrib)
  have nr: "(2::rat) ^ (a - 1) \<le> of_int n" "of_int n < (2::rat) ^ a"
    using nb of_int_le_iff [where ?'a = rat, of "2 ^ (a - 1)" n]
      of_int_less_iff [where ?'a = rat, of n "2 ^ a"] by simp_all
  have dr: "(2::rat) ^ (b - 1) \<le> of_int d" "of_int d < (2::rat) ^ b"
    using db of_int_le_iff [where ?'a = rat, of "2 ^ (b - 1)" d]
      of_int_less_iff [where ?'a = rat, of d "2 ^ b"] by simp_all
  have low: "2 powi (int a - int b - 1) \<le> x"
  proof -
    have "(2::rat) powi (int a - int b - 1) = 2 ^ (a - 1) / 2 ^ b"
      using a powi_nat_diff [of "a - 1" b] by (simp add: of_nat_diff algebra_simps)
    also have "\<dots> \<le> of_int n / of_int d"
      using nr(1) dr(2) n d by (intro frac_le) auto
    finally show ?thesis by (simp add: x)
  qed
  have high: "x < 2 powi (int a - int b + 1)"
  proof -
    have "of_int n / of_int d < (2::rat) ^ a / 2 ^ (b - 1)"
      using nr(2) dr(1) n d by (intro frac_less) auto
    also have "\<dots> = 2 powi (int a - int b + 1)"
      using b powi_nat_diff [of a "b - 1"] by (simp add: of_nat_diff algebra_simps)
    finally show ?thesis by (simp add: x)
  qed
  have k: "ilog2 x = (if 2 powi (int a - int b) \<le> x then int a - int b else int a - int b - 1)"
    by (simp add: ilog2_def nd a b Let_def)
  show "2 powi ilog2 x \<le> x" "x < 2 powi (ilog2 x + 1)"
    using low high by (auto simp: k)
qed

lemma ilog2_less:
  assumes "0 < x" "x < 2 powi n"
  shows "ilog2 x < n"
proof -
  have "(2::rat) powi ilog2 x < 2 powi n"
    using ilog2_bounds(1) [OF assms(1)] assms(2) by linarith
  then show ?thesis
    by (metis linorder_not_less one_le_numeral power_int_increasing)
qed

lemma ilog2_mono:
  assumes "0 < x" "x \<le> y"
  shows "ilog2 x \<le> ilog2 y"
  using ilog2_less [OF assms(1), of "ilog2 y + 1"] ilog2_bounds(2) [of y] assms by simp

section \<open>Rounding to a double\<close>

definition ulp_exp :: "rat \<Rightarrow> int" where
  "ulp_exp x = max (- 1074) (ilog2 \<bar>x\<bar> - 52)"

definition fl :: "rat \<Rightarrow> rat" where
  "fl x =
     (if x = 0 then 0
      else of_int (round_half_even (x / 2 powi ulp_exp x)) * 2 powi ulp_exp x)"

lemma fl_0 [simp]: "fl 0 = 0"
  by (simp add: fl_def)

lemma fl_minus: "fl (- x) = - fl x"
  by (simp add: fl_def ulp_exp_def round_half_even_minus)

lemma fl_nonneg: "0 \<le> x \<Longrightarrow> 0 \<le> fl x"
  using round_half_even_mono [of 0 "x / 2 powi ulp_exp x"] by (auto simp: fl_def)

lemma powi_split:
  assumes "e \<le> k"
  shows "(2::rat) powi k = of_int (2 ^ nat (k - e)) * 2 powi e"
proof -
  have "(2::rat) powi k = 2 powi (k - e) * 2 powi e"
    by (simp flip: power_int_add)
  then show ?thesis using assms by (simp add: power_int_def)
qed

lemma fl_le_power:
  assumes "0 < x" "x \<le> 2 powi k" "ulp_exp x \<le> k"
  shows "fl x \<le> 2 powi k"
proof -
  let ?q = "(2::rat) powi ulp_exp x" and ?n = "2 ^ nat (k - ulp_exp x) :: int"
  have k: "2 powi k = of_int ?n * ?q" by (rule powi_split [OF assms(3)])
  have "x / ?q \<le> of_int ?n"
    using assms(2) unfolding k by (simp only: divide_le_eq) simp
  from round_half_even_mono [OF this] have "round_half_even (x / ?q) \<le> ?n"
    by (simp only: round_half_even_of_int)
  then have "of_int (round_half_even (x / ?q)) * ?q \<le> of_int ?n * ?q"
    by (intro mult_right_mono) (simp_all only: of_int_le_iff, simp)
  then show ?thesis using assms(1) unfolding k by (simp add: fl_def)
qed

lemma power_le_fl:
  assumes "0 < x" "2 powi k \<le> x" "ulp_exp x \<le> k"
  shows "2 powi k \<le> fl x"
proof -
  let ?q = "(2::rat) powi ulp_exp x" and ?n = "2 ^ nat (k - ulp_exp x) :: int"
  have k: "2 powi k = of_int ?n * ?q" by (rule powi_split [OF assms(3)])
  have "of_int ?n \<le> x / ?q"
    using assms(2) unfolding k by (simp only: le_divide_eq) simp
  from round_half_even_mono [OF this] have "?n \<le> round_half_even (x / ?q)"
    by (simp only: round_half_even_of_int)
  then have "of_int ?n * ?q \<le> of_int (round_half_even (x / ?q)) * ?q"
    by (intro mult_right_mono) (simp_all only: of_int_le_iff, simp)
  then show ?thesis using assms(1) unfolding k by (simp add: fl_def)
qed

lemma fl_mono_pos:
  assumes "0 < x" "x \<le> y"
  shows "fl x \<le> fl y"
proof (cases "ulp_exp x = ulp_exp y")
  case True
  then show ?thesis
    using assms round_half_even_mono [of "x / 2 powi ulp_exp y" "y / 2 powi ulp_exp y"]
    by (auto simp: fl_def divide_right_mono)
next
  case False
  have "ilog2 x \<le> ilog2 y" using assms by (rule ilog2_mono)
  with False assms have lt: "ilog2 x < ilog2 y" and uy: "ulp_exp y = ilog2 y - 52"
    and ux: "ulp_exp x \<le> ilog2 y"
    by (auto simp: ulp_exp_def max_def split: if_splits)
  have "x \<le> 2 powi ilog2 y"
  proof -
    have "x < 2 powi (ilog2 x + 1)" using assms(1) by (rule ilog2_bounds)
    also have "\<dots> \<le> 2 powi ilog2 y" using lt by (intro power_int_increasing) auto
    finally show ?thesis by simp
  qed
  then have "fl x \<le> 2 powi ilog2 y" using assms(1) ux by (intro fl_le_power)
  also have "\<dots> \<le> fl y"
    using assms uy by (intro power_le_fl) (auto intro: ilog2_bounds)
  finally show ?thesis .
qed

theorem fl_mono: "x \<le> y \<Longrightarrow> fl x \<le> fl y"
proof -
  assume xy: "x \<le> y"
  consider "0 < x" | "x \<le> 0" "0 \<le> y" | "y < 0" by linarith
  then show ?thesis
  proof cases
    case 1
    then show ?thesis using xy by (rule fl_mono_pos)
  next
    case 2
    then have "fl x \<le> 0" using fl_nonneg [of "- x"] by (simp add: fl_minus)
    also have "0 \<le> fl y" using 2 by (simp add: fl_nonneg)
    finally show ?thesis .
  next
    case 3
    then show ?thesis using fl_mono_pos [of "- y" "- x"] xy by (simp add: fl_minus)
  qed
qed

text \<open>Integers of at most 53 bits, scaled by a power of two, are doubles.\<close>

lemma fl_scaled_pos:
  assumes m: "0 < m" "m < 2 ^ 53" and e: "- 1074 \<le> e"
  shows "fl (of_int m * 2 powi e) = of_int m * 2 powi e"
proof -
  let ?y = "of_int m * 2 powi e :: rat"
  have pos: "0 < ?y" using m by simp
  have "of_int m < (2::rat) ^ 53"
    using m(2) by (metis of_int_less_iff of_int_numeral of_int_power)
  then have "?y < 2 ^ 53 * 2 powi e" by (intro mult_strict_right_mono) auto
  also have "\<dots> = 2 powi (53 + e)" by (simp add: power_int_add)
  finally have "ilog2 ?y < 53 + e" by (rule ilog2_less [OF pos])
  with e pos have u: "ulp_exp ?y \<le> e" by (simp add: ulp_exp_def)
  let ?q = "(2::rat) powi ulp_exp ?y" and ?n = "m * 2 ^ nat (e - ulp_exp ?y)"
  have y: "?y = of_int ?n * ?q"
    using powi_split [OF u] by simp
  have "?y / ?q = of_int ?n"
    by (subst y) simp
  then have "round_half_even (?y / ?q) = ?n"
    by (simp only: round_half_even_of_int)
  then have "of_int (round_half_even (?y / ?q)) * ?q = ?y"
    by (simp only: y [symmetric])
  with pos show ?thesis by (simp add: fl_def)
qed

lemma fl_of_int [simp]:
  assumes "\<bar>n\<bar> < 2 ^ 53"
  shows "fl (of_int n) = of_int n"
proof -
  consider "0 < n" | "n = 0" | "n < 0" by linarith
  then show ?thesis
  proof cases
    case 1
    then show ?thesis using fl_scaled_pos [of n 0] assms by simp
  next
    case 2
    then show ?thesis by simp
  next
    case 3
    then show ?thesis using fl_scaled_pos [of "- n" 0] assms by (simp add: fl_minus)
  qed
qed

lemma fl_numeral [simp]: "numeral k < (2::int) ^ 53 \<Longrightarrow> fl (numeral k) = numeral k"
  using fl_of_int [of "numeral k"] by simp

lemma fl_1 [simp]: "fl 1 = 1"
  using fl_of_int [of 1] by simp

text \<open>Rounding twice is rounding once, and doubling a double is exact.\<close>

lemma fl_scaled:
  assumes m: "\<bar>m\<bar> \<le> 2 ^ 53" and e: "- 1074 \<le> e"
  shows "fl (of_int m * 2 powi e) = of_int m * 2 powi e"
proof -
  have pos: "fl (of_int k * 2 powi e) = of_int k * 2 powi e" if k: "0 < k" "k \<le> 2 ^ 53" for k
  proof (cases "k < 2 ^ 53")
    case True
    then show ?thesis using fl_scaled_pos [OF k(1) _ e] by simp
  next
    case False
    then have "of_int k * 2 powi e = (2::rat) powi (53 + e)" using k(2) by (simp add: power_int_add)
    then show ?thesis using fl_scaled_pos [of 1 "53 + e"] e by simp
  qed
  consider "0 < m" | "m = 0" | "m < 0" by linarith
  then show ?thesis
  proof cases
    case 1
    then show ?thesis using pos [of m] m by simp
  next
    case 2
    then show ?thesis by simp
  next
    case 3
    then show ?thesis using pos [of "- m"] m by (simp add: fl_minus)
  qed
qed

lemma fl_form: "\<exists>m e. fl x = of_int m * 2 powi e \<and> \<bar>m\<bar> \<le> 2 ^ 53 \<and> - 1074 \<le> e"
proof (cases "x = 0")
  case True
  then show ?thesis by (intro exI [of _ 0]) auto
next
  case False
  define e where "e = ulp_exp x"
  have "\<bar>x\<bar> < 2 powi (ilog2 \<bar>x\<bar> + 1)" using False ilog2_bounds(2) by simp
  also have "\<dots> \<le> 2 powi (53 + e)" by (intro power_int_increasing) (auto simp: e_def ulp_exp_def)
  also have "\<dots> = 2 ^ 53 * 2 powi e" by (simp add: power_int_add)
  finally have b: "\<bar>x / 2 powi e\<bar> \<le> of_int (2 ^ 53)" by (simp add: abs_divide divide_le_eq)
  then have "x / 2 powi e \<le> of_int (2 ^ 53)" "of_int (- (2 ^ 53)) \<le> x / 2 powi e" by linarith+
  then have "round_half_even (x / 2 powi e) \<le> 2 ^ 53" "- (2 ^ 53) \<le> round_half_even (x / 2 powi e)"
    using round_half_even_mono round_half_even_of_int by metis+
  then have "\<bar>round_half_even (x / 2 powi e)\<bar> \<le> 2 ^ 53" by linarith
  moreover have "fl x = of_int (round_half_even (x / 2 powi e)) * 2 powi e"
    using False by (simp add: fl_def e_def)
  moreover have "- 1074 \<le> e" by (simp add: e_def ulp_exp_def)
  ultimately show ?thesis by blast
qed

lemma fl_fl [simp]: "fl (fl x) = fl x"
  using fl_form [of x] fl_scaled by metis

lemma fl_double: "fl (2 * fl x) = 2 * fl x"
proof -
  obtain m e where f: "fl x = of_int m * 2 powi e" "\<bar>m\<bar> \<le> 2 ^ 53" "- 1074 \<le> e" using fl_form by blast
  have "2 * fl x = of_int m * 2 powi (e + 1)" by (simp add: f(1) power_int_add)
  then show ?thesis using fl_scaled [OF f(2), of "e + 1"] f(3) by simp
qed

section \<open>The rounding error\<close>

text \<open>The smallest positive double, and the error of one rounding: half a unit in the last place.\<close>

definition tiny :: rat where
  "tiny = 2 powi (- 1074)"

lemma fl_error: "\<bar>fl x - x\<bar> \<le> (\<bar>x\<bar> / 2 ^ 52 + tiny) / 2"
proof (cases "x = 0")
  case False
  let ?q = "(2 :: rat) powi ulp_exp x"
  have q: "0 < ?q" by simp
  have "fl x - x = (of_int (round_half_even (x / ?q)) - x / ?q) * ?q" using False by (simp add: fl_def left_diff_distrib)
  then have "\<bar>fl x - x\<bar> = \<bar>of_int (round_half_even (x / ?q)) - x / ?q\<bar> * ?q" by (simp add: abs_mult)
  also have "\<dots> \<le> 1 / 2 * ?q" using round_half_even_error q by (intro mult_right_mono) auto
  also have "?q \<le> \<bar>x\<bar> / 2 ^ 52 + tiny"
  proof (cases "ulp_exp x = - 1074")
    case False
    then have "ulp_exp x = ilog2 \<bar>x\<bar> - 52" by (simp add: ulp_exp_def)
    then have "?q = 2 powi ilog2 \<bar>x\<bar> / 2 ^ 52" by (simp add: power_int_diff)
    also have "\<dots> \<le> \<bar>x\<bar> / 2 ^ 52" using ilog2_bounds(1) [of "\<bar>x\<bar>"] \<open>x \<noteq> 0\<close> by (intro divide_right_mono) simp_all
    finally show ?thesis by (simp add: tiny_def add_increasing2)
  qed (simp add: tiny_def)
  finally show ?thesis by simp
qed (simp add: tiny_def)

lemma fl_upper: "0 \<le> x \<Longrightarrow> fl x \<le> x + (x / 2 ^ 52 + tiny) / 2"
  using fl_error [of x] by (simp only: abs_of_nonneg abs_le_iff) linarith

lemma tiny_bounds: "0 < tiny" "2 ^ 60 * tiny \<le> 1 / 2 ^ 52"
proof -
  have "(2 :: rat) powi 60 * tiny = 2 powi (- 1014)" unfolding tiny_def by (simp flip: power_int_add)
  also have "\<dots> \<le> 2 powi (- 52)" by (rule power_int_increasing) simp_all
  finally show "2 ^ 60 * tiny \<le> 1 / 2 ^ 52" by (simp add: power_int_minus field_simps)
qed (simp add: tiny_def)

end
