(* ===== verification/TtlCache.thy ===== *)
theory TtlCache
  imports Float64
begin

text \<open>
  The in-process LRU cache with TTL expiry (16-testing-engineering/02, class TTLCache).

  The \<open>OrderedDict\<close> is an association list, least recently used entry first.  The injectable
  clock is a stream \<open>clk\<close> of readings, and the state counts the readings made so far in
  \<open>reads\<close>: the code reads the clock once per entry while purging and once more for a deadline
  or an expiry check, and each of these readings may be a different time.  The invariant and
  the hit and miss theorems hold for every non-decreasing clock; the refinement of the
  textbook cache holds for a clock that stands still during the call.
\<close>

section \<open>State and operations\<close>

type_synonym clock = "nat \<Rightarrow> rat"
type_synonym ('k, 'v) entries = "('k \<times> 'v \<times> rat) list"

record ('k, 'v) ttl_cache =
  capacity :: int
  ttl :: rat
  store :: "('k, 'v) entries"
  reads :: nat

definition init_cache :: "int \<Rightarrow> rat \<Rightarrow> ('k, 'v) ttl_cache result" where
  "init_cache cap t =
     (if cap < 1 then Inl ValueError
      else if t \<le> 0 then Inl ValueError
      else Inr \<lparr>capacity = cap, ttl = t, store = [], reads = 0\<rparr>)"

definition read_clock :: "clock \<Rightarrow> ('k, 'v) ttl_cache \<Rightarrow> rat \<times> ('k, 'v) ttl_cache" where
  "read_clock clk c = (clk (reads c), c\<lparr>reads := Suc (reads c)\<rparr>)"

definition is_expired :: "clock \<Rightarrow> rat \<Rightarrow> ('k, 'v) ttl_cache \<Rightarrow> bool \<times> ('k, 'v) ttl_cache" where
  "is_expired clk deadline c = (let (now, c') = read_clock clk c in (deadline \<le> now, c'))"

fun expired_keys ::
  "clock \<Rightarrow> ('k, 'v) entries \<Rightarrow> ('k, 'v) ttl_cache \<Rightarrow> 'k list \<times> ('k, 'v) ttl_cache" where
  "expired_keys clk [] c = ([], c)"
| "expired_keys clk ((k, v, deadline) # es) c =
     (let (e, c1) = is_expired clk deadline c; (ks, c2) = expired_keys clk es c1
      in (if e then k # ks else ks, c2))"

definition purge_expired :: "clock \<Rightarrow> ('k, 'v) ttl_cache \<Rightarrow> ('k, 'v) ttl_cache" where
  "purge_expired clk c =
     (let (expired, c') = expired_keys clk (store c) c
      in c'\<lparr>store := fold alist_del expired (store c')\<rparr>)"

definition move_to_end :: "'k \<Rightarrow> ('k \<times> 'a) list \<Rightarrow> ('k \<times> 'a) list" where
  "move_to_end k s =
     (case map_of s k of None \<Rightarrow> s | Some x \<Rightarrow> alist_del k s @ [(k, x)])"

definition put :: "clock \<Rightarrow> 'k \<Rightarrow> 'v \<Rightarrow> ('k, 'v) ttl_cache \<Rightarrow> ('k, 'v) ttl_cache" where
  "put clk key value c =
     (let c1 = purge_expired clk c;
          (now, c2) = read_clock clk c1;
          deadline = fl (now + ttl c2);
          s = move_to_end key (alist_set key (value, deadline) (store c2))
      in if capacity c2 < int (length s) then c2\<lparr>store := tl s\<rparr> else c2\<lparr>store := s\<rparr>)"

definition get :: "clock \<Rightarrow> 'k \<Rightarrow> ('k, 'v) ttl_cache \<Rightarrow> 'v option \<times> ('k, 'v) ttl_cache" where
  "get clk key c =
     (let c1 = purge_expired clk c in
      case map_of (store c1) key of
        None \<Rightarrow> (None, c1)
      | Some (value, deadline) \<Rightarrow>
          (let (e, c2) = is_expired clk deadline c1 in
           if e then (None, c2\<lparr>store := alist_del key (store c2)\<rparr>)
           else (Some value, c2\<lparr>store := move_to_end key (store c2)\<rparr>)))"

definition cache_len :: "clock \<Rightarrow> ('k, 'v) ttl_cache \<Rightarrow> nat \<times> ('k, 'v) ttl_cache" where
  "cache_len clk c = (let c1 = purge_expired clk c in (length (store c1), c1))"

text \<open>A program over one cache: the calls a client makes, in order.\<close>

datatype ('k, 'v) cache_op = Put 'k 'v | Get 'k | Len

fun cache_step :: "clock \<Rightarrow> ('k, 'v) ttl_cache \<Rightarrow> ('k, 'v) cache_op \<Rightarrow> ('k, 'v) ttl_cache" where
  "cache_step clk c (Put k v) = put clk k v c"
| "cache_step clk c (Get k) = snd (get clk k c)"
| "cache_step clk c Len = snd (cache_len clk c)"

definition cache_run :: "clock \<Rightarrow> ('k, 'v) ttl_cache \<Rightarrow> ('k, 'v) cache_op list \<Rightarrow> ('k, 'v) ttl_cache" where
  "cache_run clk = foldl (cache_step clk)"

section \<open>The invariant\<close>

definition cache_wf :: "('k, 'v) ttl_cache \<Rightarrow> bool" where
  "cache_wf c \<longleftrightarrow>
     1 \<le> capacity c \<and> 0 < ttl c \<and> distinct (map fst (store c)) \<and> int (length (store c)) \<le> capacity c"

lemmas clock_defs = read_clock_def is_expired_def

lemma expired_keys_state:
  "snd (expired_keys clk es c) = c\<lparr>reads := reads c + length es\<rparr>"
  by (induction clk es c rule: expired_keys.induct) (auto simp: clock_defs split: prod.splits)

lemma expired_keys_set:
  "set (fst (expired_keys clk es c)) =
     {k. \<exists>i v d. i < length es \<and> es ! i = (k, v, d) \<and> d \<le> clk (reads c + i)}"
proof (induction clk es c rule: expired_keys.induct)
  case (1 clk c)
  then show ?case by simp
next
  case (2 clk k v d es c)
  have split: "(\<exists>i a b. i < length ((k, v, d) # es) \<and> ((k, v, d) # es) ! i = (x, a, b) \<and>
      b \<le> clk (reads c + i)) \<longleftrightarrow>
    (x = k \<and> d \<le> clk (reads c)) \<or>
    (\<exists>i a b. i < length es \<and> es ! i = (x, a, b) \<and> b \<le> clk (Suc (reads c) + i))" for x
    by (auto simp: less_Suc_eq_0_disj)
  have IH: "set (fst (expired_keys clk es (snd (is_expired clk d c)))) =
     {k. \<exists>i v d. i < length es \<and> es ! i = (k, v, d) \<and> d \<le> clk (Suc (reads c) + i)}"
    using 2 by (auto simp: clock_defs)
  show ?case
    unfolding split using IH by (auto simp: clock_defs split: prod.splits) blast
qed

lemma fold_alist_del: "fold alist_del ks s = filter (\<lambda>kv. fst kv \<notin> set ks) s"
  by (induction ks arbitrary: s) (auto simp: alist_del_def conj_commute intro!: filter_cong)

lemma purge_expired_eq:
  "purge_expired clk c =
     c\<lparr>store := filter (\<lambda>e. fst e \<notin> set (fst (expired_keys clk (store c) c))) (store c),
       reads := reads c + length (store c)\<rparr>"
  using expired_keys_state [of clk "store c" c]
  by (cases "expired_keys clk (store c) c") (simp add: purge_expired_def fold_alist_del)

lemma purge_fields [simp]:
  "capacity (purge_expired clk c) = capacity c"
  "ttl (purge_expired clk c) = ttl c"
  "reads (purge_expired clk c) = reads c + length (store c)"
  by (simp_all add: purge_expired_eq)

lemma purge_wf: "cache_wf c \<Longrightarrow> cache_wf (purge_expired clk c)"
  using length_filter_le
    [of "\<lambda>e. fst e \<notin> set (fst (expired_keys clk (store c) c))" "store c"]
  unfolding cache_wf_def purge_expired_eq
  by (simp add: distinct_filter_fst del: length_filter_le)

text \<open>Which entries a purge keeps: those whose own clock reading was before the deadline.\<close>

lemma purge_lookup:
  assumes wf: "cache_wf c" and i: "i < length (store c)" and e: "store c ! i = (k, v, d)"
  shows "map_of (store (purge_expired clk c)) k =
    (if clk (reads c + i) < d then Some (v, d) else None)"
proof -
  have dist: "distinct (map fst (store c))" using wf by (simp add: cache_wf_def)
  have uniq: "j = i" if "j < length (store c)" "store c ! j = (k, v', d')" for j v' d'
    using nth_eq_iff_index_eq [OF dist, of j i] that i e by simp
  have key: "k \<in> set (fst (expired_keys clk (store c) c)) \<longleftrightarrow> d \<le> clk (reads c + i)"
    unfolding expired_keys_set mem_Collect_eq using uniq i e by (metis prod.inject)
  have mem: "(k, v, d) \<in> set (store c)" using i e by (metis nth_mem)
  show ?thesis
  proof (cases "clk (reads c + i) < d")
    case True
    with key mem have "(k, v, d) \<in> set (store (purge_expired clk c))"
      by (auto simp: purge_expired_eq)
    moreover have "distinct (map fst (store (purge_expired clk c)))"
      using purge_wf [OF wf] by (simp add: cache_wf_def)
    ultimately show ?thesis using True by simp
  next
    case False
    with key have "k \<notin> fst ` set (store (purge_expired clk c))"
      by (auto simp: purge_expired_eq)
    then show ?thesis using False by (simp add: map_of_eq_None_iff)
  qed
qed

lemma purge_lookup_absent:
  "map_of (store c) k = None \<Longrightarrow> map_of (store (purge_expired clk c)) k = None"
  by (auto simp: purge_expired_eq map_of_eq_None_iff)

lemma alist_del_length: "length (alist_del k s) \<le> length s"
  by (simp add: alist_del_def)

lemma alist_del_absent: "k \<notin> fst ` set s \<Longrightarrow> alist_del k s = s"
  by (auto simp: alist_del_def filter_id_conv)

lemma alist_del_length_present:
  "distinct (map fst s) \<Longrightarrow> k \<in> fst ` set s \<Longrightarrow> length (alist_del k s) = length s - 1"
proof (induction s)
  case Nil
  then show ?case by simp
next
  case (Cons x s)
  show ?case
  proof (cases "fst x = k")
    case True
    with Cons.prems have "alist_del k s = s" by (intro alist_del_absent) auto
    with True show ?thesis by (simp add: alist_del_def)
  next
    case False
    with Cons have "length (alist_del k s) = length s - 1" "s \<noteq> []" by auto
    with False show ?thesis by (cases s) (auto simp: alist_del_def)
  qed
qed

lemma alist_del_distinct: "distinct (map fst s) \<Longrightarrow> distinct (map fst (alist_del k s))"
  by (simp add: alist_del_def distinct_filter_fst)

lemma alist_del_alist_set: "alist_del k (alist_set k v s) = alist_del k s"
  by (induction s) (auto simp: alist_del_def)

lemma move_to_end_set: "move_to_end k (alist_set k v s) = alist_del k s @ [(k, v)]"
  by (simp add: move_to_end_def map_of_alist_set alist_del_alist_set)

lemma not_in_alist_del: "k \<notin> fst ` set (alist_del k s)"
  by (auto simp: alist_del_def)

lemma move_to_end_wf:
  assumes "distinct (map fst s)" "map_of s k = Some x"
  shows "distinct (map fst (move_to_end k s))" "length (move_to_end k s) = length s"
proof -
  have k: "k \<in> fst ` set s" using assms(2) by (force dest: map_of_SomeD)
  then have "s \<noteq> []" by auto
  then show "length (move_to_end k s) = length s"
    using assms k by (cases s) (simp_all add: move_to_end_def alist_del_length_present)
  show "distinct (map fst (move_to_end k s))"
    using assms not_in_alist_del [of k s] by (simp add: move_to_end_def alist_del_distinct)
qed

text \<open>The three operations in closed form over the purged state.\<close>

lemma put_eq:
  "put clk k v c =
     (let c1 = purge_expired clk c;
          s = alist_del k (store c1) @ [(k, v, fl (clk (reads c1) + ttl c))] in
      c1\<lparr>store := (if capacity c < int (length s) then tl s else s), reads := Suc (reads c1)\<rparr>)"
  by (simp add: put_def read_clock_def Let_def move_to_end_set)

lemma get_eq:
  "get clk k c =
     (let c1 = purge_expired clk c in
      case map_of (store c1) k of
        None \<Rightarrow> (None, c1)
      | Some (v, d) \<Rightarrow>
          if d \<le> clk (reads c1)
          then (None, c1\<lparr>store := alist_del k (store c1), reads := Suc (reads c1)\<rparr>)
          else (Some v, c1\<lparr>store := move_to_end k (store c1), reads := Suc (reads c1)\<rparr>))"
  by (simp add: get_def clock_defs Let_def split: option.split prod.split)

lemma put_wf: "cache_wf c \<Longrightarrow> cache_wf (put clk k v c)"
proof -
  assume "cache_wf c"
  then have w: "cache_wf (purge_expired clk c)" by (rule purge_wf)
  then have d: "distinct (map fst (alist_del k (store (purge_expired clk c)) @ [(k, x)]))" for x
    using not_in_alist_del [of k "store (purge_expired clk c)"]
    by (simp add: cache_wf_def alist_del_distinct)
  have l: "int (length (alist_del k (store (purge_expired clk c)))) \<le> capacity c"
    using w alist_del_length [of k "store (purge_expired clk c)"] by (simp add: cache_wf_def)
  show ?thesis
    using w d l distinct_tl [OF d] by (auto simp: put_eq cache_wf_def Let_def map_tl)
qed

lemma get_wf: "cache_wf c \<Longrightarrow> cache_wf (snd (get clk k c))"
proof -
  assume "cache_wf c"
  then have w: "cache_wf (purge_expired clk c)" by (rule purge_wf)
  have "int (length (alist_del k (store (purge_expired clk c)))) \<le> capacity c"
    using w alist_del_length [of k "store (purge_expired clk c)"] by (simp add: cache_wf_def)
  with w move_to_end_wf [of "store (purge_expired clk c)" k] show ?thesis
    by (auto simp: get_eq cache_wf_def Let_def alist_del_distinct split: option.split prod.split)
qed

lemma cache_len_wf: "cache_wf c \<Longrightarrow> cache_wf (snd (cache_len clk c))"
  by (simp add: cache_len_def purge_wf Let_def)

lemma cache_step_wf: "cache_wf c \<Longrightarrow> cache_wf (cache_step clk c x)"
  by (cases x) (auto simp: put_wf get_wf cache_len_wf)

lemma cache_run_inv: "cache_wf c \<Longrightarrow> cache_wf (cache_run clk c xs)"
  unfolding cache_run_def by (induction xs arbitrary: c) (auto simp: cache_step_wf)

lemma init_cache_wf: "init_cache cap t = Inr c \<Longrightarrow> cache_wf c"
  by (auto simp: init_cache_def cache_wf_def split: if_splits)

section \<open>The textbook cache it implements\<close>

text \<open>
  The abstract cache at time \<open>t\<close> is the list of its live entries, least recently used first.
  Its operations never look at an expired entry, because there is none.
\<close>

definition live :: "rat \<Rightarrow> ('k, 'v) ttl_cache \<Rightarrow> ('k, 'v) entries" where
  "live t c = filter (\<lambda>(k, v, d). t < d) (store c)"

definition lru_put :: "int \<Rightarrow> 'k \<Rightarrow> 'v \<times> rat \<Rightarrow> ('k, 'v) entries \<Rightarrow> ('k, 'v) entries" where
  "lru_put cap k x s =
     (let s' = alist_del k s @ [(k, x)] in if cap < int (length s') then tl s' else s')"

definition lru_get :: "'k \<Rightarrow> ('k, 'v) entries \<Rightarrow> 'v option \<times> ('k, 'v) entries" where
  "lru_get k s = (map_option fst (map_of s k), move_to_end k s)"

definition frozen :: "clock \<Rightarrow> rat \<Rightarrow> ('k, 'v) ttl_cache \<Rightarrow> bool" where
  "frozen clk t c \<longleftrightarrow> (\<forall>i \<le> length (store c). clk (reads c + i) = t)"

lemma purge_frozen:
  assumes "cache_wf c" "frozen clk t c"
  shows "store (purge_expired clk c) = live t c"
proof -
  have dist: "distinct (map fst (store c))" using assms(1) by (simp add: cache_wf_def)
  have keep: "fst e \<notin> set (fst (expired_keys clk (store c) c)) \<longleftrightarrow> (case e of (k, v, d) \<Rightarrow> t < d)"
    if e: "e \<in> set (store c)" for e
  proof -
    obtain k v d where kvd: "e = (k, v, d)" by (cases e)
    obtain i where i: "i < length (store c)" "store c ! i = (k, v, d)"
      using e kvd by (metis in_set_conv_nth)
    have uniq: "j = i" if "j < length (store c)" "store c ! j = (k, v', d')" for j v' d'
      using nth_eq_iff_index_eq [OF dist, of j i] that i by simp
    have "k \<in> set (fst (expired_keys clk (store c) c)) \<longleftrightarrow> d \<le> clk (reads c + i)"
      unfolding expired_keys_set mem_Collect_eq using uniq i by (metis prod.inject)
    moreover have "clk (reads c + i) = t" using assms(2) i(1) by (simp add: frozen_def)
    ultimately show ?thesis by (auto simp: kvd)
  qed
  show ?thesis
    unfolding purge_expired_eq live_def using keep by (simp cong: filter_cong)
qed

lemma purge_frozen_reads:
  "frozen clk t c \<Longrightarrow> clk (reads c + length (store c)) = t"
  by (simp add: frozen_def)

lemma live_deadline: "map_of (live t c) k = Some (v, d) \<Longrightarrow> t < d"
  by (auto simp: live_def dest: map_of_SomeD)

lemma put_store_frozen:
  assumes "cache_wf c" "frozen clk t c"
  shows "store (put clk k v c) = lru_put (capacity c) k (v, fl (t + ttl c)) (live t c)"
  using purge_frozen [OF assms] purge_frozen_reads [OF assms(2)]
  by (simp add: put_eq lru_put_def Let_def)

lemma get_store_frozen:
  assumes "cache_wf c" "frozen clk t c"
  shows "fst (get clk k c) = fst (lru_get k (live t c))"
    and "store (snd (get clk k c)) = snd (lru_get k (live t c))"
  using purge_frozen [OF assms] purge_frozen_reads [OF assms(2)] live_deadline [of t c k]
  by (auto simp: get_eq lru_get_def Let_def move_to_end_def split: option.splits)

lemma len_store_frozen:
  assumes "cache_wf c" "frozen clk t c"
  shows "fst (cache_len clk c) = length (live t c)"
    and "store (snd (cache_len clk c)) = live t c"
  using purge_frozen [OF assms] by (simp_all add: cache_len_def Let_def)

section \<open>Recency\<close>

text \<open>
  Ghost state: every key ever put, ordered by its last put or hitting get.  It forgets nothing;
  the cache is always its last \<open>capacity\<close> keys.
\<close>

definition touch :: "'k \<Rightarrow> 'k list \<Rightarrow> 'k list" where
  "touch k ks = removeAll k ks @ [k]"

fun touched :: "clock \<Rightarrow> ('k, 'v) ttl_cache \<Rightarrow> ('k, 'v) cache_op \<Rightarrow> 'k list \<Rightarrow> 'k list" where
  "touched clk c (Put k v) ks = touch k ks"
| "touched clk c (Get k) ks = (if fst (get clk k c) = None then ks else touch k ks)"
| "touched clk c Len ks = ks"

fun recency ::
  "clock \<Rightarrow> ('k, 'v) ttl_cache \<Rightarrow> 'k list \<Rightarrow> ('k, 'v) cache_op list \<Rightarrow> 'k list" where
  "recency clk c ks [] = ks"
| "recency clk c ks (x # xs) = recency clk (cache_step clk c x) (touched clk c x ks) xs"

definition last_n :: "nat \<Rightarrow> 'a list \<Rightarrow> 'a list" where
  "last_n n xs = drop (length xs - n) xs"

lemma last_n_snoc: "last_n (Suc n) (xs @ [x]) = last_n n xs @ [x]"
  by (simp add: last_n_def)

lemma last_n_length: "length (last_n n xs) = min n (length xs)"
  by (simp add: last_n_def)

lemma last_n_append_le: "length ys \<le> n \<Longrightarrow> last_n n (xs @ ys) = last_n (n - length ys) xs @ ys"
  by (simp add: last_n_def)

lemma last_n_append_ge: "n \<le> length ys \<Longrightarrow> last_n n (xs @ ys) = last_n n ys"
  by (simp add: last_n_def)

lemma last_n_split: "\<exists>pre. xs = pre @ last_n n xs"
  unfolding last_n_def by (metis append_take_drop_id)

lemma last_n_drop_first: "last_n n xs = (if n < length xs then last_n n (tl xs) else xs)"
  by (cases xs) (auto simp: last_n_def Suc_diff_le)

lemma touch_length:
  assumes "distinct xs" "k \<in> set xs"
  shows "length (touch k xs) = length xs"
proof -
  have "length (removeAll k xs) = length xs - 1"
    using assms by (simp add: length_remove1 flip: distinct_remove1_removeAll)
  moreover have "0 < length xs" using assms(2) by (cases xs) auto
  ultimately show ?thesis by (simp add: touch_def)
qed

lemma touch_hit_app:
  assumes dist: "distinct (pre @ suf)" and k: "k \<in> set suf"
    and n: "length suf = n \<or> pre = [] \<and> length suf \<le> n"
  shows "last_n n (touch k (pre @ suf)) = touch k suf"
proof -
  have "k \<notin> set pre" using dist k by auto
  then have pre_id: "removeAll k pre = pre" by (simp add: removeAll_id)
  have "length (touch k suf) = length suf" using dist k by (simp add: touch_length)
  moreover have "touch k (pre @ suf) = pre @ touch k suf" by (simp add: touch_def pre_id)
  ultimately show ?thesis using n by (auto simp: last_n_def)
qed

lemma touch_miss_app:
  assumes k: "k \<notin> set suf" and n: "length suf = n \<or> pre = [] \<and> length suf < n" "0 < n"
  shows "last_n n (touch k (pre @ suf)) = (if length suf < n then suf @ [k] else tl suf @ [k])"
proof -
  have "touch k (pre @ suf) = removeAll k pre @ suf @ [k]"
    using k by (simp add: touch_def removeAll_id)
  then show ?thesis using n by (cases suf) (auto simp: last_n_def)
qed

lemma last_n_cases:
  obtains pre where "ks = pre @ last_n n ks"
    "length (last_n n ks) = n \<or> pre = [] \<and> length (last_n n ks) < n"
proof (cases "n \<le> length ks")
  case True
  then show ?thesis using last_n_split [of ks n] last_n_length [of n ks] that by auto
next
  case False
  then have "last_n n ks = ks" by (simp add: last_n_def)
  with False that [of "[]"] show ?thesis by simp
qed

lemma touch_hit:
  assumes "distinct ks" "k \<in> set (last_n n ks)"
  shows "last_n n (touch k ks) = touch k (last_n n ks)"
proof (rule last_n_cases [of ks n])
  fix pre
  assume ks: "ks = pre @ last_n n ks"
    and n: "length (last_n n ks) = n \<or> pre = [] \<and> length (last_n n ks) < n"
  have "distinct (pre @ last_n n ks)" using assms(1) ks by argo
  from touch_hit_app [OF this assms(2)] n
  have "last_n n (touch k (pre @ last_n n ks)) = touch k (last_n n ks)" by (meson less_imp_le)
  then show ?thesis by (simp only: ks [symmetric])
qed

lemma touch_miss:
  assumes "k \<notin> set (last_n n ks)" "0 < n"
  shows "last_n n (touch k ks) =
    (if length (last_n n ks) < n then last_n n ks @ [k] else tl (last_n n ks) @ [k])"
proof (rule last_n_cases [of ks n])
  fix pre
  assume ks: "ks = pre @ last_n n ks"
    and n: "length (last_n n ks) = n \<or> pre = [] \<and> length (last_n n ks) < n"
  from touch_miss_app [OF assms(1) n assms(2)] show ?thesis by (simp only: ks [symmetric])
qed

lemma distinct_touch: "distinct ks \<Longrightarrow> distinct (touch k ks)"
  by (simp add: touch_def distinct_removeAll)

lemma map_fst_alist_del: "map fst (alist_del k s) = removeAll k (map fst s)"
  by (induction s) (auto simp: alist_del_def)

lemma map_fst_move_to_end:
  "map_of s k \<noteq> None \<Longrightarrow> map fst (move_to_end k s) = touch k (map fst s)"
  by (auto simp: move_to_end_def touch_def map_fst_alist_del)

lemma length_removeAll_keys: "length (removeAll k (map fst s)) = length (alist_del k s)"
  by (simp flip: map_fst_alist_del)

lemma map_fst_lru_put:
  "map fst (lru_put cap k y s) =
     (if cap < int (length (touch k (map fst s))) then tl (touch k (map fst s))
      else touch k (map fst s))"
  by (simp add: lru_put_def Let_def touch_def map_fst_alist_del length_removeAll_keys map_tl)

definition all_live :: "rat \<Rightarrow> ('k, 'v) ttl_cache \<Rightarrow> bool" where
  "all_live t c \<longleftrightarrow> (\<forall>e \<in> set (store c). t < snd (snd e))"

lemma live_all: "all_live t c \<Longrightarrow> live t c = store c"
  by (auto simp: all_live_def live_def filter_id_conv)

lemma step_fields [simp]:
  "capacity (cache_step clk c x) = capacity c" "ttl (cache_step clk c x) = ttl c"
  by (cases x; auto simp: put_eq get_eq cache_len_def Let_def split: option.splits)+

lemma set_alist_del: "set (alist_del k s) \<subseteq> set s"
  by (auto simp: alist_del_def)

lemma step_all_live:
  assumes "cache_wf c" "frozen clk t c" "all_live t c" "t < fl (t + ttl c)"
  shows "all_live t (cache_step clk c x)"
proof (cases x)
  case (Put k v)
  have "e \<in> set (lru_put (capacity c) k y s) \<Longrightarrow> e = (k, y) \<or> e \<in> set s" for e y and s :: "('a, 'b) entries"
    using set_alist_del [of k s] set_mono_suffix [OF suffix_tl]
    by (fastforce simp: lru_put_def Let_def split: if_splits dest: list.set_sel(2))
  then show ?thesis
    using assms put_store_frozen [OF assms(1,2), of k v] live_all [OF assms(3)]
    by (fastforce simp: Put all_live_def)
next
  case (Get k)
  have "set (move_to_end k s) \<subseteq> set s" for s :: "('a, 'b) entries"
    using set_alist_del [of k s] by (auto simp: move_to_end_def dest: map_of_SomeD split: option.splits)
  then show ?thesis
    using assms get_store_frozen [OF assms(1,2), of k] live_all [OF assms(3)]
    by (force simp: Get all_live_def lru_get_def)
next
  case Len
  then show ?thesis
    using assms len_store_frozen [OF assms(1,2)] live_all [OF assms(3)]
    by (simp add: all_live_def)
qed

lemma step_recency:
  assumes wf: "cache_wf c" and fr: "frozen clk t c" and lv: "all_live t c"
    and ks: "distinct ks" "map fst (store c) = last_n (nat (capacity c)) ks"
  shows "map fst (store (cache_step clk c x)) =
    last_n (nat (capacity c)) (touched clk c x ks)"
proof (cases x)
  case (Put k v)
  let ?n = "nat (capacity c)"
  have cap: "0 < ?n" using wf by (simp add: cache_wf_def)
  have st: "store (cache_step clk c x) = lru_put (capacity c) k (v, fl (t + ttl c)) (store c)"
    using put_store_frozen [OF wf fr] live_all [OF lv] by (simp add: Put)
  have len: "length (store c) \<le> ?n" using wf by (auto simp: cache_wf_def le_nat_iff)
  have mf: "map fst (lru_put (capacity c) k y (store c)) =
      (if ?n < length (touch k (map fst (store c))) then tl (touch k (map fst (store c)))
       else touch k (map fst (store c)))" for y
    using cap by (simp add: map_fst_lru_put nat_less_iff)
  show ?thesis
  proof (cases "k \<in> set (map fst (store c))")
    case True
    then have "length (touch k (map fst (store c))) = length (store c)"
      using wf touch_length [of "map fst (store c)" k] by (simp add: cache_wf_def del: set_map)
    then have "map fst (store (cache_step clk c x)) = touch k (map fst (store c))"
      using len st mf by simp
    also have "\<dots> = last_n ?n (touch k ks)"
      using touch_hit [OF ks(1), of k ?n] True ks(2) by simp
    finally show ?thesis by (simp add: Put)
  next
    case False
    then have tk: "touch k (map fst (store c)) = map fst (store c) @ [k]"
      by (simp add: touch_def removeAll_id del: set_map)
    have "k \<notin> set (last_n ?n ks)" using False ks(2) by simp
    from touch_miss [OF this cap] show ?thesis
      using len cap unfolding st mf tk by (cases "store c") (auto simp: Put ks(2) [symmetric])
  qed
next
  case (Get k)
  have fstg: "fst (get clk k c) = map_option fst (map_of (store c) k)"
    using get_store_frozen(1) [OF wf fr] live_all [OF lv] by (simp add: lru_get_def)
  have st: "store (cache_step clk c x) = move_to_end k (store c)"
    using get_store_frozen(2) [OF wf fr] live_all [OF lv] by (simp add: Get lru_get_def)
  show ?thesis
  proof (cases "map_of (store c) k")
    case None
    then show ?thesis using st fstg ks(2) by (simp add: Get move_to_end_def)
  next
    case (Some y)
    then have "k \<in> set (map fst (store c))" by (force dest: map_of_SomeD)
    then have "touch k (map fst (store c)) = last_n (nat (capacity c)) (touch k ks)"
      using touch_hit [OF ks(1), of k "nat (capacity c)"] ks(2) by simp
    then show ?thesis
      using st fstg Some map_fst_move_to_end [of "store c" k] by (simp add: Get)
  qed
next
  case Len
  then show ?thesis
    using len_store_frozen(2) [OF wf fr] live_all [OF lv] ks(2) by simp
qed

lemma run_recency:
  assumes "cache_wf c" "all_live t c" "t < fl (t + ttl c)"
    "distinct ks" "map fst (store c) = last_n (nat (capacity c)) ks"
  shows "map fst (store (cache_run (\<lambda>_. t) c xs)) =
    last_n (nat (capacity c)) (recency (\<lambda>_. t) c ks xs)"
  using assms
proof (induction xs arbitrary: c ks)
  case Nil
  then show ?case by (simp add: cache_run_def)
next
  case (Cons x xs)
  have fr: "frozen (\<lambda>_. t) t c" by (simp add: frozen_def)
  have "distinct (touched (\<lambda>_. t) c x ks)"
    using Cons.prems(4) by (cases x) (auto simp: distinct_touch)
  then show ?case
    using Cons.IH [of "cache_step (\<lambda>_. t) c x" "touched (\<lambda>_. t) c x ks"]
      Cons.prems cache_step_wf [OF Cons.prems(1)]
      step_all_live [OF Cons.prems(1) fr Cons.prems(2,3)]
      step_recency [OF Cons.prems(1) fr Cons.prems(2,4,5)]
    by (simp add: cache_run_def)
qed

section \<open>Hits and misses under an advancing clock\<close>

lemma store_nth_of_map: "map_of s k = Some x \<Longrightarrow> \<exists>i < length s. s ! i = (k, x)"
  by (metis in_set_conv_nth map_of_SomeD)

lemma get_cases:
  assumes wf: "cache_wf c" and mono: "mono clk" and g: "get clk k c = (r, c')"
  shows "case r of
      Some v \<Rightarrow> (\<exists>d. map_of (store c) k = Some (v, d) \<and> clk (reads c' - 1) < d)
    | None \<Rightarrow> map_of (store c) k = None \<or>
        (\<exists>v d. map_of (store c) k = Some (v, d) \<and> d \<le> clk (reads c' - 1))"
proof (cases "map_of (store c) k")
  case None
  then have "map_of (store (purge_expired clk c)) k = None" by (rule purge_lookup_absent)
  with g None show ?thesis by (auto simp: get_eq Let_def)
next
  case (Some x)
  obtain v d where x: "x = (v, d)" by (cases x)
  obtain i where i: "i < length (store c)" "store c ! i = (k, v, d)"
    using store_nth_of_map [OF Some] x by auto
  have pl: "map_of (store (purge_expired clk c)) k =
      (if clk (reads c + i) < d then Some (v, d) else None)"
    by (rule purge_lookup [OF wf i])
  have "clk (reads c + i) \<le> clk (reads c + length (store c) - 1)"
    using i(1) by (intro monoD [OF mono]) linarith
  then show ?thesis
    using g Some x pl i(1) by (fastforce simp: get_eq Let_def split: if_splits)
qed

section \<open>Properties\<close>

lemma cache_run_capacity: "capacity (cache_run clk c xs) = capacity c"
  unfolding cache_run_def by (induction xs arbitrary: c) auto

text \<open>
  However a client interleaves puts, gets and length queries, and whatever times the clock
  reports, the cache never holds more than \<open>capacity\<close> entries and never holds a key twice.
\<close>

theorem ttl_cache_bounded:
  assumes "init_cache cap t = Inr c"
  shows "distinct (map fst (store (cache_run clk c xs))) \<and>
    int (length (store (cache_run clk c xs))) \<le> cap"
  using cache_run_inv [OF init_cache_wf [OF assms], of clk xs] assms
  by (auto simp: cache_wf_def cache_run_capacity init_cache_def split: if_splits)

theorem ttl_cache_bounded_witness:
  "init_cache 1 5 = Inr \<lparr>capacity = 1, ttl = 5, store = [], reads = 0\<rparr> \<and>
   length (store (cache_run of_nat \<lparr>capacity = 1, ttl = 5, store = [], reads = 0\<rparr>
     [Put ''a'' (1::nat), Put ''b'' 2])) \<le> 1"
proof -
  have i: "init_cache 1 5 = Inr \<lparr>capacity = 1, ttl = 5, store = [], reads = 0\<rparr>"
    by (simp add: init_cache_def)
  show ?thesis
    using i ttl_cache_bounded [OF i, of of_nat "[Put ''a'' (1::nat), Put ''b'' 2]"] by simp
qed

text \<open>
  With a clock that never runs backwards, a get that returns a value returns the one stored
  under the key, and the clock had not reached its deadline at the get's last reading; a get
  that returns nothing found no entry for the key, or one whose deadline the clock had reached.
\<close>

theorem ttl_cache_get_live:
  assumes "cache_wf c" "mono clk" "get clk k c = (r, c')"
  shows "case r of
      Some v \<Rightarrow> (\<exists>d. map_of (store c) k = Some (v, d) \<and> clk (reads c' - 1) < d)
    | None \<Rightarrow> map_of (store c) k = None \<or>
        (\<exists>v d. map_of (store c) k = Some (v, d) \<and> d \<le> clk (reads c' - 1))"
  using assms by (rule get_cases)

theorem ttl_cache_get_live_witness:
  "fst (get (\<lambda>n. of_nat n) (1::nat)
     \<lparr>capacity = 2, ttl = 5, store = [(1, True, 3)], reads = 1\<rparr>) = Some True \<and>
   (\<exists>d. map_of [(1::nat, True, 3)] 1 = Some (True, d) \<and> (2::rat) < d)"
proof -
  let ?c = "\<lparr>capacity = 2, ttl = 5, store = [(1::nat, True, 3)], reads = 1\<rparr>"
  have wf: "cache_wf ?c" by (simp add: cache_wf_def)
  have m: "mono (of_nat :: nat \<Rightarrow> rat)" by (simp add: monoI)
  have g: "get of_nat 1 ?c =
      (Some True, \<lparr>capacity = 2, ttl = 5, store = [(1, True, 3)], reads = 3\<rparr>)"
    by (simp add: get_eq purge_expired_eq clock_defs move_to_end_def alist_del_def)
  show ?thesis using ttl_cache_get_live [OF wf m g] g by simp
qed

text \<open>
  C37. While the clock stands still during a call, the cache is the textbook LRU cache over its
  live entries: the lazy purge, the expiry re-check and the ordered dictionary implement
  \<open>lru_put\<close>, \<open>lru_get\<close> and the length of the list of live entries.
\<close>

theorem ttl_cache_refines_lru:
  assumes "cache_wf c" "frozen clk t c"
  shows "store (put clk k v c) = lru_put (capacity c) k (v, fl (t + ttl c)) (live t c) \<and>
    fst (get clk k c) = fst (lru_get k (live t c)) \<and>
    store (snd (get clk k c)) = snd (lru_get k (live t c)) \<and>
    fst (cache_len clk c) = length (live t c)"
  using put_store_frozen [OF assms] get_store_frozen [OF assms] len_store_frozen [OF assms]
  by simp

theorem ttl_cache_refines_lru_witness:
  "store (put (\<lambda>_. 10) (3::nat) (CHR ''z'')
     \<lparr>capacity = 2, ttl = 5, store = [(1, (CHR ''x''), 12), (2, (CHR ''y''), 10)], reads = 0\<rparr>) =
   [(1, (CHR ''x''), 12), (3, (CHR ''z''), 15)]"
proof -
  let ?c = "\<lparr>capacity = 2, ttl = 5, store = [(1::nat, (CHR ''x''), 12), (2, (CHR ''y''), 10)], reads = 0\<rparr>"
  have wf: "cache_wf ?c" by (simp add: cache_wf_def)
  have fr: "frozen (\<lambda>_. 10) 10 ?c" by (simp add: frozen_def)
  show ?thesis
    using ttl_cache_refines_lru [OF wf fr, of 3 "CHR ''z''"] by (simp add: lru_put_def live_def alist_del_def)
qed

text \<open>
  Eviction is least-recently-used: as long as nothing expires, the keys in the cache are at
  every moment the last \<open>capacity\<close> keys in the order of their last put or hitting get, in that
  order, whatever the sequence of calls.
\<close>

theorem ttl_cache_evicts_lru:
  assumes "init_cache cap d = Inr c" "t < fl (t + d)"
  shows "map fst (store (cache_run (\<lambda>_. t) c xs)) =
    last_n (nat cap) (recency (\<lambda>_. t) c [] xs)"
proof -
  have c: "capacity c = cap" "ttl c = d" "store c = []"
    using assms(1) by (auto simp: init_cache_def split: if_splits)
  show ?thesis
    using run_recency [OF init_cache_wf [OF assms(1)], of t "[]" xs] assms(2)
    by (simp add: all_live_def c last_n_def)
qed

theorem ttl_cache_evicts_lru_witness:
  "map fst (store (cache_run (\<lambda>_. 0) \<lparr>capacity = 2, ttl = 5, store = [], reads = 0\<rparr>
     [Put (1::nat) (CHR ''a''), Put 2 (CHR ''b''), Get 1, Put 3 (CHR ''c'')])) = [1, 3]"
proof -
  let ?c = "\<lparr>capacity = 2, ttl = 5, store = [], reads = 0\<rparr> :: (nat, char) ttl_cache"
  have i: "init_cache 2 5 = Inr ?c" and t: "(0::rat) < fl (0 + 5)"
    by (simp_all add: init_cache_def)
  show ?thesis
    unfolding ttl_cache_evicts_lru [OF i t]
    by (simp add: put_eq get_eq purge_expired_eq clock_defs Let_def alist_del_def touch_def
        last_n_def)
qed

end
