(* ===== verification/PyText.thy ===== *)
theory PyText
  imports PyPrelude Float64
begin

text \<open>
  Python text and decimals.  A \<open>pystr\<close> is a list of Unicode code points; literals are written
  \<open>u ''...''\<close>.  White space is exactly what \<open>str.isspace\<close>, \<open>str.strip\<close> and the regular
  expression \<open>\s\<close> agree on, and decimal digits are exactly the Unicode 15.0 category Nd that
  \<open>\d\<close>, \<open>int\<close> and \<open>Decimal\<close> accept.

  A \<open>dec\<close> is a finite \<open>decimal.Decimal\<close>: sign, coefficient and exponent.  The constructor is
  exact; unary minus rounds to the default context's 28 digits, half even, as Python does.
\<close>

section \<open>Characters\<close>

type_synonym pystr = "nat list"

definition u :: "string \<Rightarrow> pystr" where
  "u s = map of_char s"

lemma u_Nil [simp]: "u [] = []"
  by (simp add: u_def)

lemma u_Cons [simp]: "u (c # s) = of_char c # u s"
  by (simp add: u_def)

definition py_spaces :: "nat list" where
  "py_spaces =
     [9, 10, 11, 12, 13, 28, 29, 30, 31, 32, 133, 160, 5760, 8192, 8193, 8194, 8195, 8196,
      8197, 8198, 8199, 8200, 8201, 8202, 8232, 8233, 8239, 8287, 12288]"

definition is_space :: "nat \<Rightarrow> bool" where
  "is_space c \<longleftrightarrow> c \<in> set py_spaces"

definition nd_zeros :: "nat list" where
  "nd_zeros =
     [48, 1632, 1776, 1984, 2406, 2534, 2662, 2790, 2918, 3046, 3174, 3302, 3430, 3558, 3664,
      3792, 3872, 4160, 4240, 6112, 6160, 6470, 6608, 6784, 6800, 6992, 7088, 7232, 7248,
      42528, 43216, 43264, 43472, 43504, 43600, 44016, 65296, 66720, 68912, 69734, 69872,
      69942, 70096, 70384, 70736, 70864, 71248, 71360, 71472, 71904, 72016, 72784, 73040,
      73120, 73552, 92768, 92864, 93008, 120782, 120792, 120802, 120812, 120822, 123200,
      123632, 124144, 125264, 130032]"

definition digit_value :: "nat \<Rightarrow> nat option" where
  "digit_value c = map_option (\<lambda>z. c - z) (find (\<lambda>z. z \<le> c \<and> c < z + 10) nd_zeros)"

definition is_digit :: "nat \<Rightarrow> bool" where
  "is_digit c \<longleftrightarrow> digit_value c \<noteq> None"

definition is_ascii_digit :: "nat \<Rightarrow> bool" where
  "is_ascii_digit c \<longleftrightarrow> 48 \<le> c \<and> c < 58"

definition is_ascii_letter :: "nat \<Rightarrow> bool" where
  "is_ascii_letter c \<longleftrightarrow> 65 \<le> c \<and> c \<le> 90 \<or> 97 \<le> c \<and> c \<le> 122"

definition ascii_upper :: "nat \<Rightarrow> nat" where
  "ascii_upper c = (if 97 \<le> c \<and> c \<le> 122 then c - 32 else c)"

text \<open>
  The regular expression class \<open>\w\<close>: exact on ASCII; \<open>uw\<close> is the interpreter's table of the
  other alphanumeric code points.
\<close>

definition is_word :: "(nat \<Rightarrow> bool) \<Rightarrow> nat \<Rightarrow> bool" where
  "is_word uw c \<longleftrightarrow>
     (if c < 128 then is_ascii_letter c \<or> is_ascii_digit c \<or> c = 95 else uw c)"

lemma digit_value_ascii: "d < 10 \<Longrightarrow> digit_value (48 + d) = Some d"
  by (simp add: digit_value_def nd_zeros_def)

lemma is_digit_ascii: "d < 10 \<Longrightarrow> is_digit (48 + d)"
  by (simp add: is_digit_def digit_value_ascii)

lemma is_space_cases: "is_space c \<Longrightarrow> c < 33 \<or> 132 < c"
  by (auto simp: is_space_def py_spaces_def)

section \<open>Digits and numbers\<close>

fun num_of_digits :: "nat \<Rightarrow> nat list \<Rightarrow> nat" where
  "num_of_digits acc [] = acc"
| "num_of_digits acc (d # ds) = num_of_digits (10 * acc + d) ds"

fun digits_of :: "nat \<Rightarrow> nat list" where
  "digits_of n = (if n < 10 then [n] else digits_of (n div 10) @ [n mod 10])"

declare digits_of.simps [simp del]

lemma num_of_digits_snoc: "num_of_digits acc (ds @ [d]) = 10 * num_of_digits acc ds + d"
  by (induction ds arbitrary: acc) auto

lemma num_of_digits_zeros: "num_of_digits 0 (replicate k 0 @ ds) = num_of_digits 0 ds"
  by (induction k) auto

lemma num_of_digits_of: "num_of_digits 0 (digits_of n) = n"
proof (induction n rule: digits_of.induct)
  case (1 n)
  then show ?case by (subst digits_of.simps) (auto simp: num_of_digits_snoc)
qed

lemma digits_of_less: "d \<in> set (digits_of n) \<Longrightarrow> d < 10"
proof (induction n rule: digits_of.induct)
  case (1 n)
  then show ?case by (subst (asm) (2) digits_of.simps) (auto split: if_splits)
qed

lemma digits_of_nonempty [simp]: "digits_of n \<noteq> []"
  by (subst digits_of.simps) simp

lemma digits_of_length: "n < 10 ^ k \<Longrightarrow> 0 < k \<Longrightarrow> length (digits_of n) \<le> k"
proof (induction n arbitrary: k rule: digits_of.induct)
  case (1 n)
  show ?case
  proof (cases "n < 10")
    case True
    with "1.prems" show ?thesis by (subst digits_of.simps) simp
  next
    case False
    then obtain j where k: "k = Suc j" "0 < j" using "1.prems" by (cases k; cases "k - 1") auto
    then have "n div 10 < 10 ^ j" using "1.prems"(1) by (simp add: less_mult_imp_div_less mult.commute)
    with "1.IH" False k have "length (digits_of (n div 10)) \<le> j" by simp
    with False k show ?thesis by (subst digits_of.simps) simp
  qed
qed

section \<open>Decimals\<close>

datatype dec = Dec (dneg: bool) (coeff: nat) (dexp: int)

definition dec_value :: "dec \<Rightarrow> rat" where
  "dec_value d = (if dneg d then - 1 else 1) * of_nat (coeff d) * 10 powi dexp d"

text \<open>
  \<open>Decimal(s)\<close> for a string of digits, points and white space, the only strings the modelled
  parsers pass: surrounding white space is ignored, a single point is allowed, and at least
  one digit is required.  \<open>None\<close> is \<open>InvalidOperation\<close>.
\<close>

definition decimal_of_str :: "pystr \<Rightarrow> dec option" where
  "decimal_of_str s =
     (let t = strip_by is_space s;
          int_part = takeWhile (\<lambda>c. c \<noteq> 46) t;
          frac_part = drop (Suc (length int_part)) t;
          ds = map digit_value (int_part @ frac_part)
      in if ds \<noteq> [] \<and> None \<notin> set ds
         then Some (Dec False (num_of_digits 0 (map the ds)) (- int (length frac_part)))
         else None)"

definition dec_precision :: nat where
  "dec_precision = 28"

definition half_even_div :: "nat \<Rightarrow> nat \<Rightarrow> nat" where
  "half_even_div c m =
     (let q = c div m; r = c mod m in
      if 2 * r < m then q else if m < 2 * r then q + 1 else if even q then q else q + 1)"

definition dec_fix :: "dec \<Rightarrow> dec" where
  "dec_fix d =
     (let n = length (digits_of (coeff d)) in
      if n \<le> dec_precision then d
      else
        let k = n - dec_precision; c = half_even_div (coeff d) (10 ^ k) in
        if c = 10 ^ dec_precision then Dec (dneg d) (c div 10) (dexp d + int k + 1)
        else Dec (dneg d) c (dexp d + int k))"

definition dec_minus :: "dec \<Rightarrow> dec" where
  "dec_minus d = (if coeff d = 0 then Dec False 0 (dexp d) else dec_fix (Dec (\<not> dneg d) (coeff d) (dexp d)))"

lemma dec_fix_short: "coeff d < 10 ^ dec_precision \<Longrightarrow> dec_fix d = d"
  using digits_of_length [of "coeff d" dec_precision] by (simp add: dec_fix_def dec_precision_def)

lemma dec_minus_value:
  "coeff d < 10 ^ dec_precision \<Longrightarrow> dec_value (dec_minus d) = - dec_value d"
  by (simp add: dec_minus_def dec_fix_short dec_value_def)

text \<open>\<open>format(d, 'f')\<close>: no exponent, the point placed by padding with zeros.\<close>

definition chars_of_digits :: "nat list \<Rightarrow> pystr" where
  "chars_of_digits ds = map (\<lambda>d. 48 + d) ds"

definition format_fixed :: "dec \<Rightarrow> pystr" where
  "format_fixed d =
     (let sign = (if dneg d then [45] else []) in
      if 0 \<le> dexp d then sign @ chars_of_digits (digits_of (coeff d * 10 ^ nat (dexp d)))
      else
        let n = nat (- dexp d); ds = digits_of (coeff d);
            padded = replicate (Suc n - length ds) 0 @ ds;
            k = length padded - n
        in sign @ chars_of_digits (take k padded) @ [46] @ chars_of_digits (drop k padded))"

lemma chars_of_digits_ascii:
  "\<forall>d \<in> set ds. d < 10 \<Longrightarrow> c \<in> set (chars_of_digits ds) \<Longrightarrow> 48 \<le> c \<and> c < 58"
  by (auto simp: chars_of_digits_def)

lemma map_digit_value_chars:
  "\<forall>d \<in> set ds. d < 10 \<Longrightarrow> map digit_value (chars_of_digits ds) = map Some ds"
  by (simp add: chars_of_digits_def digit_value_ascii)

text \<open>Reading back a plain digit string with at most one point.\<close>

lemma decimal_of_str_parts:
  assumes "strip_by is_space s = t" "takeWhile (\<lambda>c. c \<noteq> 46) t = ip"
    "drop (Suc (length ip)) t = fp" "map digit_value (ip @ fp) = map Some ds" "ds \<noteq> []"
  shows "decimal_of_str s = Some (Dec False (num_of_digits 0 ds) (- int (length fp)))"
  unfolding decimal_of_str_def Let_def assms(1-4) by (auto simp: assms(5) comp_def)

lemma ascii_not_space: "48 \<le> c \<and> c < 58 \<Longrightarrow> \<not> is_space c"
  using is_space_cases [of c] by auto

lemma strip_ascii_ends:
  "s \<noteq> [] \<Longrightarrow> 48 \<le> hd s \<and> hd s < 58 \<Longrightarrow> 48 \<le> last s \<and> last s < 58 \<Longrightarrow> strip_by is_space s = s"
  by (simp add: strip_by_id ascii_not_space)

lemma decimal_of_plain:
  assumes js: "\<forall>d \<in> set js. d < 10" "js \<noteq> []"
  shows "decimal_of_str (chars_of_digits js) = Some (Dec False (num_of_digits 0 js) 0)"
proof -
  let ?s = "chars_of_digits js"
  have ascii: "c \<in> set ?s \<Longrightarrow> 48 \<le> c \<and> c < 58" for c
    using js(1) by (rule chars_of_digits_ascii)
  have ne: "?s \<noteq> []" using js(2) by (simp add: chars_of_digits_def)
  have st: "strip_by is_space ?s = ?s"
    using ascii [OF hd_in_set [OF ne]] ascii [OF last_in_set [OF ne]] ne by (intro strip_ascii_ends)
  have tk: "takeWhile (\<lambda>c. c \<noteq> 46) ?s = ?s"
    using ascii by (fastforce simp: takeWhile_eq_all_conv)
  show ?thesis
    using decimal_of_str_parts [OF st tk refl, of js] js map_digit_value_chars [OF js(1)] by simp
qed

lemma decimal_of_point:
  assumes js: "\<forall>d \<in> set js. d < 10" "js \<noteq> []" and fs: "\<forall>d \<in> set fs. d < 10" "fs \<noteq> []"
  shows "decimal_of_str (chars_of_digits js @ [46] @ chars_of_digits fs) =
    Some (Dec False (num_of_digits 0 (js @ fs)) (- int (length fs)))"
proof -
  let ?i = "chars_of_digits js" and ?f = "chars_of_digits fs"
  have ascii: "c \<in> set ?i \<Longrightarrow> 48 \<le> c \<and> c < 58" for c
    using js(1) by (rule chars_of_digits_ascii)
  have ascii': "c \<in> set ?f \<Longrightarrow> 48 \<le> c \<and> c < 58" for c
    using fs(1) by (rule chars_of_digits_ascii)
  have ne: "?i \<noteq> []" "?f \<noteq> []" using js(2) fs(2) by (simp_all add: chars_of_digits_def)
  have st: "strip_by is_space (?i @ [46] @ ?f) = ?i @ [46] @ ?f"
    using ascii [OF hd_in_set [OF ne(1)]] ascii' [OF last_in_set [OF ne(2)]] ne
    by (intro strip_ascii_ends) simp_all
  have tk: "takeWhile (\<lambda>c. c \<noteq> 46) (?i @ [46] @ ?f) = ?i"
    using ascii by (subst takeWhile_append2) fastforce+
  have dr: "drop (Suc (length ?i)) (?i @ [46] @ ?f) = ?f" by simp
  show ?thesis
    using decimal_of_str_parts [OF st tk dr, of "js @ fs"] js
      map_digit_value_chars [OF js(1)] map_digit_value_chars [OF fs(1)]
    by (simp add: chars_of_digits_def)
qed

lemma powi_10_split: "0 \<le> k \<Longrightarrow> (10::rat) powi k = 10 ^ nat k"
  by (simp add: power_int_def)

text \<open>What \<open>format_fixed\<close> prints after the sign reads back as the same magnitude.\<close>

lemma format_fixed_split:
  assumes x: "x < 0"
  obtains js fs where
    "format_fixed (Dec False n x) = chars_of_digits js @ [46] @ chars_of_digits fs"
    "js \<noteq> []" "fs \<noteq> []" "\<forall>d \<in> set (js @ fs). d < 10"
    "num_of_digits 0 (js @ fs) = n" "length fs = nat (- x)"
proof -
  define m where "m = nat (- x)"
  define p where "p = replicate (Suc m - length (digits_of n)) 0 @ digits_of n"
  have m: "0 < m" using x by (simp add: m_def)
  have len: "m < length p" by (simp add: p_def)
  have fmt: "format_fixed (Dec False n x) =
      chars_of_digits (take (length p - m) p) @ [46] @ chars_of_digits (drop (length p - m) p)"
    using x by (simp add: format_fixed_def Let_def p_def m_def)
  have less: "\<forall>d \<in> set p. d < 10" using digits_of_less by (auto simp: p_def)
  have num: "num_of_digits 0 p = n" by (simp add: p_def num_of_digits_zeros num_of_digits_of)
  show ?thesis
  proof (rule that [OF fmt])
    show "take (length p - m) p \<noteq> []" using len by auto
    show "drop (length p - m) p \<noteq> []" using len m by auto
    show "length (drop (length p - m) p) = nat (- x)" using len by (simp add: m_def)
  qed (use less num in simp_all)
qed

lemma format_fixed_unsigned:
  "decimal_of_str (format_fixed (Dec False n x)) =
     Some (if 0 \<le> x then Dec False (n * 10 ^ nat x) 0 else Dec False n x)"
proof (cases "0 \<le> x")
  case True
  then show ?thesis
    using decimal_of_plain [of "digits_of (n * 10 ^ nat x)"] digits_of_less
    by (simp add: format_fixed_def num_of_digits_of)
next
  case False
  then have x: "x < 0" by simp
  show ?thesis
  proof (rule format_fixed_split [OF x, of n])
    fix js fs
    assume f: "format_fixed (Dec False n x) = chars_of_digits js @ [46] @ chars_of_digits fs"
      and ne: "js \<noteq> []" "fs \<noteq> []" and less: "\<forall>d \<in> set (js @ fs). d < 10"
      and num: "num_of_digits 0 (js @ fs) = n" and len: "length fs = nat (- x)"
    then show ?thesis
      using decimal_of_point [of js fs] ne less num len x by (simp add: f)
  qed
qed

lemma dec_value_plain:
  "dec_value (if 0 \<le> x then Dec b (n * 10 ^ nat x) 0 else Dec b n x) = dec_value (Dec b n x)"
  by (simp add: dec_value_def powi_10_split)

lemma format_fixed_sign: "format_fixed (Dec True n x) = 45 # format_fixed (Dec False n x)"
  by (simp add: format_fixed_def Let_def)

lemma format_fixed_chars:
  "c \<in> set (format_fixed (Dec False n x)) \<Longrightarrow> 48 \<le> c \<and> c < 58 \<or> c = 46"
  by (auto simp: format_fixed_def Let_def chars_of_digits_def split: if_splits
      dest!: in_set_takeD in_set_dropD digits_of_less)

lemma hd_chars_of_digits:
  "ds \<noteq> [] \<Longrightarrow> \<forall>d \<in> set ds. d < 10 \<Longrightarrow>
   48 \<le> hd (chars_of_digits ds) \<and> hd (chars_of_digits ds) < 58"
  by (cases ds) (auto simp: chars_of_digits_def)

lemma format_fixed_hd:
  "format_fixed (Dec False n x) \<noteq> [] \<and> 48 \<le> hd (format_fixed (Dec False n x)) \<and>
   hd (format_fixed (Dec False n x)) < 58"
proof (cases "0 \<le> x")
  case True
  have "\<forall>d \<in> set (digits_of (n * 10 ^ nat x)). d < 10" using digits_of_less by blast
  with True show ?thesis
    using hd_chars_of_digits [of "digits_of (n * 10 ^ nat x)"]
    by (simp add: format_fixed_def chars_of_digits_def)
next
  case False
  then have x: "x < 0" by simp
  show ?thesis
  proof (rule format_fixed_split [OF x, of n])
    fix js fs
    assume f: "format_fixed (Dec False n x) = chars_of_digits js @ [46] @ chars_of_digits fs"
      and js: "js \<noteq> []" and less: "\<forall>d \<in> set (js @ fs). d < 10"
    show ?thesis
      using hd_chars_of_digits [of js] js less by (simp add: f chars_of_digits_def)
  qed
qed

end
