(* ===== verification/PyConv.thy ===== *)
theory PyConv
  imports PyText Float64
begin

text \<open>
  Conversions of Python between text and numbers: \<open>int(str)\<close>, \<open>str(int)\<close>, \<open>str(Decimal)\<close>,
  \<open>format(float, '.2f')\<close>, \<open>str.split()\<close>, and what a NUMERIC column makes of a decimal.
\<close>

section \<open>Integers\<close>

definition nat_str :: "nat \<Rightarrow> pystr" where
  "nat_str n = chars_of_digits (digits_of n)"

definition int_str :: "int \<Rightarrow> pystr" where
  "int_str i = (if i < 0 then 45 # nat_str (nat (- i)) else nat_str (nat i))"

text \<open>
  \<open>int(s)\<close>: white space around the number (the information separators are not white space to
  \<open>int\<close>), a sign, decimal digits of any script with single underscores between them, and at most
  4300 digits.  \<open>None\<close> is \<open>ValueError\<close>.
\<close>

definition int_space :: "nat \<Rightarrow> bool" where
  "int_space c \<longleftrightarrow> is_space c \<and> \<not> (28 \<le> c \<and> c \<le> 31)"

definition int_digits :: "pystr \<Rightarrow> nat option" where
  "int_digits b =
     (let ds = filter (\<lambda>c. c \<noteq> 95) b in
      if b \<noteq> [] \<and> hd b \<noteq> 95 \<and> last b \<noteq> 95 \<and> \<not> contains [95, 95] b \<and> list_all is_digit ds \<and>
         length ds \<le> 4300
      then Some (num_of_digits 0 (map (the \<circ> digit_value) ds)) else None)"

definition int_of_str :: "pystr \<Rightarrow> int option" where
  "int_of_str s =
     (let t = strip_by int_space s in
      if startswith t [45] then map_option (\<lambda>n. - int n) (int_digits (tl t))
      else if startswith t [43] then map_option int (int_digits (tl t))
      else map_option int (int_digits t))"

lemma nat_str_chars: "c \<in> set (nat_str n) \<Longrightarrow> 48 \<le> c \<and> c < 58"
  unfolding nat_str_def by (rule chars_of_digits_ascii) (auto dest: digits_of_less)

lemma nat_str_value: "num_of_digits 0 (map (\<lambda>c. c - 48) (nat_str n)) = n"
proof -
  have "map (\<lambda>c. c - 48) (nat_str n) = digits_of n" by (simp add: nat_str_def chars_of_digits_def comp_def)
  then show ?thesis by (simp add: num_of_digits_of)
qed

lemma nat_str_inj: "nat_str n = nat_str m \<Longrightarrow> n = m"
  by (metis nat_str_value)

lemma nat_str_nonempty [simp]: "nat_str n \<noteq> []"
  by (simp add: nat_str_def chars_of_digits_def)

lemma the_digit_value_chars:
  "\<forall>d \<in> set ds. d < 10 \<Longrightarrow> map (the \<circ> digit_value) (chars_of_digits ds) = ds"
  using map_digit_value_chars [of ds] unfolding map_map [symmetric] by (simp add: comp_def)

lemma contains_hd: "contains (x # p) s \<Longrightarrow> x \<in> set s"
  unfolding contains_sublist by (auto simp: sublist_def)

lemma int_digits_nat_str: "length (digits_of n) \<le> 4300 \<Longrightarrow> int_digits (nat_str n) = Some n"
proof -
  assume len: "length (digits_of n) \<le> 4300"
  have ne: "\<forall>c \<in> set (nat_str n). c \<noteq> 95" using nat_str_chars by force
  have f: "filter (\<lambda>c. c \<noteq> 95) (nat_str n) = nat_str n" using ne by (simp add: filter_id_conv)
  have "\<not> contains [95, 95] (nat_str n)" using ne contains_hd [of 95 "[95]" "nat_str n"] by blast
  moreover have "list_all is_digit (nat_str n)"
    using is_digit_ascii digits_of_less by (auto simp: nat_str_def chars_of_digits_def list_all_iff)
  moreover have "map (the \<circ> digit_value) (nat_str n) = digits_of n"
    unfolding nat_str_def by (rule the_digit_value_chars) (auto dest: digits_of_less)
  moreover have "hd (nat_str n) \<noteq> 95" "last (nat_str n) \<noteq> 95" using ne by auto
  moreover have "length (nat_str n) \<le> 4300" using len by (simp add: nat_str_def chars_of_digits_def)
  ultimately show ?thesis by (simp add: int_digits_def f num_of_digits_of)
qed

lemma strip_int_str: "strip_by int_space (int_str i) = int_str i"
proof (rule strip_by_id)
  have a: "\<not> int_space c" if "c = 45 \<or> 48 \<le> c \<and> c < 58" for c
    using that is_space_cases [of c] by (auto simp: int_space_def)
  have h: "\<not> int_space (hd (nat_str n))" "\<not> int_space (last (nat_str n))" for n
    using a nat_str_chars [of "hd (nat_str n)" n] nat_str_chars [of "last (nat_str n)" n] by auto
  show "int_str i = [] \<or> \<not> int_space (hd (int_str i)) \<and> \<not> int_space (last (int_str i))"
    using a h by (simp add: int_str_def)
qed

lemma int_of_int_str:
  assumes "length (digits_of (nat \<bar>i\<bar>)) \<le> 4300"
  shows "int_of_str (int_str i) = Some i"
proof -
  have h: "hd (nat_str n) \<noteq> 45" "hd (nat_str n) \<noteq> 43" for n
    using nat_str_chars [of "hd (nat_str n)" n] by auto
  then have s: "\<not> startswith (nat_str n) [45]" "\<not> startswith (nat_str n) [43]" for n
    by (cases "nat_str n"; simp; metis list.sel(1))+
  show ?thesis
    unfolding int_of_str_def Let_def strip_int_str
    using assms s by (cases "i < 0") (simp_all add: int_str_def int_digits_nat_str abs_if)
qed

section \<open>White space\<close>

text \<open>\<open>s.split()\<close> and \<open>" ".join(words)\<close>.\<close>

function split_ws :: "pystr \<Rightarrow> pystr list" where
  "split_ws [] = []"
| "split_ws (c # s) =
     (if is_space c then split_ws s
      else (c # takeWhile (\<lambda>x. \<not> is_space x) s) # split_ws (dropWhile (\<lambda>x. \<not> is_space x) s))"
  by pat_completeness auto
termination
  by (relation "measure length") (auto simp: less_Suc_eq_le length_dropWhile_le)

fun join :: "'a list \<Rightarrow> 'a list list \<Rightarrow> 'a list" where
  "join sep [] = []"
| "join sep [w] = w"
| "join sep (w # v # ws) = w @ sep @ join sep (v # ws)"

lemma split_ws_words: "w \<in> set (split_ws s) \<Longrightarrow> w \<noteq> [] \<and> (\<forall>c \<in> set w. \<not> is_space c)"
proof (induction s rule: split_ws.induct)
  case 1
  then show ?case by simp
next
  case (2 c s)
  have all_word: "\<forall>x \<in> set (takeWhile (\<lambda>x. \<not> is_space x) s). \<not> is_space x"
    by (metis (mono_tags, lifting) set_takeWhileD)
  show ?case
  proof (cases "is_space c")
    case True
    then have "w \<in> set (split_ws s)" using 2(3) by simp
    then show ?thesis by (rule 2(1) [OF True])
  next
    case False
    then have "w = c # takeWhile (\<lambda>x. \<not> is_space x) s \<or> w \<in> set (split_ws (dropWhile (\<lambda>x. \<not> is_space x) s))"
      using 2(3) by simp
    then show ?thesis
    proof
      assume w: "w = c # takeWhile (\<lambda>x. \<not> is_space x) s"
      show ?thesis unfolding w using False all_word by simp
    next
      assume "w \<in> set (split_ws (dropWhile (\<lambda>x. \<not> is_space x) s))"
      then show ?thesis by (rule 2(2) [OF False])
    qed
  qed
qed

lemma split_ws_word:
  assumes "w \<noteq> []" "\<forall>c \<in> set w. \<not> is_space c" "r = [] \<or> is_space (hd r)"
  shows "split_ws (w @ r) = w # split_ws r"
proof -
  obtain c v where w: "w = c # v" using assms(1) by (cases w) auto
  have "takeWhile (\<lambda>x. \<not> is_space x) (v @ r) = v" "dropWhile (\<lambda>x. \<not> is_space x) (v @ r) = r"
    using assms(2,3) unfolding w by (cases r; simp add: takeWhile_tail dropWhile_append)+
  then show ?thesis using assms(2) by (simp add: w)
qed

lemma split_ws_join:
  "\<forall>w \<in> set ws. w \<noteq> [] \<and> (\<forall>c \<in> set w. \<not> is_space c) \<Longrightarrow> is_space b \<Longrightarrow> split_ws (join [b] ws) = ws"
proof (induction "[b]" ws rule: join.induct)
  case 1
  then show ?case by simp
next
  case (2 w)
  then show ?case using split_ws_word [of w "[]"] by simp
next
  case (3 w v ws)
  have "split_ws (w @ [b] @ join [b] (v # ws)) = w # split_ws ([b] @ join [b] (v # ws))"
    using 3 by (intro split_ws_word) auto
  then show ?case using 3 by simp
qed

section \<open>Decimals as text and in a column\<close>

text \<open>\<open>str(Decimal)\<close>: scientific notation only when the exponent is positive or the value tiny.\<close>

definition dec_str :: "dec \<Rightarrow> pystr" where
  "dec_str d =
     (let ds = digits_of (coeff d); n = int (length ds); left = dexp d + n;
          point = (if dexp d \<le> 0 \<and> - 6 < left then left else 1);
          body =
            (if point \<le> 0 then [48, 46] @ replicate (nat (- point)) 48 @ chars_of_digits ds
             else if n \<le> point then chars_of_digits ds @ replicate (nat (point - n)) 48
             else chars_of_digits (take (nat point) ds) @ [46] @ chars_of_digits (drop (nat point) ds));
          e = left - point;
          ex = (if e = 0 then [] else 69 # (if 0 \<le> e then 43 # int_str e else int_str e))
      in (if dneg d then [45] else []) @ body @ ex)"

text \<open>
  \<open>Decimal(str)\<close> on the whole syntax of finite numbers: sign, digits with a point, exponent;
  underscores are ignored.  \<open>None\<close> is \<open>InvalidOperation\<close> (the words for infinities and NaNs, which
  \<open>Decimal\<close> also reads, are left out).
\<close>

definition take_sign_of :: "pystr \<Rightarrow> bool \<times> pystr" where
  "take_sign_of t =
     (if startswith t [45] then (True, tl t) else if startswith t [43] then (False, tl t) else (False, t))"

definition digits_value :: "pystr \<Rightarrow> nat option" where
  "digits_value s =
     (if s \<noteq> [] \<and> list_all is_digit s then Some (num_of_digits 0 (map (the \<circ> digit_value) s)) else None)"

definition exponent_of :: "pystr \<Rightarrow> int option" where
  "exponent_of ex =
     (if ex = [] then Some 0
      else case take_sign_of (tl ex) of
        (neg, ds) \<Rightarrow> map_option (\<lambda>n. if neg then - int n else int n) (digits_value ds))"

definition decimal_parse :: "pystr \<Rightarrow> dec option" where
  "decimal_parse s =
     (case take_sign_of (filter (\<lambda>c. c \<noteq> 95) (strip_by is_space s)) of
        (neg, b) \<Rightarrow>
          let mant = takeWhile (\<lambda>c. c \<noteq> 69 \<and> c \<noteq> 101) b;
              ip = takeWhile (\<lambda>c. c \<noteq> 46) mant; fp = drop (Suc (length ip)) mant
          in (case (digits_value (ip @ fp), exponent_of (drop (length mant) b)) of
                (Some n, Some e) \<Rightarrow> Some (Dec neg n (e - int (length fp)))
              | _ \<Rightarrow> None))"

lemma digits_value_chars:
  "ds \<noteq> [] \<Longrightarrow> \<forall>d \<in> set ds. d < 10 \<Longrightarrow> digits_value (chars_of_digits ds) = Some (num_of_digits 0 ds)"
  using the_digit_value_chars [of ds] is_digit_ascii
  by (auto simp: digits_value_def list_all_iff chars_of_digits_def)

lemma exponent_of_int_str: "exponent_of (69 # (if 0 \<le> e then 43 # int_str e else int_str e)) = Some e"
proof -
  have d: "digits_value (nat_str n) = Some n" for n
    unfolding nat_str_def by (subst digits_value_chars) (auto dest: digits_of_less simp: num_of_digits_of)
  show ?thesis by (cases "0 \<le> e") (simp_all add: exponent_of_def take_sign_of_def int_str_def d)
qed

text \<open>The text of a decimal: digits \<open>js\<close>, a point and digits \<open>fs\<close> if there are any, an exponent.\<close>

definition dec_text :: "bool \<Rightarrow> nat list \<Rightarrow> nat list \<Rightarrow> int \<Rightarrow> pystr" where
  "dec_text neg js fs e =
     (if neg then [45] else []) @ chars_of_digits js @
     (if fs = [] then [] else 46 # chars_of_digits fs) @
     (if e = 0 then [] else 69 # (if 0 \<le> e then 43 # int_str e else int_str e))"

lemma decimal_parse_text:
  assumes js: "js \<noteq> []" and less: "\<forall>d \<in> set (js @ fs). d < 10"
  shows "decimal_parse (dec_text neg js fs e) =
    Some (Dec neg (num_of_digits 0 (js @ fs)) (e - int (length fs)))"
proof -
  let ?s = "dec_text neg js fs e"
  define ex where "ex = (if e = 0 then [] else 69 # (if 0 \<le> e then 43 # int_str e else int_str e))"
  define m where "m = chars_of_digits js @ (if fs = [] then [] else 46 # chars_of_digits fs)"
  have s: "?s = (if neg then [45] else []) @ m @ ex" by (simp add: dec_text_def m_def ex_def)
  have mc: "c = 46 \<or> 48 \<le> c \<and> c < 58" if "c \<in> set m" for c
    using that less chars_of_digits_ascii [of js c] chars_of_digits_ascii [of fs c]
    by (auto simp: m_def split: if_splits)
  have ec: "c = 69 \<or> c = 43 \<or> c = 45 \<or> 48 \<le> c \<and> c < 58" if "c \<in> set ex" for c
    using that nat_str_chars [of c "nat e"] nat_str_chars [of c "nat (- e)"]
    by (auto simp: ex_def int_str_def split: if_splits)
  have all: "c = 69 \<or> c = 43 \<or> c = 45 \<or> c = 46 \<or> 48 \<le> c \<and> c < 58" if "c \<in> set ?s" for c
    using that mc [of c] ec [of c] by (auto simp: s split: if_splits)
  have ns: "\<not> is_space c" if "c \<in> set ?s" for c
    using all [OF that] is_space_cases [of c] by auto
  have "?s \<noteq> []" using js by (simp add: s m_def chars_of_digits_def)
  then have "hd ?s \<in> set ?s \<and> last ?s \<in> set ?s" by simp
  then have st: "strip_by is_space ?s = ?s" using ns by (intro strip_by_id) blast
  have fl: "filter (\<lambda>c. c \<noteq> 95) ?s = ?s" using all by (force simp: filter_id_conv)
  have hm: "m \<noteq> []" "48 \<le> hd m"
    using js less chars_of_digits_ascii [of js "hd (chars_of_digits js)"]
    by (auto simp: m_def chars_of_digits_def hd_map)
  have sg: "take_sign_of ?s = (neg, m @ ex)"
    using hm by (cases m) (auto simp: s take_sign_of_def)
  have tw: "takeWhile (\<lambda>c. c \<noteq> 69 \<and> c \<noteq> 101) (m @ ex) = m"
    using mc by (subst takeWhile_append2) (force, simp add: ex_def)
  have cj: "\<forall>c \<in> set (chars_of_digits js). c \<noteq> 46"
    using less chars_of_digits_ascii [of js] by force
  have ip: "takeWhile (\<lambda>c. c \<noteq> 46) m = chars_of_digits js"
    unfolding m_def using cj by (subst takeWhile_append2) (blast, simp)
  have fp: "drop (Suc (length (chars_of_digits js))) m = chars_of_digits fs"
    by (simp add: m_def chars_of_digits_def)
  have ap: "chars_of_digits js @ chars_of_digits fs = chars_of_digits (js @ fs)"
    by (simp add: chars_of_digits_def)
  have ee: "exponent_of ex = Some e"
    using exponent_of_int_str [of e] by (simp add: ex_def exponent_of_def)
  show ?thesis
    unfolding decimal_parse_def st fl sg prod.case Let_def tw ip fp ap
    using digits_value_chars [OF _ less] js ee
    by (simp add: chars_of_digits_def)
qed

lemma dec_str_text:
  "\<exists>js fs e. dec_str d = dec_text (dneg d) js fs e \<and> js \<noteq> [] \<and> (\<forall>x \<in> set (js @ fs). x < 10) \<and>
     num_of_digits 0 (js @ fs) = coeff d \<and> e - int (length fs) = dexp d"
proof -
  define ds where "ds = digits_of (coeff d)"
  define left where "left = dexp d + int (length ds)"
  define point where "point = (if dexp d \<le> 0 \<and> - 6 < left then left else 1)"
  have ds: "ds \<noteq> []" "\<forall>x \<in> set ds. x < 10" "num_of_digits 0 ds = coeff d"
    by (auto simp: ds_def num_of_digits_of dest: digits_of_less)
  have str: "dec_str d = (if dneg d then [45] else []) @
      (if point \<le> 0 then [48, 46] @ replicate (nat (- point)) 48 @ chars_of_digits ds
       else if int (length ds) \<le> point then chars_of_digits ds @ replicate (nat (point - int (length ds))) 48
       else chars_of_digits (take (nat point) ds) @ [46] @ chars_of_digits (drop (nat point) ds)) @
      (if left - point = 0 then []
       else 69 # (if 0 \<le> left - point then 43 # int_str (left - point) else int_str (left - point)))"
    unfolding dec_str_def Let_def ds_def left_def point_def by simp
  have lp: "1 \<le> int (length ds)" using ds(1) by (cases ds) auto
  have pn: "point \<le> int (length ds)" using lp by (auto simp: point_def left_def)
  show ?thesis
  proof (cases "point \<le> 0")
    case True
    then have e: "left = point" using lp by (auto simp: point_def split: if_splits)
    let ?fs = "replicate (nat (- point)) 0 @ ds"
    have "dec_str d = dec_text (dneg d) [0] ?fs 0"
      using True e ds(1) by (simp add: str dec_text_def chars_of_digits_def map_replicate_const)
    moreover have "num_of_digits 0 ([0] @ ?fs) = coeff d" using ds(3) by (simp add: num_of_digits_zeros)
    moreover have "0 - int (length ?fs) = dexp d" using True e by (simp add: left_def)
    ultimately show ?thesis using ds(2) by (intro exI [of _ "[0]"] exI [of _ ?fs] exI [of _ 0]) auto
  next
    case False
    let ?js = "take (nat point) ds" and ?fs = "drop (nat point) ds"
    have "dec_str d = dec_text (dneg d) ?js ?fs (left - point)"
      using False pn by (auto simp: str dec_text_def)
    moreover have "?js \<noteq> []" using False ds(1) by simp
    moreover have "left - point - int (length ?fs) = dexp d" using False pn by (simp add: left_def)
    moreover have "\<forall>x \<in> set (?js @ ?fs). x < 10" using ds(2) by simp
    moreover have "num_of_digits 0 (?js @ ?fs) = coeff d" using ds(3) by simp
    ultimately show ?thesis by blast
  qed
qed

text \<open>\<open>Decimal(str(d))\<close> is \<open>d\<close>, sign and exponent included.\<close>

lemma decimal_parse_str: "decimal_parse (dec_str d) = Some d"
proof -
  obtain js fs e where "dec_str d = dec_text (dneg d) js fs e" "js \<noteq> []" "\<forall>x \<in> set (js @ fs). x < 10"
    "num_of_digits 0 (js @ fs) = coeff d" "e - int (length fs) = dexp d"
    using dec_str_text by blast
  then show ?thesis using decimal_parse_text [of js fs "dneg d" e] by (cases d) simp
qed

text \<open>A NUMERIC column has no exponent and no negative zero.\<close>

definition to_numeric :: "dec \<Rightarrow> dec" where
  "to_numeric d =
     (if 0 \<le> dexp d then Dec (dneg d \<and> coeff d \<noteq> 0) (coeff d * 10 ^ nat (dexp d)) 0
      else Dec (dneg d \<and> coeff d \<noteq> 0) (coeff d) (dexp d))"

lemma dec_value_numeric: "dec_value (to_numeric d) = dec_value d"
  by (auto simp: to_numeric_def dec_value_def power_int_def)

lemma to_numeric_idem: "to_numeric (to_numeric d) = to_numeric d"
  by (auto simp: to_numeric_def)

section \<open>Two decimals\<close>

text \<open>\<open>f"{x:.2f}"\<close> of a non-negative float: the exact value rounded half to even.\<close>

definition format_2f :: "rat \<Rightarrow> pystr" where
  "format_2f x =
     (let n = nat (round_half_even (x * 100)) in
      nat_str (n div 100) @ [46] @ chars_of_digits [n mod 100 div 10, n mod 10])"

end
