(* ===== verification/PyLines.thy ===== *)
theory PyLines
  imports PyConv
begin

text \<open>
  Line and white-space idioms of Python text that the graders share: \<open>str.splitlines\<close>, the last
  lines of an output, \<open>re.sub\<close> of white-space runs, \<open>str.replace\<close> of one character, \<open>str.lower\<close>.
\<close>

section \<open>Lines\<close>

definition line_break :: "nat \<Rightarrow> bool" where
  "line_break c \<longleftrightarrow> c \<in> {10, 11, 12, 13, 28, 29, 30, 133, 8232, 8233}"

fun lines_from :: "pystr \<Rightarrow> pystr \<Rightarrow> pystr list" where
  "lines_from acc [] = (if acc = [] then [] else [rev acc])"
| "lines_from acc [c] = (if line_break c then [rev acc] else [rev (c # acc)])"
| "lines_from acc (c # d # s) =
     (if c = 13 \<and> d = 10 then rev acc # lines_from [] s
      else if line_break c then rev acc # lines_from [] (d # s)
      else lines_from (c # acc) (d # s))"

definition split_lines :: "pystr \<Rightarrow> pystr list" where
  "split_lines s = lines_from [] s"

definition last_lines :: "nat \<Rightarrow> 'a list \<Rightarrow> 'a list" where
  "last_lines n xs = drop (length xs - n) xs"

lemma last_lines_all: "length xs \<le> n \<Longrightarrow> last_lines n xs = xs"
  by (simp add: last_lines_def)

section \<open>White space\<close>

text \<open>\<open>re.sub(r"\s+", " ", s)\<close>.\<close>

fun sub_ws :: "pystr \<Rightarrow> pystr" where
  "sub_ws [] = []"
| "sub_ws (c # s) =
     (if is_space c then (if s \<noteq> [] \<and> is_space (hd s) then sub_ws s else 32 # sub_ws s)
      else c # sub_ws s)"

text \<open>\<open>s.replace(c, "")\<close> and \<open>s.replace(c, d)\<close> for single characters.\<close>

definition remove_char :: "nat \<Rightarrow> pystr \<Rightarrow> pystr" where
  "remove_char c s = filter (\<lambda>x. x \<noteq> c) s"

definition replace_char :: "nat \<Rightarrow> nat \<Rightarrow> pystr \<Rightarrow> pystr" where
  "replace_char c d s = map (\<lambda>x. if x = c then d else x) s"

lemma strip_by_idem [simp]: "strip_by p (strip_by p s) = strip_by p s"
  using strip_by_hd [of p s] strip_by_last [of p s] by (intro strip_by_id) blast

lemma strip_by_Cons: "p c \<Longrightarrow> strip_by p (c # s) = strip_by p s"
  by (simp add: strip_by_def lstrip_by_def)

lemma strip_by_snoc: "p c \<Longrightarrow> strip_by p (s @ [c]) = strip_by p s"
  by (auto simp: strip_by_def lstrip_by_def rstrip_by_def dropWhile_append
      dropWhile_eq_Nil_conv [THEN iffD2])

section \<open>Lower case\<close>

text \<open>
  \<open>str.lower\<close>: exact on ASCII; elsewhere the interpreter's table \<open>low\<close>, which sees the whole
  string and the position, since the lower case of a final sigma depends on its neighbours.
\<close>

definition ascii_lower :: "nat \<Rightarrow> nat" where
  "ascii_lower c = (if 65 \<le> c \<and> c \<le> 90 then c + 32 else c)"

type_synonym lower_table = "pystr \<Rightarrow> nat \<Rightarrow> pystr"

definition py_lower :: "lower_table \<Rightarrow> pystr \<Rightarrow> pystr" where
  "py_lower low s =
     concat (map (\<lambda>i. if s ! i < 128 then [ascii_lower (s ! i)] else low s i) [0..<length s])"

lemma py_lower_ascii:
  assumes "\<forall>c \<in> set s. c < 128"
  shows "py_lower low s = map ascii_lower s"
proof -
  have "(if s ! i < 128 then [ascii_lower (s ! i)] else low s i) = [ascii_lower (s ! i)]"
    if "i \<in> set [0..<length s]" for i
    using that assms by (metis atLeastLessThan_iff nth_mem set_upt)
  then have "map (\<lambda>i. if s ! i < 128 then [ascii_lower (s ! i)] else low s i) [0..<length s] =
      map (\<lambda>i. [ascii_lower (s ! i)]) [0..<length s]"
    by (rule map_cong [OF refl])
  also have "\<dots> = map (\<lambda>c. [ascii_lower c]) s"
    by (intro nth_equalityI) simp_all
  finally have m: "map (\<lambda>i. if s ! i < 128 then [ascii_lower (s ! i)] else low s i) [0..<length s] =
      map (\<lambda>c. [ascii_lower c]) s" .
  show ?thesis unfolding py_lower_def m by (induction s) auto
qed

end
