(* ===== verification/PassFail.thy ===== *)
theory PassFail
  imports PyLines
begin

text \<open>
  Outcomes of the validators' shared plumbing: a call returns, exits with a NOT PASSED reason, or
  raises.  \<open>not_passed\<close> never returns, so a check is a \<open>run\<close> that stops at the first exit.
\<close>

datatype ('r, 'e, 'a) run = Ret 'a | Exit 'r | Raise 'e

fun bind_run :: "('r, 'e, 'a) run \<Rightarrow> ('a \<Rightarrow> ('r, 'e, 'b) run) \<Rightarrow> ('r, 'e, 'b) run" where
  "bind_run (Ret x) f = f x"
| "bind_run (Exit r) f = Exit r"
| "bind_run (Raise e) f = Raise e"

lemma bind_run_Ret: "bind_run m f = Ret y \<longleftrightarrow> (\<exists>x. m = Ret x \<and> f x = Ret y)"
  by (cases m) auto

definition not_passed_if :: "bool \<Rightarrow> 'r \<Rightarrow> ('r, 'e, unit) run" where
  "not_passed_if b r = (if b then Exit r else Ret ())"

lemma not_passed_if_Ret [simp]: "not_passed_if b r = Ret () \<longleftrightarrow> \<not> b"
  by (simp add: not_passed_if_def)

end
