(* ===== verification/PyAscii.thy ===== *)
theory PyAscii
  imports PyPrelude "HOL-Library.List_Lexorder" "HOL-Library.Char_ord"
begin

text \<open>
  Python string operations on \<open>string\<close> (code points below 256), for the components that work on
  paths, identifiers, command output and Markdown: splitting, lower case, the character classes
  the code uses.
\<close>

definition code_of :: "char \<Rightarrow> nat" where
  "code_of c = of_char c"

definition digit_char :: "char \<Rightarrow> bool" where
  "digit_char c \<longleftrightarrow> 48 \<le> code_of c \<and> code_of c \<le> 57"

definition space_char :: "char \<Rightarrow> bool" where
  "space_char c \<longleftrightarrow>
     (9 \<le> code_of c \<and> code_of c \<le> 13) \<or> (28 \<le> code_of c \<and> code_of c \<le> 32) \<or> code_of c = 133 \<or> code_of c = 160"

definition lower_char :: "char \<Rightarrow> char" where
  "lower_char c =
     (let n = code_of c in
      if (65 \<le> n \<and> n \<le> 90) \<or> (192 \<le> n \<and> n \<le> 222 \<and> n \<noteq> 215) then char_of (n + 32) else c)"

definition lower :: "string \<Rightarrow> string" where
  "lower s = map lower_char s"

definition strip :: "string \<Rightarrow> string" where
  "strip s = strip_by space_char s"

text \<open>\<open>s.split(sep)\<close> for a single character: at least one field, the separators dropped.\<close>

fun split_on :: "'a \<Rightarrow> 'a list \<Rightarrow> 'a list list" where
  "split_on sep [] = [[]]"
| "split_on sep (c # s) =
     (if c = sep then [] # split_on sep s
      else case split_on sep s of [] \<Rightarrow> [[c]] | w # ws \<Rightarrow> (c # w) # ws)"

text \<open>\<open>s.splitlines()\<close>: every line boundary ends a line, a carriage return takes its line feed along.\<close>

definition line_end :: "char \<Rightarrow> bool" where
  "line_end c \<longleftrightarrow> (10 \<le> code_of c \<and> code_of c \<le> 13) \<or> (28 \<le> code_of c \<and> code_of c \<le> 30) \<or> code_of c = 133"

fun splitlines_from :: "string \<Rightarrow> string \<Rightarrow> string list" where
  "splitlines_from acc [] = (if acc = [] then [] else [rev acc])"
| "splitlines_from acc (c # s) =
     (if code_of c = 13 then
        (case s of
           d # s' \<Rightarrow> if code_of d = 10 then rev acc # splitlines_from [] s' else rev acc # splitlines_from [] s
         | [] \<Rightarrow> [rev acc])
      else if line_end c then rev acc # splitlines_from [] s
      else splitlines_from (c # acc) s)"

definition splitlines :: "string \<Rightarrow> string list" where
  "splitlines s = splitlines_from [] s"

text \<open>The components of a slash-separated path, and its last one.\<close>

definition components :: "string \<Rightarrow> string list" where
  "components p = split_on CHR ''/'' p"

definition file_name :: "string \<Rightarrow> string" where
  "file_name p = last (components p)"

lemma split_on_nonempty [simp]: "split_on sep s \<noteq> []"
  by (induction s) (auto split: list.splits)

lemma split_on_join: "concat (map (\<lambda>w. sep # w) (split_on sep s)) = sep # s"
proof (induction s)
  case Nil
  then show ?case by simp
next
  case (Cons c s)
  show ?case
  proof (cases "c = sep")
    case True
    then show ?thesis using Cons by simp
  next
    case False
    then show ?thesis using Cons by (cases "split_on sep s") auto
  qed
qed

lemma split_on_clean: "w \<in> set (split_on sep s) \<Longrightarrow> sep \<notin> set w"
proof (induction s arbitrary: w)
  case Nil
  then show ?case by simp
next
  case (Cons c s)
  then show ?case by (cases "split_on sep s") (auto split: if_splits)
qed

lemma split_on_word: "sep \<notin> set w \<Longrightarrow> split_on sep (w @ sep # s) = w # split_on sep s"
  by (induction w) auto

lemma split_on_single: "sep \<notin> set w \<Longrightarrow> split_on sep w = [w]"
  by (induction w) auto

lemma startswith_dir:
  assumes "sep \<notin> set d"
  shows "startswith s (d @ [sep]) \<longleftrightarrow> hd (split_on sep s) = d \<and> length (split_on sep s) > 1"
proof
  assume "startswith s (d @ [sep])"
  then obtain r where "s = d @ sep # r" by (metis append.assoc append_Cons append_Nil startswith_split)
  then show "hd (split_on sep s) = d \<and> length (split_on sep s) > 1"
    using split_on_word [OF assms, of r] by (cases "split_on sep r") auto
next
  assume a: "hd (split_on sep s) = d \<and> length (split_on sep s) > 1"
  then obtain w ws where "split_on sep s = d # w # ws"
    by (cases "split_on sep s"; cases "tl (split_on sep s)") auto
  then have "sep # s = sep # d @ sep # w @ concat (map (\<lambda>w. sep # w) ws)"
    using split_on_join [of sep s] by simp
  then show "startswith s (d @ [sep])" by (simp add: startswith_def)
qed

end
