(* ===== verification/Json.thy ===== *)
theory Json
  imports PyConv
begin

text \<open>
  \<open>json.dumps\<close> and \<open>json.loads\<close> of the standard library with their default arguments: ASCII output
  with escapes and surrogate pairs, the separators comma-blank and colon-blank, and the strict
  parser.  A JSON number with a fraction or an exponent is kept as its text.
\<close>

datatype json =
    JNull
  | JBool bool
  | JInt int
  | JFloat pystr
  | JStr pystr
  | JList "json list"
  | JObj "(pystr \<times> json) list"

section \<open>Printing\<close>

definition hex_digit :: "nat \<Rightarrow> nat" where
  "hex_digit d = (if d < 10 then 48 + d else 87 + d)"

definition u4 :: "nat \<Rightarrow> pystr" where
  "u4 n = [92, 117, hex_digit (n div 4096 mod 16), hex_digit (n div 256 mod 16),
           hex_digit (n div 16 mod 16), hex_digit (n mod 16)]"

definition esc_char :: "nat \<Rightarrow> pystr" where
  "esc_char c =
     (if c = 34 then [92, 34] else if c = 92 then [92, 92] else if c = 10 then [92, 110]
      else if c = 13 then [92, 114] else if c = 9 then [92, 116] else if c = 12 then [92, 102]
      else if c = 8 then [92, 98] else if 32 \<le> c \<and> c \<le> 126 then [c]
      else if c < 65536 then u4 c
      else u4 (55296 + (c - 65536) div 1024) @ u4 (56320 + (c - 65536) mod 1024))"

definition dump_str :: "pystr \<Rightarrow> pystr" where
  "dump_str s = [34] @ concat (map esc_char s) @ [34]"

fun json_dumps :: "json \<Rightarrow> pystr" where
  "json_dumps JNull = u ''null''"
| "json_dumps (JBool b) = (if b then u ''true'' else u ''false'')"
| "json_dumps (JInt i) = int_str i"
| "json_dumps (JFloat t) = t"
| "json_dumps (JStr s) = dump_str s"
| "json_dumps (JList xs) = [91] @ join [44, 32] (map json_dumps xs) @ [93]"
| "json_dumps (JObj kvs) =
     [123] @ join [44, 32] (map (\<lambda>(k, v). dump_str k @ [58, 32] @ json_dumps v) kvs) @ [125]"

section \<open>Parsing\<close>

definition hex_value :: "nat \<Rightarrow> nat option" where
  "hex_value c =
     (if 48 \<le> c \<and> c \<le> 57 then Some (c - 48)
      else if 97 \<le> c \<and> c \<le> 102 then Some (c - 87)
      else if 65 \<le> c \<and> c \<le> 70 then Some (c - 55) else None)"

fun hex4 :: "pystr \<Rightarrow> (nat \<times> pystr) option" where
  "hex4 (a # b # c # d # s) =
     (case (hex_value a, hex_value b, hex_value c, hex_value d) of
        (Some a', Some b', Some c', Some d') \<Rightarrow> Some (4096 * a' + 256 * b' + 16 * c' + d', s)
      | _ \<Rightarrow> None)"
| "hex4 _ = None"

definition simple_escape :: "nat \<Rightarrow> nat option" where
  "simple_escape e = map_of [(34, 34), (92, 92), (47, 47), (110, 10), (114, 13), (116, 9), (102, 12), (98, 8)] e"

text \<open>One character of a string literal: the code point and the rest.\<close>

definition read_char :: "pystr \<Rightarrow> (nat \<times> pystr) option" where
  "read_char s =
     (case s of
        [] \<Rightarrow> None
      | c # r \<Rightarrow>
          if c < 32 then None
          else if c \<noteq> 92 then Some (c, r)
          else (case r of
              [] \<Rightarrow> None
            | e # r' \<Rightarrow>
                if e = 117 then
                  (case hex4 r' of
                     None \<Rightarrow> None
                   | Some (n, r'') \<Rightarrow>
                       if 55296 \<le> n \<and> n \<le> 56319 \<and> startswith r'' [92, 117] then
                         (case hex4 (drop 2 r'') of
                            None \<Rightarrow> None
                          | Some (m, r3) \<Rightarrow>
                              if 56320 \<le> m \<and> m \<le> 57343
                              then Some (65536 + 1024 * (n - 55296) + (m - 56320), r3)
                              else Some (n, r''))
                       else Some (n, r''))
                else map_option (\<lambda>c'. (c', r')) (simple_escape e)))"

fun read_str :: "nat \<Rightarrow> pystr \<Rightarrow> (pystr \<times> pystr) option" where
  "read_str 0 s = None"
| "read_str (Suc k) s =
     (if startswith s [34] then Some ([], tl s)
      else case read_char s of
        None \<Rightarrow> None
      | Some (c, r) \<Rightarrow> map_option (\<lambda>(t, r'). (c # t, r')) (read_str k r))"

definition json_ws :: "nat \<Rightarrow> bool" where
  "json_ws c \<longleftrightarrow> c = 32 \<or> c = 9 \<or> c = 10 \<or> c = 13"

definition skip :: "pystr \<Rightarrow> pystr" where
  "skip s = dropWhile json_ws s"

definition digits1 :: "pystr \<Rightarrow> pystr" where
  "digits1 s = takeWhile is_ascii_digit s"

definition read_number :: "pystr \<Rightarrow> (json \<times> pystr) option" where
  "read_number s =
     (let neg = startswith s [45]; t = (if neg then tl s else s);
          ds = (if startswith t [48] then [48] else digits1 t) in
      if ds = [] then None
      else
        let r = drop (length ds) t;
            frac = (if startswith r [46] \<and> digits1 (tl r) \<noteq> [] then [46] @ digits1 (tl r) else []);
            r2 = drop (length frac) r;
            sgn = (if startswith (tl r2) [43] \<or> startswith (tl r2) [45] then take 1 (tl r2) else []);
            ed = digits1 (drop (length sgn) (tl r2));
            ex = (if (startswith r2 [101] \<or> startswith r2 [69]) \<and> ed \<noteq> [] then [hd r2] @ sgn @ ed else []);
            r3 = drop (length ex) r2
        in if frac = [] \<and> ex = []
           then (let n = int (num_of_digits 0 (map (\<lambda>c. c - 48) ds)) in
                 if length ds \<le> 4300 then Some (JInt (if neg then - n else n), r3) else None)
           else Some (JFloat ((if neg then [45] else []) @ ds @ frac @ ex), r3))"

definition literals :: "(pystr \<times> json) list" where
  "literals =
     [(u ''null'', JNull), (u ''true'', JBool True), (u ''false'', JBool False), (u ''NaN'', JFloat (u ''NaN'')),
      (u ''Infinity'', JFloat (u ''Infinity'')), (u ''-Infinity'', JFloat (u ''-Infinity''))]"

definition read_scalar :: "pystr \<Rightarrow> (json \<times> pystr) option" where
  "read_scalar s =
     (case find (\<lambda>(w, v). startswith s w) literals of
        Some (w, v) \<Rightarrow> Some (v, drop (length w) s)
      | None \<Rightarrow> read_number s)"

text \<open>
  The recursive descent, with fuel; \<open>read_items\<close> and \<open>read_members\<close> read what follows an opening
  bracket, at least one element.
\<close>

fun read_value :: "nat \<Rightarrow> pystr \<Rightarrow> (json \<times> pystr) option"
  and read_items :: "nat \<Rightarrow> pystr \<Rightarrow> (json list \<times> pystr) option"
  and read_members :: "nat \<Rightarrow> pystr \<Rightarrow> ((pystr \<times> json) list \<times> pystr) option" where
  "read_value 0 s = None"
| "read_value (Suc k) s =
     (if startswith s [34] then map_option (\<lambda>(t, r). (JStr t, r)) (read_str (length s) (tl s))
      else if startswith s [91] then
        (if startswith (skip (tl s)) [93] then Some (JList [], tl (skip (tl s)))
         else map_option (\<lambda>(xs, r). (JList xs, r)) (read_items k (skip (tl s))))
      else if startswith s [123] then
        (if startswith (skip (tl s)) [125] then Some (JObj [], tl (skip (tl s)))
         else map_option (\<lambda>(kvs, r). (JObj (fold (\<lambda>(k, v). alist_set k v) kvs []), r))
                (read_members k (skip (tl s))))
      else read_scalar s)"
| "read_items 0 s = None"
| "read_items (Suc k) s =
     (case read_value k s of
        None \<Rightarrow> None
      | Some (v, r) \<Rightarrow>
          if startswith (skip r) [93] then Some ([v], tl (skip r))
          else if startswith (skip r) [44]
          then map_option (\<lambda>(vs, r'). (v # vs, r')) (read_items k (skip (tl (skip r))))
          else None)"
| "read_members 0 s = None"
| "read_members (Suc k) s =
     (if \<not> startswith s [34] then None
      else case read_str (length s) (tl s) of
        None \<Rightarrow> None
      | Some (key, r0) \<Rightarrow>
          if \<not> startswith (skip r0) [58] then None
          else case read_value k (skip (tl (skip r0))) of
            None \<Rightarrow> None
          | Some (v, r) \<Rightarrow>
              if startswith (skip r) [125] then Some ([(key, v)], tl (skip r))
              else if startswith (skip r) [44]
              then map_option (\<lambda>(kvs, r'). ((key, v) # kvs, r')) (read_members k (skip (tl (skip r))))
              else None)"

definition json_loads :: "pystr \<Rightarrow> json result" where
  "json_loads s =
     (case read_value (Suc (length s)) (skip s) of
        Some (v, r) \<Rightarrow> if skip r = [] then Inr v else Inl ValueError
      | None \<Rightarrow> Inl ValueError)"

section \<open>Reading back what was printed\<close>

definition code_point :: "nat \<Rightarrow> bool" where
  "code_point c \<longleftrightarrow> c < 55296 \<or> (57343 < c \<and> c < 1114112)"

fun json_ok :: "json \<Rightarrow> bool" where
  "json_ok JNull = True"
| "json_ok (JBool b) = True"
| "json_ok (JInt i) = (length (digits_of (nat \<bar>i\<bar>)) \<le> 4300)"
| "json_ok (JFloat t) = False"
| "json_ok (JStr s) = list_all code_point s"
| "json_ok (JList xs) = list_all json_ok xs"
| "json_ok (JObj kvs) =
     (distinct (map fst kvs) \<and> list_all (\<lambda>kv. list_all code_point (fst kv)) kvs \<and> list_all (\<lambda>kv. json_ok (snd kv)) kvs)"

lemma hex_value_digit: "d < 16 \<Longrightarrow> hex_value (hex_digit d) = Some d"
  by (auto simp: hex_value_def hex_digit_def)

lemma u4_split: "u4 n @ s = 92 # 117 # drop 2 (u4 n) @ s"
  by (simp add: u4_def)

lemma hex4_u4:
  assumes n: "n < 65536"
  shows "hex4 (drop 2 (u4 n) @ s) = Some (n, s)"
proof -
  have hv: "hex_value (hex_digit (m mod 16)) = Some (m mod 16)" for m by (simp add: hex_value_digit)
  have top: "n div 4096 mod 16 = n div 4096" using n by (simp add: less_mult_imp_div_less)
  then have hv': "hex_value (hex_digit (n div 4096)) = Some (n div 4096)" using hv [of "n div 4096"] by simp
  have "n = 16 * (n div 16) + n mod 16" "n div 16 = 16 * (n div 256) + n div 16 mod 16"
    "n div 256 = 16 * (n div 4096) + n div 256 mod 16"
    using div_mult2_eq [of n 16 16] div_mult2_eq [of n 256 16] by auto
  then have "4096 * (n div 4096) + 256 * (n div 256 mod 16) + 16 * (n div 16 mod 16) + n mod 16 = n"
    by linarith
  then show ?thesis by (simp add: u4_def hv hv' top)
qed

lemma read_char_u4:
  assumes "n < 65536" "\<not> (55296 \<le> n \<and> n \<le> 56319)"
  shows "read_char (u4 n @ s) = Some (n, s)"
  unfolding u4_split read_char_def list.case using hex4_u4 [OF assms(1), of s] assms(2)
  by (auto simp del: drop_append)

lemma read_char_pair:
  assumes "65536 \<le> c" "c < 1114112"
  shows "read_char (u4 (55296 + (c - 65536) div 1024) @ u4 (56320 + (c - 65536) mod 1024) @ s) = Some (c, s)"
proof -
  let ?h = "55296 + (c - 65536) div 1024" and ?l = "56320 + (c - 65536) mod 1024"
  have h: "?h \<le> 56319" using assms by (auto simp: less_mult_imp_div_less intro: less_Suc_eq_le [THEN iffD1])
  have l: "?l \<le> 57343" using mod_less_divisor [of 1024 "c - 65536"] by linarith
  have c: "65536 + 1024 * ((c - 65536) div 1024) + (c - 65536) mod 1024 = c"
    using assms(1) mult_div_mod_eq [of 1024 "c - 65536"] by linarith
  have a: "hex4 (drop 2 (u4 ?h) @ u4 ?l @ s) = Some (?h, u4 ?l @ s)" using h by (intro hex4_u4) simp
  have b: "hex4 (drop 2 (u4 ?l) @ s) = Some (?l, s)" using l by (intro hex4_u4) simp
  have s2: "startswith (u4 ?l @ s) [92, 117]" "drop 2 (u4 ?l @ s) = drop 2 (u4 ?l) @ s"
    by (simp_all add: u4_def del: drop_append)
  show ?thesis
    unfolding u4_split [of ?h] read_char_def list.case using h l c by (simp add: a s2 b del: drop_append)
qed

lemma read_esc_char:
  assumes "code_point c"
  shows "read_char (esc_char c @ s) = Some (c, s) \<and> \<not> startswith (esc_char c @ s) [34]"
proof -
  consider "c \<in> {34, 92, 10, 13, 9, 12, 8}" | "c \<notin> {34, 92, 10, 13, 9, 12, 8}" "32 \<le> c" "c \<le> 126"
    | "c \<notin> {34, 92, 10, 13, 9, 12, 8}" "c < 32 \<or> 126 < c" "c < 65536" | "65536 \<le> c" by fastforce
  then show ?thesis
  proof cases
    case 1
    then show ?thesis by (auto simp: esc_char_def read_char_def simple_escape_def)
  next
    case 2
    then show ?thesis by (simp add: esc_char_def read_char_def)
  next
    case 3
    then have e: "esc_char c = u4 c" by (auto simp: esc_char_def)
    have "\<not> (55296 \<le> c \<and> c \<le> 56319)" using assms by (auto simp: code_point_def)
    then show ?thesis using read_char_u4 [of c s] 3 unfolding e by (simp add: u4_def)
  next
    case 4
    then have "esc_char c = u4 (55296 + (c - 65536) div 1024) @ u4 (56320 + (c - 65536) mod 1024)"
      by (simp add: esc_char_def)
    then show ?thesis using read_char_pair [of c s] 4 assms by (simp add: code_point_def u4_def)
  qed
qed

lemma read_dump_str:
  "list_all code_point s \<Longrightarrow> length s < k \<Longrightarrow>
     read_str k (concat (map esc_char s) @ 34 # r) = Some (s, r)"
proof (induction s arbitrary: k)
  case Nil
  then show ?case by (cases k) auto
next
  case (Cons c s)
  then obtain j where k: "k = Suc j" by (cases k) auto
  have "read_str j (concat (map esc_char s) @ 34 # r) = Some (s, r)" using Cons k by simp
  then show ?case using read_esc_char [of c "concat (map esc_char s) @ 34 # r"] Cons.prems k by simp
qed

lemma esc_char_length: "1 \<le> length (esc_char c)"
  by (simp add: esc_char_def u4_def)

lemma dump_str_length: "length s \<le> length (concat (map esc_char s))"
proof (induction s)
  case Nil
  then show ?case by simp
next
  case (Cons c s)
  then show ?case using esc_char_length [of c] by simp
qed

lemma read_dumped:
  assumes "list_all code_point s"
  shows "startswith (dump_str s @ r) [34]" "read_str (length (dump_str s @ r)) (tl (dump_str s @ r)) = Some (s, r)"
  using read_dump_str [OF assms, of "length (dump_str s @ r)" r] dump_str_length [of s]
  by (simp_all add: dump_str_def)

definition stop :: "pystr \<Rightarrow> bool" where
  "stop r \<longleftrightarrow> r = [] \<or> hd r \<in> {44, 93, 125}"

lemma stop_simps [simp]: "stop []" "stop (44 # r)" "stop (93 # r)" "stop (125 # r)"
  by (simp_all add: stop_def)

lemma hd_digits_of: "hd (digits_of n) = 0 \<Longrightarrow> n = 0"
proof (induction n rule: digits_of.induct)
  case (1 n)
  show ?case
  proof (cases "n < 10")
    case True
    then show ?thesis using 1 by (simp add: digits_of.simps)
  next
    case False
    then have "hd (digits_of n) = hd (digits_of (n div 10))"
      by (subst digits_of.simps) simp
    then show ?thesis using 1 False by simp
  qed
qed

lemma ascii_nat_str: "c \<in> set (nat_str n) \<Longrightarrow> is_ascii_digit c"
  using nat_str_chars by (simp add: is_ascii_digit_def)

lemma digits1_nat_str: "stop r \<Longrightarrow> digits1 (nat_str n @ r) = nat_str n"
  using ascii_nat_str [of _ n]
  by (cases r) (auto simp: digits1_def stop_def is_ascii_digit_def takeWhile_tail)

lemma map_sub_nat_str: "map (\<lambda>c. c - 48) (nat_str n) = digits_of n"
  by (simp add: nat_str_def chars_of_digits_def comp_def)

lemma number_digits:
  assumes "stop r"
  shows "(if startswith (nat_str n @ r) [48] then [48] else digits1 (nat_str n @ r)) = nat_str n"
proof (cases "startswith (nat_str n @ r) [48]")
  case True
  then have "hd (digits_of n) = 0"
    by (cases "digits_of n") (auto simp: nat_str_def chars_of_digits_def)
  then have "n = 0" by (rule hd_digits_of)
  then show ?thesis using True by (simp add: nat_str_def chars_of_digits_def digits_of.simps)
next
  case False
  then show ?thesis using digits1_nat_str [OF assms] by simp
qed

lemma stop_no_tail:
  "stop r \<Longrightarrow> \<not> startswith r [46] \<and> \<not> startswith r [101] \<and> \<not> startswith r [69]"
  by (cases r) (auto simp: stop_def)

lemma read_number_int:
  assumes "stop r" "length (digits_of (nat \<bar>i\<bar>)) \<le> 4300"
  shows "read_number (int_str i @ r) = Some (JInt i, r)"
proof -
  have len: "length (nat_str (nat \<bar>i\<bar>)) \<le> 4300"
    using assms(2) by (simp add: nat_str_def chars_of_digits_def)
  have h: "\<not> startswith (nat_str n @ r) [45]" for n
    using nat_str_chars [of "hd (nat_str n)" n] by (cases "nat_str n") auto
  define neg where "neg = (i < 0)"
  have s: "int_str i @ r = (if neg then 45 # nat_str (nat \<bar>i\<bar>) @ r else nat_str (nat \<bar>i\<bar>) @ r)"
    by (simp add: int_str_def neg_def)
  have sw: "startswith (int_str i @ r) [45] = neg" and
    tl: "(if neg then tl (int_str i @ r) else int_str i @ r) = nat_str (nat \<bar>i\<bar>) @ r"
    using h by (simp_all add: s)
  have v: "(if neg then - int (num_of_digits 0 (map (\<lambda>c. c - 48) (nat_str (nat \<bar>i\<bar>))))
      else int (num_of_digits 0 (map (\<lambda>c. c - 48) (nat_str (nat \<bar>i\<bar>))))) = i"
    by (simp add: map_sub_nat_str num_of_digits_of neg_def)
  show ?thesis
    unfolding read_number_def Let_def sw tl number_digits [OF assms(1)]
    using len stop_no_tail [OF assms(1)] v by simp
qed

lemma no_literal:
  assumes "s \<noteq> []" "hd s = 45 \<and> tl s \<noteq> [] \<and> is_ascii_digit (hd (tl s)) \<or> is_ascii_digit (hd s)"
  shows "find (\<lambda>(w, v). startswith s w) literals = None"
proof -
  obtain c t where s: "s = c # t" using assms(1) by (cases s) auto
  show ?thesis using assms(2) unfolding s by (cases t) (auto simp: literals_def is_ascii_digit_def)
qed

lemma read_scalar_int:
  assumes "stop r" "length (digits_of (nat \<bar>i\<bar>)) \<le> 4300"
  shows "read_scalar (int_str i @ r) = Some (JInt i, r)"
proof -
  have "is_ascii_digit (hd (nat_str n @ r))" for n
    using ascii_nat_str [of "hd (nat_str n)" n] by simp
  then have "find (\<lambda>(w, v). startswith (int_str i @ r) w) literals = None"
    by (intro no_literal) (auto simp: int_str_def)
  then show ?thesis using read_number_int [OF assms] by (simp add: read_scalar_def)
qed

lemma int_str_hd: "hd (int_str i) = 45 \<or> 48 \<le> hd (int_str i) \<and> hd (int_str i) < 58"
  using nat_str_chars [of "hd (nat_str (nat i))" "nat i"] by (auto simp: int_str_def)

lemma dumps_hd:
  assumes "json_ok v"
  shows "json_dumps v \<noteq> [] \<and> \<not> json_ws (hd (json_dumps v)) \<and> hd (json_dumps v) \<notin> {93, 125}"
proof (cases v)
  case (JInt i)
  then show ?thesis using int_str_hd [of i] by (auto simp: json_ws_def int_str_def)
qed (use assms in \<open>auto simp: json_ws_def dump_str_def\<close>)

lemma skip_dumps: "json_ok v \<Longrightarrow> skip (json_dumps v @ r) = json_dumps v @ r"
  using dumps_hd [of v] by (cases "json_dumps v") (auto simp: skip_def)

lemma skip_stop: "stop r \<Longrightarrow> skip r = r"
  by (cases r) (auto simp: skip_def stop_def json_ws_def)

lemma read_items_join:
  assumes "\<forall>x \<in> set xs. json_ok x \<and> (\<forall>k r. length (json_dumps x) \<le> k \<longrightarrow> stop r \<longrightarrow>
      read_value k (json_dumps x @ r) = Some (x, r))"
    and "xs \<noteq> []" "Suc (length (join [44, 32] (map json_dumps xs))) \<le> j"
  shows "read_items j (join [44, 32] (map json_dumps xs) @ 93 # r) = Some (xs, r)"
  using assms
proof (induction xs arbitrary: j)
  case Nil
  then show ?case by simp
next
  case (Cons x xs)
  then obtain k where j: "j = Suc k" by (cases j) auto
  show ?case
  proof (cases xs)
    case Nil
    then show ?thesis using Cons.prems j by (simp add: skip_stop)
  next
    case (Cons y ys)
    let ?t = "join [44, 32] (map json_dumps xs)"
    have t: "join [44, 32] (map json_dumps (x # xs)) = json_dumps x @ [44, 32] @ ?t"
      using Cons by simp
    have rv: "read_value k (json_dumps x @ 44 # 32 # ?t @ 93 # r) = Some (x, 44 # 32 # ?t @ 93 # r)"
      using Cons.prems(1,3) t j by simp
    have rest: "skip (32 # ?t @ 93 # r) = ?t @ 93 # r"
    proof -
      have "json_ok y" using Cons.prems(1) Cons by simp
      then have "?t \<noteq> [] \<and> \<not> json_ws (hd ?t)"
        using dumps_hd [of y] Cons by (cases ys) auto
      then show ?thesis by (cases ?t) (auto simp: skip_def json_ws_def)
    qed
    have "read_items k (?t @ 93 # r) = Some (xs, r)"
      using Cons.IH [of k] Cons.prems t j Cons by simp
    then show ?thesis unfolding t j using rv rest by (simp add: skip_stop)
  qed
qed

abbreviation dump_member :: "pystr \<times> json \<Rightarrow> pystr" where
  "dump_member \<equiv> \<lambda>(k, v). dump_str k @ [58, 32] @ json_dumps v"

lemma dump_str_nonempty [simp]: "dump_str s \<noteq> []" "hd (dump_str s) = 34"
  by (simp_all add: dump_str_def)

lemma dump_str_length1: "2 \<le> length (dump_str s)"
  by (simp add: dump_str_def)

lemma read_members_join:
  assumes "\<forall>(key, x) \<in> set kvs. list_all code_point key \<and> json_ok x \<and>
      (\<forall>k r. length (json_dumps x) \<le> k \<longrightarrow> stop r \<longrightarrow> read_value k (json_dumps x @ r) = Some (x, r))"
    and "kvs \<noteq> []" "Suc (length (join [44, 32] (map dump_member kvs))) \<le> j"
  shows "read_members j (join [44, 32] (map dump_member kvs) @ 125 # r) = Some (kvs, r)"
  using assms
proof (induction kvs arbitrary: j)
  case Nil
  then show ?case by simp
next
  case (Cons kv kvs)
  obtain key x where kv: "kv = (key, x)" by fastforce
  obtain k where j: "j = Suc k" using Cons.prems by (cases j) auto
  have cp: "list_all code_point key" and ok: "json_ok x" using Cons.prems(1) kv by auto
  have step: "read_members (Suc k) (dump_member kv @ t) =
      (case read_value k (json_dumps x @ t) of
         None \<Rightarrow> None
       | Some (v, r) \<Rightarrow>
           if startswith (skip r) [125] then Some ([(key, v)], tl (skip r))
           else if startswith (skip r) [44]
           then map_option (\<lambda>(kvs, r'). ((key, v) # kvs, r')) (read_members k (skip (tl (skip r))))
           else None)" for t
  proof -
    have e: "dump_member kv @ t = dump_str key @ 58 # 32 # json_dumps x @ t" by (simp add: kv)
    have sk: "skip (58 # 32 # json_dumps x @ t) = 58 # 32 # json_dumps x @ t"
      "skip (32 # json_dumps x @ t) = json_dumps x @ t"
      using skip_dumps [OF ok] by (simp_all add: skip_def json_ws_def)
    show ?thesis
      unfolding e read_members.simps using read_dumped [OF cp, of "58 # 32 # json_dumps x @ t"]
      by (simp add: sk)
  qed
  show ?case
  proof (cases kvs)
    case Nil
    then have "read_value k (json_dumps x @ 125 # r) = Some (x, 125 # r)"
      using Cons.prems kv j by simp
    moreover have "join [44, 32] (map dump_member (kv # kvs)) = dump_member kv" using Nil by simp
    ultimately show ?thesis using Nil unfolding j by (simp only: step) (simp add: skip_stop kv)
  next
    case (Cons kv' kvs')
    let ?t = "join [44, 32] (map dump_member kvs)"
    have t: "join [44, 32] (map dump_member (kv # kvs)) = dump_member kv @ [44, 32] @ ?t"
      using Cons by simp
    have rv: "read_value k (json_dumps x @ 44 # 32 # ?t @ 125 # r) = Some (x, 44 # 32 # ?t @ 125 # r)"
      using Cons.prems(1,3) t j kv by simp
    have "?t \<noteq> [] \<and> hd ?t = 34" using Cons by (cases kvs'; cases kv') auto
    then have rest: "skip (32 # ?t @ 125 # r) = ?t @ 125 # r"
      by (cases ?t) (auto simp: skip_def json_ws_def)
    have ih: "read_members k (?t @ 125 # r) = Some (kvs, r)"
      using Cons.IH [of k] Cons.prems t j Cons by simp
    have "(dump_member kv @ [44, 32] @ ?t) @ 125 # r = dump_member kv @ 44 # 32 # ?t @ 125 # r" by simp
    then show ?thesis unfolding t j using rv rest ih
      by (simp only: step) (simp add: skip_stop kv)
  qed
qed

lemma fold_alist_set_distinct:
  "distinct (map fst (acc @ kvs)) \<Longrightarrow> fold (\<lambda>(k, v). alist_set k v) kvs acc = acc @ kvs"
proof (induction kvs arbitrary: acc)
  case Nil
  then show ?case by simp
next
  case (Cons kv kvs)
  have snoc: "k \<notin> fst ` set acc \<Longrightarrow> alist_set k v acc = acc @ [(k, v)]" for k v
    by (induction acc) auto
  show ?case using Cons.prems Cons.IH [of "acc @ [kv]"] snoc by (cases kv) auto
qed

lemma startswith_hd: "s \<noteq> [] \<Longrightarrow> startswith (s @ r) [c] \<longleftrightarrow> hd s = c"
  by (cases s) auto

lemma int_start:
  "\<not> startswith (int_str i @ r) [34]" "\<not> startswith (int_str i @ r) [91]" "\<not> startswith (int_str i @ r) [123]"
proof -
  have ne: "int_str i \<noteq> []" by (simp add: int_str_def)
  then show "\<not> startswith (int_str i @ r) [34]" "\<not> startswith (int_str i @ r) [91]"
    "\<not> startswith (int_str i @ r) [123]"
    using int_str_hd [of i] by (auto simp: startswith_hd)
qed

lemma read_value_dumps:
  "json_ok v \<Longrightarrow> length (json_dumps v) \<le> k \<Longrightarrow> stop r \<Longrightarrow> read_value k (json_dumps v @ r) = Some (v, r)"
proof (induction v arbitrary: k r)
  case JNull
  then show ?case by (cases k) (auto simp: read_scalar_def literals_def)
next
  case (JBool b)
  then show ?case by (cases k; cases b) (auto simp: read_scalar_def literals_def)
next
  case (JInt i)
  then show ?case
    using read_scalar_int [of r i] int_start [of i r] by (cases k) (auto simp: int_str_def split: if_splits)
next
  case (JFloat t)
  then show ?case by simp
next
  case (JStr s)
  then show ?case using read_dumped [of s r] dump_str_length1 [of s] by (cases k) auto
next
  case (JList xs)
  then obtain j where k: "k = Suc j" by (cases k) auto
  show ?case
  proof (cases "xs = []")
    case True
    then show ?thesis using k by (simp add: skip_def json_ws_def)
  next
    case False
    have all: "\<forall>x \<in> set xs. json_ok x \<and> (\<forall>k r. length (json_dumps x) \<le> k \<longrightarrow> stop r \<longrightarrow>
        read_value k (json_dumps x @ r) = Some (x, r))"
      using JList.IH JList.prems(1) by (auto simp: list_all_iff)
    let ?t = "join [44, 32] (map json_dumps xs)"
    obtain y ys where xs: "xs = y # ys" using False by (cases xs) auto
    then have h: "?t \<noteq> [] \<and> \<not> json_ws (hd ?t) \<and> hd ?t \<noteq> 93"
      using all dumps_hd [of y] by (cases ys) auto
    then have "skip (?t @ 93 # r) = ?t @ 93 # r" "\<not> startswith (?t @ 93 # r) [93]"
      by (cases ?t; auto simp: skip_def)+
    then show ?thesis
      using read_items_join [OF all False, of j r] JList.prems(2) k by simp
  qed
next
  case (JObj kvs)
  then obtain j where k: "k = Suc j" by (cases k) auto
  show ?case
  proof (cases "kvs = []")
    case True
    then show ?thesis using k by (simp add: skip_def json_ws_def)
  next
    case False
    have all: "\<forall>(key, x) \<in> set kvs. list_all code_point key \<and> json_ok x \<and>
        (\<forall>k r. length (json_dumps x) \<le> k \<longrightarrow> stop r \<longrightarrow> read_value k (json_dumps x @ r) = Some (x, r))"
      using JObj.IH JObj.prems(1) by (fastforce simp: list_all_iff)
    let ?t = "join [44, 32] (map dump_member kvs)"
    obtain y ys where kvs: "kvs = y # ys" using False by (cases kvs) auto
    then have h: "?t \<noteq> [] \<and> hd ?t = 34"
      by (cases ys; cases y) auto
    then have "skip (?t @ 125 # r) = ?t @ 125 # r" "\<not> startswith (?t @ 125 # r) [125]"
      by (cases ?t; auto simp: skip_def json_ws_def)+
    moreover have "fold (\<lambda>(k, v). alist_set k v) kvs [] = kvs"
      using fold_alist_set_distinct [of "[]" kvs] JObj.prems(1) by simp
    ultimately show ?thesis
      using read_members_join [OF all False, of j r] JObj.prems(2) k by simp
  qed
qed

theorem json_loads_dumps: "json_ok v \<Longrightarrow> json_loads (json_dumps v) = Inr v"
  using read_value_dumps [of v "Suc (length (json_dumps v))" "[]"] skip_dumps [of v "[]"]
  by (simp add: json_loads_def skip_def)

interpretation json_codec: text_codec "\<lambda>v. Inr (json_dumps v)" json_loads "\<lambda>v. v" json_ok
  by unfold_locales (auto simp: json_loads_dumps)

end
