(* ===== verification/DesignDoc.thy ===== *)
theory DesignDoc
  imports PassFail PyAscii Json
begin

text \<open>
  The two grading gates of 17-system-design/harness/common.py: the structural checks of a design
  document (headings, minimum lengths, placeholders, keywords, quantitative claims, answers that
  do not restate the questions) and the numeric checks of a capacity model.  Files and the import
  of the learner's module are parameters; an outcome is a returned value, the exit that
  \<open>not_passed\<close> makes, or an exception with its formatted text.
\<close>

section \<open>Outcomes\<close>

datatype problem =
    QMissing pystr
  | QPlaceholder pystr
  | QVerbatim pystr
  | QTooShort pystr nat nat
  | QRestates pystr nat nat

datatype reason =
    Uncaught pystr
  | WorkloadMissing
  | WorkloadUnreadable pystr
  | WorkloadNotJson
  | WorkloadNotObject json
  | NotANumber pystr
  | GotNaN pystr
  | NotClose pystr
  | ModuleMissing
  | NoModuleSpec
  | ImportFailed pystr
  | MissingCallables "pystr list"
  | FileMissing pystr
  | FileEmpty pystr
  | HasPlaceholder pystr
  | MissingSections "pystr list"
  | SectionsTooShort "(pystr \<times> nat \<times> nat) list"
  | FewKeywords nat nat
  | FewNumbers nat nat
  | FewAnswers nat nat "problem list"

type_synonym 'a checked = "(reason, pystr, 'a) run"

text \<open>The last non-empty line of an error text; \<open>guarded\<close> reports it instead of the traceback.\<close>

definition last_line :: "pystr \<Rightarrow> pystr" where
  "last_line t =
     (case find (\<lambda>l. strip_by is_space l \<noteq> []) (rev (split_lines t)) of
        Some l \<Rightarrow> strip_by is_space l
      | None \<Rightarrow> u ''(no error message)'')"

definition guarded :: "'a checked \<Rightarrow> 'a checked" where
  "guarded m = (case m of Raise t \<Rightarrow> Exit (Uncaught (last_line t)) | Ret x \<Rightarrow> Ret x | Exit r \<Rightarrow> Exit r)"

section \<open>Capacity model\<close>

text \<open>A path on disk: absent, not readable, not UTF-8, or text.\<close>

datatype doc = Absent | Unreadable pystr | Undecodable pystr | Text pystr

definition load_workload :: "doc \<Rightarrow> (pystr \<times> json) list checked" where
  "load_workload d =
     (case d of
        Absent \<Rightarrow> Exit WorkloadMissing
      | Unreadable e \<Rightarrow> Exit (WorkloadUnreadable e)
      | Undecodable e \<Rightarrow> Raise e
      | Text t \<Rightarrow>
          (case json_loads t of
             Inl _ \<Rightarrow> Exit WorkloadNotJson
           | Inr (JObj kvs) \<Rightarrow> Ret kvs
           | Inr j \<Rightarrow> Exit (WorkloadNotObject j)))"

text \<open>A value the learner's code returns: what \<open>check_close\<close> distinguishes.\<close>

datatype pyval = PNone | PBool bool | PInt int | PFloat rat | PInf bool | PNaN | POther

text \<open>\<open>math.isclose\<close> of finite values, on doubles.\<close>

definition isclose :: "rat \<Rightarrow> rat \<Rightarrow> rat \<Rightarrow> rat \<Rightarrow> bool" where
  "isclose a b rel_tol abs_tol \<longleftrightarrow>
     a = b \<or>
     (let diff = \<bar>fl (b - a)\<bar>
      in diff \<le> \<bar>fl (rel_tol * b)\<bar> \<or> diff \<le> \<bar>fl (rel_tol * a)\<bar> \<or> diff \<le> abs_tol)"

definition check_close :: "pyval \<Rightarrow> rat \<Rightarrow> rat \<Rightarrow> pystr \<Rightarrow> unit checked" where
  "check_close actual expected rel_tol label =
     (case actual of
        PInt i \<Rightarrow> not_passed_if (\<not> isclose (fl (of_int i)) expected rel_tol (fl (1 / 10 ^ 9))) (NotClose label)
      | PFloat x \<Rightarrow> not_passed_if (\<not> isclose x expected rel_tol (fl (1 / 10 ^ 9))) (NotClose label)
      | PInf _ \<Rightarrow> Exit (NotClose label)
      | PNaN \<Rightarrow> Exit (GotNaN label)
      | _ \<Rightarrow> Exit (NotANumber label))"

text \<open>
  The import of \<open>src/estimate.py\<close>: the loader finds no specification, or running the module ends
  with its public names and whether each is callable, with an import or syntax error, or with
  another exception.
\<close>

datatype loaded = NoSpec | Loaded "(pystr \<times> bool) list" | ImportError pystr | OtherError pystr

definition import_estimate :: "loaded option \<Rightarrow> (pystr \<times> bool) list checked" where
  "import_estimate m =
     (case m of
        None \<Rightarrow> Exit ModuleMissing
      | Some NoSpec \<Rightarrow> Exit NoModuleSpec
      | Some (Loaded names) \<Rightarrow> Ret names
      | Some (ImportError e) \<Rightarrow> Exit (ImportFailed e)
      | Some (OtherError e) \<Rightarrow> Raise e)"

definition check_estimate_module :: "(pystr \<times> bool) list \<Rightarrow> pystr list \<Rightarrow> unit checked" where
  "check_estimate_module names required =
     (let missing = filter (\<lambda>n. map_of names n \<noteq> Some True) required
      in not_passed_if (missing \<noteq> []) (MissingCallables missing))"

section \<open>Reading and splitting a document\<close>

type_synonym files = "pystr \<Rightarrow> doc"

definition read_doc :: "files \<Rightarrow> pystr \<Rightarrow> pystr checked" where
  "read_doc files path =
     (case files path of
        Absent \<Rightarrow> Exit (FileMissing path)
      | Unreadable e \<Rightarrow> Raise e
      | Undecodable e \<Rightarrow> Raise e
      | Text t \<Rightarrow> if strip_by is_space t = [] then Exit (FileEmpty path) else Ret t)"

text \<open>
  The heading pattern: the marker at the start of a line, blanks or tabs, at least one character,
  trailing blanks or tabs.  When nothing but blanks follows, the last of them is the heading text
  and strips to the empty string.
\<close>

definition blank :: "nat \<Rightarrow> bool" where
  "blank c \<longleftrightarrow> c = 32 \<or> c = 9"

definition heading_of :: "nat \<Rightarrow> pystr \<Rightarrow> pystr option" where
  "heading_of level line =
     (let rest = drop level line in
      if startswith line (replicate level 35) \<and> rest \<noteq> [] \<and> blank (hd rest) \<and> tl rest \<noteq> []
      then Some (strip_by is_space (rstrip_by blank (lstrip_by blank rest)))
      else None)"

text \<open>
  The text is read line by line; a heading opens a section that runs to the next heading.  The
  accumulator holds the heading of the open section and its text so far, a line feed before
  every line.  A repeated heading keeps its place in the dict and takes the later text.
\<close>

definition close_section ::
  "(pystr \<times> pystr) option \<Rightarrow> (pystr \<times> pystr) list \<Rightarrow> (pystr \<times> pystr) list" where
  "close_section cur secs =
     (case cur of None \<Rightarrow> secs | Some (h, body) \<Rightarrow> alist_set h (strip_by is_space body) secs)"

fun sections_from ::
  "nat \<Rightarrow> (pystr \<times> pystr) option \<Rightarrow> (pystr \<times> pystr) list \<Rightarrow> pystr list \<Rightarrow> (pystr \<times> pystr) list" where
  "sections_from level cur secs [] = close_section cur secs"
| "sections_from level cur secs (l # ls) =
     (case heading_of level l of
        Some h \<Rightarrow> sections_from level (Some (h, [])) (close_section cur secs) ls
      | None \<Rightarrow> sections_from level (map_option (\<lambda>(h, body). (h, body @ [10] @ l)) cur) secs ls)"

definition parse_headings :: "nat \<Rightarrow> pystr \<Rightarrow> (pystr \<times> pystr) list" where
  "parse_headings level t = sections_from level None [] (split_on 10 t)"

definition parse_sections :: "pystr \<Rightarrow> (pystr \<times> pystr) list" where
  "parse_sections t = parse_headings 2 t"

definition parse_subsections :: "pystr \<Rightarrow> (pystr \<times> pystr) list" where
  "parse_subsections t = parse_headings 3 t"

section \<open>Structure\<close>

definition placeholder_markers :: "pystr list" where
  "placeholder_markers = [u ''[fill in'', u ''[FILL IN'', u ''TODO:'', u ''<your answer'', u ''[replace'']"

definition has_placeholder :: "pystr \<Rightarrow> bool" where
  "has_placeholder body \<longleftrightarrow> list_ex (\<lambda>m. contains m body) placeholder_markers"

definition check_no_placeholders :: "pystr \<Rightarrow> pystr \<Rightarrow> unit checked" where
  "check_no_placeholders body label = not_passed_if (has_placeholder body) (HasPlaceholder label)"

datatype min_chars = Same nat | PerHeading "(pystr \<times> nat) list"

fun min_for :: "min_chars \<Rightarrow> pystr \<Rightarrow> nat" where
  "min_for (Same n) h = n"
| "min_for (PerHeading m) h =
     (case map_of m h of
        Some n \<Rightarrow> n
      | None \<Rightarrow> (case map_of m (u ''_default'') of Some n \<Rightarrow> n | None \<Rightarrow> 0))"

definition body_of :: "(pystr \<times> pystr) list \<Rightarrow> pystr \<Rightarrow> pystr" where
  "body_of secs h = (case map_of secs h of Some b \<Rightarrow> b | None \<Rightarrow> [])"

fun all_clean :: "(pystr \<times> pystr) list \<Rightarrow> pystr list \<Rightarrow> unit checked" where
  "all_clean secs [] = Ret ()"
| "all_clean secs (h # hs) =
     bind_run (check_no_placeholders (body_of secs h) (u ''section '' @ [39] @ h @ [39]))
       (\<lambda>_. all_clean secs hs)"

definition short_sections :: "min_chars \<Rightarrow> (pystr \<times> pystr) list \<Rightarrow> pystr list \<Rightarrow> (pystr \<times> nat \<times> nat) list" where
  "short_sections mc secs required =
     map (\<lambda>h. (h, length (strip_by is_space (body_of secs h)), min_for mc h))
       (filter (\<lambda>h. length (strip_by is_space (body_of secs h)) < min_for mc h) required)"

definition check_sections :: "files \<Rightarrow> pystr \<Rightarrow> pystr list \<Rightarrow> min_chars \<Rightarrow> (pystr \<times> pystr) list checked" where
  "check_sections files path required mc =
     bind_run (read_doc files path) (\<lambda>t.
       let secs = parse_sections t;
           missing = filter (\<lambda>h. map_of secs h = None) required
       in bind_run (not_passed_if (missing \<noteq> []) (MissingSections missing)) (\<lambda>_.
          let short = short_sections mc secs required
          in bind_run (not_passed_if (short \<noteq> []) (SectionsTooShort short)) (\<lambda>_.
             bind_run (all_clean secs required) (\<lambda>_. Ret secs))))"

definition check_keywords :: "lower_table \<Rightarrow> pystr \<Rightarrow> pystr list \<Rightarrow> nat \<Rightarrow> unit checked" where
  "check_keywords low body keywords min_hits =
     (let lowered = py_lower low body;
          hits = remdups (filter (\<lambda>kw. contains (py_lower low kw) lowered) keywords)
      in not_passed_if (length hits < min_hits) (FewKeywords (length hits) min_hits))"

section \<open>Quantitative claims\<close>

text \<open>
  The tokens of \<open>\d(?:[\d,_]*\d)?(?:\.\d+)?(?:%|[a-zA-Z]{1,4})?\<close>: a digit, the longest run of
  digits, commas and underscores that ends in a digit, a fraction, and a per cent sign or up to
  four letters.
\<close>

definition num_body :: "nat \<Rightarrow> bool" where
  "num_body c \<longleftrightarrow> is_digit c \<or> c = 44 \<or> c = 95"

definition fraction_len :: "pystr \<Rightarrow> nat" where
  "fraction_len s =
     (case s of
        c # t \<Rightarrow> if c = 46 \<and> takeWhile is_digit t \<noteq> [] then Suc (length (takeWhile is_digit t)) else 0
      | [] \<Rightarrow> 0)"

definition unit_len :: "pystr \<Rightarrow> nat" where
  "unit_len s =
     (case s of c # t \<Rightarrow> if c = 37 then 1 else min 4 (length (takeWhile is_ascii_letter s)) | [] \<Rightarrow> 0)"

definition token_len :: "pystr \<Rightarrow> nat" where
  "token_len s =
     (let n = length (rstrip_by (\<lambda>c. \<not> is_digit c) (takeWhile num_body s));
          f = fraction_len (drop n s)
      in n + f + unit_len (drop (n + f) s))"

function numeric_tokens :: "pystr \<Rightarrow> pystr list" where
  "numeric_tokens [] = []"
| "numeric_tokens (c # s) =
     (if is_digit c
      then take (max 1 (token_len (c # s))) (c # s) # numeric_tokens (drop (max 1 (token_len (c # s))) (c # s))
      else numeric_tokens s)"
  by pat_completeness auto
termination
  by (relation "measure length") auto

declare numeric_tokens.simps [simp del]

definition check_quantitative :: "lower_table \<Rightarrow> pystr \<Rightarrow> nat \<Rightarrow> unit checked" where
  "check_quantitative low body min_numbers =
     (let normalized = remdups (map (\<lambda>t. py_lower low (remove_char 95 (remove_char 44 t))) (numeric_tokens body))
      in not_passed_if (length normalized < min_numbers) (FewNumbers (length normalized) min_numbers))"

section \<open>Originality\<close>

definition normalize_ws :: "lower_table \<Rightarrow> pystr \<Rightarrow> pystr" where
  "normalize_ws low t = py_lower low (strip_by is_space (sub_ws t))"

text \<open>\<open>re.split(r"(?<=[.!?])\s+", t)\<close>: the white space after a sentence end separates.\<close>

function split_sentences :: "pystr \<Rightarrow> pystr \<Rightarrow> pystr list" where
  "split_sentences acc [] = [rev acc]"
| "split_sentences acc (c # s) =
     (if acc \<noteq> [] \<and> hd acc \<in> {46, 33, 63} \<and> is_space c
      then rev acc # split_sentences [] (dropWhile is_space s)
      else split_sentences (c # acc) s)"
  by pat_completeness auto
termination
  by (relation "measure (\<lambda>(acc, s). length s)") (auto simp: less_Suc_eq_le length_dropWhile_le)

fun keep_new :: "pystr list \<Rightarrow> pystr list \<Rightarrow> pystr list" where
  "keep_new kept [] = kept"
| "keep_new kept (x # xs) =
     (let s = strip_by is_space x
      in if s \<noteq> [] \<and> s \<notin> set kept then keep_new (kept @ [s]) xs else keep_new kept xs)"

definition dedupe_sentences :: "pystr \<Rightarrow> pystr" where
  "dedupe_sentences t = join [32] (keep_new [] (split_sentences [] t))"

text \<open>
  \<open>difflib.SequenceMatcher(None, a, b, autojunk=False).get_matching_blocks()\<close>: the longest common
  run, the earliest in \<open>a\<close> and then in \<open>b\<close> among the longest, then the same to its left and right;
  the blocks in order, adjacent ones merged, and a sentinel of size 0 at the end.
\<close>

fun common :: "'a list \<Rightarrow> 'a list \<Rightarrow> nat" where
  "common (x # xs) (y # ys) = (if x = y then Suc (common xs ys) else 0)"
| "common _ _ = 0"

definition better :: "nat \<times> nat \<times> nat \<Rightarrow> nat \<times> nat \<times> nat \<Rightarrow> nat \<times> nat \<times> nat" where
  "better best new = (if snd (snd best) < snd (snd new) then new else best)"

definition longest_match :: "'a list \<Rightarrow> 'a list \<Rightarrow> nat \<times> nat \<times> nat" where
  "longest_match a b =
     foldl better (0, 0, 0)
       (concat (map (\<lambda>i. map (\<lambda>j. (i, j, common (drop i a) (drop j b))) [0..<length b]) [0..<length a]))"

definition shift :: "nat \<Rightarrow> nat \<Rightarrow> nat \<times> nat \<times> nat \<Rightarrow> nat \<times> nat \<times> nat" where
  "shift di dj m = (case m of (i, j, k) \<Rightarrow> (di + i, dj + j, k))"

fun merge_blocks :: "nat \<times> nat \<times> nat \<Rightarrow> (nat \<times> nat \<times> nat) list \<Rightarrow> (nat \<times> nat \<times> nat) list" where
  "merge_blocks (i1, j1, k1) [] = (if k1 = 0 then [] else [(i1, j1, k1)])"
| "merge_blocks (i1, j1, k1) ((i2, j2, k2) # ms) =
     (if i1 + k1 = i2 \<and> j1 + k1 = j2 then merge_blocks (i1, j1, k1 + k2) ms
      else (if k1 = 0 then [] else [(i1, j1, k1)]) @ merge_blocks (i2, j2, k2) ms)"

text \<open>What a run is: in bounds and equal on both sides.\<close>

definition run_at :: "'a list \<Rightarrow> 'a list \<Rightarrow> nat \<times> nat \<times> nat \<Rightarrow> bool" where
  "run_at a b m \<longleftrightarrow>
     (case m of (i, j, k) \<Rightarrow>
        i + k \<le> length a \<and> j + k \<le> length b \<and> take k (drop i a) = take k (drop j b))"

lemma common_le: "common a b \<le> length a" "common a b \<le> length b"
  by (induction a b rule: common.induct) auto

lemma take_common: "k \<le> common a b \<Longrightarrow> take k a = take k b"
proof (induction a b arbitrary: k rule: common.induct)
  case (1 x xs y ys)
  then show ?case by (cases k) (auto split: if_splits)
qed auto

lemma common_ge:
  "take k a = take k b \<Longrightarrow> k \<le> length a \<Longrightarrow> k \<le> length b \<Longrightarrow> k \<le> common a b"
proof (induction a b arbitrary: k rule: common.induct)
  case (1 x xs y ys)
  then show ?case by (cases k) auto
qed auto

lemma foldl_better:
  "foldl better m0 ms = m0 \<and> (\<forall>m \<in> set ms. snd (snd m) \<le> snd (snd m0)) \<or>
   foldl better m0 ms \<in> set ms \<and> snd (snd m0) < snd (snd (foldl better m0 ms)) \<and>
     (\<forall>m \<in> set ms. snd (snd m) \<le> snd (snd (foldl better m0 ms)))"
proof (induction ms arbitrary: m0)
  case Nil
  then show ?case by simp
next
  case (Cons m ms)
  show ?case
  proof (cases "snd (snd m0) < snd (snd m)")
    case True
    then have e: "foldl better m0 (m # ms) = foldl better m ms" by (simp add: better_def)
    show ?thesis unfolding e using Cons.IH [of m] True by auto
  next
    case False
    then have e: "foldl better m0 (m # ms) = foldl better m0 ms" by (simp add: better_def)
    show ?thesis unfolding e using Cons.IH [of m0] False by auto
  qed
qed

lemma longest_match_run: "run_at a b (longest_match a b)"
proof -
  let ?ms = "concat (map (\<lambda>i. map (\<lambda>j. (i, j, common (drop i a) (drop j b))) [0..<length b]) [0..<length a])"
  have "longest_match a b = (0, 0, 0) \<or> longest_match a b \<in> set ?ms"
    unfolding longest_match_def using foldl_better [of "(0, 0, 0)" ?ms] by blast
  then show ?thesis
  proof
    assume "longest_match a b = (0, 0, 0)"
    then show ?thesis by (simp add: run_at_def)
  next
    assume "longest_match a b \<in> set ?ms"
    then obtain i j where ij: "i < length a" "j < length b"
      and m: "longest_match a b = (i, j, common (drop i a) (drop j b))" by auto
    have "i + common (drop i a) (drop j b) \<le> length a" "j + common (drop i a) (drop j b) \<le> length b"
      using ij common_le [of "drop i a" "drop j b"] by simp_all
    then show ?thesis using take_common [of _ "drop i a" "drop j b"] by (simp add: m run_at_def)
  qed
qed

lemma longest_match_max:
  assumes r: "run_at a b (i, j, k)"
  shows "k \<le> snd (snd (longest_match a b))"
proof (cases "k = 0")
  case False
  let ?ms = "concat (map (\<lambda>i. map (\<lambda>j. (i, j, common (drop i a) (drop j b))) [0..<length b]) [0..<length a])"
  have b: "i + k \<le> length a" "j + k \<le> length b" "take k (drop i a) = take k (drop j b)"
    using r by (auto simp: run_at_def)
  have "i < length a" "j < length b" using b(1,2) False by simp_all
  then have "(i, j, common (drop i a) (drop j b)) \<in> set ?ms" by (auto simp: image_iff Bex_def)
  then have "common (drop i a) (drop j b) \<le> snd (snd (foldl better (0, 0, 0) ?ms))"
    using foldl_better [of "(0, 0, 0)" ?ms] by force
  moreover have "k \<le> common (drop i a) (drop j b)"
    using b by (intro common_ge) simp_all
  ultimately show ?thesis by (simp add: longest_match_def)
qed simp

function matching :: "'a list \<Rightarrow> 'a list \<Rightarrow> (nat \<times> nat \<times> nat) list" where
  "matching a b =
     (case longest_match a b of
        (i, j, k) \<Rightarrow>
          if k = 0 then []
          else matching (take i a) (take j b) @ [(i, j, k)] @
               map (shift (i + k) (j + k)) (matching (drop (i + k) a) (drop (j + k) b)))"
  by pat_completeness auto
termination
proof (relation "measure (\<lambda>(a, b). length a)")
  show "wf (measure (\<lambda>(a :: 'a list, b :: 'a list). length a))" by simp
next
  fix a b :: "'a list" and i y j k
  assume "(i, y) = longest_match a b" "(j, k) = y" "k \<noteq> 0"
  then show "((take i a, take j b), (a, b)) \<in> measure (\<lambda>(a, b). length a)"
    using longest_match_run [of a b] by (auto simp: run_at_def)
next
  fix a b :: "'a list" and i y j k
  assume "(i, y) = longest_match a b" "(j, k) = y" "k \<noteq> 0"
  then show "((drop (i + k) a, drop (j + k) b), (a, b)) \<in> measure (\<lambda>(a, b). length a)"
    using longest_match_run [of a b] by (auto simp: run_at_def)
qed

declare matching.simps [simp del]

definition matching_blocks :: "'a list \<Rightarrow> 'a list \<Rightarrow> (nat \<times> nat \<times> nat) list" where
  "matching_blocks a b = merge_blocks (0, 0, 0) (matching a b) @ [(length a, length b, 0)]"

definition original_char_count :: "lower_table \<Rightarrow> pystr \<Rightarrow> pystr \<Rightarrow> nat \<Rightarrow> nat" where
  "original_char_count low answer questions min_block =
     (let a = dedupe_sentences (normalize_ws low answer);
          q = normalize_ws low questions
      in if a = [] \<or> q = [] then length a
         else length a - sum_list (map (\<lambda>(i, j, k). k) (filter (\<lambda>(i, j, k). min_block \<le> k) (matching_blocks a q))))"

section \<open>Answers\<close>

text \<open>The loop over the questions: the problems so far and the number answered.\<close>

definition answer_step ::
  "lower_table \<Rightarrow> (pystr \<times> pystr) list \<Rightarrow> pystr option \<Rightarrow> nat \<Rightarrow> nat \<Rightarrow> problem list \<times> nat \<Rightarrow> pystr \<Rightarrow>
     problem list \<times> nat" where
  "answer_step low subs questions min_chars min_original acc qid =
     (case map_of subs qid of
        None \<Rightarrow> (fst acc @ [QMissing qid], snd acc)
      | Some body \<Rightarrow>
          let stripped = strip_by is_space body;
              lines = filter (\<lambda>l. l \<noteq> []) (map (strip_by is_space) (split_lines stripped));
              question_line = (case lines of [] \<Rightarrow> [] | l # _ \<Rightarrow> l)
          in if has_placeholder stripped then (fst acc @ [QPlaceholder qid], snd acc)
             else if questions = None \<and> stripped = question_line then (fst acc @ [QVerbatim qid], snd acc)
             else if length stripped < min_chars
               then (fst acc @ [QTooShort qid (length stripped) min_chars], snd acc)
             else (case questions of
                     None \<Rightarrow> (fst acc, Suc (snd acc))
                   | Some q \<Rightarrow>
                       let original = original_char_count low stripped q 40
                       in if original < min_original
                          then (fst acc @ [QRestates qid original min_original], snd acc)
                          else (fst acc, Suc (snd acc))))"

definition check_answers ::
  "lower_table \<Rightarrow> files \<Rightarrow> pystr \<Rightarrow> pystr list \<Rightarrow> nat \<Rightarrow> nat \<Rightarrow> pystr option \<Rightarrow> nat \<Rightarrow> unit checked" where
  "check_answers low files path qids min_answered min_chars questions_path min_original =
     bind_run (read_doc files path) (\<lambda>t.
       let subs = parse_subsections t
       in bind_run (case questions_path of
                      None \<Rightarrow> Ret None
                    | Some qp \<Rightarrow> bind_run (read_doc files qp) (\<lambda>q. Ret (Some q))) (\<lambda>questions.
          let r = foldl (answer_step low subs questions min_chars min_original) ([], 0) qids
          in not_passed_if (snd r < min_answered) (FewAnswers (snd r) min_answered (fst r))))"

section \<open>The matching blocks\<close>

text \<open>Every block is a common run, and the blocks are no longer than either side.\<close>

lemma matching_unfold:
  assumes "longest_match a b = (i, j, k)"
  shows "matching a b =
    (if k = 0 then []
     else matching (take i a) (take j b) @ [(i, j, k)] @
          map (shift (i + k) (j + k)) (matching (drop (i + k) a) (drop (j + k) b)))"
  by (subst matching.simps) (simp add: assms)

lemma take_drop_take: "x + k \<le> i \<Longrightarrow> take k (drop x (take i a)) = take k (drop x a)"
  by (simp add: drop_take min_def)

lemma run_at_take: "run_at (take i a) (take j b) m \<Longrightarrow> run_at a b m"
proof (cases m)
  case (fields x y k)
  assume r: "run_at (take i a) (take j b) m"
  then have "x + k \<le> i" "y + k \<le> j" by (simp_all add: run_at_def fields)
  then show "run_at a b m"
    using r take_drop_take [of x k i a] take_drop_take [of y k j b] by (simp add: run_at_def fields)
qed

lemma run_at_shift:
  "p \<le> length a \<Longrightarrow> q \<le> length b \<Longrightarrow> run_at (drop p a) (drop q b) m \<Longrightarrow> run_at a b (shift p q m)"
  by (cases m) (auto simp: run_at_def shift_def add.commute)

lemma run_at_append:
  assumes "run_at a b (i, j, k)" "run_at a b (i + k, j + k, n)"
  shows "run_at a b (i, j, k + n)"
  using assms by (auto simp: run_at_def take_add add.commute)

definition total_size :: "(nat \<times> nat \<times> nat) list \<Rightarrow> nat" where
  "total_size ms = sum_list (map (\<lambda>(i, j, k). k) ms)"

lemma total_size_simps [simp]:
  "total_size [] = 0" "total_size (m # ms) = snd (snd m) + total_size ms" "total_size (ms @ ns) = total_size ms + total_size ns"
  "total_size (map (shift p q) ms) = total_size ms"
  by (auto simp: total_size_def shift_def comp_def case_prod_unfold)

lemma matching_ok: "(\<forall>m \<in> set (matching a b). run_at a b m) \<and> total_size (matching a b) \<le> length a"
proof (induction a b rule: matching.induct)
  case (1 a b)
  obtain i j k where m: "longest_match a b = (i, j, k)" by (cases "longest_match a b") auto
  have r: "run_at a b (i, j, k)" using longest_match_run [of a b] by (simp add: m)
  show ?case
  proof (cases "k = 0")
    case True
    then show ?thesis by (simp add: matching_unfold [OF m])
  next
    case False
    have l: "i + k \<le> length a" "j + k \<le> length b" using r by (simp_all add: run_at_def)
    note ih1 = 1(1) [OF m [symmetric] refl False] and ih2 = 1(2) [OF m [symmetric] refl False]
    have "\<forall>x \<in> set (matching a b). run_at a b x"
      using ih1 ih2 r l run_at_take [of i a j b] run_at_shift [of "i + k" a "j + k" b]
      by (auto simp: matching_unfold [OF m])
    moreover have "total_size (matching a b) \<le> length a"
      using conjunct2 [OF ih1] conjunct2 [OF ih2] l by (simp add: matching_unfold [OF m] False)
    ultimately show ?thesis by simp
  qed
qed

lemma merge_runs:
  "run_at a b m0 \<Longrightarrow> \<forall>m \<in> set ms. run_at a b m \<Longrightarrow> \<forall>m \<in> set (merge_blocks m0 ms). run_at a b m"
proof (induction m0 ms rule: merge_blocks.induct)
  case (2 i1 j1 k1 i2 j2 k2 ms)
  then show ?case using run_at_append [of a b i1 j1 k1 k2] by auto
qed auto

lemma merge_total: "total_size (merge_blocks m0 ms) = snd (snd m0) + total_size ms"
  by (induction m0 ms rule: merge_blocks.induct) auto

lemma merge_covers:
  "m \<in> insert m0 (set ms) \<Longrightarrow> 0 < snd (snd m) \<Longrightarrow> \<exists>m' \<in> set (merge_blocks m0 ms). snd (snd m) \<le> snd (snd m')"
proof (induction m0 ms arbitrary: m rule: merge_blocks.induct)
  case (2 i1 j1 k1 i2 j2 k2 ms)
  show ?case
  proof (cases "i1 + k1 = i2 \<and> j1 + k1 = j2")
    case True
    have "\<exists>m2 \<in> insert (i1, j1, k1 + k2) (set ms). snd (snd m) \<le> snd (snd m2)" using "2.prems"(1) by auto
    then obtain m2 where m2: "m2 \<in> insert (i1, j1, k1 + k2) (set ms)" "snd (snd m) \<le> snd (snd m2)" by blast
    have "0 < snd (snd m2)" using m2(2) "2.prems"(2) by simp
    from "2.IH"(1) [OF True m2(1) this] show ?thesis using m2(2) True by (auto intro: le_trans)
  next
    case False
    then show ?thesis using "2.IH"(2) [OF False, of m] "2.prems" by auto
  qed
qed auto

definition borrowed :: "'a list \<Rightarrow> 'a list \<Rightarrow> nat \<Rightarrow> nat" where
  "borrowed a b min_block = total_size (filter (\<lambda>(i, j, k). min_block \<le> k) (matching_blocks a b))"

lemma total_size_filter_le: "total_size (filter P ms) \<le> total_size ms"
  by (induction ms) auto

lemma total_size_filter_member: "m \<in> set ms \<Longrightarrow> P m \<Longrightarrow> snd (snd m) \<le> total_size (filter P ms)"
  by (induction ms) auto

lemma blocks_run: "m \<in> set (matching_blocks a b) \<Longrightarrow> run_at a b m"
  using merge_runs [of a b "(0, 0, 0)" "matching a b"] matching_ok [of a b]
  by (auto simp: matching_blocks_def run_at_def)

lemma borrowed_le: "borrowed a b n \<le> length a"
  using total_size_filter_le [of "\<lambda>(i, j, k). n \<le> k" "matching_blocks a b"] matching_ok [of a b]
  by (simp add: borrowed_def matching_blocks_def merge_total del: total_size_filter_le)

lemma longest_in_matching:
  "longest_match a b = (i, j, k) \<Longrightarrow> 0 < k \<Longrightarrow> (i, j, k) \<in> set (matching a b)"
  by (simp add: matching_unfold)

lemma borrowed_run: "run_at a b (i, j, k) \<Longrightarrow> 0 < k \<Longrightarrow> n \<le> k \<Longrightarrow> k \<le> borrowed a b n"
proof -
  assume r: "run_at a b (i, j, k)" and k: "0 < k" "n \<le> k"
  obtain i' j' k' where m: "longest_match a b = (i', j', k')" by (cases "longest_match a b") auto
  have kk: "k \<le> k'" using longest_match_max [OF r] by (simp add: m)
  have "(i', j', k') \<in> insert (0, 0, 0) (set (matching a b))"
    using longest_in_matching [OF m] k kk by simp
  then obtain x where x: "x \<in> set (merge_blocks (0, 0, 0) (matching a b))" "k' \<le> snd (snd x)"
    using merge_covers [of "(i', j', k')" "(0, 0, 0)" "matching a b"] k kk by auto
  have "snd (snd x) \<le> borrowed a b n"
    unfolding borrowed_def
    using x kk k by (intro total_size_filter_member) (auto simp: matching_blocks_def case_prod_unfold)
  then show ?thesis using x(2) kk by simp
qed

lemma borrowed_pos_iff:
  assumes "0 < n"
  shows "0 < borrowed a b n \<longleftrightarrow> (\<exists>i j k. n \<le> k \<and> run_at a b (i, j, k))"
proof
  assume "0 < borrowed a b n"
  then have "filter (\<lambda>(i, j, k). n \<le> k) (matching_blocks a b) \<noteq> []" by (auto simp: borrowed_def)
  then obtain i j k where m: "(i, j, k) \<in> set (matching_blocks a b)" "n \<le> k"
    by (auto simp: filter_empty_conv)
  then show "\<exists>i j k. n \<le> k \<and> run_at a b (i, j, k)" using blocks_run [OF m(1)] by blast
next
  assume "\<exists>i j k. n \<le> k \<and> run_at a b (i, j, k)"
  then obtain i j k where r: "n \<le> k" "run_at a b (i, j, k)" by blast
  then show "0 < borrowed a b n" using borrowed_run [OF r(2), of n] assms by simp
qed

section \<open>Originality of an answer\<close>

lemma original_char_count_eq:
  "original_char_count low answer questions n =
     length (dedupe_sentences (normalize_ws low answer)) -
     (if normalize_ws low questions = [] then 0
      else borrowed (dedupe_sentences (normalize_ws low answer)) (normalize_ws low questions) n)"
proof -
  have "borrowed [] q n = 0" for q :: pystr using borrowed_le [of "[]" q n] by simp
  then show ?thesis by (simp add: original_char_count_def Let_def borrowed_def total_size_def)
qed

lemma contains_run: "contains a b \<Longrightarrow> \<exists>j. run_at a b (0, j, length a)"
proof -
  assume "contains a b"
  then obtain ps ss where b: "b = ps @ a @ ss" unfolding contains_sublist sublist_def by blast
  then have "run_at a b (0, length ps, length a)" by (simp add: run_at_def)
  then show ?thesis ..
qed

lemma borrowed_copy: "contains a b \<Longrightarrow> n \<le> length a \<Longrightarrow> borrowed a b n = length a"
proof (cases "a = []")
  case False
  assume c: "contains a b" "n \<le> length a"
  obtain j where "run_at a b (0, j, length a)" using contains_run [OF c(1)] by blast
  from borrowed_run [OF this _ c(2)] show ?thesis using False borrowed_le [of a b n] by simp
qed (use borrowed_le [of a b n] in simp)

text \<open>
  C10. An answer keeps all its characters exactly when it shares no run of \<open>min_block\<close> characters
  with the questions, white space, case and repeated sentences apart; and an answer that is,
  normalised and without repetitions, a piece of the questions of \<open>min_block\<close> characters at least keeps
  none.
\<close>

theorem originality_exact:
  assumes "0 < n" "a = dedupe_sentences (normalize_ws low answer)" "q = normalize_ws low questions"
  shows "(original_char_count low answer questions n = length a \<longleftrightarrow> (\<nexists>i j k. n \<le> k \<and> run_at a q (i, j, k))) \<and>
    (contains a q \<and> n \<le> length a \<longrightarrow> original_char_count low answer questions n = 0)"
proof (cases "q = []")
  case True
  have r: "\<not> run_at a q (i, j, k)" if "n \<le> k" for i j k
    using that assms(1) by (simp add: run_at_def True)
  have c: "\<not> (contains a q \<and> n \<le> length a)" using assms(1) True by (cases a) simp_all
  have o: "original_char_count low answer questions n = length a"
    using original_char_count_eq [of low answer questions n] True assms(2,3) by simp
  show ?thesis unfolding o using r c by blast
next
  case False
  have o: "original_char_count low answer questions n = length a - borrowed a q n"
    using original_char_count_eq [of low answer questions n] False by (simp add: assms(2,3))
  have "length a - borrowed a q n = length a \<longleftrightarrow> \<not> 0 < borrowed a q n"
    using borrowed_le [of a q n] by auto
  then show ?thesis unfolding o using borrowed_pos_iff [OF assms(1), of a q] borrowed_copy [of a q n] by auto
qed

theorem originality_exact_witness:
  "original_char_count (\<lambda>s i. []) (u ''Why?'') (u ''Q1.  WHY? Say.'') 4 = 0"
proof -
  have a: "dedupe_sentences (normalize_ws (\<lambda>s i. []) (u ''Why?'')) = u ''why?''"
    by (simp add: normalize_ws_def is_space_def py_spaces_def strip_by_def lstrip_by_def rstrip_by_def
        py_lower_ascii ascii_lower_def dedupe_sentences_def)
  have q: "normalize_ws (\<lambda>s i. []) (u ''Q1.  WHY? Say.'') = u ''q1. why? say.''"
    by (simp add: normalize_ws_def is_space_def py_spaces_def strip_by_def lstrip_by_def rstrip_by_def
        py_lower_ascii ascii_lower_def)
  show ?thesis
    using originality_exact [OF _ a [symmetric] q [symmetric], of 4] by (simp add: startswith_def)
qed

section \<open>Which answers count\<close>

lemma alist_set_member: "kv \<in> set (alist_set k v kvs) \<Longrightarrow> kv = (k, v) \<or> kv \<in> set kvs"
  by (induction kvs) (auto split: if_splits)

lemma close_section_stripped:
  "\<forall>s \<in> set secs. strip_by is_space (snd s) = snd s \<Longrightarrow>
     \<forall>s \<in> set (close_section cur secs). strip_by is_space (snd s) = snd s"
  by (cases cur) (auto simp: close_section_def dest!: alist_set_member)

lemma sections_stripped:
  "\<forall>s \<in> set secs. strip_by is_space (snd s) = snd s \<Longrightarrow>
     \<forall>s \<in> set (sections_from level cur secs ls). strip_by is_space (snd s) = snd s"
proof (induction level cur secs ls rule: sections_from.induct)
  case (1 level cur secs)
  then show ?case unfolding sections_from.simps by (rule close_section_stripped)
next
  case (2 level cur secs l ls)
  then show ?case
    using close_section_stripped [OF "2.prems", of cur] by (cases "heading_of level l") simp_all
qed

lemma subsection_stripped: "map_of (parse_subsections t) h = Some b \<Longrightarrow> strip_by is_space b = b"
  using sections_stripped [of "[]" 3 None "split_on 10 t"]
  by (auto simp: parse_subsections_def parse_headings_def dest!: map_of_SomeD)

definition credited ::
  "lower_table \<Rightarrow> (pystr \<times> pystr) list \<Rightarrow> pystr \<Rightarrow> nat \<Rightarrow> nat \<Rightarrow> pystr \<Rightarrow> bool" where
  "credited low subs q min_chars min_original qid \<longleftrightarrow>
     (case map_of subs qid of
        None \<Rightarrow> False
      | Some body \<Rightarrow>
          \<not> has_placeholder (strip_by is_space body) \<and> min_chars \<le> length (strip_by is_space body) \<and>
          min_original \<le> original_char_count low (strip_by is_space body) q 40)"

lemma answer_step_count:
  "snd (answer_step low subs (Some q) mc mo acc qid) = snd acc + (if credited low subs q mc mo qid then 1 else 0)"
  by (cases "map_of subs qid") (simp_all add: answer_step_def credited_def Let_def)

lemma answers_count:
  "snd (foldl (answer_step low subs (Some q) mc mo) acc qids) =
     snd acc + length (filter (credited low subs q mc mo) qids)"
  by (induction qids arbitrary: acc) (simp_all add: answer_step_count)

lemma read_doc_Ret: "read_doc files p = Ret t \<longleftrightarrow> files p = Text t \<and> strip_by is_space t \<noteq> []"
  by (auto simp: read_doc_def split: doc.split)

lemma check_answers_Ret:
  "check_answers low files path qids need mc (Some qp) mo = Ret () \<longleftrightarrow>
     (\<exists>t q. read_doc files path = Ret t \<and> read_doc files qp = Ret q \<and>
        need \<le> length (filter (credited low (parse_subsections t) q mc mo) qids))"
  by (auto simp: check_answers_def Let_def bind_run_Ret answers_count)

text \<open>
  C21. The hostile-review gate passes exactly when both documents are readable and at least
  \<open>need\<close> of the question ids have a subsection without a placeholder, of the minimum length, and
  with the minimum number of characters that are not copied from the questions.
\<close>

theorem answers_gate:
  "check_answers low files path qids need mc (Some qp) mo = Ret () \<longleftrightarrow>
     (\<exists>t q. files path = Text t \<and> strip_by is_space t \<noteq> [] \<and> files qp = Text q \<and> strip_by is_space q \<noteq> [] \<and>
        need \<le> length (filter (\<lambda>qid. \<exists>body. map_of (parse_subsections t) qid = Some body \<and>
          \<not> has_placeholder body \<and> mc \<le> length body \<and> mo \<le> original_char_count low body q 40) qids))"
proof -
  have "credited low (parse_subsections t) q mc mo =
      (\<lambda>qid. \<exists>body. map_of (parse_subsections t) qid = Some body \<and>
         \<not> has_placeholder body \<and> mc \<le> length body \<and> mo \<le> original_char_count low body q 40)" for t q
    using subsection_stripped [of t] by (auto simp: credited_def fun_eq_iff split: option.split)
  then show ?thesis by (simp add: check_answers_Ret read_doc_Ret conj_assoc)
qed

section \<open>Headings read back\<close>

definition heading_line :: "nat \<Rightarrow> pystr \<Rightarrow> pystr" where
  "heading_line level h = replicate level 35 @ 32 # h"

definition render_doc :: "nat \<Rightarrow> (pystr \<times> pystr) list \<Rightarrow> pystr" where
  "render_doc level secs = concat (map (\<lambda>(h, b). heading_line level h @ 10 # b @ [10]) secs)"

definition plain_heading :: "pystr \<Rightarrow> bool" where
  "plain_heading h \<longleftrightarrow> h \<noteq> [] \<and> 10 \<notin> set h \<and> strip_by is_space h = h"

lemma blank_space: "blank c \<Longrightarrow> is_space c"
  by (auto simp: blank_def is_space_def py_spaces_def)

lemma heading_of_line: "plain_heading h \<Longrightarrow> heading_of level (heading_line level h) = Some h"
proof -
  assume h: "plain_heading h"
  then have "\<not> is_space (hd h)" "\<not> is_space (last h)"
    using strip_by_hd [of is_space h] strip_by_last [of is_space h] by (auto simp: plain_heading_def)
  then have "\<not> blank (hd h)" "\<not> blank (last h)" using blank_space by blast+
  then have "lstrip_by blank (32 # h) = h" "rstrip_by blank h = h"
    using lstrip_by_id [of h blank] rstrip_by_id [of h blank] by (auto simp: lstrip_by_def blank_def)
  then show ?thesis using h by (simp add: heading_of_def heading_line_def plain_heading_def startswith_def blank_def)
qed

lemma split_on_append: "split_on sep (a @ sep # b) = split_on sep a @ split_on sep b"
proof (induction a)
  case Nil
  then show ?case by simp
next
  case (Cons c a)
  then show ?case by (cases "split_on sep a") auto
qed

definition section_lines :: "nat \<Rightarrow> (pystr \<times> pystr) list \<Rightarrow> pystr list" where
  "section_lines level secs = concat (map (\<lambda>(h, b). heading_line level h # split_on 10 b) secs)"

lemma split_render:
  "\<forall>s \<in> set secs. plain_heading (fst s) \<Longrightarrow>
     split_on 10 (render_doc level secs) = section_lines level secs @ [[]]"
proof (induction secs)
  case Nil
  then show ?case by (simp add: render_doc_def section_lines_def)
next
  case (Cons s secs)
  obtain h b where s: "s = (h, b)" by (cases s)
  have r: "render_doc level ((h, b) # secs) = heading_line level h @ 10 # b @ 10 # render_doc level secs"
    by (simp add: render_doc_def)
  have "10 \<notin> set (heading_line level h)" using Cons.prems by (simp add: s heading_line_def plain_heading_def)
  then show ?case
    using Cons by (simp add: r split_on_append split_on_single section_lines_def s del: append_assoc)
qed

lemma sections_body:
  assumes "\<forall>l \<in> set ls. heading_of level l = None"
  shows "sections_from level (Some (h, body)) secs (ls @ rest) =
    sections_from level (Some (h, body @ concat (map (\<lambda>l. 10 # l) ls))) secs rest"
  using assms
proof (induction ls arbitrary: body)
  case Nil
  then show ?case by simp
next
  case (Cons l ls)
  then show ?case by simp
qed

definition plain_section :: "nat \<Rightarrow> pystr \<times> pystr \<Rightarrow> bool" where
  "plain_section level s \<longleftrightarrow>
     plain_heading (fst s) \<and> strip_by is_space (snd s) = snd s \<and>
     (\<forall>l \<in> set (split_on 10 (snd s)). heading_of level l = None)"

lemma strip_line_feed [simp]:
  "strip_by is_space (10 # s) = strip_by is_space s" "strip_by is_space (s @ [10]) = strip_by is_space s"
  by (simp_all add: strip_by_Cons strip_by_snoc is_space_def py_spaces_def)

lemma sections_from_lines:
  "\<forall>s \<in> set secs. plain_section level s \<Longrightarrow> distinct (map fst acc @ h # map fst secs) \<Longrightarrow>
     sections_from level (Some (h, body)) acc (section_lines level secs @ [[]]) =
       acc @ (h, strip_by is_space body) # secs"
proof (induction secs arbitrary: h body acc)
  case Nil
  have "heading_of level [] = None" by (simp add: heading_of_def)
  then show ?case using Nil by (simp add: section_lines_def close_section_def alist_set_new)
next
  case (Cons s secs)
  obtain h2 b2 where s: "s = (h2, b2)" by (cases s)
  have ps: "plain_heading h2" "strip_by is_space b2 = b2" "\<forall>l \<in> set (split_on 10 b2). heading_of level l = None"
    using Cons.prems(1) by (auto simp: s plain_section_def)
  let ?acc = "acc @ [(h, strip_by is_space body)]"
  have "sections_from level (Some (h, body)) acc (section_lines level (s # secs) @ [[]]) =
      sections_from level (Some (h2, [])) ?acc (split_on 10 b2 @ section_lines level secs @ [[]])"
    using Cons.prems(2)
    by (simp add: section_lines_def s heading_of_line [OF ps(1)] close_section_def alist_set_new)
  also have "\<dots> = sections_from level (Some (h2, 10 # b2)) ?acc (section_lines level secs @ [[]])"
    by (simp add: sections_body [OF ps(3)] split_on_join)
  also have "\<dots> = ?acc @ (h2, strip_by is_space (10 # b2)) # secs"
    using Cons.prems by (intro Cons.IH) (auto simp: s)
  finally show ?case using ps(2) by (simp add: s)
qed

text \<open>
  C25. A document rendered from distinct headings and their bodies is parsed into exactly these
  sections, in order: \<open>parse_headings\<close> neither loses nor invents nor moves text.
\<close>

theorem sections_roundtrip:
  assumes "\<forall>s \<in> set secs. plain_section level s" "distinct (map fst secs)"
  shows "parse_headings level (render_doc level secs) = secs"
proof (cases secs)
  case Nil
  then show ?thesis by (simp add: parse_headings_def render_doc_def heading_of_def close_section_def)
next
  case (Cons s rest)
  obtain h b where s: "s = (h, b)" by (cases s)
  have ps: "plain_heading h" "strip_by is_space b = b" "\<forall>l \<in> set (split_on 10 b). heading_of level l = None"
    using assms(1) by (auto simp: Cons s plain_section_def)
  have "\<forall>x \<in> set secs. plain_heading (fst x)" using assms(1) by (simp add: plain_section_def)
  then have "parse_headings level (render_doc level secs) =
      sections_from level None [] (section_lines level secs @ [[]])"
    by (simp add: parse_headings_def split_render)
  also have "\<dots> = sections_from level (Some (h, [])) [] (split_on 10 b @ section_lines level rest @ [[]])"
    by (simp add: Cons s section_lines_def heading_of_line [OF ps(1)] close_section_def)
  also have "\<dots> = sections_from level (Some (h, 10 # b)) [] (section_lines level rest @ [[]])"
    by (simp add: sections_body [OF ps(3)] split_on_join)
  also have "\<dots> = [] @ (h, strip_by is_space (10 # b)) # rest"
    using assms by (intro sections_from_lines) (auto simp: Cons s)
  finally show ?thesis using ps(2) by (simp add: Cons s)
qed

theorem sections_roundtrip_witness:
  "parse_headings 2 (render_doc 2 [(u ''A b'', u ''x'' @ [10] @ u ''### y''), (u ''C'', [])]) =
     [(u ''A b'', u ''x'' @ [10] @ u ''### y''), (u ''C'', [])]"
  by (rule sections_roundtrip)
    (simp_all add: plain_section_def plain_heading_def strip_by_def lstrip_by_def rstrip_by_def
      is_space_def py_spaces_def heading_of_def blank_def startswith_def numeral_2_eq_2)

end
