(* ===== verification/PyTime.thy ===== *)
theory PyTime
  imports PyConv
begin

text \<open>
  The part of the \<open>datetime\<close> module the components use, at whole seconds and in UTC: an aware
  datetime is its POSIX timestamp.  Dates are proleptic Gregorian and are computed from ordinals
  as the standard library does, 0001-01-01 being day 1.  The text formats are
  \<open>YYYY-MM-DD\<close> and \<open>YYYY-MM-DDTHH:MM:SSZ\<close>; every four-digit year is covered.
\<close>

section \<open>The calendar\<close>

record date =
  d_year :: nat
  d_month :: nat
  d_day :: nat

definition leap :: "nat \<Rightarrow> bool" where
  "leap y \<longleftrightarrow> y mod 4 = 0 \<and> (y mod 100 \<noteq> 0 \<or> y mod 400 = 0)"

definition days_in_year :: "nat \<Rightarrow> nat" where
  "days_in_year y = (if leap y then 366 else 365)"

definition month_lengths :: "nat \<Rightarrow> nat list" where
  "month_lengths y = [31, if leap y then 29 else 28, 31, 30, 31, 30, 31, 31, 30, 31, 30, 31]"

definition days_in_month :: "nat \<Rightarrow> nat \<Rightarrow> nat" where
  "days_in_month y m = month_lengths y ! (m - 1)"

definition days_before_year :: "nat \<Rightarrow> nat" where
  "days_before_year y = (y - 1) * 365 + (y - 1) div 4 - (y - 1) div 100 + (y - 1) div 400"

definition days_before_month :: "nat \<Rightarrow> nat \<Rightarrow> nat" where
  "days_before_month y m = sum_list (take (m - 1) (month_lengths y))"

definition valid_date :: "date \<Rightarrow> bool" where
  "valid_date d \<longleftrightarrow>
     1 \<le> d_year d \<and> d_year d \<le> 9999 \<and> 1 \<le> d_month d \<and> d_month d \<le> 12 \<and>
     1 \<le> d_day d \<and> d_day d \<le> days_in_month (d_year d) (d_month d)"

definition to_ordinal :: "date \<Rightarrow> nat" where
  "to_ordinal d = days_before_year (d_year d) + days_before_month (d_year d) (d_month d) + d_day d"

text \<open>The position of a day counted from 0 within a list of consecutive periods.\<close>

fun find_period :: "nat list \<Rightarrow> nat \<Rightarrow> nat \<times> nat" where
  "find_period [] n = (0, n)"
| "find_period (l # ls) n =
     (if n < l then (0, n) else (let (i, r) = find_period ls (n - l) in (Suc i, r)))"

function find_year :: "nat \<Rightarrow> nat \<Rightarrow> nat \<times> nat" where
  "find_year y n = (if n < days_in_year y then (y, n) else find_year (y + 1) (n - days_in_year y))"
  by pat_completeness auto
termination by (relation "measure snd") (auto simp: days_in_year_def split: if_splits)

declare find_year.simps [simp del]

definition from_ordinal :: "nat \<Rightarrow> date" where
  "from_ordinal n =
     (let c = (n - 1) div 146097;
          (y, r) = find_year (400 * c + 1) ((n - 1) mod 146097);
          (m, k) = find_period (month_lengths y) r
      in \<lparr>d_year = y, d_month = m + 1, d_day = k + 1\<rparr>)"

lemma leap_400: "leap (400 * c + y) = leap y"
proof -
  have e: "400 * c + y = y + 4 * (100 * c)" "400 * c + y = y + 100 * (4 * c)" "400 * c + y = y + 400 * c"
    by simp_all
  have "(400 * c + y) mod 4 = y mod 4" unfolding e(1) by (rule mod_mult_self2)
  moreover have "(400 * c + y) mod 100 = y mod 100" unfolding e(2) by (rule mod_mult_self2)
  moreover have "(400 * c + y) mod 400 = y mod 400" unfolding e(3) by (rule mod_mult_self2)
  ultimately show ?thesis by (simp only: leap_def)
qed

lemma next_year_arith:
  assumes "q100 \<le> q4" "p100 \<Longrightarrow> p4" "p400 \<Longrightarrow> p100"
  shows "Suc z * 365 + (q4 + (if p4 then 1 else 0)) - (q100 + (if p100 then 1 else 0)) +
      (q400 + (if p400 then 1 else 0)) =
    z * 365 + q4 - q100 + q400 + (if p4 \<and> (\<not> p100 \<or> p400) then 366 else (365 :: nat))"
proof -
  obtain k where k: "q4 = q100 + k" using assms(1) le_Suc_ex by blast
  consider "p4" "p100" "p400" | "p4" "p100" "\<not> p400" | "p4" "\<not> p100" "\<not> p400"
    | "\<not> p4" "\<not> p100" "\<not> p400"
    using assms(2-3) by blast
  then show ?thesis by cases (simp_all add: k)
qed

lemma cycle_arith:
  assumes "q100 \<le> q4"
  shows "(400 * c + e) * 365 + (100 * c + q4) - (4 * c + q100) + (c + q400) =
    146097 * c + (e * 365 + q4 - q100 + q400 :: nat)"
proof -
  obtain k where "q4 = q100 + k" using assms(1) le_Suc_ex by blast
  then show ?thesis by simp
qed

lemma days_before_Suc: "1 \<le> y \<Longrightarrow> days_before_year (Suc y) = days_before_year y + days_in_year y"
proof -
  assume y: "1 \<le> y"
  define z where "z = y - 1"
  have z: "y = Suc z" using y by (simp add: z_def)
  define p4 p100 p400 where "p4 \<longleftrightarrow> Suc z mod 4 = 0" and "p100 \<longleftrightarrow> Suc z mod 100 = 0"
    and "p400 \<longleftrightarrow> Suc z mod 400 = 0"
  have d: "Suc z div 4 = z div 4 + (if p4 then 1 else 0)"
    "Suc z div 100 = z div 100 + (if p100 then 1 else 0)"
    "Suc z div 400 = z div 400 + (if p400 then 1 else 0)"
    unfolding p4_def p100_def p400_def by (simp_all add: div_Suc)
  have le: "z div 100 \<le> z div 4" by (simp add: div_le_mono2)
  have m4: "p100 \<Longrightarrow> p4" "p400 \<Longrightarrow> p100"
    unfolding p4_def p100_def p400_def by presburger+
  have l: "days_in_year (Suc z) = (if p4 \<and> (\<not> p100 \<or> p400) then 366 else 365)"
    by (simp add: days_in_year_def leap_def p4_def p100_def p400_def)
  show ?thesis
    unfolding z l unfolding days_before_year_def diff_Suc_1 d
    using le m4 by (rule next_year_arith)
qed

lemma days_before_mono: "1 \<le> a \<Longrightarrow> days_before_year a \<le> days_before_year (a + j)"
  by (induction j) (simp_all add: days_before_Suc)

lemma find_year_spec:
  assumes "find_year y n = (y', r)" "1 \<le> y"
  shows "days_before_year y' + r = days_before_year y + n \<and> r < days_in_year y' \<and> y \<le> y'"
  using assms
proof (induction y n rule: find_year.induct)
  case (1 y n)
  show ?case
  proof (cases "n < days_in_year y")
    case True
    then show ?thesis using 1(2) by (simp add: find_year.simps [of y n])
  next
    case False
    then have f: "find_year (y + 1) (n - days_in_year y) = (y', r)"
      using 1(2) by (simp add: find_year.simps [of y n])
    have "1 \<le> y + 1" by simp
    from 1(1) [OF False f this] days_before_Suc [OF 1(3)] False show ?thesis by simp
  qed
qed

lemma find_year_hit:
  assumes "1 \<le> y" "r < days_in_year (y + k)"
  shows "find_year y (days_before_year (y + k) - days_before_year y + r) = (y + k, r)"
  using assms
proof (induction k arbitrary: y)
  case 0
  then show ?case by (simp add: find_year.simps)
next
  case (Suc k)
  have s: "days_before_year (Suc y) = days_before_year y + days_in_year y"
    using Suc.prems(1) by (rule days_before_Suc)
  have m: "days_before_year (Suc y) \<le> days_before_year (Suc y + k)" by (rule days_before_mono) simp
  have eq: "days_before_year (y + Suc k) - days_before_year y + r - days_in_year y
      = days_before_year (Suc y + k) - days_before_year (Suc y) + r"
    using s m by simp
  have "find_year (Suc y) (days_before_year (Suc y + k) - days_before_year (Suc y) + r) = (Suc y + k, r)"
    using Suc.IH [of "Suc y"] Suc.prems by simp
  then show ?case
    using s m eq by (subst find_year.simps) auto
qed

lemma find_period_spec:
  "find_period ls n = (i, r) \<Longrightarrow> n < sum_list ls \<Longrightarrow>
     sum_list (take i ls) + r = n \<and> i < length ls \<and> r < ls ! i"
proof (induction ls n arbitrary: i r rule: find_period.induct)
  case (1 n)
  then show ?case by simp
next
  case (2 l ls n)
  show ?case
  proof (cases "n < l")
    case True
    then show ?thesis using 2(2) by auto
  next
    case False
    obtain j q where jq: "find_period ls (n - l) = (j, q)" by (cases "find_period ls (n - l)")
    then have i: "i = Suc j" "r = q" using 2(2) False by auto
    have "n - l < sum_list ls" using 2(3) False by simp
    from 2(1) [OF False jq this] show ?thesis using i False by auto
  qed
qed

lemma find_period_hit:
  "i < length ls \<Longrightarrow> r < ls ! i \<Longrightarrow> find_period ls (sum_list (take i ls) + r) = (i, r)"
proof (induction ls arbitrary: i)
  case Nil
  then show ?case by simp
next
  case (Cons l ls)
  then show ?case by (cases i) auto
qed

lemma sum_take_le: "i < length ls \<Longrightarrow> sum_list (take i ls) + ls ! i \<le> sum_list (ls :: nat list)"
proof (induction ls arbitrary: i)
  case Nil
  then show ?case by simp
next
  case (Cons l ls)
  then show ?case by (cases i) auto
qed

lemma days_before_cycle:
  assumes "e < 400"
  shows "days_before_year (400 * c + e + 1) = 146097 * c + days_before_year (e + 1)"
proof -
  have d: "(400 * c + e) div 4 = 100 * c + e div 4" "(400 * c + e) div 100 = 4 * c + e div 100"
    "(400 * c + e) div 400 = c + e div 400"
    using div_mult_self2 [of 4 e "100 * c"] div_mult_self2 [of 100 e "4 * c"] div_mult_self2 [of 400 e c]
    by (simp_all add: algebra_simps)
  have le: "e div 100 \<le> e div 4" by (rule div_le_mono2) simp_all
  show ?thesis unfolding days_before_year_def add_diff_cancel_right' d using le by (rule cycle_arith)
qed

lemma month_lengths_sum: "sum_list (month_lengths y) = days_in_year y"
  by (simp add: month_lengths_def days_in_year_def)

lemma month_lengths_length [simp]: "length (month_lengths y) = 12"
  by (simp add: month_lengths_def)

lemma from_to_ordinal:
  assumes "valid_date d"
  shows "from_ordinal (to_ordinal d) = d"
proof -
  define y m k where "y = d_year d" "m = d_month d - 1" "k = d_day d - 1"
  have v: "1 \<le> y" "m < 12" "k < month_lengths y ! m" "d_month d = m + 1" "d_day d = k + 1"
    using assms by (auto simp: valid_date_def y_m_k_def days_in_month_def)
  define r where "r = sum_list (take m (month_lengths y)) + k"
  have p: "find_period (month_lengths y) r = (m, k)"
    unfolding r_def using v by (intro find_period_hit) auto
  have "r < days_in_year y"
  proof -
    have "sum_list (take m (month_lengths y)) + month_lengths y ! m \<le> sum_list (month_lengths y)"
      using v(2) by (intro sum_take_le) simp
    then show ?thesis using v(3) month_lengths_sum [of y] by (simp add: r_def)
  qed
  define n where "n = to_ordinal d - 1"
  have n: "n = days_before_year y + r"
    by (simp add: n_def to_ordinal_def r_def days_before_month_def v y_m_k_def(1) [symmetric])
  define c where "c = (y - 1) div 400"
  have y0: "400 * c + 1 + (y - 1) mod 400 = y" using v(1) by (simp add: c_def)
  have y1: "400 * c + (y - 1) mod 400 + 1 = y" using v(1) by (simp add: c_def)
  have e: "(y - 1) mod 400 < 400" by simp
  have b: "days_before_year y = 146097 * c + days_before_year ((y - 1) mod 400 + 1)"
    using days_before_cycle [OF e, of c] unfolding y1 .
  have b0: "days_before_year (400 * c + 1) = 146097 * c"
    using days_before_cycle [of 0 c] by (simp add: days_before_year_def)
  define w where "w = days_before_year ((y - 1) mod 400 + 1) + r"
  have wl: "w < 146097"
  proof -
    have e: "(y - 1) mod 400 < 400" by simp
    have "leap ((y - 1) mod 400 + 1) = leap y"
      using leap_400 [of c "(y - 1) mod 400 + 1"] y0 by (simp add: add.assoc)
    then have "r < days_in_year ((y - 1) mod 400 + 1)"
      using \<open>r < days_in_year y\<close> by (simp add: days_in_year_def)
    then have "w < days_before_year (Suc ((y - 1) mod 400 + 1))"
      unfolding w_def by (subst days_before_Suc) auto
    also have "\<dots> \<le> days_before_year (Suc ((y - 1) mod 400 + 1) + (399 - (y - 1) mod 400))"
      by (rule days_before_mono) simp
    also have "\<dots> = days_before_year 401" using e by (intro arg_cong [where f = days_before_year]) linarith
    also have "\<dots> = 146097" by (simp add: days_before_year_def)
    finally show ?thesis .
  qed
  define L :: nat where "L = 146097"
  have nw: "n = w + L * c" using n b by (simp add: w_def L_def)
  have wL: "w < L" using wl by (simp only: L_def)
  have nd: "n div 146097 = c" "n mod 146097 = w"
    unfolding nw L_def [symmetric] using wL by (simp_all add: div_mult_self2 mod_mult_self2)
  have wy: "days_before_year y - days_before_year (400 * c + 1) + r = w"
    using b b0 by (simp add: w_def)
  have "1 \<le> 400 * c + 1" by simp
  then have "find_year (400 * c + 1)
      (days_before_year (400 * c + 1 + (y - 1) mod 400) - days_before_year (400 * c + 1) + r) =
      (400 * c + 1 + (y - 1) mod 400, r)"
    by (rule find_year_hit) (use \<open>r < days_in_year y\<close> y0 in \<open>simp only: y0\<close>)
  then have fy: "find_year (400 * c + 1) w = (y, r)"
    by (simp only: y0 wy)
  show ?thesis
    unfolding from_ordinal_def n_def [symmetric] Let_def nd fy prod.case p
    by (rule date.equality) (simp_all add: p v(4,5) flip: y_m_k_def(1))
qed

section \<open>Timestamps\<close>

text \<open>An instant is a count of seconds from 1970-01-01T00:00:00Z, whose ordinal is 719163.\<close>

type_synonym instant = int

definition epoch_ordinal :: int where
  "epoch_ordinal = 719163"

definition date_of :: "instant \<Rightarrow> date" where
  "date_of t = from_ordinal (nat (t div 86400 + epoch_ordinal))"

definition instant_of :: "date \<Rightarrow> nat \<Rightarrow> instant" where
  "instant_of d secs = (int (to_ordinal d) - epoch_ordinal) * 86400 + int secs"

definition midnight :: "nat \<Rightarrow> nat \<Rightarrow> nat \<Rightarrow> instant" where
  "midnight y m d = instant_of \<lparr>d_year = y, d_month = m, d_day = d\<rparr> 0"

lemma date_of_instant_of:
  assumes "valid_date d" "secs < 86400"
  shows "date_of (instant_of d secs) = d"
proof -
  have "instant_of d secs div 86400 = int (to_ordinal d) - epoch_ordinal"
    using assms(2) by (simp add: instant_of_def)
  then show ?thesis by (simp add: date_of_def from_to_ordinal [OF assms(1)])
qed

section \<open>Text formats\<close>

text \<open>\<open>f"{n:02d}"\<close>: decimal digits padded with zeros on the left.\<close>

definition pad :: "nat \<Rightarrow> nat \<Rightarrow> pystr" where
  "pad w n = (let s = nat_str n in replicate (w - length s) 48 @ s)"

definition fmt_date :: "date \<Rightarrow> pystr" where
  "fmt_date d = pad 4 (d_year d) @ [45] @ pad 2 (d_month d) @ [45] @ pad 2 (d_day d)"

definition fmt_instant :: "instant \<Rightarrow> pystr" where
  "fmt_instant t =
     (let s = nat (t mod 86400) in
      fmt_date (date_of t) @ [84] @ pad 2 (s div 3600) @ [58] @ pad 2 (s div 60 mod 60) @
      [58] @ pad 2 (s mod 60) @ [90])"

definition two_digits :: "nat list \<Rightarrow> nat option" where
  "two_digits s = (if list_all (\<lambda>c. 48 \<le> c \<and> c \<le> 57) s then Some (foldl (\<lambda>n c. 10 * n + (c - 48)) 0 s) else None)"

definition parse_date :: "pystr \<Rightarrow> date result" where
  "parse_date s =
     (if length s = 10 \<and> s ! 4 = 45 \<and> s ! 7 = 45 then
        (case (two_digits (take 4 s), two_digits (take 2 (drop 5 s)), two_digits (drop 8 s)) of
           (Some y, Some m, Some d) \<Rightarrow>
             (let x = \<lparr>d_year = y, d_month = m, d_day = d\<rparr> in
              if valid_date x then Inr x else Inl ValueError)
         | _ \<Rightarrow> Inl ValueError)
      else Inl ValueError)"

definition parse_clock :: "pystr \<Rightarrow> nat result" where
  "parse_clock s =
     (if length s = 8 \<and> s ! 2 = 58 \<and> s ! 5 = 58 then
        (case (two_digits (take 2 s), two_digits (take 2 (drop 3 s)), two_digits (drop 6 s)) of
           (Some h, Some m, Some c) \<Rightarrow>
             if h < 24 \<and> m < 60 \<and> c < 60 then Inr (3600 * h + 60 * m + c) else Inl ValueError
         | _ \<Rightarrow> Inl ValueError)
      else Inl ValueError)"

definition parse_instant :: "pystr \<Rightarrow> instant result" where
  "parse_instant s =
     (if length s = 20 \<and> s ! 10 = 84 \<and> s ! 19 = 90 then
        bind_result (parse_date (take 10 s)) (\<lambda>d.
        bind_result (parse_clock (take 8 (drop 11 s))) (\<lambda>c. Inr (instant_of d c)))
      else Inl ValueError)"

section \<open>Printed numbers and times\<close>

lemma pad_value: "num_of_digits 0 (map (\<lambda>c. c - 48) (pad w n)) = n"
proof -
  have "map (\<lambda>c. c - 48) (nat_str n) = digits_of n" by (simp add: nat_str_def chars_of_digits_def comp_def)
  then show ?thesis by (simp add: pad_def Let_def num_of_digits_zeros num_of_digits_of)
qed

lemma pad_inj: "pad w n = pad v m \<Longrightarrow> n = m"
  using pad_value [of w n] pad_value [of v m] by simp

lemma pad_digits: "c \<in> set (pad w n) \<Longrightarrow> 48 \<le> c \<and> c < 58"
  using nat_str_chars [of c n] by (auto simp: pad_def Let_def split: if_splits)

lemma to_from_ordinal:
  assumes "1 \<le> n"
  shows "to_ordinal (from_ordinal n) = n"
proof -
  define c where "c = (n - 1) div 146097"
  obtain y r where yr: "find_year (400 * c + 1) ((n - 1) mod 146097) = (y, r)" by force
  obtain m k where mk: "find_period (month_lengths y) r = (m, k)" by force
  have fy: "days_before_year y + r = days_before_year (400 * c + 1) + (n - 1) mod 146097" "r < days_in_year y"
    using find_year_spec [OF yr] by simp_all
  have "days_before_year (400 * c + 1) = 146097 * c"
    using days_before_cycle [of 0 c] by (simp add: days_before_year_def)
  moreover have "sum_list (take m (month_lengths y)) + k = r"
    using find_period_spec [OF mk] fy(2) by (simp add: month_lengths_sum)
  moreover have "146097 * c + (n - 1) mod 146097 = n - 1" by (simp add: c_def)
  moreover have "from_ordinal n = \<lparr>d_year = y, d_month = m + 1, d_day = k + 1\<rparr>"
    unfolding from_ordinal_def Let_def c_def [symmetric] yr prod.case mk by simp
  ultimately show ?thesis
    using fy(1) assms by (simp add: to_ordinal_def days_before_month_def)
qed

lemma fmt_date_inj:
  assumes "fmt_date d = fmt_date d'"
  shows "d = d'"
proof -
  have n: "45 \<notin> set (pad w n)" for w n using pad_digits by force
  have y: "pad 4 (d_year d) = pad 4 (d_year d') \<and> pad 2 (d_month d) @ 45 # pad 2 (d_day d) = pad 2 (d_month d') @ 45 # pad 2 (d_day d')"
    using first_at_inj [OF assms [unfolded fmt_date_def append_Cons append_Nil] n n] by simp
  have m: "pad 2 (d_month d) = pad 2 (d_month d') \<and> pad 2 (d_day d) = pad 2 (d_day d')"
    by (rule first_at_inj [OF conjunct2 [OF y] n n])
  from y m have "d_year d = d_year d'" "d_month d = d_month d'" "d_day d = d_day d'"
    using pad_inj [of 4 "d_year d" 4 "d_year d'"] pad_inj [of 2 "d_month d" 2 "d_month d'"] pad_inj [of 2 "d_day d" 2 "d_day d'"] by simp_all
  then show ?thesis by simp
qed

lemma clock_parts: "x = 3600 * (x div 3600) + 60 * (x div 60 mod 60) + x mod (60 :: nat)"
proof -
  have "x div 3600 = x div 60 div 60" by (simp flip: div_mult2_eq)
  moreover have "x div 60 = 60 * (x div 60 div 60) + x div 60 mod 60" by simp
  moreover have "x = 60 * (x div 60) + x mod 60" by simp
  ultimately show ?thesis by linarith
qed

lemma fmt_instant_inj:
  assumes "fmt_instant t = fmt_instant t'" "0 \<le> t" "0 \<le> t'"
  shows "t = t'"
proof -
  define s where "s = (\<lambda>t. nat (t mod 86400))"
  have n: "84 \<notin> set (fmt_date d)" "58 \<notin> set (pad w n)" "90 \<notin> set (pad w n)" for d w n
    using pad_digits by (force simp: fmt_date_def)+
  have f: "fmt_instant t = fmt_date (date_of t) @ 84 # pad 2 (s t div 3600) @ 58 # pad 2 (s t div 60 mod 60) @ 58 # pad 2 (s t mod 60) @ 90 # []" for t
    by (simp add: fmt_instant_def s_def Let_def)
  have "fmt_date (date_of t) = fmt_date (date_of t')"
    and r1: "pad 2 (s t div 3600) @ 58 # pad 2 (s t div 60 mod 60) @ 58 # pad 2 (s t mod 60) @ 90 # [] =
      pad 2 (s t' div 3600) @ 58 # pad 2 (s t' div 60 mod 60) @ 58 # pad 2 (s t' mod 60) @ 90 # []"
    using first_at_inj [OF assms(1) [unfolded f] n(1) n(1)] by simp_all
  then have d: "date_of t = date_of t'" using fmt_date_inj by blast
  have h: "pad 2 (s t div 3600) = pad 2 (s t' div 3600)"
    and r2: "pad 2 (s t div 60 mod 60) @ 58 # pad 2 (s t mod 60) @ 90 # [] = pad 2 (s t' div 60 mod 60) @ 58 # pad 2 (s t' mod 60) @ 90 # []"
    using first_at_inj [OF r1 n(2) n(2)] by simp_all
  have m: "pad 2 (s t div 60 mod 60) = pad 2 (s t' div 60 mod 60)" and r3: "pad 2 (s t mod 60) @ 90 # [] = pad 2 (s t' mod 60) @ 90 # []"
    using first_at_inj [OF r2 n(2) n(2)] by simp_all
  have c: "pad 2 (s t mod 60) = pad 2 (s t' mod 60)" using first_at_inj [OF r3 n(3) n(3)] by simp
  have "s t = 3600 * (s t' div 3600) + 60 * (s t' div 60 mod 60) + s t' mod 60"
    using clock_parts [of "s t"] unfolding pad_inj [OF h] pad_inj [OF m] pad_inj [OF c] .
  also have "\<dots> = s t'" by (rule clock_parts [symmetric])
  finally have "s t = s t'" .
  then have "t mod 86400 = t' mod 86400" by (simp add: s_def)
  moreover have "t div 86400 = t' div 86400"
  proof -
    have o: "1 \<le> nat (x div 86400 + epoch_ordinal)" if "0 \<le> x" for x using that by (simp add: epoch_ordinal_def pos_imp_zdiv_nonneg_iff nat_le_iff)
    have "to_ordinal (date_of t) = to_ordinal (date_of t')" using d by simp
    then have "nat (t div 86400 + epoch_ordinal) = nat (t' div 86400 + epoch_ordinal)"
      unfolding date_of_def to_from_ordinal [OF o [OF assms(2)]] to_from_ordinal [OF o [OF assms(3)]] .
    then show ?thesis using assms(2,3) by (simp add: epoch_ordinal_def pos_imp_zdiv_nonneg_iff eq_nat_nat_iff)
  qed
  ultimately show ?thesis by (metis div_mult_mod_eq)
qed

end
