(* ===== verification/PyDict.thy ===== *)
theory PyDict
  imports PyTime "HOL-Library.List_Lexorder" "HOL-Library.Product_Lexorder"
begin

text \<open>
  The dict, list and number idioms of the analytic components: fallible loops, counters and
  dicts of lists, stable sorts by string keys, indices from the end, binary search, and the
  float operations \<open>sum\<close>, \<open>round(x, 4)\<close> and the \<open>numpy.round\<close> of four decimals.
\<close>

section \<open>Fallible loops\<close>

fun map_result :: "('a \<Rightarrow> 'b result) \<Rightarrow> 'a list \<Rightarrow> 'b list result" where
  "map_result f [] = Inr []"
| "map_result f (x # xs) =
     bind_result (f x) (\<lambda>y. bind_result (map_result f xs) (\<lambda>ys. Inr (y # ys)))"

fun fold_result :: "('s \<Rightarrow> 'a \<Rightarrow> 's result) \<Rightarrow> 's \<Rightarrow> 'a list \<Rightarrow> 's result" where
  "fold_result f s [] = Inr s"
| "fold_result f s (x # xs) = bind_result (f s x) (\<lambda>s'. fold_result f s' xs)"

definition lookup :: "('k \<times> 'v) list \<Rightarrow> 'k \<Rightarrow> 'v result" where
  "lookup m k = (case map_of m k of None \<Rightarrow> Inl KeyError | Some v \<Rightarrow> Inr v)"

definition check :: "bool \<Rightarrow> 'a \<Rightarrow> 'a result" where
  "check b x = (if b then Inr x else Inl AssertionError)"

lemma map_result_Inr:
  "map_result f xs = Inr ys \<longleftrightarrow> list_all2 (\<lambda>x y. f x = Inr y) xs ys"
proof (induction xs arbitrary: ys)
  case Nil
  then show ?case by auto
next
  case (Cons x xs)
  show ?case
  proof (cases ys)
    case Nil
    then show ?thesis by (auto simp: bind_result_Inr)
  next
    case (Cons y ys')
    then show ?thesis using Cons.IH [of ys'] by (auto simp: bind_result_Inr)
  qed
qed

lemma map_result_total: "(\<And>x. x \<in> set xs \<Longrightarrow> f x = Inr (g x)) \<Longrightarrow> map_result f xs = Inr (map g xs)"
  by (induction xs) auto

lemma fold_result_append:
  "fold_result f s (xs @ ys) = bind_result (fold_result f s xs) (\<lambda>s'. fold_result f s' ys)"
proof (induction xs arbitrary: s)
  case Nil
  then show ?case by simp
next
  case (Cons x xs)
  then show ?case by (cases "f s x") auto
qed

lemma fold_result_invariant:
  assumes "fold_result f s xs = Inr s'" "P s" "\<And>s x t. x \<in> set xs \<Longrightarrow> P s \<Longrightarrow> f s x = Inr t \<Longrightarrow> P t"
  shows "P s'"
  using assms
proof (induction xs arbitrary: s)
  case Nil
  then show ?case by simp
next
  case (Cons x xs)
  obtain t where t: "f s x = Inr t" "fold_result f t xs = Inr s'"
    using Cons.prems(1) by (auto simp: bind_result_Inr)
  have "P t" using Cons.prems(2,3) t(1) by (meson list.set_intros(1))
  then show ?case using Cons.IH [OF t(2)] Cons.prems(3) by (meson list.set_intros(2))
qed

section \<open>Dicts of counters and of lists\<close>

definition get_or :: "'v \<Rightarrow> ('k \<times> 'v) list \<Rightarrow> 'k \<Rightarrow> 'v" where
  "get_or d m k = (case map_of m k of None \<Rightarrow> d | Some v \<Rightarrow> v)"

text \<open>\<open>m[k] = m.get(k, 0) + 1\<close> and \<open>m.setdefault(k, []).append(v)\<close>.\<close>

definition bump :: "'k \<Rightarrow> ('k \<times> int) list \<Rightarrow> ('k \<times> int) list" where
  "bump k m = alist_set k (get_or 0 m k + 1) m"

definition dict_append :: "'k \<Rightarrow> 'v list \<Rightarrow> ('k \<times> 'v list) list \<Rightarrow> ('k \<times> 'v list) list" where
  "dict_append k vs m = alist_set k (get_or [] m k @ vs) m"

lemma get_or_alist_set: "get_or d (alist_set k v m) k' = (if k' = k then v else get_or d m k')"
  by (simp add: get_or_def map_of_alist_set)

lemma get_or_bump: "get_or 0 (bump k m) k' = get_or 0 m k' + (if k' = k then 1 else 0)"
  by (simp add: bump_def get_or_alist_set)

lemma get_or_dict_append: "get_or [] (dict_append k vs m) k' = get_or [] m k' @ (if k' = k then vs else [])"
  by (simp add: dict_append_def get_or_alist_set)

lemma keys_bump: "fst ` set (bump k m) = insert k (fst ` set m)"
  by (simp add: bump_def set_fst_alist_set)

lemma keys_dict_append: "fst ` set (dict_append k vs m) = insert k (fst ` set m)"
  by (simp add: dict_append_def set_fst_alist_set)

lemma get_or_absent: "k \<notin> fst ` set m \<Longrightarrow> get_or d m k = d"
  by (simp add: get_or_def map_of_eq_None_iff [THEN iffD2])

text \<open>Counting with \<open>bump\<close>: the count of a key is the number of elements with that key.\<close>

lemma get_or_fold_bump:
  "get_or 0 (foldl (\<lambda>m x. if P x then bump (f x) m else m) m0 xs) k =
     get_or 0 m0 k + int (length (filter (\<lambda>x. P x \<and> f x = k) xs))"
  by (induction xs arbitrary: m0) (auto simp: get_or_bump)

lemma keys_fold_bump:
  "fst ` set (foldl (\<lambda>m x. if P x then bump (f x) m else m) m0 xs) =
     fst ` set m0 \<union> f ` {x \<in> set xs. P x}"
  by (induction xs arbitrary: m0) (auto simp: keys_bump)

lemma distinct_fold_bump:
  "distinct (map fst m0) \<Longrightarrow>
     distinct (map fst (foldl (\<lambda>m x. if P x then bump (f x) m else m) m0 xs))"
  by (induction xs arbitrary: m0) (auto simp: bump_def distinct_alist_set)

section \<open>Indices\<close>

text \<open>\<open>xs[i]\<close>: a negative index counts from the end, any other out of range raises.\<close>

definition py_index :: "'a list \<Rightarrow> int \<Rightarrow> 'a result" where
  "py_index xs i =
     (if 0 \<le> i \<and> i < int (length xs) then Inr (xs ! nat i)
      else if i < 0 \<and> - int (length xs) \<le> i then Inr (xs ! nat (int (length xs) + i))
      else Inl IndexError)"

definition index_of :: "'a \<Rightarrow> 'a list \<Rightarrow> nat" where
  "index_of x xs = length (takeWhile (\<lambda>y. y \<noteq> x) xs)"

definition list_index :: "'a \<Rightarrow> 'a list \<Rightarrow> nat result" where
  "list_index x xs = (if x \<in> set xs then Inr (index_of x xs) else Inl ValueError)"

lemma index_of_less: "x \<in> set xs \<Longrightarrow> index_of x xs < length xs"
  by (induction xs) (auto simp: index_of_def)

lemma nth_index_of: "x \<in> set xs \<Longrightarrow> xs ! index_of x xs = x"
  by (induction xs) (auto simp: index_of_def)

lemma index_of_inject: "x \<in> set xs \<Longrightarrow> y \<in> set xs \<Longrightarrow> index_of x xs = index_of y xs \<longleftrightarrow> x = y"
  by (metis nth_index_of)

section \<open>Binary search\<close>

text \<open>\<open>bisect.bisect_right\<close>, the loop of the standard library.\<close>

function bisect_loop :: "('a :: linorder) list \<Rightarrow> 'a \<Rightarrow> nat \<Rightarrow> nat \<Rightarrow> nat" where
  "bisect_loop xs t lo hi =
     (if lo < hi then
        (let mid = (lo + hi) div 2 in
         if t < xs ! mid then bisect_loop xs t lo mid else bisect_loop xs t (mid + 1) hi)
      else lo)"
  by pat_completeness auto
termination by (relation "measure (\<lambda>(xs, t, lo, hi). hi - lo)") auto

declare bisect_loop.simps [simp del]

definition bisect_right :: "('a :: linorder) list \<Rightarrow> 'a \<Rightarrow> nat" where
  "bisect_right xs t = bisect_loop xs t 0 (length xs)"

lemma bisect_loop_spec:
  assumes "sorted xs" "lo \<le> hi" "hi \<le> length xs"
    "\<forall>i < lo. xs ! i \<le> t" "\<forall>i. hi \<le> i \<and> i < length xs \<longrightarrow> t < xs ! i"
  shows "bisect_loop xs t lo hi \<le> length xs \<and> (\<forall>i < bisect_loop xs t lo hi. xs ! i \<le> t) \<and>
    (\<forall>i. bisect_loop xs t lo hi \<le> i \<and> i < length xs \<longrightarrow> t < xs ! i)"
  using assms
proof (induction xs t lo hi rule: bisect_loop.induct)
  case (1 xs t lo hi)
  show ?case
  proof (cases "lo < hi")
    case False
    then have e: "bisect_loop xs t lo hi = lo" by (subst bisect_loop.simps) simp
    have "lo = hi" using False 1(4) by simp
    then show ?thesis unfolding e using 1(4-7) by simp
  next
    case True
    define mid where "mid = (lo + hi) div 2"
    have m: "lo \<le> mid" "mid < hi" using True by (auto simp: mid_def)
    show ?thesis
    proof (cases "t < xs ! mid")
      case less: True
      have "\<forall>i. mid \<le> i \<and> i < length xs \<longrightarrow> t < xs ! i"
      proof (intro allI impI)
        fix i assume "mid \<le> i \<and> i < length xs"
        then have "xs ! mid \<le> xs ! i" by (intro sorted_nth_mono [OF 1(3)]) simp_all
        then show "t < xs ! i" using less by simp
      qed
      then have "bisect_loop xs t lo mid \<le> length xs \<and> (\<forall>i < bisect_loop xs t lo mid. xs ! i \<le> t) \<and>
          (\<forall>i. bisect_loop xs t lo mid \<le> i \<and> i < length xs \<longrightarrow> t < xs ! i)"
        by (intro 1(1) [OF True mid_def less] 1(3)) (use m 1(5,6) in simp_all)
      then show ?thesis using True less by (simp add: bisect_loop.simps [of xs t lo hi] mid_def Let_def)
    next
      case geq: False
      have "\<forall>i < mid + 1. xs ! i \<le> t"
      proof (intro allI impI)
        fix i assume "i < mid + 1"
        then have "xs ! i \<le> xs ! mid" using m(2) 1(5) by (intro sorted_nth_mono [OF 1(3)]) simp_all
        then show "xs ! i \<le> t" using geq by simp
      qed
      then have "bisect_loop xs t (mid + 1) hi \<le> length xs \<and> (\<forall>i < bisect_loop xs t (mid + 1) hi. xs ! i \<le> t) \<and>
          (\<forall>i. bisect_loop xs t (mid + 1) hi \<le> i \<and> i < length xs \<longrightarrow> t < xs ! i)"
        by (intro 1(2) [OF True mid_def geq] 1(3,7)) (use m 1(5,6) in simp_all)
      then show ?thesis using True geq by (simp add: bisect_loop.simps [of xs t lo hi] mid_def Let_def)
    qed
  qed
qed

lemma bisect_right_filter:
  assumes "sorted xs"
  shows "bisect_right xs t = length (filter (\<lambda>x. x \<le> t) xs)"
    and "take (bisect_right xs t) xs = filter (\<lambda>x. x \<le> t) xs"
proof -
  define k where "k = bisect_right xs t"
  have vac: "\<forall>i. length xs \<le> i \<and> i < length xs \<longrightarrow> t < xs ! i" by auto
  have k: "k \<le> length xs" "\<forall>i < k. xs ! i \<le> t" "\<forall>i. k \<le> i \<and> i < length xs \<longrightarrow> t < xs ! i"
    unfolding k_def bisect_right_def
    using bisect_loop_spec [where xs = xs and lo = 0 and hi = "length xs" and t = t] assms vac by simp_all
  have a: "filter (\<lambda>x. x \<le> t) (take k xs) = take k xs"
    using k by (auto simp: filter_id_conv in_set_conv_nth)
  have b: "filter (\<lambda>x. x \<le> t) (drop k xs) = []"
    using k(3) by (auto simp: filter_empty_conv in_set_conv_nth not_le)
  have "filter (\<lambda>x. x \<le> t) (take k xs @ drop k xs) = take k xs"
    unfolding filter_append a b by simp
  then have f: "filter (\<lambda>x. x \<le> t) xs = take k xs" by simp
  show "take (bisect_right xs t) xs = filter (\<lambda>x. x \<le> t) xs" using f by (simp add: k_def)
  show "bisect_right xs t = length (filter (\<lambda>x. x \<le> t) xs)" using f k(1) by (simp add: k_def)
qed

section \<open>Floats\<close>

text \<open>
  \<open>sum\<close> of floats, which since Python 3.12 carries a compensation term (Neumaier);
  \<open>round(x, 4)\<close>, exact to the half-even decimal and then rounded to a double; and
  \<open>numpy.round(x, 4)\<close>, which scales, rounds to an integer and scales back.
\<close>

fun sum_comp :: "rat \<Rightarrow> rat \<Rightarrow> rat list \<Rightarrow> rat" where
  "sum_comp s c [] = (if c = 0 then s else fl (s + c))"
| "sum_comp s c (x # xs) =
     (let t = fl (s + x);
          c' = (if \<bar>x\<bar> \<le> \<bar>s\<bar> then fl (c + fl (fl (s - t) + x)) else fl (c + fl (fl (x - t) + s)))
      in sum_comp t c' xs)"

definition py_sum :: "rat list \<Rightarrow> rat" where
  "py_sum xs = (case xs of [] \<Rightarrow> 0 | x # xs' \<Rightarrow> sum_comp x 0 xs')"

definition round4 :: "rat \<Rightarrow> rat" where
  "round4 x = fl (of_int (round_half_even (x * 10000)) / 10000)"

definition np_round4 :: "rat \<Rightarrow> rat" where
  "np_round4 x = fl (of_int (round_half_even (fl (x * 10000))) / 10000)"

definition fdiv :: "rat \<Rightarrow> int \<Rightarrow> rat" where
  "fdiv x n = fl (x / of_int n)"

section \<open>Stable grouping\<close>

text \<open>The first element of every run of equal keys, and the runs themselves.\<close>

fun run_heads :: "('a \<Rightarrow> 'k) \<Rightarrow> 'k option \<Rightarrow> 'a list \<Rightarrow> 'a list" where
  "run_heads key prev [] = []"
| "run_heads key prev (x # xs) =
     (if prev = Some (key x) then run_heads key (Some (key x)) xs
      else x # run_heads key (Some (key x)) xs)"

fun runs :: "('a \<Rightarrow> 'k) \<Rightarrow> 'a list \<Rightarrow> 'a list list" where
  "runs key [] = []"
| "runs key (x # xs) =
     (case runs key xs of
        [] \<Rightarrow> [[x]]
      | g # gs \<Rightarrow> if key x = key (hd g) then (x # g) # gs else [x] # g # gs)"

lemma runs_concat: "concat (runs key xs) = xs"
proof (induction xs)
  case Nil
  then show ?case by simp
next
  case (Cons x xs)
  then show ?case by (auto split: list.splits)
qed

lemma runs_nonempty: "g \<in> set (runs key xs) \<Longrightarrow> g \<noteq> []"
  by (induction xs arbitrary: g) (auto split: list.splits if_splits)

lemma runs_key: "g \<in> set (runs key xs) \<Longrightarrow> x \<in> set g \<Longrightarrow> key x = key (hd g)"
proof (induction xs arbitrary: g x)
  case Nil
  then show ?case by simp
next
  case (Cons a xs)
  show ?case
  proof (cases "runs key xs")
    case Nil
    then show ?thesis using Cons.prems by simp
  next
    case R: (Cons h gs)
    have k: "key z = key (hd h)" if "z \<in> set h" for z
      using Cons.IH [of h z] R that by simp
    have k2: "key z = key (hd f)" if "f \<in> set gs" "z \<in> set f" for f z
      using Cons.IH [of f z] R that by simp
    show ?thesis using Cons.prems R k k2 by (auto split: if_splits)
  qed
qed

end
