(* ===== verification/MockPeer.thy ===== *)
theory MockPeer
  imports PyDict Json
begin

text \<open>
  The mock slow peer of 11-python-concurrency/harness/peer.py.  The handler is a coroutine: it runs
  without interruption from its start to the sleep and from the end of the sleep to its response,
  and a handler that sleeps may be cancelled.  These three segments are the steps; any interleaving
  of the steps of any number of requests is a run.  The private random generator is a parameter,
  its \<open>n\<close>-th \<open>random()\<close> value; the clock reading of a segment is part of its event.
\<close>

section \<open>State\<close>

datatype body = NoBody | Bytes "nat list" | Json json

record peer_config =
  base_latency :: rat
  jitter :: rat
  max_concurrency :: "nat option"
  rate_per_sec :: "rat option"
  error_rate :: rat
  corpus :: "(pystr \<times> body) list option"
  draw :: "nat \<Rightarrow> rat"

record peer_stats =
  total_requests :: nat
  max_observed :: nat
  error_responses :: nat
  throttled :: nat

record peer =
  stats :: peer_stats
  in_flight :: nat
  arrivals :: "rat list"
  drawn :: nat
  sleeping :: "(nat \<times> pystr) list"

datatype response = Ok200 body | Throttled429 | Error500

definition start_peer :: peer where
  "start_peer =
     \<lparr>stats = \<lparr>total_requests = 0, max_observed = 0, error_responses = 0, throttled = 0\<rparr>,
      in_flight = 0, arrivals = [], drawn = 0, sleeping = []\<rparr>"

definition peer_url :: "pystr \<Rightarrow> pystr \<Rightarrow> pystr" where
  "peer_url base path = base @ (if startswith path [47] then path else 47 # path)"

section \<open>The handler\<close>

definition bump_throttled :: "peer \<Rightarrow> peer" where
  "bump_throttled p = p\<lparr>stats := (stats p)\<lparr>throttled := Suc (throttled (stats p))\<rparr>\<rparr>"

text \<open>The rate gate: drop the arrivals before the window, record this one, compare the count.\<close>

definition rate_gate :: "peer_config \<Rightarrow> rat \<Rightarrow> rat list \<Rightarrow> bool \<times> rat list" where
  "rate_gate cfg now arr =
     (case rate_per_sec cfg of
        None \<Rightarrow> (False, arr)
      | Some rate \<Rightarrow>
          let arr' = dropWhile (\<lambda>t. t < fl (now - 1)) arr @ [now]
          in (rate < of_nat (length arr'), arr'))"

definition sleep_time :: "peer_config \<Rightarrow> nat \<Rightarrow> rat \<times> nat" where
  "sleep_time cfg n =
     (if 0 < jitter cfg then (fl (base_latency cfg + fl (jitter cfg * draw cfg n)), Suc n)
      else (fl (base_latency cfg), n))"

text \<open>From the arrival to the sleep, or to a 429.\<close>

definition arrive :: "peer_config \<Rightarrow> nat \<Rightarrow> pystr \<Rightarrow> rat \<Rightarrow> peer \<Rightarrow> peer \<times> (response + rat)" where
  "arrive cfg rid path now p0 =
     (let p = p0\<lparr>stats := (stats p0)\<lparr>total_requests := Suc (total_requests (stats p0))\<rparr>\<rparr>
      in if (case max_concurrency cfg of None \<Rightarrow> False | Some m \<Rightarrow> m < in_flight p + 1)
         then (bump_throttled p, Inl Throttled429)
         else
           let p1 = p\<lparr>in_flight := in_flight p + 1\<rparr>;
               p2 = (if max_observed (stats p1) < in_flight p1
                     then p1\<lparr>stats := (stats p1)\<lparr>max_observed := in_flight p1\<rparr>\<rparr> else p1);
               (full, arr) = rate_gate cfg now (arrivals p2);
               p3 = p2\<lparr>arrivals := arr\<rparr>
           in if full then ((bump_throttled p3)\<lparr>in_flight := in_flight p3 - 1\<rparr>, Inl Throttled429)
              else
                let (delay, n) = sleep_time cfg (drawn p3)
                in (p3\<lparr>drawn := n, sleeping := sleeping p3 @ [(rid, path)]\<rparr>, Inr delay))"

definition response_body :: "peer_config \<Rightarrow> pystr \<Rightarrow> body" where
  "response_body cfg path =
     (case (case corpus cfg of None \<Rightarrow> NoBody
            | Some c \<Rightarrow> (case map_of c path of None \<Rightarrow> NoBody | Some b \<Rightarrow> b)) of
        NoBody \<Rightarrow> Json (JObj [(u ''path'', JStr path)])
      | b \<Rightarrow> b)"

definition awake :: "nat \<Rightarrow> peer \<Rightarrow> peer" where
  "awake rid p = p\<lparr>in_flight := in_flight p - 1, sleeping := alist_del rid (sleeping p)\<rparr>"

text \<open>From the end of the sleep to the response.\<close>

definition finish :: "peer_config \<Rightarrow> nat \<Rightarrow> pystr \<Rightarrow> peer \<Rightarrow> peer \<times> response" where
  "finish cfg rid path p =
     (let roll = 0 < error_rate cfg;
          p1 = (if roll then p\<lparr>drawn := Suc (drawn p)\<rparr> else p)
      in if roll \<and> draw cfg (drawn p) < error_rate cfg
         then (awake rid (p1\<lparr>stats := (stats p1)\<lparr>error_responses := Suc (error_responses (stats p1))\<rparr>\<rparr>), Error500)
         else (awake rid p1, Ok200 (response_body cfg path)))"

section \<open>Runs\<close>

text \<open>What a run shows outside: requests arriving, responses, cancelled handlers.\<close>

datatype observation = Arrived nat | Answered nat response | Cancelled nat

inductive peer_run :: "peer_config \<Rightarrow> peer \<Rightarrow> observation list \<Rightarrow> bool" for cfg where
  start: "peer_run cfg start_peer []"
| reject: "peer_run cfg p obs \<Longrightarrow> rid \<notin> fst ` set (sleeping p) \<Longrightarrow> arrive cfg rid path now p = (p', Inl r) \<Longrightarrow>
     peer_run cfg p' (obs @ [Arrived rid, Answered rid r])"
| accept: "peer_run cfg p obs \<Longrightarrow> rid \<notin> fst ` set (sleeping p) \<Longrightarrow> arrive cfg rid path now p = (p', Inr d) \<Longrightarrow>
     peer_run cfg p' (obs @ [Arrived rid])"
| answer: "peer_run cfg p obs \<Longrightarrow> map_of (sleeping p) rid = Some path \<Longrightarrow> finish cfg rid path p = (p', r) \<Longrightarrow>
     peer_run cfg p' (obs @ [Answered rid r])"
| cancel: "peer_run cfg p obs \<Longrightarrow> map_of (sleeping p) rid = Some path \<Longrightarrow>
     peer_run cfg (awake rid p) (obs @ [Cancelled rid])"

inductive_cases peer_runE: "peer_run cfg p obs"

section \<open>The concurrency cap and the accounting\<close>

definition arrived :: "observation list \<Rightarrow> nat" where
  "arrived obs = length (filter (\<lambda>x. case x of Arrived _ \<Rightarrow> True | _ \<Rightarrow> False) obs)"

definition answered :: "(response \<Rightarrow> bool) \<Rightarrow> observation list \<Rightarrow> nat" where
  "answered P obs = length (filter (\<lambda>x. case x of Answered _ r \<Rightarrow> P r | _ \<Rightarrow> False) obs)"

definition cancelled :: "observation list \<Rightarrow> nat" where
  "cancelled obs = length (filter (\<lambda>x. case x of Cancelled _ \<Rightarrow> True | _ \<Rightarrow> False) obs)"

lemma counts_append [simp]:
  "arrived (xs @ ys) = arrived xs + arrived ys"
  "answered P (xs @ ys) = answered P xs + answered P ys"
  "cancelled (xs @ ys) = cancelled xs + cancelled ys"
  "arrived [] = 0" "answered P [] = 0" "cancelled [] = 0"
  by (simp_all add: arrived_def answered_def cancelled_def)

lemma counts_Cons [simp]:
  "arrived (x # xs) = (case x of Arrived _ \<Rightarrow> 1 | _ \<Rightarrow> 0) + arrived xs"
  "answered P (x # xs) = (case x of Answered _ r \<Rightarrow> if P r then 1 else 0 | _ \<Rightarrow> 0) + answered P xs"
  "cancelled (x # xs) = (case x of Cancelled _ \<Rightarrow> 1 | _ \<Rightarrow> 0) + cancelled xs"
  by (simp_all add: arrived_def answered_def cancelled_def split: observation.split)

definition within_cap :: "peer_config \<Rightarrow> nat \<Rightarrow> bool" where
  "within_cap cfg n \<longleftrightarrow> (case max_concurrency cfg of None \<Rightarrow> True | Some m \<Rightarrow> n \<le> m)"

definition peer_inv :: "peer_config \<Rightarrow> peer \<Rightarrow> bool" where
  "peer_inv cfg p \<longleftrightarrow>
     distinct (map fst (sleeping p)) \<and> in_flight p = length (sleeping p) \<and>
     in_flight p \<le> max_observed (stats p) \<and> within_cap cfg (max_observed (stats p))"

text \<open>The two ways an arrival ends, and what it does to the counters.\<close>

lemma arrive_cases:
  assumes "arrive cfg rid path now p = (p', out)" "peer_inv cfg p" "rid \<notin> fst ` set (sleeping p)"
  shows "peer_inv cfg p' \<and> total_requests (stats p') = Suc (total_requests (stats p)) \<and>
    error_responses (stats p') = error_responses (stats p) \<and>
    (case out of
       Inl r \<Rightarrow> r = Throttled429 \<and> throttled (stats p') = Suc (throttled (stats p)) \<and> in_flight p' = in_flight p
     | Inr d \<Rightarrow> throttled (stats p') = throttled (stats p) \<and> in_flight p' = Suc (in_flight p))"
  using assms
  by (auto simp: arrive_def Let_def bump_throttled_def peer_inv_def within_cap_def
      split: if_splits option.splits prod.splits)

lemma awake_inv:
  assumes "peer_inv cfg p" "map_of (sleeping p) rid = Some path"
  shows "peer_inv cfg (awake rid p) \<and> Suc (in_flight (awake rid p)) = in_flight p"
proof -
  have i: "distinct (map fst (sleeping p))" "in_flight p = length (sleeping p)"
    "in_flight p \<le> max_observed (stats p)" "within_cap cfg (max_observed (stats p))"
    using assms(1) by (simp_all add: peer_inv_def)
  have n: "Suc (length (alist_del rid (sleeping p))) = length (sleeping p)"
    using length_alist_del [OF i(1) assms(2)] .
  then have "in_flight p - 1 = length (alist_del rid (sleeping p))" "Suc (in_flight p - 1) = in_flight p"
    using i(2) by linarith+
  then show ?thesis using i distinct_alist_del [OF i(1)] by (simp add: peer_inv_def awake_def)
qed

lemma finish_cases:
  assumes "finish cfg rid path p = (p', r)" "peer_inv cfg p" "map_of (sleeping p) rid = Some path"
  shows "peer_inv cfg p' \<and> Suc (in_flight p') = in_flight p \<and>
    total_requests (stats p') = total_requests (stats p) \<and> throttled (stats p') = throttled (stats p) \<and>
    error_responses (stats p') = error_responses (stats p) + (if r = Error500 then 1 else 0) \<and> r \<noteq> Throttled429"
  using assms awake_inv [of cfg p rid path]
  by (auto simp: finish_def Let_def awake_def peer_inv_def split: if_splits)

text \<open>
  C18. The counters over every interleaving of handlers, cancellations included: every request is
  counted, every 429 and every injected 500 is counted, each request that arrived was answered,
  cancelled or is in flight, and neither the handlers in flight nor the recorded peak exceed the cap.
\<close>

theorem peer_accounting:
  assumes "peer_run cfg p obs"
  shows "total_requests (stats p) = arrived obs \<and>
    throttled (stats p) = answered (\<lambda>r. r = Throttled429) obs \<and>
    error_responses (stats p) = answered (\<lambda>r. r = Error500) obs \<and>
    arrived obs = answered (\<lambda>r. True) obs + cancelled obs + in_flight p \<and>
    in_flight p \<le> max_observed (stats p) \<and>
    (\<forall>m. max_concurrency cfg = Some m \<longrightarrow> max_observed (stats p) \<le> m)"
proof -
  from assms have "peer_inv cfg p \<and> total_requests (stats p) = arrived obs \<and>
    throttled (stats p) = answered (\<lambda>r. r = Throttled429) obs \<and>
    error_responses (stats p) = answered (\<lambda>r. r = Error500) obs \<and>
    arrived obs = answered (\<lambda>r. True) obs + cancelled obs + in_flight p"
  proof induction
    case start
    then show ?case by (simp add: start_peer_def peer_inv_def within_cap_def split: option.split)
  next
    case (reject p obs rid path now p' r)
    then show ?case using arrive_cases [OF reject(3) _ reject(2)] by auto
  next
    case (accept p obs rid path now p' d)
    then show ?case using arrive_cases [OF accept(3) _ accept(2)] by auto
  next
    case (answer p obs rid path p' r)
    then show ?case using finish_cases [OF answer(3) _ answer(2)] by auto
  next
    case (cancel p obs rid path)
    then show ?case using awake_inv [OF _ cancel(2)] by (auto simp: awake_def)
  qed
  then show ?thesis by (auto simp: peer_inv_def within_cap_def split: option.splits)
qed

text \<open>A run with a cap of one: the second request arrives while the first sleeps.\<close>

definition capped :: peer_config where
  "capped = \<lparr>base_latency = 1, jitter = 0, max_concurrency = Some 1, rate_per_sec = None, error_rate = 0,
     corpus = None, draw = \<lambda>_. 0\<rparr>"

theorem peer_accounting_witness:
  "\<exists>p obs. peer_run capped p obs \<and> throttled (stats p) = 1 \<and> max_observed (stats p) \<le> 1 \<and>
     answered (\<lambda>r. r = Throttled429) obs = 1"
proof -
  define p1 where "p1 = fst (arrive capped 1 [47] 0 start_peer)"
  define p2 where "p2 = fst (arrive capped 2 [47] 0 p1)"
  have a: "arrive capped 1 [47] 0 start_peer = (p1, Inr 1)"
    unfolding p1_def by (simp add: arrive_def capped_def start_peer_def rate_gate_def sleep_time_def Let_def)
  have b: "arrive capped 2 [47] 0 p1 = (p2, Inl Throttled429)"
    unfolding p2_def p1_def
    by (simp add: arrive_def capped_def start_peer_def rate_gate_def sleep_time_def Let_def bump_throttled_def)
  have "peer_run capped p1 ([] @ [Arrived 1])"
    by (rule peer_run.accept [OF peer_run.start _ a]) (simp add: start_peer_def)
  from peer_run.reject [OF this _ b]
  have r: "peer_run capped p2 (([] @ [Arrived 1]) @ [Arrived 2, Answered 2 Throttled429])"
    unfolding p1_def by (simp add: arrive_def capped_def start_peer_def rate_gate_def sleep_time_def Let_def)
  have "max_concurrency capped = Some 1" by (simp add: capped_def)
  then have "throttled (stats p2) = 1 \<and> max_observed (stats p2) \<le> 1"
    using peer_accounting [OF r] by simp
  then show ?thesis
    by (intro exI [of _ p2] exI [of _ "[Arrived 1, Arrived 2, Answered 2 Throttled429]"])
      (use r in simp)
qed

section \<open>The rate window\<close>

lemma dropWhile_sorted:
  "sorted xs \<Longrightarrow> dropWhile (\<lambda>t. t < c) xs = filter (\<lambda>t. c \<le> t) xs" for c :: rat
proof (induction xs)
  case Nil
  then show ?case by simp
next
  case (Cons x xs)
  show ?case
  proof (cases "x < c")
    case True
    then show ?thesis using Cons by simp
  next
    case False
    then have "\<forall>y \<in> set xs. c \<le> y" using Cons.prems by (auto intro: order.trans)
    then have "filter (\<lambda>t. c \<le> t) xs = xs" by (simp add: filter_id_conv)
    then show ?thesis using False by simp
  qed
qed

text \<open>
  With readings in order, a request is refused exactly when, itself included, more than the limit
  reached the gate within the last second.
\<close>

lemma rate_gate_exact:
  assumes "sorted arr" "rate_per_sec cfg = Some rate"
  shows "fst (rate_gate cfg now arr) \<longleftrightarrow> rate < of_nat (Suc (length (filter (\<lambda>t. fl (now - 1) \<le> t) arr)))"
  using assms by (simp add: rate_gate_def Let_def dropWhile_sorted)

end
