(* ===== verification/LoadTest.thy ===== *)
theory LoadTest
  imports PyDict
begin

text \<open>
  The load bombardier of 12-api-engineering/harness/load.py: workers that share a remaining count
  or a deadline, the counters they share, and the percentiles of the result.  A worker runs without
  interruption between two awaits; the steps of the workers interleave freely.  What a request
  ends with and the measured latency are part of the event that ends it.
\<close>

section \<open>State\<close>

datatype reply = Status int | NoStatus | Failed

definition succeeded :: "reply \<Rightarrow> bool" where
  "succeeded r = (case r of Status s \<Rightarrow> s < 400 | NoStatus \<Rightarrow> True | Failed \<Rightarrow> False)"

datatype worker = Ready | Waiting | Returned

record bombard =
  remaining :: "int option"
  latencies :: "rat list"
  ok_count :: nat
  err_count :: nat
  workers :: "worker list"

text \<open>
  Neither a duration nor a count is an error; when both are given the workers go by the count.
\<close>

definition start_bombard :: "nat \<Rightarrow> rat option \<Rightarrow> int option \<Rightarrow> bombard result" where
  "start_bombard concurrency duration requests =
     (if duration = None \<and> requests = None then Inl ValueError
      else Inr \<lparr>remaining = requests, latencies = [], ok_count = 0, err_count = 0,
                workers = replicate concurrency Ready\<rparr>)"

text \<open>The loop head of a worker: start another request or return.\<close>

definition loop_head :: "rat option \<Rightarrow> rat \<Rightarrow> nat \<Rightarrow> bombard \<Rightarrow> bombard" where
  "loop_head deadline now i b =
     (case remaining b of
        Some n \<Rightarrow>
          if n \<le> 0 then b\<lparr>workers := (workers b)[i := Returned]\<rparr>
          else b\<lparr>remaining := Some (n - 1), workers := (workers b)[i := Waiting]\<rparr>
      | None \<Rightarrow>
          (case deadline of
             Some d \<Rightarrow> b\<lparr>workers := (workers b)[i := if now < d then Waiting else Returned]\<rparr>
           | None \<Rightarrow> b))"

text \<open>The end of a request: the latency in milliseconds is recorded, one of the counters goes up.\<close>

definition request_end :: "reply \<Rightarrow> rat \<Rightarrow> nat \<Rightarrow> bombard \<Rightarrow> bombard" where
  "request_end r elapsed i b =
     (let b' = b\<lparr>latencies := latencies b @ [fl (elapsed * 1000)], workers := (workers b)[i := Ready]\<rparr>
      in if succeeded r then b'\<lparr>ok_count := Suc (ok_count b')\<rparr> else b'\<lparr>err_count := Suc (err_count b')\<rparr>)"

inductive bombard_step :: "rat option \<Rightarrow> bombard \<Rightarrow> bombard \<Rightarrow> bool" for deadline where
  head: "i < length (workers b) \<Longrightarrow> workers b ! i = Ready \<Longrightarrow> bombard_step deadline b (loop_head deadline now i b)"
| finish: "i < length (workers b) \<Longrightarrow> workers b ! i = Waiting \<Longrightarrow> bombard_step deadline b (request_end r elapsed i b)"

inductive bombard_steps :: "rat option \<Rightarrow> nat \<Rightarrow> bombard \<Rightarrow> bombard \<Rightarrow> bool" for deadline where
  none: "bombard_steps deadline 0 b b"
| more: "bombard_steps deadline n b c \<Longrightarrow> bombard_step deadline c d \<Longrightarrow> bombard_steps deadline (Suc n) b d"

definition all_returned :: "bombard \<Rightarrow> bool" where
  "all_returned b \<longleftrightarrow> list_all (\<lambda>w. w = Returned) (workers b)"

section \<open>The result\<close>

text \<open>Linear interpolation between the two nearest ranks.\<close>

definition percentile :: "rat list \<Rightarrow> rat \<Rightarrow> rat" where
  "percentile vals p =
     (if vals = [] then 0
      else
        let k = fl (of_nat (length vals - 1) * fl (p / 100)); f = \<lfloor>k\<rfloor>; c = \<lceil>k\<rceil>
        in if f = c then vals ! nat f
           else fl (fl (vals ! nat f * fl (of_int c - k)) + fl (vals ! nat c * fl (k - of_int f))))"

record load_result =
  total :: nat
  ok :: nat
  errors :: nat
  rps :: rat
  p50 :: rat
  p95 :: rat
  p99 :: rat
  elapsed_s :: rat

definition bombard_result :: "rat \<Rightarrow> bombard \<Rightarrow> load_result" where
  "bombard_result elapsed b =
     (let vals = sort (latencies b); n = length vals
      in \<lparr>total = n, ok = ok_count b, errors = err_count b,
          rps = (if 0 < elapsed then fl (of_nat n / elapsed) else 0),
          p50 = percentile vals 50, p95 = percentile vals 95, p99 = percentile vals 99,
          elapsed_s = elapsed\<rparr>)"

section \<open>Every request is fired once\<close>

definition waiting :: "bombard \<Rightarrow> nat" where
  "waiting b = length (filter (\<lambda>w. w = Waiting) (workers b))"

definition ready :: "bombard \<Rightarrow> nat" where
  "ready b = length (filter (\<lambda>w. w = Ready) (workers b))"

text \<open>
  In count mode finished, waiting and remaining requests add up to the count, and every step of a
  worker takes exactly one off \<open>steps_left\<close>: a request costs two steps, a return one.
\<close>

definition bombard_inv :: "nat \<Rightarrow> nat \<Rightarrow> bombard \<Rightarrow> bool" where
  "bombard_inv n c b \<longleftrightarrow>
     length (workers b) = c \<and>
     (\<exists>k. remaining b = Some (int k) \<and> length (latencies b) + waiting b + k = n \<and>
        (Returned \<in> set (workers b) \<longrightarrow> k = 0)) \<and>
     ok_count b + err_count b = length (latencies b)"

definition steps_left :: "bombard \<Rightarrow> nat" where
  "steps_left b = 2 * nat (the (remaining b)) + 2 * waiting b + ready b"

lemma waiting_update:
  "i < length (workers b) \<Longrightarrow>
     waiting (b\<lparr>workers := (workers b)[i := w]\<rparr>) + (if workers b ! i = Waiting then 1 else 0) =
       waiting b + (if w = Waiting then 1 else 0)"
  using length_filter_update [of i "workers b" "\<lambda>w. w = Waiting" w] by (simp add: waiting_def)

lemma ready_update:
  "i < length (workers b) \<Longrightarrow>
     ready (b\<lparr>workers := (workers b)[i := w]\<rparr>) + (if workers b ! i = Ready then 1 else 0) =
       ready b + (if w = Ready then 1 else 0)"
  using length_filter_update [of i "workers b" "\<lambda>w. w = Ready" w] by (simp add: ready_def)

lemma count_fields [simp]:
  "waiting (b\<lparr>remaining := x\<rparr>) = waiting b" "waiting (b\<lparr>latencies := ls\<rparr>) = waiting b"
  "waiting (b\<lparr>ok_count := n\<rparr>) = waiting b" "waiting (b\<lparr>err_count := n\<rparr>) = waiting b"
  "ready (b\<lparr>remaining := x\<rparr>) = ready b" "ready (b\<lparr>latencies := ls\<rparr>) = ready b"
  "ready (b\<lparr>ok_count := n\<rparr>) = ready b" "ready (b\<lparr>err_count := n\<rparr>) = ready b"
  by (simp_all add: waiting_def ready_def)

lemma set_update_returned: "Returned \<in> set (ws[i := w]) \<Longrightarrow> w = Returned \<or> Returned \<in> set ws"
  using set_update_subset_insert [of ws i w] by blast

lemma head_counts:
  assumes "bombard_inv n c b" "i < length (workers b)" "workers b ! i = Ready"
  shows "bombard_inv n c (loop_head dl now i b) \<and> Suc (steps_left (loop_head dl now i b)) = steps_left b"
proof -
  obtain k where k: "remaining b = Some (int k)" "length (latencies b) + waiting b + k = n"
    "Returned \<in> set (workers b) \<longrightarrow> k = 0"
    and rest: "length (workers b) = c" "ok_count b + err_count b = length (latencies b)"
    using assms(1) by (auto simp: bombard_inv_def)
  show ?thesis
  proof (cases k)
    case 0
    have h: "loop_head dl now i b = b\<lparr>workers := (workers b)[i := Returned]\<rparr>"
      using k 0 by (simp add: loop_head_def)
    have w: "waiting (loop_head dl now i b) = waiting b" "Suc (ready (loop_head dl now i b)) = ready b"
      unfolding h using waiting_update [OF assms(2), of Returned] ready_update [OF assms(2), of Returned] assms(3)
      by simp_all
    have "bombard_inv n c (loop_head dl now i b)"
      unfolding bombard_inv_def w(1) using k rest 0 by (simp add: h)
    moreover have "Suc (steps_left (loop_head dl now i b)) = steps_left b"
      unfolding steps_left_def w(1) using w(2) by (simp add: h)
    ultimately show ?thesis ..
  next
    case (Suc j)
    have h: "loop_head dl now i b = b\<lparr>remaining := Some (int j), workers := (workers b)[i := Waiting]\<rparr>"
      using k Suc by (simp add: loop_head_def)
    have w: "waiting (loop_head dl now i b) = Suc (waiting b)" "Suc (ready (loop_head dl now i b)) = ready b"
      unfolding h using waiting_update [of i "b\<lparr>remaining := Some (int j)\<rparr>" Waiting]
        ready_update [of i "b\<lparr>remaining := Some (int j)\<rparr>" Waiting] assms(2,3) by simp_all
    have "Returned \<notin> set ((workers b)[i := Waiting])" using k(3) Suc set_update_returned by fastforce
    then have "bombard_inv n c (loop_head dl now i b)"
      unfolding bombard_inv_def w(1) using k rest Suc by (simp add: h)
    moreover have "Suc (steps_left (loop_head dl now i b)) = steps_left b"
      unfolding steps_left_def w(1) using w(2) k Suc by (simp add: h)
    ultimately show ?thesis ..
  qed
qed

lemma finish_counts:
  assumes "bombard_inv n c b" "i < length (workers b)" "workers b ! i = Waiting"
  shows "bombard_inv n c (request_end r e i b) \<and> Suc (steps_left (request_end r e i b)) = steps_left b"
proof -
  have w: "Suc (waiting (request_end r e i b)) = waiting b" "ready (request_end r e i b) = Suc (ready b)"
    using waiting_update [of i "b\<lparr>latencies := latencies b @ [fl (e * 1000)]\<rparr>" Ready]
      ready_update [of i "b\<lparr>latencies := latencies b @ [fl (e * 1000)]\<rparr>" Ready] assms(2,3)
    by (simp_all add: request_end_def Let_def)
  have f: "workers (request_end r e i b) = (workers b)[i := Ready]" "remaining (request_end r e i b) = remaining b"
    "length (latencies (request_end r e i b)) = Suc (length (latencies b))"
    "ok_count (request_end r e i b) + err_count (request_end r e i b) = Suc (ok_count b + err_count b)"
    by (simp_all add: request_end_def Let_def)
  have "bombard_inv n c (request_end r e i b)"
    using assms(1) w(1) f set_update_returned [of "workers b" i Ready] by (auto simp: bombard_inv_def)
  moreover have "Suc (steps_left (request_end r e i b)) = steps_left b"
    unfolding steps_left_def using w f(2) by simp
  ultimately show ?thesis ..
qed

lemma step_counts:
  "bombard_step dl b b' \<Longrightarrow> bombard_inv n c b \<Longrightarrow> bombard_inv n c b' \<and> Suc (steps_left b') = steps_left b"
  by (induction rule: bombard_step.induct) ((rule head_counts finish_counts; assumption)+)

lemma steps_counts:
  "bombard_steps dl m b b' \<Longrightarrow> bombard_inv n c b \<Longrightarrow> bombard_inv n c b' \<and> steps_left b' + m = steps_left b"
proof (induction rule: bombard_steps.induct)
  case (more m b c1 d)
  then show ?case using step_counts [of dl c1 d n c] by auto
qed simp

lemma start_inv:
  assumes "start_bombard c dur (Some (int n)) = Inr b"
  shows "bombard_inv n c b \<and> steps_left b = 2 * n + c"
proof -
  have b: "b = \<lparr>remaining = Some (int n), latencies = [], ok_count = 0, err_count = 0, workers = replicate c Ready\<rparr>"
    using assms by (simp add: start_bombard_def)
  have "waiting b = 0" "ready b = c" by (simp_all add: b waiting_def ready_def)
  then show ?thesis by (auto simp: bombard_inv_def steps_left_def b)
qed

lemma returned_iff_no_steps:
  assumes "bombard_inv n c b" "0 < c"
  shows "all_returned b \<longleftrightarrow> steps_left b = 0"
proof -
  obtain k where k: "remaining b = Some (int k)" "Returned \<in> set (workers b) \<longrightarrow> k = 0"
    using assms(1) by (auto simp: bombard_inv_def)
  have ne: "workers b \<noteq> []" using assms by (auto simp: bombard_inv_def)
  show ?thesis
  proof
    assume a: "all_returned b"
    then have "waiting b = 0" "ready b = 0"
      by (auto simp: all_returned_def waiting_def ready_def filter_empty_conv list_all_iff)
    moreover have "Returned \<in> set (workers b)" using a ne by (cases "workers b") (auto simp: all_returned_def)
    ultimately show "steps_left b = 0" using k by (simp add: steps_left_def)
  next
    assume "steps_left b = 0"
    then have "waiting b = 0" "ready b = 0" by (simp_all add: steps_left_def)
    then have "w \<noteq> Waiting \<and> w \<noteq> Ready" if "w \<in> set (workers b)" for w
      using that by (auto simp: waiting_def ready_def filter_empty_conv)
    then show "all_returned b" unfolding all_returned_def list_all_iff by (meson worker.exhaust)
  qed
qed

lemma step_enabled:
  assumes "\<not> all_returned b"
  shows "\<exists>b'. bombard_step dl b b'"
proof -
  obtain i where i: "i < length (workers b)" "workers b ! i \<noteq> Returned"
    using assms by (auto simp: all_returned_def list_all_iff in_set_conv_nth)
  show ?thesis
  proof (cases "workers b ! i")
    case Ready
    then show ?thesis using bombard_step.head [OF i(1)] by blast
  next
    case Waiting
    then show ?thesis using bombard_step.finish [OF i(1)] by blast
  qed (use i in simp)
qed

text \<open>
  C22. A run over a fixed number of requests: whatever the interleaving of the workers and however
  the requests end, a worker can always go on until all have returned, that is after exactly
  \<open>2 n + c\<close> steps, and then the result counts exactly \<open>n\<close> requests, each a success or an error;
  at no time are more than \<open>c\<close> requests in flight.
\<close>

theorem bombard_exact:
  assumes "start_bombard c dur (Some (int n)) = Inr b0" "0 < c" "bombard_steps dl m b0 b"
  shows "m \<le> 2 * n + c \<and> (all_returned b \<longleftrightarrow> m = 2 * n + c) \<and>
    (\<not> all_returned b \<longrightarrow> (\<exists>b'. bombard_step dl b b')) \<and> waiting b \<le> c \<and>
    (all_returned b \<longrightarrow> total (bombard_result e b) = n \<and>
       ok (bombard_result e b) + errors (bombard_result e b) = n)"
proof -
  have i: "bombard_inv n c b" "steps_left b + m = 2 * n + c"
    using steps_counts [OF assms(3)] start_inv [OF assms(1)] by auto
  have r: "all_returned b \<longleftrightarrow> steps_left b = 0" using returned_iff_no_steps [OF i(1) assms(2)] .
  have "waiting b \<le> length (workers b)" by (simp add: waiting_def)
  then have w: "waiting b \<le> c" using i(1) by (simp add: bombard_inv_def)
  have t: "length (latencies b) = n \<and> ok_count b + err_count b = n" if "all_returned b"
  proof -
    have "steps_left b = 0" using r that by blast
    then show ?thesis using i(1) by (auto simp: bombard_inv_def steps_left_def)
  qed
  show ?thesis
    using i(2) r w t step_enabled [of b dl] by (auto simp: bombard_result_def Let_def)
qed

theorem bombard_exact_witness:
  "\<exists>b0 b. start_bombard 1 None (Some (int 1)) = Inr b0 \<and> bombard_steps None 3 b0 b \<and> all_returned b \<and>
     total (bombard_result 2 b) = 1"
proof -
  define b0 where "b0 = \<lparr>remaining = Some 1, latencies = [], ok_count = 0, err_count = 0, workers = [Ready]\<rparr>"
  define b1 where "b1 = loop_head None 0 0 b0"
  define b2 where "b2 = request_end (Status 200) 0 0 b1"
  define b3 where "b3 = loop_head None 0 0 b2"
  have s: "start_bombard 1 None (Some (int 1)) = Inr b0" by (simp add: start_bombard_def b0_def)
  have w: "workers b0 = [Ready]" "workers b1 = [Waiting]" "workers b2 = [Ready]"
    by (simp_all add: b0_def b1_def b2_def loop_head_def request_end_def succeeded_def Let_def)
  have 1: "bombard_step None b0 b1" unfolding b1_def by (rule bombard_step.head) (simp_all add: w)
  have 2: "bombard_step None b1 b2" unfolding b2_def by (rule bombard_step.finish) (simp_all add: w)
  have 3: "bombard_step None b2 b3" unfolding b3_def by (rule bombard_step.head) (simp_all add: w)
  have m: "bombard_steps None 3 b0 b3"
    using bombard_steps.more [OF bombard_steps.more [OF bombard_steps.more [OF bombard_steps.none 1] 2] 3]
    by (simp add: numeral_3_eq_3)
  have "all_returned b3 \<and> total (bombard_result 2 b3) = 1"
    using bombard_exact [OF s _ m, of 2] by simp
  with s m show ?thesis by auto
qed

end
