(* ===== verification/TextMetrics.thy ===== *)
theory TextMetrics
  imports PyDict PyLines PyAscii
begin

text \<open>
  The metrics of 15-llm-in-pipelines/harness/common.py: precision, recall and F1 of sets, accuracy,
  macro F1, pairwise clustering F1, and the normal forms of prices and texts.  Numbers are doubles
  (\<open>fl\<close>); the table of non-ASCII word characters and of lower case letters are parameters.
\<close>

section \<open>Sets and labels\<close>

definition f1_of :: "rat \<Rightarrow> rat \<Rightarrow> rat" where
  "f1_of p r = (if fl (p + r) = 0 then 0 else fl (fl (fl (2 * p) * r) / fl (p + r)))"

definition ratio :: "nat \<Rightarrow> nat \<Rightarrow> rat" where
  "ratio a b = (if b = 0 then 0 else fl (of_nat a / of_nat b))"

definition prf_of_counts :: "nat \<Rightarrow> nat \<Rightarrow> nat \<Rightarrow> rat \<times> rat \<times> rat" where
  "prf_of_counts tp pred gold =
     (if pred = 0 \<and> gold = 0 then (1, 1, 1)
      else (ratio tp pred, ratio tp gold, f1_of (ratio tp pred) (ratio tp gold)))"

definition prf_from_sets :: "'a set \<Rightarrow> 'a set \<Rightarrow> rat \<times> rat \<times> rat" where
  "prf_from_sets pred gold = prf_of_counts (card (pred \<inter> gold)) (card pred) (card gold)"

definition accuracy :: "'a list \<Rightarrow> 'a list \<Rightarrow> rat result" where
  "accuracy preds golds =
     (if length preds \<noteq> length golds then Inl ValueError
      else if preds = [] then Inr 0
      else Inr (fl (of_nat (length (filter (\<lambda>(p, g). p = g) (zip preds golds))) / of_nat (length preds))))"

definition label_set :: "'a list \<Rightarrow> 'a \<Rightarrow> nat set" where
  "label_set xs l = set (filter (\<lambda>i. xs ! i = l) [0..<length xs])"

definition macro_f1 :: "'a list \<Rightarrow> 'a list \<Rightarrow> 'a list \<Rightarrow> rat result" where
  "macro_f1 preds golds labels =
     (if length preds \<noteq> length golds then Inl ValueError
      else
        let f1s = map (\<lambda>l. snd (snd (prf_from_sets (label_set preds l) (label_set golds l)))) labels
        in Inr (if f1s = [] then 0 else fl (py_sum f1s / of_nat (length f1s))))"

text \<open>The upper triangle of the equality matrix, row by row.\<close>

definition same_cluster :: "'a list \<Rightarrow> bool list" where
  "same_cluster xs = concat (map (\<lambda>i. map (\<lambda>j. xs ! i = xs ! j) [Suc i..<length xs]) [0..<length xs])"

definition count_true :: "bool list \<Rightarrow> nat" where
  "count_true bs = length (filter (\<lambda>b. b) bs)"

definition pair_f1 :: "'a list \<Rightarrow> 'b list \<Rightarrow> (rat \<times> rat \<times> rat) result" where
  "pair_f1 pred gold =
     (let n = length pred in
      if length gold \<noteq> n then Inl ValueError
      else if n < 2 then Inr (1, 1, 1)
      else
        let ps = same_cluster pred; gs = same_cluster gold;
            tp = count_true (map2 (\<and>) ps gs); pp = count_true ps; gp = count_true gs
        in if pp = 0 \<and> gp = 0 then Inr (1, 1, 1)
           else Inr (ratio tp pp, ratio tp gp, f1_of (ratio tp pp) (ratio tp gp)))"

section \<open>Prices\<close>

datatype price_input = PNone | PNumber rat | PText pystr

text \<open>
  \<open>(?i)\b(usd|eur|gbp)\b\<close>, removed wherever it occurs; under \<open>(?i)\<close> the long s also matches.
\<close>

definition ci_char :: "nat \<Rightarrow> nat \<Rightarrow> bool" where
  "ci_char c pat \<longleftrightarrow> ascii_lower c = pat \<or> pat = 115 \<and> c = 383"

definition currency_codes :: "pystr list" where
  "currency_codes = [u ''usd'', u ''eur'', u ''gbp'']"

definition starts_code :: "pystr \<Rightarrow> bool" where
  "starts_code s \<longleftrightarrow>
     list_ex (\<lambda>code. 3 \<le> length s \<and> list_all2 ci_char (take 3 s) code) currency_codes"

fun drop_codes :: "(nat \<Rightarrow> bool) \<Rightarrow> bool \<Rightarrow> pystr \<Rightarrow> pystr" where
  "drop_codes uw prev [] = []"
| "drop_codes uw prev [a] = [a]"
| "drop_codes uw prev [a, b] = [a, b]"
| "drop_codes uw prev (a # b # c # s) =
     (if \<not> prev \<and> starts_code (a # b # c # s) \<and> (s = [] \<or> \<not> is_word uw (hd s))
      then drop_codes uw True s
      else a # drop_codes uw (is_word uw a) (b # c # s))"

definition price_char :: "nat \<Rightarrow> bool" where
  "price_char c \<longleftrightarrow> is_digit c \<or> c = 44 \<or> c = 46 \<or> c = 45"

text \<open>\<open>s.rfind(c)\<close>: the position of the last occurrence.\<close>

definition rfind :: "nat \<Rightarrow> pystr \<Rightarrow> int" where
  "rfind c s = (if c \<in> set s then int (length s) - 1 - int (length (takeWhile (\<lambda>x. x \<noteq> c) (rev s))) else - 1)"

definition plain_number :: "pystr \<Rightarrow> pystr" where
  "plain_number s =
     (let comma = 44 \<in> set s; dot = 46 \<in> set s in
      if comma \<and> dot then
        (if rfind 46 s < rfind 44 s then replace_char 44 46 (remove_char 46 s) else remove_char 44 s)
      else if comma then
        (let parts = split_on 44 s
         in if length parts = 2 \<and> length (parts ! 1) = 2 then replace_char 44 46 s else remove_char 44 s)
      else s)"

text \<open>
  \<open>float\<close> of a string of digits, points and minus signs: digits with at most one point and at least
  one digit, rounded once; values beyond the largest double are outside the model.
\<close>

definition float_of_plain :: "pystr \<Rightarrow> rat option" where
  "float_of_plain s = map_option (\<lambda>d. fl (dec_value d)) (decimal_of_str s)"

definition norm_price :: "(nat \<Rightarrow> bool) \<Rightarrow> price_input \<Rightarrow> rat option" where
  "norm_price uw v =
     (case v of
        PNone \<Rightarrow> None
      | PNumber x \<Rightarrow> Some x
      | PText s \<Rightarrow>
          let t = strip_by is_space s in
          if t = [] then None
          else
            let t2 = filter price_char (drop_codes uw False t) in
            if t2 = [] then None
            else
              let neg = startswith t2 [45]; t3 = lstrip_by (\<lambda>c. c = 45) t2
              in map_option (\<lambda>x. if neg then - x else x) (float_of_plain (plain_number t3)))"

section \<open>Texts\<close>

text \<open>\<open>re.sub(r"[^\w\s]", " ", s)\<close>.\<close>

definition drop_punctuation :: "(nat \<Rightarrow> bool) \<Rightarrow> pystr \<Rightarrow> pystr" where
  "drop_punctuation uw s = map (\<lambda>c. if is_word uw c \<or> is_space c then c else 32) s"

definition norm_text :: "(nat \<Rightarrow> bool) \<Rightarrow> lower_table \<Rightarrow> pystr option \<Rightarrow> pystr" where
  "norm_text uw low v =
     (case v of
        None \<Rightarrow> []
      | Some s \<Rightarrow> strip_by is_space (sub_ws (drop_punctuation uw (py_lower low s))))"

section \<open>Bounds\<close>

lemma ratio_bounds: "a \<le> b \<Longrightarrow> 0 \<le> ratio a b \<and> ratio a b \<le> 1"
proof (cases "b = 0")
  case False
  assume "a \<le> b"
  then have "(of_nat a :: rat) / of_nat b \<le> 1" using False by (simp add: divide_le_eq)
  from fl_mono [OF this] show ?thesis using False by (simp add: ratio_def fl_nonneg)
qed (simp add: ratio_def)

lemma fl_ratio [simp]: "fl (ratio a b) = ratio a b"
  by (simp add: ratio_def)

text \<open>The harmonic mean of two doubles in the unit interval stays there, rounding included.\<close>

lemma f1_bounds:
  assumes "0 \<le> p" "p \<le> 1" "0 \<le> r" "r \<le> 1" "fl p = p"
  shows "0 \<le> f1_of p r \<and> f1_of p r \<le> 1"
proof (cases "fl (p + r) = 0")
  case True
  then show ?thesis by (simp add: f1_of_def)
next
  case False
  have pos: "0 < fl (p + r)" using False assms fl_nonneg [of "p + r"] by simp
  have d: "fl (2 * p) = 2 * p" using fl_double [of p] assms(5) by simp
  have "p * r \<le> p" "p * r \<le> r"
    using assms mult_left_le [of r p] mult_left_le [of p r] by (simp_all add: mult.commute)
  then have le: "2 * p * r \<le> p + r" by linarith
  have "fl (2 * p * r) / fl (p + r) \<le> 1" using fl_mono [OF le] pos by simp
  moreover have "0 \<le> fl (2 * p * r) / fl (p + r)" using pos assms by (simp add: fl_nonneg)
  ultimately show ?thesis
    unfolding f1_of_def d using False fl_mono [of "fl (2 * p * r) / fl (p + r)" 1] by (simp add: fl_nonneg)
qed

lemma ratio_1_iff: "a \<le> b \<Longrightarrow> 0 < b \<Longrightarrow> b < 2 ^ 53 \<Longrightarrow> ratio a b = 1 \<longleftrightarrow> a = b"
proof
  assume a: "a \<le> b" "0 < b" "b < 2 ^ 53" and r: "ratio a b = 1"
  show "a = b"
  proof (rule ccontr)
    assume "a \<noteq> b"
    then have "a + 1 \<le> b" using a by simp
    then have "(of_nat (a + 1) :: rat) \<le> of_nat b" by (simp only: of_nat_le_iff)
    then have le: "(of_nat a :: rat) / of_nat b \<le> 1 - 1 / of_nat b" using a by (simp add: field_simps)
    have "(of_nat b :: rat) \<le> 2 ^ 53"
      using a(3) by (metis of_nat_le_iff of_nat_numeral of_nat_power less_imp_le)
    then have "1 / 2 ^ 53 \<le> 1 / (of_nat b :: rat)" using a(2) by (simp add: frac_le)
    then have "(of_nat a :: rat) / of_nat b \<le> 1 - 1 / 2 ^ 53" using le by linarith
    also have "\<dots> = of_int (2 ^ 53 - 1) * 2 powi (- 53)" by (simp add: power_int_minus field_simps)
    finally have "(of_nat a :: rat) / of_nat b \<le> of_int (2 ^ 53 - 1) * 2 powi (- 53)" .
    from fl_mono [OF this] fl_scaled [of "2 ^ 53 - 1" "- 53"]
    have "fl ((of_nat a :: rat) / of_nat b) \<le> of_int (2 ^ 53 - 1) * 2 powi (- 53)" by simp
    also have "\<dots> < 1" by (simp add: power_int_minus)
    finally show False using r a(2) by (simp add: ratio_def)
  qed
next
  assume "0 < b" "a = b"
  then show "ratio a b = 1" by (simp add: ratio_def)
qed

lemma prf_of_counts_bounds:
  assumes "tp \<le> pred" "tp \<le> gold" "prf_of_counts tp pred gold = (p, r, f)"
  shows "0 \<le> p \<and> p \<le> 1 \<and> 0 \<le> r \<and> r \<le> 1 \<and> 0 \<le> f \<and> f \<le> 1"
  using assms ratio_bounds [of tp pred] ratio_bounds [of tp gold]
    f1_bounds [of "ratio tp pred" "ratio tp gold"]
  by (auto simp: prf_of_counts_def split: if_splits)

lemma prf_1_iff:
  assumes fin: "finite P" "finite G" and big: "card P < 2 ^ 53" "card G < 2 ^ 53"
    and m: "prf_from_sets P G = (p, r, f)"
  shows "p = 1 \<and> r = 1 \<longleftrightarrow> P = G"
proof (cases "card P = 0 \<or> card G = 0")
  case True
  then have "P = {} \<or> G = {}" using fin by simp
  then show ?thesis
    using m fin by (auto simp: prf_from_sets_def prf_of_counts_def ratio_def split: if_splits)
next
  case False
  have le: "card (P \<inter> G) \<le> card P" "card (P \<inter> G) \<le> card G" using fin by (simp_all add: card_mono)
  have pr: "p = ratio (card (P \<inter> G)) (card P)" "r = ratio (card (P \<inter> G)) (card G)"
    using m False by (auto simp: prf_from_sets_def prf_of_counts_def)
  have "p = 1 \<and> r = 1 \<longleftrightarrow> card (P \<inter> G) = card P \<and> card (P \<inter> G) = card G"
    using ratio_1_iff [OF le(1) _ big(1)] ratio_1_iff [OF le(2) _ big(2)] False unfolding pr by simp
  also have "\<dots> \<longleftrightarrow> P \<inter> G = P \<and> P \<inter> G = G"
    using fin card_subset_eq [of P "P \<inter> G"] card_subset_eq [of G "P \<inter> G"] by auto
  finally show ?thesis by blast
qed

section \<open>The matrix form and the pairs\<close>

definition index_pairs :: "nat \<Rightarrow> (nat \<times> nat) list" where
  "index_pairs n = concat (map (\<lambda>i. map (Pair i) [Suc i..<n]) [0..<n])"

definition pairs :: "'a list \<Rightarrow> (nat \<times> nat) set" where
  "pairs xs = {(i, j). i < j \<and> j < length xs \<and> xs ! i = xs ! j}"

lemma same_cluster_index: "same_cluster xs = map (\<lambda>(i, j). xs ! i = xs ! j) (index_pairs (length xs))"
  by (simp add: same_cluster_def index_pairs_def map_concat comp_def)

lemma set_index_pairs: "set (index_pairs n) = {(i, j). i < j \<and> j < n}"
proof -
  have m: "(i, j) \<in> set (index_pairs n)" if ij: "i < j" "j < n" for i j
  proof -
    have "(i, j) \<in> Pair i ` {Suc i..<n}" using ij by (intro imageI) simp
    moreover have "i \<in> {0..<n}" using ij by simp
    ultimately have "\<exists>x \<in> {0..<n}. (i, j) \<in> Pair x ` {Suc x..<n}" ..
    then show ?thesis by (simp add: index_pairs_def)
  qed
  show ?thesis using m by (auto simp: index_pairs_def)
qed

lemma distinct_rows:
  "distinct ns \<Longrightarrow> \<forall>i \<in> set ns. distinct (f i) \<Longrightarrow> distinct (concat (map (\<lambda>i. map (Pair i) (f i)) ns))"
  by (induction ns) (auto simp: distinct_map inj_on_def)

lemma distinct_index_pairs: "distinct (index_pairs n)"
  unfolding index_pairs_def by (rule distinct_rows) simp_all

lemma count_true_card: "distinct xs \<Longrightarrow> count_true (map P xs) = card {x \<in> set xs. P x}"
  by (simp add: count_true_def filter_map comp_def distinct_card [symmetric] del: distinct_card)

lemma count_same: "count_true (same_cluster xs) = card (pairs xs)"
  unfolding same_cluster_index count_true_card [OF distinct_index_pairs]
  by (rule arg_cong [where f = card]) (auto simp: set_index_pairs pairs_def)

lemma map2_map: "map2 f (map g xs) (map h xs) = map (\<lambda>x. f (g x) (h x)) xs"
  by (induction xs) auto

lemma count_both:
  "length ys = length xs \<Longrightarrow>
     count_true (map2 (\<and>) (same_cluster xs) (same_cluster ys)) = card (pairs xs \<inter> pairs ys)"
proof -
  assume len: "length ys = length xs"
  have "count_true (map2 (\<and>) (same_cluster xs) (same_cluster ys)) =
      card {x \<in> set (index_pairs (length xs)).
        (case x of (i, j) \<Rightarrow> xs ! i = xs ! j) \<and> (case x of (i, j) \<Rightarrow> ys ! i = ys ! j)}"
    unfolding same_cluster_index len map2_map by (rule count_true_card [OF distinct_index_pairs])
  also have "\<dots> = card (pairs xs \<inter> pairs ys)"
    by (rule arg_cong [where f = card]) (auto simp: set_index_pairs pairs_def len)
  finally show ?thesis .
qed

lemma finite_pairs [simp]: "finite (pairs xs)"
proof (rule finite_subset)
  show "pairs xs \<subseteq> set (index_pairs (length xs))" by (auto simp: set_index_pairs pairs_def)
qed simp

text \<open>
  C32. The vectorised pairwise F1 is the set F1 of the pairs of items that each labelling puts in
  one cluster; its three numbers lie between 0 and 1 after every rounding; and, below \<open>2 ^ 53\<close>
  pairs, precision and recall are both 1 exactly when the labellings agree on every pair.
\<close>

theorem pair_f1_is_set_f1:
  assumes "length gold = length pred"
  shows "\<exists>p r f. pair_f1 pred gold = Inr (p, r, f) \<and> (p, r, f) = prf_from_sets (pairs pred) (pairs gold) \<and>
    0 \<le> p \<and> p \<le> 1 \<and> 0 \<le> r \<and> r \<le> 1 \<and> 0 \<le> f \<and> f \<le> 1 \<and>
    (card (pairs pred) < 2 ^ 53 \<and> card (pairs gold) < 2 ^ 53 \<longrightarrow> (p = 1 \<and> r = 1 \<longleftrightarrow> pairs pred = pairs gold))"
proof -
  let ?P = "pairs pred" and ?G = "pairs gold"
  have eq: "pair_f1 pred gold = Inr (prf_from_sets ?P ?G)"
  proof (cases "length pred < 2")
    case True
    then have "?P = {}" "?G = {}" using assms by (auto simp: pairs_def)
    then show ?thesis using True assms by (simp add: pair_f1_def prf_from_sets_def prf_of_counts_def)
  next
    case False
    then show ?thesis
      using assms
      by (simp add: pair_f1_def Let_def count_same count_both prf_from_sets_def prf_of_counts_def)
  qed
  obtain p r f where m: "prf_from_sets ?P ?G = (p, r, f)" by (cases "prf_from_sets ?P ?G") auto
  have le: "card (?P \<inter> ?G) \<le> card ?P" "card (?P \<inter> ?G) \<le> card ?G" by (simp_all add: card_mono)
  have bounds: "0 \<le> p \<and> p \<le> 1 \<and> 0 \<le> r \<and> r \<le> 1 \<and> 0 \<le> f \<and> f \<le> 1"
    using prf_of_counts_bounds [OF le] m unfolding prf_from_sets_def by blast
  have "p = 1 \<and> r = 1 \<longleftrightarrow> ?P = ?G" if big: "card ?P < 2 ^ 53" "card ?G < 2 ^ 53"
    using prf_1_iff [OF finite_pairs finite_pairs big m] .
  with eq m bounds show ?thesis by auto
qed

theorem pair_f1_is_set_f1_witness:
  "\<exists>p r f. pair_f1 [1 :: nat, 1, 2] [u ''a'', u ''a'', u ''a''] = Inr (p, r, f) \<and> 0 \<le> f \<and> f \<le> 1"
  using pair_f1_is_set_f1 [of "[u ''a'', u ''a'', u ''a'']" "[1 :: nat, 1, 2]"] by auto

end
