(* ===== verification/LlmClient.thy ===== *)
theory LlmClient
  imports PassFail PyDict Json "HOL-Library.Multiset"
begin

text \<open>
  The language-model transport of 15-llm-in-pipelines/harness/llm.py and the readiness probe of its
  common.py.  HTTP is a parameter: a request, in the current state of the server, gives the JSON of
  a successful response or an exception, which stands for \<open>post\<close>, \<open>raise_for_status\<close> and \<open>json()\<close>.
  A client is a record; the environment is a map from names to values.
\<close>

section \<open>Requests\<close>

text \<open>An exception of the transport, by type name and message, or of the Python code itself.\<close>

datatype exn = Transport pystr pystr | Python py_error

record http_request =
  url :: pystr
  payload :: json
  headers :: "(pystr \<times> pystr) list option"
  timeout :: rat

type_synonym 's http = "http_request \<Rightarrow> 's \<Rightarrow> (exn + json) \<times> 's"

fun item :: "pystr \<Rightarrow> json \<Rightarrow> json result" where
  "item k (JObj kvs) = (case map_of kvs k of Some v \<Rightarrow> Inr v | None \<Rightarrow> Inl KeyError)"
| "item k _ = Inl TypeError"

fun item_at :: "nat \<Rightarrow> json \<Rightarrow> json result" where
  "item_at i (JList xs) = (if i < length xs then Inr (xs ! i) else Inl IndexError)"
| "item_at i (JStr s) = (if i < length s then Inr (JStr [s ! i]) else Inl IndexError)"
| "item_at i (JObj kvs) = Inl KeyError"
| "item_at i _ = Inl TypeError"

definition lift_exn :: "'a result \<Rightarrow> exn + 'a" where
  "lift_exn r = (case r of Inl e \<Rightarrow> Inl (Python e) | Inr x \<Rightarrow> Inr x)"

text \<open>Send a request, then read a value out of the response.\<close>

definition ask :: "'s http \<Rightarrow> http_request \<Rightarrow> (json \<Rightarrow> 'a result) \<Rightarrow> 's \<Rightarrow> (exn + 'a) \<times> 's" where
  "ask http req pick s =
     (case http req s of
        (Inl e, s') \<Rightarrow> (Inl e, s')
      | (Inr j, s') \<Rightarrow> (lift_exn (pick j), s'))"

section \<open>Configuration\<close>

type_synonym environ = "pystr \<Rightarrow> pystr option"

text \<open>\<open>given or os.environ.get(name) or default\<close>.\<close>

definition env_or :: "environ \<Rightarrow> pystr \<Rightarrow> pystr \<Rightarrow> pystr" where
  "env_or env name d = (case env name of Some v \<Rightarrow> if v = [] then d else v | None \<Rightarrow> d)"

definition given_or :: "pystr option \<Rightarrow> pystr \<Rightarrow> pystr" where
  "given_or v d = (case v of Some x \<Rightarrow> if x = [] then d else x | None \<Rightarrow> d)"

definition default_ollama_base_url :: pystr where
  "default_ollama_base_url = u ''http://localhost:11439''"

definition default_openai_base_url :: pystr where
  "default_openai_base_url = u ''https://api.openai.com/v1''"

definition default_model :: pystr where
  "default_model = u ''qwen2.5:7b-instruct''"

definition default_embed_model :: pystr where
  "default_embed_model = u ''nomic-embed-text''"

definition default_timeout :: rat where
  "default_timeout = 120"

record client_args =
  a_base_url :: "pystr option"
  a_model :: "pystr option"
  a_embed_model :: "pystr option"
  a_api_key :: "pystr option"
  a_timeout :: "rat option"

definition no_args :: client_args where
  "no_args = \<lparr>a_base_url = None, a_model = None, a_embed_model = None, a_api_key = None, a_timeout = None\<rparr>"

record client =
  base_url :: pystr
  model :: pystr
  embed_model :: pystr
  api_key :: "pystr option"
  c_timeout :: rat

datatype llm_client = Ollama client | OpenAI client

text \<open>The interpreter's \<open>float(str)\<close> is a parameter; \<open>None\<close> is its \<open>ValueError\<close>.\<close>

definition read_timeout :: "(pystr \<Rightarrow> rat option) \<Rightarrow> environ \<Rightarrow> rat option \<Rightarrow> rat result" where
  "read_timeout to_float env given =
     (let from_env =
        (case env (u ''LLM_TIMEOUT'') of
           Some s \<Rightarrow> if s = [] then Inr default_timeout
                     else (case to_float s of Some x \<Rightarrow> Inr x | None \<Rightarrow> Inl ValueError)
         | None \<Rightarrow> Inr default_timeout)
      in case given of Some t \<Rightarrow> if t \<noteq> 0 then Inr t else from_env | None \<Rightarrow> from_env)"

definition make_client ::
  "(pystr \<Rightarrow> rat option) \<Rightarrow> environ \<Rightarrow> pystr \<Rightarrow> client_args \<Rightarrow> pystr option \<Rightarrow> client result" where
  "make_client to_float env default_url args key =
     bind_result (read_timeout to_float env (a_timeout args)) (\<lambda>t. Inr
       \<lparr>base_url = rstrip_by (\<lambda>c. c = 47) (given_or (a_base_url args) (env_or env (u ''LLM_BASE_URL'') default_url)),
        model = given_or (a_model args) (env_or env (u ''LLM_MODEL'') default_model),
        embed_model = given_or (a_embed_model args) (env_or env (u ''LLM_EMBED_MODEL'') default_embed_model),
        api_key = key, c_timeout = t\<rparr>)"

definition ollama_client :: "(pystr \<Rightarrow> rat option) \<Rightarrow> environ \<Rightarrow> client_args \<Rightarrow> client result" where
  "ollama_client to_float env args = make_client to_float env default_ollama_base_url args None"

definition openai_client :: "(pystr \<Rightarrow> rat option) \<Rightarrow> environ \<Rightarrow> client_args \<Rightarrow> client result" where
  "openai_client to_float env args =
     make_client to_float env default_openai_base_url args
       (case a_api_key args of
          Some k \<Rightarrow> if k = [] then env (u ''LLM_API_KEY'') else Some k
        | None \<Rightarrow> env (u ''LLM_API_KEY''))"

definition provider_of :: "lower_table \<Rightarrow> environ \<Rightarrow> pystr" where
  "provider_of low env = py_lower low (env_or env (u ''LLM_PROVIDER'') (u ''ollama''))"

definition get_client :: "lower_table \<Rightarrow> (pystr \<Rightarrow> rat option) \<Rightarrow> environ \<Rightarrow> llm_client result" where
  "get_client low to_float env =
     (let provider = provider_of low env in
      if provider = u ''ollama'' then bind_result (ollama_client to_float env no_args) (\<lambda>c. Inr (Ollama c))
      else if provider = u ''openai'' then bind_result (openai_client to_float env no_args) (\<lambda>c. Inr (OpenAI c))
      else Inl ValueError)"

section \<open>Ollama\<close>

definition opt_field :: "pystr \<Rightarrow> json option \<Rightarrow> (pystr \<times> json) list" where
  "opt_field k v = (case v of None \<Rightarrow> [] | Some j \<Rightarrow> [(k, j)])"

text \<open>\<open>{"temperature": t, **options}\<close>: an option of the same name replaces the temperature.\<close>

definition ollama_options :: "json \<Rightarrow> (pystr \<times> json) list \<Rightarrow> json" where
  "ollama_options temperature options =
     JObj (foldl (\<lambda>m (k, v). alist_set k v m) [(u ''temperature'', temperature)] options)"

definition ollama_generate ::
  "'s http \<Rightarrow> client \<Rightarrow> pystr \<Rightarrow> pystr option \<Rightarrow> json option \<Rightarrow> json \<Rightarrow> (pystr \<times> json) list \<Rightarrow> 's \<Rightarrow>
     (exn + json) \<times> 's" where
  "ollama_generate http c prompt system format temperature options =
     ask http
       \<lparr>url = base_url c @ u ''/api/generate'',
        payload = JObj ([(u ''model'', JStr (model c)), (u ''prompt'', JStr prompt), (u ''stream'', JBool False),
                         (u ''options'', ollama_options temperature options)] @
                        opt_field (u ''system'') (map_option JStr system) @ opt_field (u ''format'') format),
        headers = None, timeout = c_timeout c\<rparr>
       (item (u ''response''))"

definition ollama_chat ::
  "'s http \<Rightarrow> client \<Rightarrow> json \<Rightarrow> json option \<Rightarrow> json \<Rightarrow> 's \<Rightarrow> (exn + json) \<times> 's" where
  "ollama_chat http c messages format temperature =
     ask http
       \<lparr>url = base_url c @ u ''/api/chat'',
        payload = JObj ([(u ''model'', JStr (model c)), (u ''messages'', messages), (u ''stream'', JBool False),
                         (u ''options'', ollama_options temperature [])] @ opt_field (u ''format'') format),
        headers = None, timeout = c_timeout c\<rparr>
       (\<lambda>j. bind_result (item (u ''message'') j) (item (u ''content'')))"

definition ollama_embed_request :: "client \<Rightarrow> pystr \<Rightarrow> http_request" where
  "ollama_embed_request c txt =
     \<lparr>url = base_url c @ u ''/api/embeddings'',
      payload = JObj [(u ''model'', JStr (embed_model c)), (u ''prompt'', JStr txt)],
      headers = None, timeout = c_timeout c\<rparr>"

fun ollama_embed :: "'s http \<Rightarrow> client \<Rightarrow> pystr list \<Rightarrow> 's \<Rightarrow> (exn + json list) \<times> 's" where
  "ollama_embed http c [] s = (Inr [], s)"
| "ollama_embed http c (t # ts) s =
     (case ask http (ollama_embed_request c t) (item (u ''embedding'')) s of
        (Inl e, s1) \<Rightarrow> (Inl e, s1)
      | (Inr v, s1) \<Rightarrow>
          (case ollama_embed http c ts s1 of
             (Inl e, s2) \<Rightarrow> (Inl e, s2)
           | (Inr vs, s2) \<Rightarrow> (Inr (v # vs), s2)))"

section \<open>OpenAI\<close>

definition openai_headers :: "client \<Rightarrow> (pystr \<times> pystr) list" where
  "openai_headers c =
     (u ''Content-Type'', u ''application/json'') #
     (case api_key c of
        Some k \<Rightarrow> if k = [] then [] else [(u ''Authorization'', u ''Bearer '' @ k)]
      | None \<Rightarrow> [])"

definition response_format :: "json option \<Rightarrow> json option" where
  "response_format format =
     (case format of
        None \<Rightarrow> None
      | Some f \<Rightarrow>
          if f = JStr (u ''json'') then Some (JObj [(u ''type'', JStr (u ''json_object''))])
          else Some (JObj [(u ''type'', JStr (u ''json_schema'')),
                 (u ''json_schema'', JObj [(u ''name'', JStr (u ''response'')), (u ''schema'', f), (u ''strict'', JBool True)])]))"

definition openai_chat ::
  "'s http \<Rightarrow> client \<Rightarrow> json \<Rightarrow> json option \<Rightarrow> json \<Rightarrow> 's \<Rightarrow> (exn + json) \<times> 's" where
  "openai_chat http c messages format temperature =
     ask http
       \<lparr>url = base_url c @ u ''/chat/completions'',
        payload = JObj ([(u ''model'', JStr (model c)), (u ''messages'', messages), (u ''temperature'', temperature)] @
                        opt_field (u ''response_format'') (response_format format)),
        headers = Some (openai_headers c), timeout = c_timeout c\<rparr>
       (\<lambda>j. bind_result (item (u ''choices'') j) (\<lambda>cs. bind_result (item_at 0 cs) (\<lambda>ch.
          bind_result (item (u ''message'') ch) (item (u ''content'')))))"

definition openai_message :: "pystr \<Rightarrow> pystr \<Rightarrow> json" where
  "openai_message role content = JObj [(u ''role'', JStr role), (u ''content'', JStr content)]"

definition openai_generate ::
  "'s http \<Rightarrow> client \<Rightarrow> pystr \<Rightarrow> pystr option \<Rightarrow> json option \<Rightarrow> json \<Rightarrow> 's \<Rightarrow> (exn + json) \<times> 's" where
  "openai_generate http c prompt system format temperature =
     openai_chat http c
       (JList ((case system of None \<Rightarrow> [] | Some sys \<Rightarrow> [openai_message (u ''system'') sys]) @
               [openai_message (u ''user'') prompt]))
       format temperature"

text \<open>
  The rows of the response in the order of their index; an index that is not an integer is outside
  the model and counted as a \<open>TypeError\<close>.
\<close>

fun row_index :: "json \<Rightarrow> int result" where
  "row_index r = bind_result (item (u ''index'') r) (\<lambda>i. case i of JInt n \<Rightarrow> Inr n | _ \<Rightarrow> Inl TypeError)"

definition rows_in_order :: "json \<Rightarrow> json list result" where
  "rows_in_order data =
     (case data of
        JList rows \<Rightarrow>
          bind_result (map_result (\<lambda>r. bind_result (row_index r) (\<lambda>i. Inr (i, r))) rows) (\<lambda>irs.
            map_result (\<lambda>(i, r). item (u ''embedding'') r) (sort_key fst irs))
      | _ \<Rightarrow> if data = JObj [] \<or> data = JStr [] then Inr [] else Inl TypeError)"

definition openai_embed_request :: "client \<Rightarrow> pystr list \<Rightarrow> http_request" where
  "openai_embed_request c txts =
     \<lparr>url = base_url c @ u ''/embeddings'',
      payload = JObj [(u ''model'', JStr (embed_model c)), (u ''input'', JList (map JStr txts))],
      headers = Some (openai_headers c), timeout = c_timeout c\<rparr>"

definition openai_embed :: "'s http \<Rightarrow> client \<Rightarrow> pystr list \<Rightarrow> 's \<Rightarrow> (exn + json list) \<times> 's" where
  "openai_embed http c txts =
     ask http (openai_embed_request c txts) (\<lambda>j. bind_result (item (u ''data'') j) rows_in_order)"


section \<open>Readiness\<close>

datatype unready =
    NotReachable pystr exn
  | MissingModels pystr "pystr list"
  | NoApiKey

fun get_default :: "json \<Rightarrow> pystr \<Rightarrow> json \<Rightarrow> json result" where
  "get_default (JObj kvs) k d = Inr (case map_of kvs k of Some v \<Rightarrow> v | None \<Rightarrow> d)"
| "get_default _ k d = Inl AttributeError"

text \<open>\<open>name.split(":")[0]\<close>.\<close>

definition base_name :: "pystr \<Rightarrow> pystr" where
  "base_name n = takeWhile (\<lambda>c. c \<noteq> 58) n"

definition model_name :: "json \<Rightarrow> pystr result" where
  "model_name m =
     bind_result (get_default m (u ''name'') (JStr [])) (\<lambda>n.
       case n of JStr s \<Rightarrow> Inr (base_name s) | _ \<Rightarrow> Inl AttributeError)"

definition model_names :: "json \<Rightarrow> pystr list result" where
  "model_names j =
     bind_result (get_default j (u ''models'') (JList [])) (\<lambda>ms.
       case ms of
         JList xs \<Rightarrow> map_result model_name xs
       | JObj kvs \<Rightarrow> if kvs = [] then Inr [] else Inl AttributeError
       | JStr s \<Rightarrow> if s = [] then Inr [] else Inl AttributeError
       | _ \<Rightarrow> Inl TypeError)"

definition ret_or_raise :: "'a result \<Rightarrow> ('r, exn, 'a) run" where
  "ret_or_raise r = (case r of Inl e \<Rightarrow> Raise (Python e) | Inr x \<Rightarrow> Ret x)"

text \<open>\<open>tags\<close> is the GET of the tag list: an exception, or a response whose body may not be JSON.\<close>

definition require_client ::
  "lower_table \<Rightarrow> (pystr \<Rightarrow> rat option) \<Rightarrow> (pystr \<Rightarrow> exn + json result) \<Rightarrow> environ \<Rightarrow>
     (unready, exn, llm_client) run" where
  "require_client low to_float tags env =
     (let provider = provider_of low env;
          ready = ret_or_raise (get_client low to_float env)
      in if provider = u ''ollama'' then
           let base = rstrip_by (\<lambda>c. c = 47) (env_or env (u ''LLM_BASE_URL'') default_ollama_base_url);
               wanted = [env_or env (u ''LLM_MODEL'') default_model, env_or env (u ''LLM_EMBED_MODEL'') default_embed_model]
           in (case tags (base @ u ''/api/tags'') of
                 Inl e \<Rightarrow> Exit (NotReachable base e)
               | Inr body \<Rightarrow>
                   bind_run (ret_or_raise (bind_result body model_names)) (\<lambda>names.
                     let missing = filter (\<lambda>m. base_name m \<notin> set names) wanted
                     in bind_run (not_passed_if (missing \<noteq> []) (MissingModels base missing)) (\<lambda>_. ready)))
         else if provider = u ''openai'' \<and> env_or env (u ''LLM_API_KEY'') [] = [] then Exit NoApiKey
         else ready)"

lemma get_client_provider:
  "get_client low to_float env = Inr c \<Longrightarrow>
     (case c of Ollama _ \<Rightarrow> provider_of low env = u ''ollama'' | OpenAI _ \<Rightarrow> provider_of low env = u ''openai'')"
  by (auto simp: get_client_def Let_def bind_result_Inr split: if_splits simp del: u_Cons)

text \<open>An Ollama client is handed out only when both models are on the server's list.\<close>

lemma require_client_ollama:
  assumes "require_client low to_float tags env = Ret (Ollama c)"
  shows "\<exists>body names.
    tags (rstrip_by (\<lambda>c. c = 47) (env_or env (u ''LLM_BASE_URL'') default_ollama_base_url) @ u ''/api/tags'') = Inr body \<and>
    bind_result body model_names = Inr names \<and> base_name (model c) \<in> set names \<and> base_name (embed_model c) \<in> set names"
proof -
  have g: "get_client low to_float env = Inr (Ollama c)"
    using assms
    by (auto simp: require_client_def ret_or_raise_def Let_def bind_run_Ret simp del: u_Cons
        split: if_splits sum.splits)
  have p: "provider_of low env = u ''ollama''" using get_client_provider [OF g] by simp
  have m: "model c = env_or env (u ''LLM_MODEL'') default_model"
    "embed_model c = env_or env (u ''LLM_EMBED_MODEL'') default_embed_model"
    using g by (auto simp: get_client_def p ollama_client_def make_client_def bind_result_Inr no_args_def given_or_def
        Let_def env_or_def default_model_def default_embed_model_def simp del: u_Cons split: if_splits option.splits)
  show ?thesis
    using assms
    by (auto simp: require_client_def p m ret_or_raise_def Let_def bind_run_Ret simp del: u_Cons
        split: if_splits sum.splits)
qed


section \<open>The providers agree\<close>

text \<open>
  What the two servers document about a request for embeddings that they answer: Ollama gives the
  vector of the prompt; OpenAI gives one row per input, in any order, that carries the input's index.
  Either may refuse a request or fail; OpenAI refuses an empty batch and an empty text.
\<close>

definition ollama_embeds :: "'s http \<Rightarrow> client \<Rightarrow> (pystr \<Rightarrow> json) \<Rightarrow> bool" where
  "ollama_embeds http c f \<longleftrightarrow>
     (\<forall>t s j s'. http (ollama_embed_request c t) s = (Inr j, s') \<longrightarrow> item (u ''embedding'') j = Inr (f t))"

definition indexed_row :: "(pystr \<Rightarrow> json) \<Rightarrow> pystr list \<Rightarrow> nat \<Rightarrow> json \<Rightarrow> bool" where
  "indexed_row f txts i r \<longleftrightarrow>
     item (u ''index'') r = Inr (JInt (int i)) \<and> item (u ''embedding'') r = Inr (f (txts ! i))"

definition openai_embeds :: "'s http \<Rightarrow> client \<Rightarrow> (pystr \<Rightarrow> json) \<Rightarrow> bool" where
  "openai_embeds http c f \<longleftrightarrow>
     (\<forall>txts s j s'. http (openai_embed_request c txts) s = (Inr j, s') \<longrightarrow>
        (\<exists>row ks. item (u ''data'') j = Inr (JList (map row ks)) \<and> mset ks = mset [0..<length txts] \<and>
          (\<forall>i < length txts. indexed_row f txts i (row i))))"

definition refused :: "'s http \<Rightarrow> http_request \<Rightarrow> exn \<Rightarrow> bool" where
  "refused http req e \<longleftrightarrow> (\<exists>s s'. http req s = (Inl e, s'))"

lemma ollama_embed_all:
  assumes "ollama_embeds http c f"
  shows "case fst (ollama_embed http c txts s) of
      Inr vs \<Rightarrow> vs = map f txts
    | Inl e \<Rightarrow> \<exists>t \<in> set txts. refused http (ollama_embed_request c t) e"
proof (induction txts arbitrary: s)
  case Nil
  then show ?case by simp
next
  case (Cons t ts)
  show ?case
  proof (cases "http (ollama_embed_request c t) s")
    case (Pair r s1)
    show ?thesis
    proof (cases r)
      case (Inl e)
      then have "refused http (ollama_embed_request c t) e" using Pair unfolding refused_def by blast
      then show ?thesis using Pair Inl by (simp add: ask_def del: u_Cons)
    next
      case (Inr j)
      then have "item (u ''embedding'') j = Inr (f t)" using Pair assms unfolding ollama_embeds_def by blast
      then show ?thesis using Pair Inr Cons.IH [of s1]
        by (cases "ollama_embed http c ts s1"; cases "fst (ollama_embed http c ts s1)") (auto simp: ask_def lift_exn_def simp del: u_Cons)
    qed
  qed
qed

text \<open>Sorting rows whose indices are a permutation of \<open>0 .. n-1\<close> puts them in input order.\<close>

lemma sort_permuted:
  assumes "mset ks = mset [0..<n]"
  shows "sort_key fst (map (\<lambda>i. (int i, g i)) ks) = map (\<lambda>i. (int i, g i)) [0..<n]"
proof -
  let ?xs = "sort_key fst (map (\<lambda>i. (int i, g i)) ks)" and ?ys = "map (\<lambda>i. (int i, g i)) [0..<n]"
  have m: "mset ?xs = mset ?ys" unfolding mset_sort mset_map assms ..
  have dy: "distinct (map fst ?ys)" by (simp add: comp_def distinct_map inj_on_def)
  have "mset (map fst ?xs) = mset (map fst ?ys)" using m by (simp only: mset_map)
  then have dx: "distinct (map fst ?xs)" using dy mset_eq_imp_distinct_iff by blast
  have sy: "sorted (map fst ?ys)" by (simp add: comp_def sorted_map sorted_wrt_map sorted_wrt_iff_nth_less)
  have st: "set ?xs = set ?ys" using m mset_eq_setD by blast
  have "inj_on fst (set ?xs \<union> set ?ys)" using dy unfolding st Un_absorb distinct_map [of fst] by (rule conjunct2)
  then show ?thesis
    using map_sorted_distinct_set_unique [of fst ?xs ?ys] dx dy sy st by simp
qed

lemma rows_permuted:
  assumes "mset ks = mset [0..<length txts]" "\<forall>i < length txts. indexed_row f txts i (row i)"
  shows "rows_in_order (JList (map row ks)) = Inr (map f txts)"
proof -
  have k: "i < length txts" if "i \<in> set ks" for i
    using that mset_eq_setD [OF assms(1)] by simp
  have "map_result (\<lambda>r. bind_result (row_index r) (\<lambda>i. Inr (i, r))) (map row ks) =
      map_result (\<lambda>i. Inr (int i, row i)) ks"
    using assms(2) k by (induction ks) (simp_all add: indexed_row_def del: u_Cons)
  then have "map_result (\<lambda>r. bind_result (row_index r) (\<lambda>i. Inr (i, r))) (map row ks) =
      Inr (map (\<lambda>i. (int i, row i)) ks)"
    by (simp add: map_result_total)
  moreover have "map_result (\<lambda>(i, r). item (u ''embedding'') r) (map (\<lambda>i. (int i, row i)) [0..<length txts]) =
      Inr (map (\<lambda>x. the (case item (u ''embedding'') (snd x) of Inr v \<Rightarrow> Some v | Inl _ \<Rightarrow> None))
        (map (\<lambda>i. (int i, row i)) [0..<length txts]))"
    using assms(2) by (intro map_result_total) (auto simp: indexed_row_def simp del: u_Cons)
  moreover have "map (\<lambda>x. the (case item (u ''embedding'') (snd x) of Inr v \<Rightarrow> Some v | Inl _ \<Rightarrow> None))
        (map (\<lambda>i. (int i, row i)) [0..<length txts]) = map f txts"
    using assms(2) by (intro nth_equalityI) (simp_all add: indexed_row_def del: u_Cons)
  ultimately show ?thesis
    by (simp add: rows_in_order_def sort_permuted [OF assms(1)])
qed

lemma openai_embed_all:
  assumes "openai_embeds http c f"
  shows "case fst (openai_embed http c txts s) of
      Inr vs \<Rightarrow> vs = map f txts
    | Inl e \<Rightarrow> fst (http (openai_embed_request c txts) s) = Inl e"
proof (cases "http (openai_embed_request c txts) s")
  case (Pair r s')
  show ?thesis
  proof (cases r)
    case (Inl e)
    then show ?thesis using Pair by (simp add: openai_embed_def ask_def del: u_Cons)
  next
    case (Inr j)
    then obtain row ks where h: "item (u ''data'') j = Inr (JList (map row ks))" "mset ks = mset [0..<length txts]"
        "\<forall>i < length txts. indexed_row f txts i (row i)"
      using Pair assms unfolding openai_embeds_def by blast
    then show ?thesis using Pair Inr rows_permuted [OF h(2,3)] by (simp add: openai_embed_def ask_def lift_exn_def del: u_Cons)
  qed
qed

text \<open>
  C34. Swapping the provider does not change the embeddings.  Against servers that compute the same
  embedding and whose answers are as documented, the loop of single requests and the batch request,
  whose rows may come back in any order, give the same vectors in input order whenever they return;
  and they raise only what a request of theirs is refused with, so an empty list, for which the loop
  sends no request, gives no vectors with Ollama and what the server answers with OpenAI.
\<close>

theorem embed_provider_agnostic:
  assumes "ollama_embeds http1 c1 f" "openai_embeds http2 c2 f"
  shows "(case fst (ollama_embed http1 c1 txts s1) of
        Inr vs \<Rightarrow> vs = map f txts
      | Inl e \<Rightarrow> \<exists>t \<in> set txts. refused http1 (ollama_embed_request c1 t) e) \<and>
    (case fst (openai_embed http2 c2 txts s2) of
        Inr vs \<Rightarrow> vs = map f txts
      | Inl e \<Rightarrow> fst (http2 (openai_embed_request c2 txts) s2) = Inl e)"
  using ollama_embed_all [OF assms(1)] openai_embed_all [OF assms(2)] by blast

text \<open>Servers that embed a text as its length; the OpenAI one answers in reverse order and refuses an empty batch.\<close>

definition sample_ollama :: "unit http" where
  "sample_ollama req s =
     (Inr (JObj [(u ''embedding'',
        case item (u ''prompt'') (payload req) of Inr (JStr t) \<Rightarrow> JInt (int (length t)) | _ \<Rightarrow> JNull)]), s)"

definition sample_row :: "json list \<Rightarrow> nat \<Rightarrow> json" where
  "sample_row xs i =
     JObj [(u ''index'', JInt (int i)),
           (u ''embedding'', case xs ! i of JStr t \<Rightarrow> JInt (int (length t)) | _ \<Rightarrow> JNull)]"

definition sample_openai :: "unit http" where
  "sample_openai req s =
     (case item (u ''input'') (payload req) of
        Inr (JList (x # xs)) \<Rightarrow>
          (Inr (JObj [(u ''data'', JList (map (sample_row (x # xs)) (rev [0..<length (x # xs)])))]), s)
      | _ \<Rightarrow> (Inl (Python ValueError), s))"

definition sample_client :: client where
  "sample_client = \<lparr>base_url = [], model = [], embed_model = [], api_key = None, c_timeout = 1\<rparr>"

theorem embed_provider_agnostic_witness:
  "fst (ollama_embed sample_ollama sample_client [u ''ab'', u ''c''] ()) = Inr [JInt 2, JInt 1] \<and>
   fst (openai_embed sample_openai sample_client [u ''ab'', u ''c''] ()) = Inr [JInt 2, JInt 1] \<and>
   fst (openai_embed sample_openai sample_client [] ()) = Inl (Python ValueError)"
proof -
  have a: "ollama_embeds sample_ollama sample_client (\<lambda>t. JInt (int (length t)))"
    by (simp add: ollama_embeds_def sample_ollama_def ollama_embed_request_def)
  have b: "openai_embeds sample_openai sample_client (\<lambda>t. JInt (int (length t)))"
    unfolding openai_embeds_def
  proof (intro allI impI)
    fix txts j and s s' :: unit
    assume r: "sample_openai (openai_embed_request sample_client txts) s = (Inr j, s')"
    then obtain t ts where txts: "txts = t # ts" by (cases txts) (simp_all add: sample_openai_def openai_embed_request_def)
    have "j = JObj [(u ''data'', JList (map (sample_row (map JStr txts)) (rev [0..<length txts])))]"
      using r by (simp add: txts sample_openai_def openai_embed_request_def)
    then show "\<exists>row ks. item (u ''data'') j = Inr (JList (map row ks)) \<and> mset ks = mset [0..<length txts] \<and>
        (\<forall>i < length txts. indexed_row (\<lambda>t. JInt (int (length t))) txts i (row i))"
      by (intro exI [of _ "sample_row (map JStr txts)"] exI [of _ "rev [0..<length txts]"]) (simp add: indexed_row_def sample_row_def)
  qed
  note both = embed_provider_agnostic [OF a b, of _ "()" "()"]
  have "isl (fst (openai_embed sample_openai sample_client [] ()))"
    by (simp add: openai_embed_def ask_def sample_openai_def openai_embed_request_def)
  moreover have "\<not> isl (fst (openai_embed sample_openai sample_client [u ''ab'', u ''c''] ()))"
    "\<not> isl (fst (ollama_embed sample_ollama sample_client [u ''ab'', u ''c''] ()))"
    by (simp_all add: openai_embed_def ask_def sample_openai_def openai_embed_request_def sample_ollama_def ollama_embed_request_def
      lift_exn_def rows_in_order_def sample_row_def)
  ultimately show ?thesis
    using both [of "[]"] both [of "[u ''ab'', u ''c'']"]
    by (auto simp: isl_def sample_openai_def openai_embed_request_def split: sum.splits)
qed

end
