(* ===== verification/IngestWorker.thy ===== *)
theory IngestWorker
  imports PyDict Json "HOL-Library.Word"
begin

text \<open>
  The event-ingestion service of 11-python-concurrency/08-profiling-py-spy/src/app.py: the steps of
  one record, and the bounded queue between the producer and the consumers.  A coroutine runs
  without interruption between two awaits; the segments of the producer and of the consumers
  interleave freely.  The calibrated number of iterations is a parameter.  The bytes of an ASCII
  text are its code points.
\<close>

section \<open>One record\<close>

text \<open>\<open>str.encode()\<close>: UTF-8; a lone surrogate is a \<open>UnicodeEncodeError\<close>, which is a \<open>ValueError\<close>.\<close>

definition utf8_char :: "nat \<Rightarrow> nat list result" where
  "utf8_char c =
     (if c < 128 then Inr [c]
      else if c < 2048 then Inr [192 + c div 64, 128 + c mod 64]
      else if 55296 \<le> c \<and> c \<le> 57343 then Inl ValueError
      else if c < 65536 then Inr [224 + c div 4096, 128 + c div 64 mod 64, 128 + c mod 64]
      else Inr [240 + c div 262144, 128 + c div 4096 mod 64, 128 + c div 64 mod 64, 128 + c mod 64])"

definition utf8 :: "pystr \<Rightarrow> nat list result" where
  "utf8 s = bind_result (map_result utf8_char s) (\<lambda>bs. Inr (concat bs))"

definition calibrate_iters :: "rat \<Rightarrow> int \<Rightarrow> rat \<Rightarrow> int" where
  "calibrate_iters target sample elapsed =
     (if elapsed \<le> 0 then sample * 20
      else max sample \<lfloor>fl (of_int sample * fl (target / elapsed))\<rfloor>)"

definition record_payload :: "nat \<Rightarrow> json" where
  "record_payload i =
     JObj [(u ''id'', JInt (int i)), (u ''source'', JStr (u ''ingest-worker'')),
           (u ''body'', JStr (u ''event-'' @ nat_str i @ u ''-'' @ concat (replicate 4 (u ''payload''))))]"

definition make_raw_record :: "nat \<Rightarrow> pystr" where
  "make_raw_record i = json_dumps (record_payload i)"

definition parse_payload :: "pystr \<Rightarrow> json result" where
  "parse_payload raw = json_loads raw"

fun field :: "json \<Rightarrow> pystr \<Rightarrow> json result" where
  "field (JObj kvs) k = lookup kvs k"
| "field _ k = Inl TypeError"

text \<open>
  How a value prints in an f-string; floats, lists and dicts do not occur as ids or sources here
  and count as a \<open>TypeError\<close>.
\<close>

fun str_of :: "json \<Rightarrow> pystr result" where
  "str_of (JInt i) = Inr (int_str i)"
| "str_of (JStr s) = Inr s"
| "str_of (JBool b) = Inr (if b then u ''True'' else u ''False'')"
| "str_of JNull = Inr (u ''None'')"
| "str_of _ = Inl TypeError"

fun hash_bytes :: "'a :: len word \<Rightarrow> nat list \<Rightarrow> 'a word" where
  "hash_bytes x [] = x"
| "hash_bytes x (b # bs) = hash_bytes (x * 31 + of_nat b) bs"

definition checksum_header :: "json \<Rightarrow> 16 word result" where
  "checksum_header evt =
     bind_result (bind_result (field evt (u ''id'')) str_of) (\<lambda>i.
       bind_result (bind_result (field evt (u ''source'')) str_of) (\<lambda>src.
         bind_result (utf8 (i @ [58] @ src)) (\<lambda>header. Inr (hash_bytes 0 (take 16 header)))))"

fun is_int :: "json option \<Rightarrow> bool" where
  "is_int (Some (JInt _)) = True"
| "is_int (Some (JBool _)) = True"
| "is_int _ = False"

fun truthy :: "json option \<Rightarrow> bool" where
  "truthy None = False"
| "truthy (Some JNull) = False"
| "truthy (Some (JBool b)) = b"
| "truthy (Some (JInt i)) = (i \<noteq> 0)"
| "truthy (Some (JFloat t)) = (\<exists>c \<in> set (takeWhile (\<lambda>c. c \<noteq> 69 \<and> c \<noteq> 101) t). 49 \<le> c \<and> c \<le> 57)"
| "truthy (Some (JStr s)) = (s \<noteq> [])"
| "truthy (Some (JList xs)) = (xs \<noteq> [])"
| "truthy (Some (JObj kvs)) = (kvs \<noteq> [])"

definition validate_event :: "json \<Rightarrow> bool result" where
  "validate_event evt =
     (case evt of
        JObj kvs \<Rightarrow> Inr (is_int (map_of kvs (u ''id'')) \<and> truthy (map_of kvs (u ''body'')))
      | _ \<Rightarrow> Inl AttributeError)"

fun spin :: "32 word \<Rightarrow> nat \<Rightarrow> nat \<Rightarrow> 32 word" where
  "spin x i 0 = x"
| "spin x i (Suc k) = spin (x * 1000003 + of_nat i) (Suc i) k"

definition hex8 :: "32 word \<Rightarrow> pystr" where
  "hex8 x = map (\<lambda>k. hex_digit (unat x div 16 ^ k mod 16)) [7, 6, 5, 4, 3, 2, 1, 0]"

definition compute_signature :: "nat \<Rightarrow> json \<Rightarrow> pystr result" where
  "compute_signature iters evt =
     bind_result (field evt (u ''body'')) (\<lambda>b.
       case b of
         JStr s \<Rightarrow> bind_result (utf8 s) (\<lambda>bs. Inr (hex8 (spin (hash_bytes 0 (take 64 bs)) 0 iters)))
       | _ \<Rightarrow> Inl AttributeError)"

fun enrich_event :: "json \<Rightarrow> pystr \<Rightarrow> 16 word \<Rightarrow> json result" where
  "enrich_event (JObj kvs) sig chk =
     Inr (JObj (alist_set (u ''checksum'') (JInt (uint chk)) (alist_set (u ''signature'') (JStr sig) kvs)))"
| "enrich_event _ sig chk = Inl TypeError"

text \<open>\<open>process_one\<close> up to the first await, between the two awaits, and after the second.\<close>

definition begin_record :: "nat \<Rightarrow> json result" where
  "begin_record i = parse_payload (make_raw_record i)"

definition finish_record :: "nat \<Rightarrow> json \<Rightarrow> (json \<times> pystr) result" where
  "finish_record iters evt =
     bind_result (validate_event evt) (\<lambda>ok.
       if \<not> ok then Inl ValueError
       else
         bind_result (checksum_header evt) (\<lambda>chk.
         bind_result (compute_signature iters evt) (\<lambda>sig.
         bind_result (enrich_event evt sig chk) (\<lambda>enriched.
         Inr (enriched, json_dumps enriched)))))"

section \<open>The queue\<close>

datatype producer = Putting nat | Sentinels nat

datatype consumer = Getting | Fetching json | Persisting json | Stopped | Crashed py_error

record ingest =
  queue :: "nat option list"
  producer :: producer
  consumers :: "consumer list"
  processed :: nat
  errors :: nat

record workload =
  n_records :: "nat option"
  duration :: "rat option"
  concurrency :: nat
  iters :: nat

text \<open>The head of the producer's loop, at a clock reading relative to the start.\<close>

definition next_put :: "workload \<Rightarrow> rat \<Rightarrow> nat \<Rightarrow> producer" where
  "next_put w elapsed i =
     (case duration w of
        Some d \<Rightarrow> if d \<le> elapsed then Sentinels (concurrency w) else Putting i
      | None \<Rightarrow>
          (case n_records w of
             Some n \<Rightarrow> if n \<le> i then Sentinels (concurrency w) else Putting i
           | None \<Rightarrow> Putting i))"

definition start_ingest :: "workload \<Rightarrow> rat \<Rightarrow> ingest result" where
  "start_ingest w elapsed =
     (if duration w = None \<and> n_records w = None then Inl ValueError
      else Inr \<lparr>queue = [], producer = next_put w elapsed 0,
                consumers = replicate (concurrency w) Getting, processed = 0, errors = 0\<rparr>)"

text \<open>\<open>asyncio.Queue(maxsize)\<close>: a size of 0 means no bound.\<close>

definition has_room :: "workload \<Rightarrow> ingest \<Rightarrow> bool" where
  "has_room w s \<longleftrightarrow> concurrency w * 2 = 0 \<or> length (queue s) < concurrency w * 2"

definition put_item :: "workload \<Rightarrow> rat \<Rightarrow> ingest \<Rightarrow> ingest" where
  "put_item w elapsed s =
     (case producer s of
        Putting i \<Rightarrow> s\<lparr>queue := queue s @ [Some i], producer := next_put w elapsed (Suc i)\<rparr>
      | Sentinels (Suc k) \<Rightarrow> s\<lparr>queue := queue s @ [None], producer := Sentinels k\<rparr>
      | Sentinels 0 \<Rightarrow> s)"

text \<open>What a consumer does with the outcome of a part of \<open>process_one\<close>: only \<open>ValueError\<close> is caught.\<close>

definition resume :: "nat \<Rightarrow> ('a \<Rightarrow> consumer) \<Rightarrow> 'a result \<Rightarrow> ingest \<Rightarrow> ingest" where
  "resume j k r s =
     (case r of
        Inr x \<Rightarrow> s\<lparr>consumers := (consumers s)[j := k x]\<rparr>
      | Inl ValueError \<Rightarrow> s\<lparr>errors := Suc (errors s), consumers := (consumers s)[j := Getting]\<rparr>
      | Inl e \<Rightarrow> s\<lparr>consumers := (consumers s)[j := Crashed e]\<rparr>)"

definition get_item :: "nat \<Rightarrow> ingest \<Rightarrow> ingest" where
  "get_item j s =
     (case queue s of
        [] \<Rightarrow> s
      | None # q \<Rightarrow> s\<lparr>queue := q, consumers := (consumers s)[j := Stopped]\<rparr>
      | Some i # q \<Rightarrow> resume j Fetching (begin_record i) (s\<lparr>queue := q\<rparr>))"

definition fetched :: "workload \<Rightarrow> nat \<Rightarrow> json \<Rightarrow> ingest \<Rightarrow> ingest" where
  "fetched w j evt s = resume j (\<lambda>(enriched, _). Persisting enriched) (finish_record (iters w) evt) s"

definition persisted :: "nat \<Rightarrow> ingest \<Rightarrow> ingest" where
  "persisted j s = s\<lparr>processed := Suc (processed s), consumers := (consumers s)[j := Getting]\<rparr>"

inductive ingest_step :: "workload \<Rightarrow> ingest \<Rightarrow> ingest \<Rightarrow> bool" for w where
  put: "has_room w s \<Longrightarrow> producer s \<noteq> Sentinels 0 \<Longrightarrow> ingest_step w s (put_item w elapsed s)"
| get: "j < length (consumers s) \<Longrightarrow> consumers s ! j = Getting \<Longrightarrow> queue s \<noteq> [] \<Longrightarrow>
     ingest_step w s (get_item j s)"
| fetch: "j < length (consumers s) \<Longrightarrow> consumers s ! j = Fetching evt \<Longrightarrow> ingest_step w s (fetched w j evt s)"
| persist: "j < length (consumers s) \<Longrightarrow> consumers s ! j = Persisting evt \<Longrightarrow> ingest_step w s (persisted j s)"

inductive ingest_steps :: "workload \<Rightarrow> nat \<Rightarrow> ingest \<Rightarrow> ingest \<Rightarrow> bool" for w where
  none: "ingest_steps w 0 s s"
| more: "ingest_steps w n s t \<Longrightarrow> ingest_step w t v \<Longrightarrow> ingest_steps w (Suc n) s v"

definition finished :: "ingest \<Rightarrow> bool" where
  "finished s \<longleftrightarrow> producer s = Sentinels 0 \<and> list_all (\<lambda>c. c = Stopped) (consumers s)"

section \<open>A record never fails\<close>

lemma utf8_ascii: "\<forall>c \<in> set s. c < 128 \<Longrightarrow> utf8 s = Inr s"
proof -
  assume a: "\<forall>c \<in> set s. c < 128"
  have "map_result utf8_char s = Inr (map (\<lambda>c. [c]) s)"
    by (rule map_result_total) (use a in \<open>simp add: utf8_char_def\<close>)
  moreover have "concat (map (\<lambda>c. [c]) s) = s" by (induction s) auto
  ultimately show ?thesis by (simp add: utf8_def)
qed

lemma nat_str_ascii: "c \<in> set (nat_str n) \<Longrightarrow> c < 128"
  using nat_str_chars [of c n] by simp

lemma record_payload_ok: "i < 10 ^ 18 \<Longrightarrow> json_ok (record_payload i)"
proof -
  assume "i < 10 ^ 18"
  then have "length (digits_of i) \<le> 4300" using digits_of_length [of i 18] by simp
  moreover have "code_point c" if "c \<in> set (nat_str i)" for c
    using nat_str_chars [OF that] by (simp add: code_point_def)
  ultimately show ?thesis
    by (simp add: record_payload_def list_all_iff code_point_def nat_str_chars)
qed

lemma begin_record_ok: "i < 10 ^ 18 \<Longrightarrow> begin_record i = Inr (record_payload i)"
  by (simp add: begin_record_def parse_payload_def make_raw_record_def json_loads_dumps record_payload_ok)

definition event_body :: "nat \<Rightarrow> pystr" where
  "event_body i = u ''event-'' @ nat_str i @ u ''-'' @ concat (replicate 4 (u ''payload''))"

lemma record_fields:
  "field (record_payload i) (u ''id'') = Inr (JInt (int i))"
  "field (record_payload i) (u ''source'') = Inr (JStr (u ''ingest-worker''))"
  "field (record_payload i) (u ''body'') = Inr (JStr (event_body i))"
  by (simp_all add: record_payload_def lookup_def event_body_def)

lemma finish_record_ok: "\<exists>enriched out. finish_record it (record_payload i) = Inr (enriched, out)"
proof -
  have v: "validate_event (record_payload i) = Inr True"
    by (simp add: validate_event_def record_payload_def)
  have "\<forall>c \<in> set (int_str (int i) @ [58] @ u ''ingest-worker''). c < 128"
    by (auto simp: int_str_def dest: nat_str_ascii)
  then obtain chk where c: "checksum_header (record_payload i) = Inr chk"
    by (simp add: checksum_header_def record_fields utf8_ascii del: u_Cons)
  have "\<forall>c \<in> set (event_body i). c < 128"
    by (auto simp: event_body_def dest: nat_str_ascii)
  then obtain sig where g: "compute_signature it (record_payload i) = Inr sig"
    by (simp add: compute_signature_def record_fields utf8_ascii del: u_Cons)
  obtain e where "enrich_event (record_payload i) sig chk = Inr e" by (simp add: record_payload_def)
  with v c g show ?thesis by (simp add: finish_record_def)
qed

section \<open>Nothing is lost and nothing waits for ever\<close>

definition somes :: "'a option list \<Rightarrow> nat" where
  "somes q = length (filter (\<lambda>x. x \<noteq> None) q)"

definition nones :: "'a option list \<Rightarrow> nat" where
  "nones q = length (filter (\<lambda>x. x = None) q)"

definition count_state :: "(consumer \<Rightarrow> bool) \<Rightarrow> ingest \<Rightarrow> nat" where
  "count_state P s = length (filter P (consumers s))"

fun is_fetching :: "consumer \<Rightarrow> bool" where
  "is_fetching (Fetching _) = True"
| "is_fetching _ = False"

fun is_persisting :: "consumer \<Rightarrow> bool" where
  "is_persisting (Persisting _) = True"
| "is_persisting _ = False"

fun put_so_far :: "nat \<Rightarrow> producer \<Rightarrow> nat" where
  "put_so_far n (Putting i) = i"
| "put_so_far n (Sentinels k) = n"

fun sentinels_left :: "nat \<Rightarrow> producer \<Rightarrow> nat" where
  "sentinels_left c (Putting i) = c"
| "sentinels_left c (Sentinels k) = k"

text \<open>
  The state while \<open>n\<close> records pass to \<open>c\<close> consumers: records come before sentinels in the queue;
  each record put is in the queue, with a consumer or processed; each sentinel is still to be put,
  in the queue, or has stopped a consumer; and no consumer stops before the records are taken.
\<close>

definition consumer_ok :: "nat \<Rightarrow> consumer \<Rightarrow> bool" where
  "consumer_ok n x \<longleftrightarrow>
     (case x of Fetching evt \<Rightarrow> \<exists>i < n. evt = record_payload i | Crashed _ \<Rightarrow> False | _ \<Rightarrow> True)"

definition ingest_inv :: "nat \<Rightarrow> nat \<Rightarrow> ingest \<Rightarrow> bool" where
  "ingest_inv n c s \<longleftrightarrow>
     (\<exists>items k. queue s = map Some items @ replicate k None \<and> (\<forall>i \<in> set items. i < n)) \<and>
     length (consumers s) = c \<and> (\<forall>x \<in> set (consumers s). consumer_ok n x) \<and> errors s = 0 \<and>
     (\<forall>i. producer s = Putting i \<longrightarrow> i < n \<and> nones (queue s) = 0) \<and>
     nones (queue s) + count_state (\<lambda>x. x = Stopped) s + sentinels_left c (producer s) = c \<and>
     processed s + somes (queue s) + count_state is_fetching s + count_state is_persisting s =
       put_so_far n (producer s) \<and>
     (0 < count_state (\<lambda>x. x = Stopped) s \<longrightarrow> somes (queue s) = 0)"

definition steps_left :: "nat \<Rightarrow> nat \<Rightarrow> ingest \<Rightarrow> nat" where
  "steps_left n c s =
     4 * (n - put_so_far n (producer s)) + 3 * somes (queue s) + 2 * count_state is_fetching s +
     count_state is_persisting s + 2 * sentinels_left c (producer s) + nones (queue s)"

lemma somes_nones_simps [simp]:
  "somes [] = 0" "nones [] = 0" "somes (Some x # q) = Suc (somes q)" "somes (None # q) = somes q"
  "nones (Some x # q) = nones q" "nones (None # q) = Suc (nones q)"
  "somes (q @ r) = somes q + somes r" "nones (q @ r) = nones q + nones r"
  by (simp_all add: somes_def nones_def)

lemma somes_nones_shape [simp]:
  "somes (map Some xs) = length xs" "nones (map Some xs) = 0"
  "somes (replicate k None) = 0" "nones (replicate k None) = k"
  by (simp_all add: somes_def nones_def filter_map comp_def)

text \<open>A consumer that goes from one state to another changes the counts of the two.\<close>

lemma count_state_update:
  "j < length (consumers s) \<Longrightarrow> consumers t = (consumers s)[j := x] \<Longrightarrow>
     count_state P t + (if P (consumers s ! j) then 1 else 0) = count_state P s + (if P x then 1 else 0)"
  by (simp add: count_state_def length_filter_update)

lemma consumers_ok_update:
  "\<forall>x \<in> set cs. consumer_ok n x \<Longrightarrow> consumer_ok n y \<Longrightarrow> \<forall>x \<in> set (cs[j := y]). consumer_ok n x"
  using set_update_subset_insert [of cs j y] by blast

definition count_mode :: "workload \<Rightarrow> nat \<Rightarrow> nat \<Rightarrow> bool" where
  "count_mode w n c \<longleftrightarrow> duration w = None \<and> n_records w = Some n \<and> concurrency w = c"

lemma count_state_same: "consumers t = consumers s \<Longrightarrow> count_state P t = count_state P s"
  by (simp add: count_state_def)

lemma put_counts:
  assumes "ingest_inv n c s" "count_mode w n c" "producer s \<noteq> Sentinels 0"
  shows "ingest_inv n c (put_item w e s) \<and> Suc (steps_left n c (put_item w e s)) = steps_left n c s"
proof -
  obtain items m where q: "queue s = map Some items @ replicate m None" "\<forall>i \<in> set items. i < n"
    using assms(1) by (auto simp: ingest_inv_def)
  have same: "count_state P (put_item w e s) = count_state P s" for P
    by (rule count_state_same) (simp add: put_item_def split: producer.split nat.split)
  show ?thesis
  proof (cases "producer s")
    case (Putting i)
    then have i: "i < n" "m = 0" "count_state (\<lambda>x. x = Stopped) s = 0"
      using assms(1) q by (auto simp: ingest_inv_def)
    have t: "put_item w e s = s\<lparr>queue := queue s @ [Some i], producer := next_put w e (Suc i)\<rparr>"
      by (simp add: put_item_def Putting)
    have nx: "next_put w e (Suc i) = (if n \<le> Suc i then Sentinels c else Putting (Suc i))"
      using assms(2) by (simp add: next_put_def count_mode_def)
    have q2: "queue s @ [Some i] = map Some (items @ [i]) @ replicate 0 None" using q i(2) by simp
    have "\<forall>j \<in> set (items @ [i]). j < n" using q(2) i(1) by simp
    then have shape: "\<exists>items k. queue s @ [Some i] = map Some items @ replicate k None \<and> (\<forall>i \<in> set items. i < n)"
      using q2 by blast
    have "ingest_inv n c (put_item w e s)"
      unfolding ingest_inv_def same
      using assms(1) Putting i shape by (cases "n \<le> Suc i") (simp_all add: t nx ingest_inv_def)
    moreover have "Suc (steps_left n c (put_item w e s)) = steps_left n c s"
    proof -
      obtain d where "n = Suc (i + d)" using less_imp_Suc_add [OF i(1)] by blast
      then show ?thesis unfolding steps_left_def same by (cases d) (simp_all add: t nx Putting)
    qed
    ultimately show ?thesis ..
  next
    case (Sentinels k0)
    then obtain k where k: "producer s = Sentinels (Suc k)" using assms(3) by (cases k0) auto
    have t: "put_item w e s = s\<lparr>queue := queue s @ [None], producer := Sentinels k\<rparr>"
      by (simp add: put_item_def k)
    have q2: "queue s @ [None] = map Some items @ replicate (Suc m) None"
      using q(1) by (simp add: replicate_append_same)
    have "\<exists>items k. queue s @ [None] = map Some items @ replicate k None \<and> (\<forall>i \<in> set items. i < n)"
      using q2 q(2) by blast
    then have "ingest_inv n c (put_item w e s)"
      unfolding ingest_inv_def same using assms(1) k by (simp add: t ingest_inv_def)
    moreover have "Suc (steps_left n c (put_item w e s)) = steps_left n c s"
      unfolding steps_left_def same by (simp add: t k)
    ultimately show ?thesis ..
  qed
qed

lemma get_counts:
  assumes inv: "ingest_inv n c s" and n: "n \<le> 10 ^ 18"
    and j: "j < length (consumers s)" "consumers s ! j = Getting" and ne: "queue s \<noteq> []"
  shows "ingest_inv n c (get_item j s) \<and> Suc (steps_left n c (get_item j s)) = steps_left n c s"
proof -
  obtain items m where q: "queue s = map Some items @ replicate m None" "\<forall>i \<in> set items. i < n"
    using inv by (auto simp: ingest_inv_def)
  show ?thesis
  proof (cases items)
    case Nil
    then obtain k where m: "m = Suc k" using ne q(1) by (cases m) auto
    have qs: "queue s = None # replicate k None" using q(1) by (simp add: Nil m)
    have t: "get_item j s = s\<lparr>queue := replicate k None, consumers := (consumers s)[j := Stopped]\<rparr>"
      by (simp add: get_item_def qs)
    have u: "count_state P (get_item j s) + (if P Getting then 1 else 0) =
        count_state P s + (if P Stopped then 1 else 0)" for P
      using count_state_update [OF j(1), of "get_item j s" Stopped P] j(2) by (simp add: t)
    have us: "count_state (\<lambda>x. x = Stopped) (get_item j s) = Suc (count_state (\<lambda>x. x = Stopped) s)"
      "count_state is_fetching (get_item j s) = count_state is_fetching s"
      "count_state is_persisting (get_item j s) = count_state is_persisting s"
      using u [of "\<lambda>x. x = Stopped"] u [of is_fetching] u [of is_persisting] by simp_all
    have shape: "\<exists>items m. replicate k None = map Some items @ replicate m None \<and> (\<forall>i \<in> set items. i < n)"
      by (intro exI [of _ "[]"] exI [of _ k]) simp
    have "ingest_inv n c (get_item j s)"
      unfolding ingest_inv_def us using inv shape qs consumers_ok_update [of "consumers s" n Stopped j]
      by (simp add: t ingest_inv_def consumer_ok_def)
    moreover have "Suc (steps_left n c (get_item j s)) = steps_left n c s"
      unfolding steps_left_def us by (simp add: t qs)
    ultimately show ?thesis ..
  next
    case (Cons i rest)
    have qs: "queue s = Some i # map Some rest @ replicate m None" using q(1) by (simp add: Cons)
    have i: "i < n" "i < 10 ^ 18" using q(2) n by (auto simp: Cons)
    have t: "get_item j s =
        s\<lparr>queue := map Some rest @ replicate m None, consumers := (consumers s)[j := Fetching (record_payload i)]\<rparr>"
      by (simp add: get_item_def qs resume_def begin_record_ok [OF i(2)])
    have u: "count_state P (get_item j s) + (if P Getting then 1 else 0) =
        count_state P s + (if P (Fetching (record_payload i)) then 1 else 0)" for P
      using count_state_update [OF j(1), of "get_item j s" "Fetching (record_payload i)" P] j(2) by (simp add: t)
    have us: "count_state (\<lambda>x. x = Stopped) (get_item j s) = count_state (\<lambda>x. x = Stopped) s"
      "count_state is_fetching (get_item j s) = Suc (count_state is_fetching s)"
      "count_state is_persisting (get_item j s) = count_state is_persisting s"
      using u [of "\<lambda>x. x = Stopped"] u [of is_fetching] u [of is_persisting] by simp_all
    have shape: "\<exists>items k. map Some rest @ replicate m None = map Some items @ replicate k None \<and> (\<forall>i \<in> set items. i < n)"
      using q(2) by (intro exI [of _ rest] exI [of _ m]) (simp add: Cons)
    have ok: "consumer_ok n (Fetching (record_payload i))" using i(1) by (auto simp: consumer_ok_def)
    have "ingest_inv n c (get_item j s)"
      unfolding ingest_inv_def us using inv shape qs consumers_ok_update [OF _ ok, of "consumers s" j]
      by (simp add: t ingest_inv_def)
    moreover have "Suc (steps_left n c (get_item j s)) = steps_left n c s"
      unfolding steps_left_def us by (simp add: t qs)
    ultimately show ?thesis ..
  qed
qed

lemma fetch_counts:
  assumes inv: "ingest_inv n c s" and j: "j < length (consumers s)" "consumers s ! j = Fetching evt"
  shows "ingest_inv n c (fetched w j evt s) \<and> Suc (steps_left n c (fetched w j evt s)) = steps_left n c s"
proof -
  have "consumer_ok n (Fetching evt)"
    using inv j nth_mem [OF j(1)] by (metis ingest_inv_def)
  then obtain i where "evt = record_payload i" by (auto simp: consumer_ok_def)
  then obtain e out where "finish_record (iters w) evt = Inr (e, out)" using finish_record_ok by blast
  then have t: "fetched w j evt s = s\<lparr>consumers := (consumers s)[j := Persisting e]\<rparr>"
    by (simp add: fetched_def resume_def)
  have u: "count_state P (fetched w j evt s) + (if P (Fetching evt) then 1 else 0) =
      count_state P s + (if P (Persisting e) then 1 else 0)" for P
    using count_state_update [OF j(1), of "fetched w j evt s" "Persisting e" P] j(2) by (simp add: t)
  have us: "count_state (\<lambda>x. x = Stopped) (fetched w j evt s) = count_state (\<lambda>x. x = Stopped) s"
    "Suc (count_state is_fetching (fetched w j evt s)) = count_state is_fetching s"
    "count_state is_persisting (fetched w j evt s) = Suc (count_state is_persisting s)"
    using u [of "\<lambda>x. x = Stopped"] u [of is_fetching] u [of is_persisting] by simp_all
  have "ingest_inv n c (fetched w j evt s)"
    unfolding ingest_inv_def us(1,3) using inv us(2) consumers_ok_update [of "consumers s" n "Persisting e" j]
    by (simp add: t ingest_inv_def consumer_ok_def)
  moreover have "Suc (steps_left n c (fetched w j evt s)) = steps_left n c s"
    unfolding steps_left_def us(1,3) using us(2) by (simp add: t)
  ultimately show ?thesis ..
qed

lemma persist_counts:
  assumes inv: "ingest_inv n c s" and j: "j < length (consumers s)" "consumers s ! j = Persisting evt"
  shows "ingest_inv n c (persisted j s) \<and> Suc (steps_left n c (persisted j s)) = steps_left n c s"
proof -
  have t: "persisted j s = s\<lparr>processed := Suc (processed s), consumers := (consumers s)[j := Getting]\<rparr>"
    by (simp add: persisted_def)
  have u: "count_state P (persisted j s) + (if P (Persisting evt) then 1 else 0) =
      count_state P s + (if P Getting then 1 else 0)" for P
    using count_state_update [OF j(1), of "persisted j s" Getting P] j(2) by (simp add: t)
  have us: "count_state (\<lambda>x. x = Stopped) (persisted j s) = count_state (\<lambda>x. x = Stopped) s"
    "count_state is_fetching (persisted j s) = count_state is_fetching s"
    "Suc (count_state is_persisting (persisted j s)) = count_state is_persisting s"
    using u [of "\<lambda>x. x = Stopped"] u [of is_fetching] u [of is_persisting] by simp_all
  have "ingest_inv n c (persisted j s)"
    unfolding ingest_inv_def us(1,2) using inv us(3) consumers_ok_update [of "consumers s" n Getting j]
    by (simp add: t ingest_inv_def consumer_ok_def)
  moreover have "Suc (steps_left n c (persisted j s)) = steps_left n c s"
    unfolding steps_left_def us(1,2) using us(3) by (simp add: t)
  ultimately show ?thesis ..
qed

lemma ingest_step_counts:
  assumes "ingest_step w s t" "ingest_inv n c s" "count_mode w n c" "n \<le> 10 ^ 18"
  shows "ingest_inv n c t \<and> Suc (steps_left n c t) = steps_left n c s"
  using assms(1)
proof cases
  case (put e)
  then show ?thesis using put_counts [OF assms(2,3)] by simp
next
  case (get j)
  then show ?thesis using get_counts [OF assms(2,4)] by simp
next
  case (fetch j evt)
  then show ?thesis using fetch_counts [OF assms(2)] by simp
next
  case (persist j evt)
  then show ?thesis using persist_counts [OF assms(2)] by simp
qed

lemma ingest_steps_counts:
  assumes "ingest_steps w m s t" "ingest_inv n c s" "count_mode w n c" "n \<le> 10 ^ 18"
  shows "ingest_inv n c t \<and> steps_left n c t + m = steps_left n c s"
  using assms(1,2)
proof (induction rule: ingest_steps.induct)
  case (more m s t v)
  then show ?case using ingest_step_counts [OF more(2) _ assms(3,4), of] by fastforce
qed simp

lemma start_counts:
  assumes "start_ingest w e = Inr s" "count_mode w n c"
  shows "ingest_inv n c s \<and> steps_left n c s = 4 * n + 2 * c"
proof -
  have s: "s = \<lparr>queue = [], producer = if n = 0 then Sentinels c else Putting 0,
      consumers = replicate c Getting, processed = 0, errors = 0\<rparr>"
    using assms by (auto simp: start_ingest_def count_mode_def next_put_def)
  have z: "count_state P s = (if P Getting then c else 0)" for P by (simp add: s count_state_def)
  show ?thesis by (auto simp: ingest_inv_def steps_left_def z) (auto simp: s consumer_ok_def split: if_splits)
qed

lemma all_stopped_iff: "list_all (\<lambda>x. x = Stopped) (consumers s) \<longleftrightarrow> count_state (\<lambda>x. x = Stopped) s = length (consumers s)"
proof
  assume "count_state (\<lambda>x. x = Stopped) s = length (consumers s)"
  then show "list_all (\<lambda>x. x = Stopped) (consumers s)"
    using length_filter_less [of _ "consumers s" "\<lambda>x. x = Stopped"]
    by (force simp: count_state_def list_all_iff)
qed (simp add: count_state_def list_all_iff)

lemma finished_iff:
  assumes "ingest_inv n c s" "0 < c"
  shows "finished s \<longleftrightarrow> steps_left n c s = 0"
proof
  assume f: "finished s"
  then have p: "producer s = Sentinels 0" and all: "list_all (\<lambda>x. x = Stopped) (consumers s)"
    by (simp_all add: finished_def)
  have "count_state (\<lambda>x. x = Stopped) s = c" using all assms(1) by (simp add: all_stopped_iff ingest_inv_def)
  moreover have "count_state is_fetching s = 0" "count_state is_persisting s = 0"
    using all by (auto simp: count_state_def list_all_iff filter_empty_conv)
  ultimately show "steps_left n c s = 0" using assms p by (simp add: ingest_inv_def steps_left_def)
next
  assume z: "steps_left n c s = 0"
  have p: "producer s = Sentinels 0"
    using z assms(2) by (cases "producer s") (simp_all add: steps_left_def)
  have "count_state (\<lambda>x. x = Stopped) s = length (consumers s)"
    using assms(1) z p by (simp add: ingest_inv_def steps_left_def)
  with p show "finished s" by (simp add: finished_def all_stopped_iff)
qed

text \<open>No deadlock: the bounded queue never leaves the producer and all consumers waiting.\<close>

lemma step_possible:
  assumes inv: "ingest_inv n c s" and c: "0 < c" "concurrency w = c" and left: "0 < steps_left n c s"
  shows "\<exists>t. ingest_step w s t"
proof (cases "queue s = []")
  case True
  have room: "has_room w s" using True c by (simp add: has_room_def)
  show ?thesis
  proof (cases "producer s = Sentinels 0")
    case False
    then show ?thesis using ingest_step.put [OF room] by blast
  next
    case p: True
    then have "0 < count_state is_fetching s \<or> 0 < count_state is_persisting s"
      using left True by (simp add: steps_left_def)
    then obtain x where x: "x \<in> set (consumers s)" "is_fetching x \<or> is_persisting x"
      by (auto simp: count_state_def filter_empty_conv)
    then obtain j where j: "j < length (consumers s)" "consumers s ! j = x" by (auto simp: in_set_conv_nth)
    show ?thesis
    proof (cases x)
      case (Fetching evt)
      then show ?thesis using ingest_step.fetch [OF j(1)] j(2) by blast
    next
      case (Persisting evt)
      then show ?thesis using ingest_step.persist [OF j(1)] j(2) by blast
    qed (use x in auto)
  qed
next
  case False
  have "\<not> list_all (\<lambda>x. x = Stopped) (consumers s)"
  proof
    assume "list_all (\<lambda>x. x = Stopped) (consumers s)"
    then have "count_state (\<lambda>x. x = Stopped) s = c" using inv by (simp add: all_stopped_iff ingest_inv_def)
    then have "somes (queue s) = 0" "nones (queue s) = 0" using inv c by (simp_all add: ingest_inv_def)
    then show False using False by (cases "queue s"; cases "hd (queue s)") auto
  qed
  then obtain j where j: "j < length (consumers s)" "consumers s ! j \<noteq> Stopped"
    by (auto simp: list_all_length)
  have ok: "consumer_ok n (consumers s ! j)" using inv j(1) by (simp add: ingest_inv_def)
  show ?thesis
  proof (cases "consumers s ! j")
    case Getting
    then show ?thesis using ingest_step.get [OF j(1) _ False] by blast
  next
    case (Fetching evt)
    then show ?thesis using ingest_step.fetch [OF j(1)] by blast
  next
    case (Persisting evt)
    then show ?thesis using ingest_step.persist [OF j(1)] by blast
  qed (use ok j in \<open>auto simp: consumer_ok_def\<close>)
qed

text \<open>
  C8. The workload over \<open>n\<close> records, at most 10 to the 18: whatever the interleaving of the producer and
  the \<open>c\<close> consumers, one at least, over the bounded queue, some coroutine can go on until the task group is done, which
  is after exactly \<open>4 n + 2 c\<close> segments; no consumer crashes, no record is counted as an error,
  and at the end exactly \<open>n\<close> records have been processed.
\<close>

theorem ingest_processes_all:
  assumes "start_ingest w e = Inr s0" "count_mode w n c" "0 < c" "n \<le> 10 ^ 18" "ingest_steps w m s0 s"
  shows "m \<le> 4 * n + 2 * c \<and> (finished s \<longleftrightarrow> m = 4 * n + 2 * c) \<and>
    (\<not> finished s \<longrightarrow> (\<exists>t. ingest_step w s t)) \<and> errors s = 0 \<and>
    (\<forall>x \<in> set (consumers s). \<forall>e. x \<noteq> Crashed e) \<and> (finished s \<longrightarrow> processed s = n)"
proof -
  have i: "ingest_inv n c s" "steps_left n c s + m = 4 * n + 2 * c"
    using ingest_steps_counts [OF assms(5) _ assms(2,4)] start_counts [OF assms(1,2)] by auto
  have f: "finished s \<longleftrightarrow> steps_left n c s = 0" using finished_iff [OF i(1) assms(3)] .
  have "\<exists>t. ingest_step w s t" if "\<not> finished s"
    using step_possible [OF i(1) assms(3)] assms(2) that f by (simp add: count_mode_def)
  moreover have "processed s = n" if "finished s"
    using that f i(1) by (simp add: finished_def ingest_inv_def steps_left_def)
  moreover have "\<forall>x \<in> set (consumers s). \<forall>e. x \<noteq> Crashed e"
    using i(1) by (auto simp: ingest_inv_def consumer_ok_def)
  moreover have "errors s = 0" using i(1) by (simp add: ingest_inv_def)
  ultimately show ?thesis using i(2) f by auto
qed

theorem ingest_processes_all_witness:
  "\<exists>w s0 t. start_ingest w 0 = Inr s0 \<and> concurrency w = 2 \<and> \<not> finished s0 \<and> ingest_step w s0 t"
proof -
  define w where "w = \<lparr>n_records = Some 3, duration = None, concurrency = 2, iters = 1\<rparr>"
  obtain s0 where s: "start_ingest w 0 = Inr s0" by (simp add: start_ingest_def w_def)
  have m: "count_mode w 3 2" by (simp add: count_mode_def w_def)
  have "\<not> finished s0" "\<exists>t. ingest_step w s0 t"
    using ingest_processes_all [OF s m _ _ ingest_steps.none] by simp_all
  moreover have "concurrency w = 2" by (simp add: w_def)
  ultimately show ?thesis using s by blast
qed

end
