(* ===== verification/PriceParser.thy ===== *)
theory PriceParser
  imports PyText
begin

text \<open>
  The price and quantity parser of 16-testing-engineering/01 (src/impl.py): currency
  extraction, separator disambiguation, signs, and the canonical formatter.  Every
  \<open>raise ParseError\<close> is a branch that returns \<open>Inl ParseError\<close>.
\<close>

section \<open>Data\<close>

datatype py_arg = PyStr pystr | PyOther

datatype price = Price (amount: dec) (currency: pystr)

definition known_currencies :: "pystr list" where
  "known_currencies =
     [u ''USD'', u ''EUR'', u ''GBP'', u ''JPY'', u ''CHF'', u ''CAD'', u ''AUD'', u ''CNY'', u ''INR'']"

text \<open>The symbols are the code points of the dollar, euro, pound and yen signs.\<close>

definition symbol_to_code :: "(nat \<times> pystr) list" where
  "symbol_to_code = [(36, u ''USD''), (8364, u ''EUR''), (163, u ''GBP''), (165, u ''JPY'')]"

section \<open>Currency extraction\<close>

text \<open>
  The two ISO patterns.  \<open>iso_start\<close> is \<open>^([A-Za-z]{3})\b\s*(.*)$\<close>: three letters, no word
  character after them, and no line feed in what follows the white space.  \<open>iso_end\<close> is
  \<open>^(.*\S)\s+([A-Za-z]{3})$\<close>.  Both are applied to text without trailing white space, so that
  \<open>$\<close> is the end of the text.
\<close>

definition iso_start :: "(nat \<Rightarrow> bool) \<Rightarrow> pystr \<Rightarrow> (pystr \<times> pystr) option" where
  "iso_start uw s =
     (let code = take 3 s; rest = drop 3 s; body = lstrip_by is_space rest in
      if length code = 3 \<and> list_all is_ascii_letter code \<and>
         (rest = [] \<or> \<not> is_word uw (hd rest)) \<and> 10 \<notin> set body
      then Some (code, body) else None)"

definition iso_end :: "pystr \<Rightarrow> (pystr \<times> pystr) option" where
  "iso_end s =
     (let code = drop (length s - 3) s; front = take (length s - 3) s;
          body = rstrip_by is_space front in
      if length code = 3 \<and> list_all is_ascii_letter code \<and>
         body \<noteq> front \<and> body \<noteq> [] \<and> 10 \<notin> set body
      then Some (body, code) else None)"

definition upper :: "pystr \<Rightarrow> pystr" where
  "upper s = map ascii_upper s"

definition extract_currency :: "(nat \<Rightarrow> bool) \<Rightarrow> pystr \<Rightarrow> (pystr \<times> pystr) result" where
  "extract_currency uw s =
     (case find (\<lambda>(symbol, code). startswith s [symbol]) symbol_to_code of
        Some (symbol, code) \<Rightarrow> Inr (code, drop 1 s)
      | None \<Rightarrow>
     (case find (\<lambda>(symbol, code). endswith s [symbol]) symbol_to_code of
        Some (symbol, code) \<Rightarrow> Inr (code, butlast s)
      | None \<Rightarrow>
     (case iso_start uw s of
        Some (code, body) \<Rightarrow>
          if upper code \<in> set known_currencies then Inr (upper code, body)
          else (case iso_end s of
                  Some (body, code) \<Rightarrow>
                    if upper code \<in> set known_currencies then Inr (upper code, body) else Inl ParseError
                | None \<Rightarrow> Inl ParseError)
      | None \<Rightarrow>
          (case iso_end s of
             Some (body, code) \<Rightarrow>
               if upper code \<in> set known_currencies then Inr (upper code, body) else Inl ParseError
           | None \<Rightarrow> Inl ParseError))))"

section \<open>Amounts\<close>

definition dot :: nat where "dot = 46"
definition comma :: nat where "comma = 44"
definition blank :: nat where "blank = 32"

definition remove_char :: "nat \<Rightarrow> pystr \<Rightarrow> pystr" where
  "remove_char c s = filter (\<lambda>x. x \<noteq> c) s"

definition replace_char :: "nat \<Rightarrow> nat \<Rightarrow> pystr \<Rightarrow> pystr" where
  "replace_char a b s = map (\<lambda>x. if x = a then b else x) s"

definition after_last :: "nat \<Rightarrow> pystr \<Rightarrow> pystr" where
  "after_last c s = rev (takeWhile (\<lambda>x. x \<noteq> c) (rev s))"

text \<open>\<open>s.rfind(c)\<close> for a character that occurs in \<open>s\<close>.\<close>

definition rfind :: "nat \<Rightarrow> pystr \<Rightarrow> int" where
  "rfind c s = int (length s) - int (length (after_last c s)) - 1"

definition amount_char :: "nat \<Rightarrow> bool" where
  "amount_char c \<longleftrightarrow> is_ascii_digit c \<or> c = dot \<or> c = comma \<or> is_space c"

definition normalize_amount :: "pystr \<Rightarrow> pystr" where
  "normalize_amount s =
     (let has_dot = dot \<in> set s; has_comma = comma \<in> set s in
      if has_dot \<and> has_comma then
        let (decimal_sep, thousands_sep) =
              (if rfind comma s > rfind dot s then (comma, dot) else (dot, comma))
        in replace_char decimal_sep dot (remove_char blank (remove_char thousands_sep s))
      else if has_comma then
        if count_list s comma = 1 \<and> length (after_last comma s) = 2
        then replace_char comma dot (remove_char blank s)
        else remove_char comma (remove_char blank s)
      else remove_char blank s)"

definition parse_amount :: "pystr \<Rightarrow> dec result" where
  "parse_amount s0 =
     (let s = strip_by is_space s0 in
      if s = [] \<or> \<not> list_all amount_char s then Inl ParseError
      else
        let normalized = normalize_amount s in
        if normalized = [] \<or> 1 < count_list normalized dot then Inl ParseError
        else case decimal_of_str normalized of None \<Rightarrow> Inl ParseError | Some d \<Rightarrow> Inr d)"

section \<open>The parser and the formatter\<close>

definition minus_sign :: nat where "minus_sign = 45"

text \<open>The optional sign: whether it was there, and the text after it.\<close>

definition take_sign :: "pystr \<Rightarrow> bool \<times> pystr" where
  "take_sign s = (if startswith s [minus_sign] then (True, lstrip_by is_space (drop 1 s)) else (False, s))"

definition parse_price :: "(nat \<Rightarrow> bool) \<Rightarrow> py_arg \<Rightarrow> price result" where
  "parse_price uw raw =
     (case raw of
        PyOther \<Rightarrow> Inl ParseError
      | PyStr r \<Rightarrow>
          (let s0 = strip_by is_space r in
           if s0 = [] then Inl ParseError
           else
             let (neg1, s1) = take_sign s0 in
             bind_result (extract_currency uw s1) (\<lambda>(currency, s2).
               let s3 = strip_by is_space s2; (neg2, s4) = take_sign s3 in
               if neg2 \<and> neg1 then Inl ParseError
               else if s4 = [] then Inl ParseError
               else bind_result (parse_amount s4) (\<lambda>amount.
                 Inr (Price (if neg1 \<or> neg2 then dec_minus amount else amount) currency)))))"

definition format_price :: "price \<Rightarrow> pystr result" where
  "format_price p =
     (if currency p \<notin> set known_currencies then Inl ParseError
      else Inr (currency p @ [blank] @ format_fixed (amount p)))"

text \<open>
  \<open>re.search(r"-?\d+", s)\<close>: the leftmost match, as the sign, the digits and nothing else.
\<close>

fun search_int :: "pystr \<Rightarrow> (bool \<times> nat list) option" where
  "search_int [] = None"
| "search_int (c # s) =
     (if is_digit c then Some (False, map (the \<circ> digit_value) (takeWhile is_digit (c # s)))
      else if c = minus_sign \<and> s \<noteq> [] \<and> is_digit (hd s)
      then Some (True, map (the \<circ> digit_value) (takeWhile is_digit s))
      else search_int s)"

definition normalize_quantity :: "py_arg \<Rightarrow> int result" where
  "normalize_quantity raw =
     (case raw of
        PyOther \<Rightarrow> Inl ParseError
      | PyStr r \<Rightarrow>
          (let s = strip_by is_space r in
           if s = [] then Inl ParseError
           else case search_int s of
             None \<Rightarrow> Inl ParseError
           | Some (neg, ds) \<Rightarrow>
               (let n = int (num_of_digits 0 ds); value = (if neg then - n else n) in
                if value < 0 then Inl ParseError else Inr value)))"

section \<open>Lemmas\<close>

lemmas char_defs = dot_def comma_def blank_def minus_sign_def

lemma known_code_letters:
  assumes "c \<in> set known_currencies"
  shows "length c = 3" "list_all is_ascii_letter c" "upper c = c" "hd c \<noteq> 45" "hd c < 100" "32 < hd c" "hd c \<noteq> 36"
  using assms by (auto simp: known_currencies_def is_ascii_letter_def upper_def ascii_upper_def)

lemma find_symbol_none:
  assumes "s \<noteq> []" "hd s \<noteq> 36" "hd s < 128"
  shows "find (\<lambda>(symbol, code). startswith s [symbol]) symbol_to_code = None"
  using assms by (cases s) (auto simp: symbol_to_code_def)

lemma find_symbol_end_none:
  assumes "s \<noteq> []" "last s \<noteq> 36" "last s < 128"
  shows "find (\<lambda>(symbol, code). endswith s [symbol]) symbol_to_code = None"
  using assms by (cases s rule: rev_cases) (auto simp: symbol_to_code_def endswith_def)

lemma extract_code:
  assumes c: "c \<in> set known_currencies"
    and s: "s \<noteq> []" "\<forall>x \<in> set s. 45 \<le> x \<and> x < 58"
  shows "extract_currency uw (c @ [blank] @ s) = Inr (c, s)"
proof -
  note kc = known_code_letters [OF c]
  let ?t = "c @ [blank] @ s"
  have ne: "c \<noteq> []" using kc(1) by auto
  have "\<not> is_space (hd s)" using s is_space_cases [of "hd s"] by (cases s) auto
  then have body: "lstrip_by is_space (drop 3 ?t) = s"
    using kc(1) s(1) by (cases s) (simp_all add: lstrip_by_def blank_def is_space_def py_spaces_def)
  have "10 \<notin> set s" using s(2) by auto
  moreover have "\<not> is_word uw blank"
    by (simp add: is_word_def blank_def is_ascii_letter_def is_ascii_digit_def)
  ultimately have iso: "iso_start uw ?t = Some (c, s)"
    using kc body by (simp add: iso_start_def)
  have h: "hd ?t = hd c" using ne by simp
  have l: "last ?t \<in> set s" using s(1) by simp
  have "find (\<lambda>(symbol, code). startswith ?t [symbol]) symbol_to_code = None"
    using kc h ne by (intro find_symbol_none) auto
  moreover have "find (\<lambda>(symbol, code). endswith ?t [symbol]) symbol_to_code = None"
    using s(2) l by (intro find_symbol_end_none) force+
  ultimately show ?thesis using iso c kc(3) by (simp add: extract_currency_def)
qed

lemma normalize_amount_plain:
  "comma \<notin> set s \<Longrightarrow> blank \<notin> set s \<Longrightarrow> normalize_amount s = s"
  by (auto simp: normalize_amount_def remove_char_def filter_id_conv)

lemma format_unsigned_facts:
  fixes n x
  defines "s \<equiv> format_fixed (Dec False n x)"
  shows "s \<noteq> []" "\<forall>c \<in> set s. 46 \<le> c \<and> c < 58 \<and> c \<noteq> 47" "48 \<le> hd s"
  using format_fixed_hd [of n x] format_fixed_chars [of _ n x] unfolding s_def by fastforce+

lemma strip_no_space: "\<forall>c \<in> set s. \<not> is_space c \<Longrightarrow> strip_by is_space s = s"
  by (cases "s = []") (simp_all add: strip_by_id)

lemma count_dot_digits: "count_list (chars_of_digits ds) 46 = 0"
  by (auto simp: count_list_0_iff chars_of_digits_def)

lemma count_dot_format: "count_list (format_fixed (Dec False n x)) dot \<le> 1"
  by (simp add: format_fixed_def Let_def dot_def count_dot_digits)

lemma parse_amount_format:
  "parse_amount (format_fixed (Dec False n x)) =
     Inr (if 0 \<le> x then Dec False (n * 10 ^ nat x) 0 else Dec False n x)"
proof -
  let ?s = "format_fixed (Dec False n x)"
  note ch = format_unsigned_facts [of n x]
  have "\<forall>y \<in> set ?s. \<not> is_space y" using ch(2) is_space_cases by fastforce
  then have st: "strip_by is_space ?s = ?s" by (rule strip_no_space)
  have all: "list_all amount_char ?s"
    using ch(2) by (fastforce simp: list_all_iff amount_char_def is_ascii_digit_def dot_def)
  have nm: "normalize_amount ?s = ?s"
    using ch(2) by (intro normalize_amount_plain) (auto simp: comma_def blank_def)
  have cnt: "\<not> 1 < count_list ?s dot" using count_dot_format [of n x] by linarith
  show ?thesis
    unfolding parse_amount_def Let_def st nm using ch(1) all cnt format_fixed_unsigned [of n x]
    by simp
qed

text \<open>The admissible prices, and the value a price denotes.\<close>

definition plain_coeff :: "dec \<Rightarrow> nat" where
  "plain_coeff d = (if 0 \<le> dexp d then coeff d * 10 ^ nat (dexp d) else coeff d)"

definition printable :: "price \<Rightarrow> bool" where
  "printable p \<longleftrightarrow> currency p \<in> set known_currencies \<and>
     (dneg (amount p) \<longrightarrow> plain_coeff (amount p) < 10 ^ dec_precision)"

definition price_value :: "price \<Rightarrow> rat \<times> pystr" where
  "price_value p = (dec_value (amount p), currency p)"

lemma strip_code_prefix:
  assumes c: "c \<in> set known_currencies" and s: "s \<noteq> []" "\<not> is_space (last s)"
  shows "strip_by is_space (c @ [blank] @ s) = c @ [blank] @ s"
proof -
  have "c \<noteq> []" "hd c < 100" "32 < hd c" using known_code_letters [OF c] by auto
  then show ?thesis using s is_space_cases [of "hd c"] by (intro strip_by_id) auto
qed

lemma parse_unsigned:
  assumes c: "c \<in> set known_currencies"
    and s: "s \<noteq> []" "\<forall>x \<in> set s. 46 \<le> x \<and> x < 58" and d: "parse_amount s = Inr d"
  shows "parse_price uw (PyStr (c @ [blank] @ s)) = Inr (Price d c)"
    and "parse_price uw (PyStr (c @ [blank] @ minus_sign # s)) = Inr (Price (dec_minus d) c)"
proof -
  have ns: "\<forall>y \<in> set s. \<not> is_space y" using s(2) is_space_cases by fastforce
  have nl: "\<not> is_space (last s)" using ns s(1) by simp
  have c0: "c \<noteq> []" "hd c \<noteq> 45" using known_code_letters [OF c] by auto
  have sg: "take_sign (c @ t) = (False, c @ t)" for t
    using c0 by (cases c) (auto simp: take_sign_def minus_sign_def)
  have hs: "hd s \<noteq> 45" "\<not> is_space (hd s)" using s ns by (cases s; auto)+
  then have sg2: "take_sign s = (False, s)"
    using s(1) by (cases s) (auto simp: take_sign_def minus_sign_def)
  have sg3: "take_sign (minus_sign # s) = (True, s)"
    using hs by (simp add: take_sign_def lstrip_by_id)
  have st: "strip_by is_space (c @ [blank] @ s) = c @ [blank] @ s"
    using strip_code_prefix [OF c s(1) nl] .
  have st': "strip_by is_space (c @ [blank] @ minus_sign # s) = c @ [blank] @ minus_sign # s"
    using strip_code_prefix [OF c, of "minus_sign # s"] nl s(1) by simp
  have in_s: "strip_by is_space s = s" using ns by (rule strip_no_space)
  have "\<not> is_space minus_sign" by (simp add: is_space_def py_spaces_def minus_sign_def)
  then have in_ms: "strip_by is_space (minus_sign # s) = minus_sign # s"
    using ns by (intro strip_no_space) simp
  have e: "extract_currency uw (c @ [blank] @ s) = Inr (c, s)"
    using s by (intro extract_code [OF c]) auto
  have e': "extract_currency uw (c @ [blank] @ minus_sign # s) = Inr (c, minus_sign # s)"
    using s by (intro extract_code [OF c]) (auto simp: minus_sign_def)
  show "parse_price uw (PyStr (c @ [blank] @ s)) = Inr (Price d c)"
    unfolding parse_price_def py_arg.case Let_def st sg prod.case e bind_result.simps in_s sg2
    using c0 s(1) d by simp
  show "parse_price uw (PyStr (c @ [blank] @ minus_sign # s)) = Inr (Price (dec_minus d) c)"
    unfolding parse_price_def py_arg.case Let_def st' sg prod.case e' bind_result.simps in_ms sg3
    using c0 s(1) d by simp
qed

lemma parse_format:
  assumes ok: "printable p" and f: "format_price p = Inr s"
  shows "\<exists>q. parse_price uw (PyStr s) = Inr q \<and> price_value q = price_value p"
proof -
  obtain neg n x c where p: "p = Price (Dec neg n x) c"
    by (metis price.exhaust dec.exhaust)
  have c: "c \<in> set known_currencies" using ok by (simp add: printable_def p)
  have s: "s = c @ [blank] @ format_fixed (Dec neg n x)"
    using f c by (simp add: format_price_def p)
  let ?d = "if 0 \<le> x then Dec False (n * 10 ^ nat x) 0 else Dec False n x"
  note ch = format_unsigned_facts [of n x]
  have ch': "\<forall>y \<in> set (format_fixed (Dec False n x)). 46 \<le> y \<and> y < 58" using ch(2) by blast
  note pp = parse_unsigned [OF c ch(1) ch' parse_amount_format, of uw]
  have v: "dec_value ?d = dec_value (Dec False n x)" by (rule dec_value_plain)
  show ?thesis
  proof (cases neg)
    case False
    then show ?thesis using pp(1) v by (auto simp: s p price_value_def)
  next
    case True
    then have "coeff ?d < 10 ^ dec_precision"
      using ok by (cases "0 \<le> x") (simp_all add: printable_def p plain_coeff_def)
    then have "dec_value (dec_minus ?d) = dec_value (Dec True n x)"
      using dec_minus_value [of ?d] v by (simp add: dec_value_def)
    then show ?thesis
      using pp(2) True by (auto simp: s p price_value_def format_fixed_sign minus_sign_def)
  qed
qed

interpretation price_codec: text_codec
  format_price "\<lambda>s. parse_price uw (PyStr s)" price_value printable
  for uw
proof unfold_locales
  show "printable p \<Longrightarrow> \<exists>s. format_price p = Inr s" for p
    by (simp add: format_price_def printable_def)
  show "printable p \<Longrightarrow> format_price p = Inr s \<Longrightarrow>
      \<exists>q. parse_price uw (PyStr s) = Inr q \<and> price_value q = price_value p" for p s
    by (rule parse_format)
qed

text \<open>Exchanging points and commas.\<close>

definition swap_char :: "nat \<Rightarrow> nat" where
  "swap_char c = (if c = dot then comma else if c = comma then dot else c)"

lemma swap_char_simps [simp]:
  "swap_char dot = comma" "swap_char comma = dot" "swap_char (swap_char c) = c"
  "swap_char c = dot \<longleftrightarrow> c = comma" "swap_char c = comma \<longleftrightarrow> c = dot"
  by (auto simp: swap_char_def dot_def comma_def)

lemma takeWhile_swap:
  "takeWhile P (rev (map swap_char s)) = map swap_char (takeWhile (P \<circ> swap_char) (rev s))"
  by (simp add: rev_map takeWhile_map)

lemma rfind_swap:
  "rfind comma (map swap_char s) = rfind dot s" "rfind dot (map swap_char s) = rfind comma s"
  by (simp_all add: rfind_def after_last_def takeWhile_swap comp_def)

lemma takeWhile_proper: "c \<in> set s \<Longrightarrow> length (takeWhile (\<lambda>x. x \<noteq> c) s) < length s"
  by (induction s) auto

lemma rfind_nth:
  assumes "c \<in> set s"
  shows "0 \<le> rfind c s" "s ! nat (rfind c s) = c"
proof -
  let ?t = "takeWhile (\<lambda>x. x \<noteq> c) (rev s)"
  have lt: "length ?t < length (rev s)" using assms by (intro takeWhile_proper) simp
  then have eq: "nat (rfind c s) = length s - Suc (length ?t)"
    by (simp add: rfind_def after_last_def)
  show "0 \<le> rfind c s" using lt by (simp add: rfind_def after_last_def)
  have "rev s ! length ?t = c" using nth_length_takeWhile [OF lt] by simp
  then show "s ! nat (rfind c s) = c" using lt by (simp add: eq rev_nth)
qed

lemma rfind_distinct: "dot \<in> set s \<Longrightarrow> comma \<in> set s \<Longrightarrow> rfind dot s \<noteq> rfind comma s"
  using rfind_nth(2) [of dot s] rfind_nth(2) [of comma s] by (auto simp: dot_def comma_def)

lemma swap_strip_replace:
  "replace_char comma dot (remove_char blank (remove_char dot (map swap_char s))) =
   replace_char dot dot (remove_char blank (remove_char comma s))"
  "replace_char dot dot (remove_char blank (remove_char comma (map swap_char s))) =
   replace_char comma dot (remove_char blank (remove_char dot s))"
  by (induction s) (auto simp: replace_char_def remove_char_def swap_char_def char_defs)

lemma normalize_amount_swap:
  assumes "dot \<in> set s" "comma \<in> set s"
  shows "normalize_amount (map swap_char s) = normalize_amount s"
proof -
  have sw: "dot \<in> set (map swap_char s)" "comma \<in> set (map swap_char s)"
    using assms by (force simp: image_iff)+
  show ?thesis
  proof (cases "rfind dot s < rfind comma s")
    case True
    then show ?thesis
      using assms sw by (simp add: normalize_amount_def rfind_swap swap_strip_replace)
  next
    case False
    then have "rfind comma s < rfind dot s" using rfind_distinct [OF assms] by linarith
    then show ?thesis
      using assms sw by (simp add: normalize_amount_def rfind_swap swap_strip_replace)
  qed
qed

lemma is_space_swap [simp]: "is_space (swap_char c) = is_space c"
  by (auto simp: swap_char_def is_space_def py_spaces_def char_defs)

lemma dropWhile_swap: "dropWhile is_space (map swap_char s) = map swap_char (dropWhile is_space s)"
  by (simp add: dropWhile_map comp_def)

lemma swap_strip: "strip_by is_space (map swap_char s) = map swap_char (strip_by is_space s)"
  by (simp add: strip_by_def lstrip_by_def rstrip_by_def dropWhile_swap rev_map)

lemma dropWhile_mem: "c \<in> set s \<Longrightarrow> \<not> p c \<Longrightarrow> c \<in> set (dropWhile p s)"
  by (induction s) auto

lemma strip_mem: "c \<in> set s \<Longrightarrow> \<not> p c \<Longrightarrow> c \<in> set (strip_by p s)"
  by (simp add: strip_by_def lstrip_by_def rstrip_by_def dropWhile_mem)

lemma amount_char_swap: "amount_char (swap_char c) = amount_char c"
proof -
  have "is_ascii_digit (swap_char c) = is_ascii_digit c"
    by (auto simp: swap_char_def is_ascii_digit_def char_defs)
  then show ?thesis by (auto simp: amount_char_def)
qed

lemma swap_amount_chars: "list_all amount_char (map swap_char s) = list_all amount_char s"
  by (simp add: list_all_iff amount_char_swap)

lemma find_symbol_known:
  "find P symbol_to_code = Some (symbol, code) \<Longrightarrow> code \<in> set known_currencies"
  by (drule find_mem) (auto simp: symbol_to_code_def known_currencies_def)

lemma extract_currency_known:
  assumes e: "extract_currency uw s = Inr (c, t)"
  shows "c \<in> set known_currencies"
proof (cases "find (\<lambda>(symbol, code). startswith s [symbol]) symbol_to_code")
  case (Some p)
  then show ?thesis
    using e find_symbol_known [of _ "fst p" "snd p"] by (cases p) (simp add: extract_currency_def)
next
  case a: None
  show ?thesis
  proof (cases "find (\<lambda>(symbol, code). endswith s [symbol]) symbol_to_code")
    case (Some p)
    then show ?thesis
      using e a find_symbol_known [of _ "fst p" "snd p"]
      by (cases p) (simp add: extract_currency_def)
  next
    case None
    then show ?thesis
      using e a unfolding extract_currency_def
      by (simp split: option.split_asm prod.split_asm if_split_asm)
  qed
qed

lemma bind_sign_result:
  "(case q of (b, y) \<Rightarrow> if f b then Inl e else if g y then Inl e' else bind_result (h y) (k b)) = Inr p \<Longrightarrow>
     \<exists>b y a. q = (b, y) \<and> h y = Inr a \<and> k b a = Inr p"
  by (cases q) (auto simp: bind_result_Inr split: if_splits)

lemma parse_price_currency:
  assumes "parse_price uw raw = Inr p"
  shows "currency p \<in> set known_currencies"
proof -
  obtain r where r: "raw = PyStr r" "strip_by is_space r \<noteq> []"
    using assms by (auto simp: parse_price_def Let_def split: py_arg.splits if_splits)
  obtain neg1 s1 where sg: "take_sign (strip_by is_space r) = (neg1, s1)" by fastforce
  obtain c s2 where e: "extract_currency uw s1 = Inr (c, s2)"
    using assms r sg by (auto simp: parse_price_def bind_result_Inr)
  have "(case take_sign (strip_by is_space s2) of (neg2, s4) \<Rightarrow>
      if neg2 \<and> neg1 then Inl ParseError else if s4 = [] then Inl ParseError
      else bind_result (parse_amount s4)
        (\<lambda>amount. Inr (Price (if neg1 \<or> neg2 then dec_minus amount else amount) c))) = Inr p"
    using assms unfolding parse_price_def r(1) py_arg.case Let_def sg prod.case
    using r(2) by (simp add: e)
  from bind_sign_result [OF this] have "currency p = c" by auto
  then show ?thesis using extract_currency_known [OF e] by simp
qed

lemma space_not_digit: "is_space c \<Longrightarrow> \<not> is_digit c"
proof -
  have "list_all (\<lambda>c. \<not> is_digit c) py_spaces"
    by (simp add: py_spaces_def is_digit_def digit_value_def nd_zeros_def)
  then show "is_space c \<Longrightarrow> \<not> is_digit c" by (simp add: is_space_def list_all_iff)
qed

lemma space_not_minus: "is_space c \<Longrightarrow> c \<noteq> minus_sign"
  by (auto simp: is_space_def py_spaces_def minus_sign_def)

lemma minus_not_digit: "\<not> is_digit minus_sign"
  by (simp add: is_digit_def digit_value_def nd_zeros_def minus_sign_def)

lemma search_int_none: "\<forall>c \<in> set s. \<not> is_digit c \<Longrightarrow> search_int s = None"
  by (induction s) auto

lemma takeWhile_append_stop: "\<forall>c \<in> set t. \<not> p c \<Longrightarrow> takeWhile p (s @ t) = takeWhile p s"
  by (induction s) (cases t, auto)

lemma search_int_append:
  assumes "\<forall>c \<in> set t. \<not> is_digit c"
  shows "search_int (s @ t) = search_int s"
proof (induction s)
  case Nil
  then show ?case using assms by (simp add: search_int_none)
next
  case (Cons c s)
  have tw: "takeWhile is_digit (s @ t) = takeWhile is_digit s"
    using assms by (rule takeWhile_append_stop)
  have "(s @ t \<noteq> [] \<and> is_digit (hd (s @ t))) = (s \<noteq> [] \<and> is_digit (hd s))"
    using assms by (cases s; cases t) auto
  then show ?case
    by (simp only: append_Cons search_int.simps takeWhile.simps tw Cons.IH)
qed

lemma search_int_strip: "search_int (strip_by is_space s) = search_int s"
proof -
  have l: "search_int (lstrip_by is_space s) = search_int s" for s
    by (induction s) (auto simp: lstrip_by_def dest: space_not_digit space_not_minus)
  have "\<forall>c \<in> set (rev (takeWhile is_space (rev t))). \<not> is_digit c" for t
    by (auto dest!: set_takeWhileD space_not_digit)
  moreover have "t = rstrip_by is_space t @ rev (takeWhile is_space (rev t))" for t
    unfolding rstrip_by_def by (metis rev_append rev_rev_ident takeWhile_dropWhile_id)
  ultimately have "search_int (rstrip_by is_space t) = search_int t" for t
    by (metis search_int_append)
  then show ?thesis using l by (simp add: strip_by_def)
qed

lemma search_int_leftmost:
  assumes "\<forall>c \<in> set a. \<not> is_digit c" "ds \<noteq> []" "\<forall>c \<in> set ds. is_digit c" "b = [] \<or> \<not> is_digit (hd b)"
  shows "search_int (a @ ds @ b) =
    Some (a \<noteq> [] \<and> last a = minus_sign, map (the \<circ> digit_value) ds)"
  using assms
proof (induction a)
  case Nil
  have "takeWhile is_digit (ds @ b) = ds"
    using Nil by (cases b) (simp_all add: takeWhile_tail)
  then show ?case using Nil by (cases ds) auto
next
  case (Cons c a)
  have tw: "takeWhile is_digit (ds @ b) = ds"
    using Cons.prems by (cases b) (simp_all add: takeWhile_tail)
  show ?case
  proof (cases "a = []")
    case True
    then show ?thesis using Cons tw by (cases ds) auto
  next
    case False
    then have "\<not> is_digit (hd (a @ ds @ b))" using Cons.prems by simp
    then show ?thesis using Cons False by simp
  qed
qed

lemma strip_digit_ne: "c \<in> set s \<Longrightarrow> is_digit c \<Longrightarrow> strip_by is_space s \<noteq> []"
  using strip_mem [of c s is_space] space_not_digit [of c] by (metis empty_iff list.set(1))

section \<open>Properties\<close>

text \<open>
  C23. Round trip: whatever the formatter prints for a price with a known currency is parsed
  back to a price with the same currency and numerically the same amount.  A negative amount
  must fit the 28 digits of the default decimal context; a non-negative one may be of any size.
\<close>

theorem parse_price_format_price:
  assumes "printable p"
  shows "\<exists>q. bind_result (format_price p) (\<lambda>s. parse_price uw (PyStr s)) = Inr q \<and>
    price_value q = price_value p"
  using price_codec.roundtrip_total [OF assms] .

theorem parse_price_format_price_witness:
  "printable (Price (Dec True 123456 (- 2)) (u ''EUR'')) \<and>
   (\<exists>q. bind_result (format_price (Price (Dec True 123456 (- 2)) (u ''EUR'')))
          (\<lambda>s. parse_price (\<lambda>_. False) (PyStr s)) = Inr q \<and>
        price_value q = (- 123456 / 100, u ''EUR''))"
proof -
  have ok: "printable (Price (Dec True 123456 (- 2)) (u ''EUR''))"
    by (simp add: printable_def plain_coeff_def known_currencies_def dec_precision_def)
  have "price_value (Price (Dec True 123456 (- 2)) (u ''EUR'')) = (- 123456 / 100, u ''EUR'')"
    by (simp add: price_value_def dec_value_def power_int_def field_simps)
  then show ?thesis
    using ok parse_price_format_price [OF ok, of "\<lambda>_. False"] by metis
qed

text \<open>
  The documented round trip fails beyond the context precision: the refund
  -12345678901234567890123456789 prints all its digits, and parses back as an amount rounded
  to 28 digits, because the parser applies the sign with the context's unary minus.  The same
  amount without the sign survives.
\<close>

theorem parse_price_negative_loses_digits:
  "bind_result (format_price (Price (Dec True 12345678901234567890123456789 0) (u ''USD'')))
     (\<lambda>s. parse_price uw (PyStr s)) =
   Inr (Price (Dec True 1234567890123456789012345679 1) (u ''USD''))"
proof -
  let ?c = "u ''USD''" and ?s = "format_fixed (Dec False 12345678901234567890123456789 0)"
  have c: "?c \<in> set known_currencies" by (simp add: known_currencies_def)
  note ch = format_unsigned_facts [of 12345678901234567890123456789 0]
  have ch': "\<forall>y \<in> set ?s. 46 \<le> y \<and> y < 58" using ch(2) by blast
  have pa: "parse_amount ?s = Inr (Dec False 12345678901234567890123456789 0)"
    by (simp add: parse_amount_format)
  have "dec_minus (Dec False 12345678901234567890123456789 0) =
      Dec True 1234567890123456789012345679 1"
    by (simp add: dec_minus_def dec_fix_def Let_def half_even_div_def dec_precision_def
        digits_of.simps)
  then show ?thesis
    using parse_unsigned(2) [OF c ch(1) ch' pa] c
    by (simp add: format_price_def format_fixed_sign minus_sign_def)
qed

text \<open>
  C26. Separator disambiguation is symmetric: when an amount contains both a point and a comma,
  exchanging the two (the US and the EU spelling of one number) changes nothing, neither the
  value nor whether it is rejected.
\<close>

theorem parse_amount_mirror:
  assumes "dot \<in> set s" "comma \<in> set s"
  shows "parse_amount (map swap_char s) = parse_amount s"
proof -
  have "dot \<in> set (strip_by is_space s)" "comma \<in> set (strip_by is_space s)"
    using assms by (auto intro!: strip_mem simp: is_space_def py_spaces_def char_defs)
  from normalize_amount_swap [OF this] show ?thesis
    by (simp add: parse_amount_def swap_strip swap_amount_chars Let_def)
qed

theorem parse_amount_mirror_witness:
  "parse_amount (map swap_char (u ''1.234,56'')) = parse_amount (u ''1.234,56'') \<and>
   parse_amount (u ''1.234,56'') = Inr (Dec False 123456 (- 2))"
proof -
  have h: "dot \<in> set (u ''1.234,56'')" "comma \<in> set (u ''1.234,56'')"
    by (simp_all add: char_defs)
  have st: "strip_by is_space (u ''1.234,56'') = u ''1.234,56''"
    by (rule strip_by_id) (simp add: is_space_def py_spaces_def)
  have nm: "normalize_amount (u ''1.234,56'') = u ''1234.56''"
    by (simp add: normalize_amount_def char_defs rfind_def after_last_def replace_char_def
        remove_char_def)
  have ch: "list_all amount_char (u ''1.234,56'')"
    by (simp add: amount_char_def is_ascii_digit_def char_defs)
  have "decimal_of_str (u ''1234.56'') = Some (Dec False 123456 (- 2))"
    using format_fixed_unsigned [of 123456 "- 2"]
    by (simp add: format_fixed_def digits_of.simps chars_of_digits_def)
  then have "parse_amount (u ''1.234,56'') = Inr (Dec False 123456 (- 2))"
    unfolding parse_amount_def st Let_def nm using ch by (simp add: char_defs)
  then show ?thesis using parse_amount_mirror [OF h] by simp
qed

text \<open>
  C39. The formatter accepts every price the parser returns: whatever the input, a successful
  parse carries one of the known currencies, so that formatting it is never the error branch.
\<close>

theorem parse_price_formats:
  assumes "parse_price uw raw = Inr p"
  shows "\<exists>s. format_price p = Inr s"
  using parse_price_currency [OF assms] by (simp add: format_price_def)

theorem parse_price_formats_witness:
  "parse_price (\<lambda>_. False) (PyStr (u ''EUR'' @ [blank] @ u ''12.50'')) =
     Inr (Price (Dec False 1250 (- 2)) (u ''EUR'')) \<and>
   (\<exists>s. format_price (Price (Dec False 1250 (- 2)) (u ''EUR'')) = Inr s)"
proof -
  have c: "u ''EUR'' \<in> set known_currencies" by (simp add: known_currencies_def)
  have f: "u ''12.50'' = format_fixed (Dec False 1250 (- 2))"
    by (simp add: format_fixed_def digits_of.simps chars_of_digits_def)
  have pa: "parse_amount (u ''12.50'') = Inr (Dec False 1250 (- 2))"
    unfolding f parse_amount_format by simp
  have "parse_price (\<lambda>_. False) (PyStr (u ''EUR'' @ [blank] @ u ''12.50'')) =
      Inr (Price (Dec False 1250 (- 2)) (u ''EUR''))"
    by (rule parse_unsigned(1) [OF c _ _ pa]) auto
  from this and parse_price_formats [OF this] show ?thesis by blast
qed

text \<open>
  A quantity is the value of the leftmost run of decimal digits of the text, whatever
  surrounds it and whichever script the digits are in; a minus sign directly before that run
  makes the quantity an error, unless the run denotes zero.
\<close>

theorem normalize_quantity_leftmost:
  assumes "\<forall>c \<in> set a. \<not> is_digit c" "ds \<noteq> []" "\<forall>c \<in> set ds. is_digit c"
    "b = [] \<or> \<not> is_digit (hd b)"
  shows "normalize_quantity (PyStr (a @ ds @ b)) =
    (let n = num_of_digits 0 (map (the \<circ> digit_value) ds) in
     if a \<noteq> [] \<and> last a = minus_sign \<and> 0 < n then Inl ParseError else Inr (int n))"
proof -
  have "strip_by is_space (a @ ds @ b) \<noteq> []"
    using assms(2,3) strip_digit_ne [of "hd ds" "a @ ds @ b"] by (cases ds) auto
  then show ?thesis
    using search_int_leftmost [OF assms]
    by (simp add: normalize_quantity_def search_int_strip Let_def)
qed

theorem normalize_quantity_leftmost_witness:
  "normalize_quantity (PyStr (u ''qty-'' @ u ''12'' @ u ''pcs 7'')) = Inl ParseError \<and>
   normalize_quantity (PyStr (u ''qty '' @ u ''12'' @ u ''pcs 7'')) = Inr 12"
proof -
  note d = is_digit_def digit_value_def nd_zeros_def minus_sign_def
  show ?thesis
    using normalize_quantity_leftmost [of "u ''qty-''" "u ''12''" "u ''pcs 7''"]
      normalize_quantity_leftmost [of "u ''qty ''" "u ''12''" "u ''pcs 7''"]
    by (simp add: d Let_def)
qed

end
