(* ===== verification/SqlTable.thy ===== *)
theory SqlTable
  imports PyPrelude
begin

text \<open>
  The table semantics of the SQL the repositories send: a table is its rows in insertion order
  and the next value of its BIGSERIAL sequence.  \<open>INSERT ... ON CONFLICT (key) DO UPDATE\<close> draws a
  sequence value whether or not it then inserts, and updates the one row that has the key.
\<close>

type_synonym 'r sql_table = "'r list \<times> int"

definition empty_table :: "'r sql_table" where
  "empty_table = ([], 1)"

definition upsert_row ::
  "('r \<Rightarrow> 'b) \<Rightarrow> ('i \<Rightarrow> 'b) \<Rightarrow> (int \<Rightarrow> 'i \<Rightarrow> 'r) \<Rightarrow> ('i \<Rightarrow> 'r \<Rightarrow> 'r) \<Rightarrow> 'i \<Rightarrow> 'r sql_table \<Rightarrow> 'r sql_table" where
  "upsert_row bkey ikey new_row upd x t =
     (case t of (rows, seq) \<Rightarrow>
        if ikey x \<in> set (map bkey rows)
        then (map (\<lambda>r. if bkey r = ikey x then upd x r else r) rows, seq + 1)
        else (rows @ [new_row seq x], seq + 1))"

definition order_by :: "('r \<Rightarrow> 'c::linorder) \<Rightarrow> 'r list \<Rightarrow> 'r list" where
  "order_by key rows = sort_key key rows"

lemma set_order_by [simp]: "set (order_by key rows) = set rows"
  by (simp add: order_by_def)

lemma order_by_filter: "filter P (order_by key rows) = order_by key (filter P rows)"
  by (simp add: order_by_def filter_sort)

lemma order_by_strict:
  "distinct (map key rows) \<Longrightarrow> sorted_wrt (<) (map key (order_by key rows))"
  unfolding order_by_def strict_sorted_iff by (simp add: distinct_map inj_on_def)

lemma strict_sorted_distinct: "sorted_wrt (<) (xs :: 'a::linorder list) \<Longrightarrow> distinct xs"
  using strict_sorted_iff by blast

section \<open>The upsert contract\<close>

text \<open>
  What a table needs of its columns for an upsert to be a write to a map from business keys to
  rows: the update keeps the surrogate id and the key, and overwrites whatever an earlier update
  or the insertion wrote.
\<close>

locale upsert_table =
  fixes id_of :: "'r \<Rightarrow> int"
    and bkey :: "'r \<Rightarrow> 'b"
    and ikey :: "'i \<Rightarrow> 'b"
    and new_row :: "int \<Rightarrow> 'i \<Rightarrow> 'r"
    and upd :: "'i \<Rightarrow> 'r \<Rightarrow> 'r"
  assumes id_new [simp]: "id_of (new_row i x) = i"
    and id_upd [simp]: "id_of (upd x r) = id_of r"
    and key_new [simp]: "bkey (new_row i x) = ikey x"
    and key_upd [simp]: "bkey (upd x r) = bkey r"
    and upd_upd: "ikey x = ikey y \<Longrightarrow> upd x (upd y r) = upd x r"
    and upd_new: "ikey x = ikey y \<Longrightarrow> upd x (new_row i y) = new_row i x"
begin

abbreviation ups :: "'i \<Rightarrow> 'r sql_table \<Rightarrow> 'r sql_table" where
  "ups \<equiv> upsert_row bkey ikey new_row upd"

text \<open>The rows are in id order, below the sequence, and no business key occurs twice.\<close>

definition wf_table :: "'r sql_table \<Rightarrow> bool" where
  "wf_table t \<longleftrightarrow> sorted_wrt (<) (map id_of (fst t)) \<and> (\<forall>r \<in> set (fst t). id_of r < snd t) \<and>
     distinct (map bkey (fst t))"

definition row_for :: "'b \<Rightarrow> 'r sql_table \<Rightarrow> 'r option" where
  "row_for k t = find (\<lambda>r. bkey r = k) (fst t)"

lemma wf_empty: "wf_table empty_table"
  by (simp add: wf_table_def empty_table_def)

lemma ids_upd: "map id_of (map (\<lambda>r. if bkey r = k then upd x r else r) rows) = map id_of rows"
  by (induction rows) auto

lemma keys_upd: "map bkey (map (\<lambda>r. if bkey r = k then upd x r else r) rows) = map bkey rows"
  by (induction rows) auto

lemma wf_upsert:
  assumes "wf_table t"
  shows "wf_table (ups x t)"
proof -
  obtain rows seq where t: "t = (rows, seq)" by fastforce
  show ?thesis
  proof (cases "ikey x \<in> set (map bkey rows)")
    case True
    then have "ups x t = (map (\<lambda>r. if bkey r = ikey x then upd x r else r) rows, seq + 1)"
      by (simp add: upsert_row_def t)
    moreover have "\<forall>r \<in> set (map (\<lambda>r. if bkey r = ikey x then upd x r else r) rows). id_of r < seq + 1"
      using assms unfolding wf_table_def t by fastforce
    ultimately show ?thesis
      using assms unfolding wf_table_def t fst_conv snd_conv by (simp only: ids_upd keys_upd fst_conv snd_conv)
  next
    case False
    then show ?thesis
      using assms by (fastforce simp: wf_table_def upsert_row_def t sorted_wrt_append)
  qed
qed

lemma wf_upserts: "wf_table t \<Longrightarrow> wf_table (fold ups xs t)"
  by (induction xs arbitrary: t) (simp_all add: wf_upsert)

lemma keys_upsert: "bkey ` set (fst (ups x t)) = insert (ikey x) (bkey ` set (fst t))"
proof -
  have "set (map bkey (fst (ups x t))) = insert (ikey x) (set (map bkey (fst t)))"
    by (cases t) (auto simp: upsert_row_def keys_upd simp del: set_map map_map list.map_comp)
  then show ?thesis by simp
qed

lemma keys_upserts: "bkey ` set (fst (fold ups xs t)) = ikey ` set xs \<union> bkey ` set (fst t)"
  by (induction xs arbitrary: t) (auto simp: keys_upsert)

lemma find_upd:
  "find (\<lambda>r. bkey r = k) (map (\<lambda>r. if bkey r = k' then upd x r else r) rows) =
     map_option (\<lambda>r. if k = k' then upd x r else r) (find (\<lambda>r. bkey r = k) rows)"
  by (induction rows) auto

lemma find_key_none: "find (\<lambda>r. bkey r = k) rows = None \<longleftrightarrow> k \<notin> set (map bkey rows)"
  by (auto simp: find_None_iff)

lemma find_snoc: "find P (xs @ [x]) = (case find P xs of None \<Rightarrow> if P x then Some x else None | Some y \<Rightarrow> Some y)"
  by (induction xs) auto

text \<open>Reading a key after an upsert.\<close>

lemma row_for_upsert:
  "row_for k (ups x t) =
     (if k = ikey x then Some (case row_for k t of None \<Rightarrow> new_row (snd t) x | Some r \<Rightarrow> upd x r)
      else row_for k t)"
proof -
  obtain rows seq where t: "t = (rows, seq)" by fastforce
  show ?thesis
  proof (cases "ikey x \<in> set (map bkey rows)")
    case True
    then have f: "find (\<lambda>r. bkey r = ikey x) rows \<noteq> None" by (simp add: find_key_none)
    have "fst (ups x t) = map (\<lambda>r. if bkey r = ikey x then upd x r else r) rows"
      using True by (simp add: upsert_row_def t)
    then show ?thesis using f unfolding row_for_def t by (auto simp: find_upd option.map_ident)
  next
    case False
    then have f: "find (\<lambda>r. bkey r = ikey x) rows = None" by (simp add: find_key_none)
    have "fst (ups x t) = rows @ [new_row seq x]"
      using False by (simp add: upsert_row_def t)
    then show ?thesis using f unfolding row_for_def t by (auto simp: find_snoc split: option.splits)
  qed
qed

text \<open>A surrogate id, once given to a key, stays with it.\<close>

lemma id_keys_upd:
  "map (\<lambda>r. (id_of r, bkey r)) (map (\<lambda>r. if bkey r = k then upd x r else r) rows) =
     map (\<lambda>r. (id_of r, bkey r)) rows"
  by (induction rows) auto

lemma ids_upsert: "set (map (\<lambda>r. (id_of r, bkey r)) (fst t)) \<subseteq> set (map (\<lambda>r. (id_of r, bkey r)) (fst (ups x t)))"
  by (cases t) (auto simp: upsert_row_def id_keys_upd simp del: set_map map_map list.map_comp)

lemma ids_upserts: "id_of ` set (fst t) \<subseteq> id_of ` set (fst (fold ups xs t))"
proof (induction xs arbitrary: t)
  case Nil
  then show ?case by simp
next
  case (Cons x xs)
  have "id_of ` set (fst t) \<subseteq> id_of ` set (fst (ups x t))"
    using ids_upsert [of t x] by (force simp: subset_iff image_iff)
  then show ?case using Cons.IH [of "ups x t"] by auto
qed

text \<open>The last write to a key in a batch.\<close>

definition last_write :: "'i list \<Rightarrow> 'b \<Rightarrow> 'i option" where
  "last_write xs k = find (\<lambda>x. ikey x = k) (rev xs)"

lemma last_write_snoc: "last_write (xs @ [x]) k = (if ikey x = k then Some x else last_write xs k)"
  by (simp add: last_write_def)

lemma last_write_key: "last_write xs k = Some x \<Longrightarrow> ikey x = k"
  unfolding last_write_def by (metis (mono_tags, lifting) find_Some_iff)

lemma upserts_fixed:
  "r \<in> set (fst (fold ups xs t)) \<Longrightarrow> last_write xs (bkey r) = Some x \<Longrightarrow> upd x r = r"
proof (induction xs arbitrary: r rule: rev_induct)
  case Nil
  then show ?case by (simp add: last_write_def)
next
  case (snoc y ys)
  obtain rows seq where t: "fold ups ys t = (rows, seq)" by fastforce
  have r: "r \<in> set (fst (ups y (rows, seq)))" using snoc.prems(1) t by simp
  show ?case
  proof (cases "ikey y = bkey r")
    case True
    then have x: "x = y" using snoc.prems(2) by (simp add: last_write_snoc)
    from r have "(\<exists>r'. r = upd y r') \<or> r = new_row seq y \<or> (r \<in> set rows \<and> ikey y \<notin> set (map bkey rows))"
      using True by (auto simp: upsert_row_def split: if_splits)
    then show ?thesis using True upd_upd [of y y] upd_new [of y y seq] x by fastforce
  next
    case False
    have "r \<in> set rows" using r False by (auto simp: upsert_row_def split: if_splits)
    moreover have "last_write ys (bkey r) = Some x" using snoc.prems(2) False by (simp add: last_write_snoc)
    ultimately show ?thesis using snoc.IH t by simp
  qed
qed

text \<open>Upserts whose keys are all there already only rewrite rows in place.\<close>

lemma upserts_present:
  assumes "ikey ` set xs \<subseteq> bkey ` set (fst t)"
  shows "fst (fold ups xs t) =
    map (\<lambda>r. case last_write xs (bkey r) of None \<Rightarrow> r | Some x \<Rightarrow> upd x r) (fst t)"
  using assms
proof (induction xs rule: rev_induct)
  case Nil
  then show ?case by (simp add: last_write_def)
next
  case (snoc y ys)
  obtain rows seq where t: "fold ups ys t = (rows, seq)" by fastforce
  have ih: "rows = map (\<lambda>r. case last_write ys (bkey r) of None \<Rightarrow> r | Some x \<Rightarrow> upd x r) (fst t)"
    using snoc t by simp
  have "ikey y \<in> set (map bkey rows)"
    using snoc.prems keys_upserts [of ys t] t by auto
  then have "fst (fold ups (ys @ [y]) t) = map (\<lambda>r. if bkey r = ikey y then upd y r else r) rows"
    by (simp add: t upsert_row_def)
  also have "\<dots> = map (\<lambda>r. case last_write (ys @ [y]) (bkey r) of None \<Rightarrow> r | Some x \<Rightarrow> upd x r) (fst t)"
    unfolding ih map_map comp_def
    by (rule map_cong [OF refl])
      (auto simp: last_write_snoc upd_upd dest: last_write_key split: option.splits)
  finally show ?case .
qed

text \<open>Replaying a batch changes no row.\<close>

lemma replay_rows: "fst (fold ups xs (fold ups xs t)) = fst (fold ups xs t)"
proof -
  have "ikey ` set xs \<subseteq> bkey ` set (fst (fold ups xs t))" by (simp add: keys_upserts)
  then show ?thesis
    by (simp add: upserts_present) (rule map_idI, auto split: option.splits dest: upserts_fixed)
qed

lemma row_for_untouched:
  "last_write xs k = None \<Longrightarrow> row_for k (fold ups xs t) = row_for k t"
  by (induction xs rule: rev_induct) (auto simp: last_write_snoc row_for_upsert split: if_splits)

text \<open>Reading a key after a batch: the columns are those of the last write to it.\<close>

lemma row_for_upserts:
  "last_write xs k = Some x \<Longrightarrow>
     \<exists>i. row_for k (fold ups xs t) = Some (case row_for k t of None \<Rightarrow> new_row i x | Some r \<Rightarrow> upd x r)"
proof (induction xs arbitrary: x rule: rev_induct)
  case Nil
  then show ?case by (simp add: last_write_def)
next
  case (snoc y ys)
  let ?T = "fold ups ys t"
  show ?case
  proof (cases "ikey y = k")
    case False
    then show ?thesis using snoc by (simp add: last_write_snoc row_for_upsert)
  next
    case True
    then have x: "x = y" using snoc.prems by (simp add: last_write_snoc)
    have r: "row_for k (fold ups (ys @ [y]) t) =
        Some (case row_for k ?T of None \<Rightarrow> new_row (snd ?T) y | Some r \<Rightarrow> upd y r)"
      using True by (simp add: row_for_upsert)
    show ?thesis
    proof (cases "last_write ys k")
      case (Some z)
      with snoc.IH obtain i where i: "row_for k ?T =
          Some (case row_for k t of None \<Rightarrow> new_row i z | Some r \<Rightarrow> upd z r)" by blast
      have z: "ikey y = ikey z" using last_write_key [OF Some] True by simp
      show ?thesis unfolding r i x
        by (cases "row_for k t") (auto simp: upd_upd [OF z] upd_new [OF z])
    next
      case None
      then show ?thesis using r x by (auto simp: row_for_untouched)
    qed
  qed
qed

end

end
