(* ===== verification/Keyset.thy ===== *)
theory Keyset
  imports PyPrelude
begin

text \<open>
  Keyset pagination: the contract every paging endpoint of the repository promises to the
  client that walks its pages, stated once as a locale and proved once.  A page is the rows
  after a cursor, cut off at a limit; the client passes the returned cursor back until there is
  none.  The providers (the price repository, the contract API and the capstone catalog)
  interpret the locale in their own theories.
\<close>

section \<open>The client\<close>

text \<open>
  The client's loop, with fuel for the number of requests it may make: \<open>None\<close> is a client that
  is still walking when the fuel is spent.
\<close>

fun walk :: "nat \<Rightarrow> ('c option \<Rightarrow> 'r list \<times> 'c option) \<Rightarrow> 'c option \<Rightarrow> 'r list option" where
  "walk 0 fetch after = None"
| "walk (Suc k) fetch after =
     (case fetch after of
        (items, None) \<Rightarrow> Some items
      | (items, Some c) \<Rightarrow> map_option (\<lambda>rest. items @ rest) (walk k fetch (Some c)))"

text \<open>The rows after a cursor, and the ordered selection \<open>ORDER BY key LIMIT n\<close> over a table.\<close>

definition after_cursor :: "('r \<Rightarrow> 'c::linorder) \<Rightarrow> 'c option \<Rightarrow> 'r list \<Rightarrow> 'r list" where
  "after_cursor key after rows = filter (\<lambda>r. case after of None \<Rightarrow> True | Some c \<Rightarrow> c < key r) rows"

lemma after_cursor_None [simp]: "after_cursor key None rows = rows"
  by (simp add: after_cursor_def)

lemma after_cursor_Some: "after_cursor key (Some c) rows = filter (\<lambda>r. c < key r) rows"
  by (simp add: after_cursor_def)

lemma after_cursor_none_left:
  "\<forall>r \<in> set rows. key r \<le> c \<Longrightarrow> after_cursor key (Some c) rows = []"
  by (auto simp: after_cursor_def filter_empty_conv)

lemma sorted_filter_wrt: "sorted_wrt P xs \<Longrightarrow> sorted_wrt P (filter Q xs)"
  by (induction xs) auto

lemma strict_sorted_filter: "sorted_wrt (<) (map key rows) \<Longrightarrow> sorted_wrt (<) (map key (filter Q rows))"
  by (simp add: sorted_wrt_map sorted_filter_wrt)

text \<open>Cutting a strictly sorted list after its first \<open>n\<close> rows is cutting it at a cursor.\<close>

lemma drop_is_after_cursor:
  assumes "sorted_wrt (<) (map key rows)" "0 < n" "rows \<noteq> []"
  shows "after_cursor key (Some (key (last (take n rows)))) rows = drop n rows"
proof -
  define a b where "a = take n rows" and "b = drop n rows"
  have rows: "rows = a @ b" and ne: "a \<noteq> []" using assms by (auto simp: a_def b_def)
  have srt: "sorted_wrt (<) (map key a)" "\<forall>x \<in> set a. \<forall>y \<in> set b. key x < key y"
    using assms(1) unfolding rows by (auto simp: sorted_wrt_append)
  have "\<forall>x \<in> set a. key x \<le> key (last a)"
    using srt(1) ne
    by (cases a rule: rev_cases) (auto simp: sorted_wrt_append dest: less_imp_le)
  then have "after_cursor key (Some (key (last a))) a = []" by (rule after_cursor_none_left)
  moreover have "after_cursor key (Some (key (last a))) b = b"
    using srt(2) ne by (simp add: after_cursor_def filter_id_conv)
  ultimately have "after_cursor key (Some (key (last a))) rows = b"
    unfolding rows by (simp add: after_cursor_def)
  then show ?thesis by (simp add: a_def b_def)
qed

lemma after_cursor_compose:
  assumes "case after of None \<Rightarrow> True | Some c \<Rightarrow> c \<le> d"
  shows "after_cursor key (Some d) (after_cursor key after rows) = after_cursor key (Some d) rows"
  using assms by (auto simp: after_cursor_def intro!: filter_cong split: option.splits)

section \<open>The contract\<close>

locale keyset =
  fixes rows :: "'t \<Rightarrow> 'r list"
    and key :: "'r \<Rightarrow> 'c::linorder"
    and fetch :: "'t \<Rightarrow> nat \<Rightarrow> 'c option \<Rightarrow> 'r list \<times> 'c option"
    and ok :: "'t \<Rightarrow> bool"
  assumes sorted: "ok t \<Longrightarrow> sorted_wrt (<) (map key (rows t))"
    and items: "ok t \<Longrightarrow> 0 < n \<Longrightarrow> fst (fetch t n after) = take n (after_cursor key after (rows t))"
    and last_page: "ok t \<Longrightarrow> 0 < n \<Longrightarrow> snd (fetch t n after) = None \<Longrightarrow>
      drop n (after_cursor key after (rows t)) = []"
    and next_cursor: "ok t \<Longrightarrow> 0 < n \<Longrightarrow> snd (fetch t n after) = Some c \<Longrightarrow>
      fst (fetch t n after) \<noteq> [] \<and> c = key (last (fst (fetch t n after)))"
begin

lemma page_length: "ok t \<Longrightarrow> 0 < n \<Longrightarrow> length (fst (fetch t n after)) \<le> n"
  by (simp add: items)

lemma page_after:
  "ok t \<Longrightarrow> 0 < n \<Longrightarrow> r \<in> set (fst (fetch t n (Some c))) \<Longrightarrow> c < key r"
  by (auto simp: items after_cursor_def dest: in_set_takeD)

lemma next_rows:
  assumes "ok t" "0 < n" "snd (fetch t n after) = Some c"
  shows "after_cursor key (Some c) (rows t) = drop n (after_cursor key after (rows t))"
proof -
  let ?rest = "after_cursor key after (rows t)"
  have ne: "fst (fetch t n after) \<noteq> []" and c: "c = key (last (take n ?rest))"
    using next_cursor [OF assms] items [OF assms(1,2)] by auto
  have rest: "?rest \<noteq> []" using ne items [OF assms(1,2)] by auto
  have srt: "sorted_wrt (<) (map key ?rest)"
    using sorted [OF assms(1)] by (simp add: after_cursor_def strict_sorted_filter)
  have "last (take n ?rest) \<in> set ?rest"
    using rest assms(2) by (metis in_set_takeD last_in_set less_numeral_extra(3) take_eq_Nil)
  then have "case after of None \<Rightarrow> True | Some a \<Rightarrow> a \<le> c"
    by (auto simp: c after_cursor_def split: option.splits)
  from after_cursor_compose [OF this, of key "rows t"]
  show ?thesis using drop_is_after_cursor [OF srt assms(2) rest] by (simp add: c)
qed

lemma walk_rest:
  "ok t \<Longrightarrow> 0 < n \<Longrightarrow> length (after_cursor key after (rows t)) < k \<Longrightarrow>
     walk k (fetch t n) after = Some (after_cursor key after (rows t))"
proof (induction k arbitrary: after)
  case 0
  then show ?case by simp
next
  case (Suc k)
  let ?rest = "after_cursor key after (rows t)"
  note it = items [OF Suc.prems(1,2), of after]
  show ?case
  proof (cases "snd (fetch t n after)")
    case None
    then have "drop n ?rest = []" using last_page Suc.prems by blast
    then show ?thesis using it None by (cases "fetch t n after") simp
  next
    case (Some c)
    have ne: "?rest \<noteq> []" using next_cursor [OF Suc.prems(1,2) Some] it by auto
    have rest': "after_cursor key (Some c) (rows t) = drop n ?rest"
      using next_rows [OF Suc.prems(1,2) Some] .
    have "length (drop n ?rest) < k"
      using Suc.prems ne by (cases ?rest) auto
    then have "walk k (fetch t n) (Some c) = Some (drop n ?rest)"
      using Suc.IH [of "Some c"] Suc.prems rest' by simp
    then show ?thesis using it Some by (cases "fetch t n after") simp
  qed
qed

text \<open>The walk from the first page visits every row exactly once, in key order, and stops.\<close>

lemma walk_all:
  assumes "ok t" "0 < n" "length (rows t) < k"
  shows "walk k (fetch t n) None = Some (rows t)"
  using walk_rest [of t n None k] assms by simp

end

section \<open>Walking a table that changes\<close>

text \<open>
  The same loop when the table is a different one at every request: \<open>ts\<close> are the tables the
  successive requests see.
\<close>

fun walk_over :: "('t \<Rightarrow> 'c option \<Rightarrow> 'r list \<times> 'c option) \<Rightarrow> 't list \<Rightarrow> 'c option \<Rightarrow> 'r list option" where
  "walk_over fetch [] after = None"
| "walk_over fetch (t # ts) after =
     (case fetch t after of
        (items, None) \<Rightarrow> Some items
      | (items, Some c) \<Rightarrow> map_option (\<lambda>rest. items @ rest) (walk_over fetch ts (Some c)))"

context keyset
begin

text \<open>
  Whatever happens to the tables between the requests, the keys of the rows a walk returns are
  strictly increasing, so no key is served twice.
\<close>

lemma walk_over_sorted:
  "\<forall>t \<in> set ts. ok t \<Longrightarrow> 0 < n \<Longrightarrow> walk_over (\<lambda>t. fetch t n) ts after = Some xs \<Longrightarrow>
     sorted_wrt (<) (map key xs) \<and> (\<forall>c. after = Some c \<longrightarrow> (\<forall>x \<in> set xs. c < key x))"
proof (induction ts arbitrary: after xs)
  case Nil
  then show ?case by simp
next
  case (Cons t ts)
  have ok: "ok t" and n: "0 < n" using Cons.prems by auto
  define rest where "rest = after_cursor key after (rows t)"
  have it: "fst (fetch t n after) = take n rest" using items [OF ok n] by (simp add: rest_def)
  have srt: "sorted_wrt (<) (map key (take n rest))"
    using sorted [OF ok] unfolding rest_def after_cursor_def
    by (simp add: sorted_wrt_map sorted_filter_wrt sorted_wrt_take)
  have aft: "\<forall>c. after = Some c \<longrightarrow> (\<forall>x \<in> set (take n rest). c < key x)"
    by (auto simp: rest_def after_cursor_def dest: in_set_takeD)
  show ?case
  proof (cases "snd (fetch t n after)")
    case None
    then have "xs = take n rest" using Cons.prems it by (cases "fetch t n after") simp
    then show ?thesis using srt aft by simp
  next
    case (Some c)
    then obtain ys where ys: "walk_over (\<lambda>t. fetch t n) ts (Some c) = Some ys"
      and xs: "xs = take n rest @ ys"
      using Cons.prems it by (cases "fetch t n after") auto
    have nc: "take n rest \<noteq> []" "c = key (last (take n rest))"
      using next_cursor [OF ok n Some] it by auto
    have ih: "sorted_wrt (<) (map key ys)" "\<forall>y \<in> set ys. c < key y"
      using Cons.IH [OF _ n ys] Cons.prems(1) by auto
    have le: "\<forall>x \<in> set (take n rest). key x \<le> c"
      using srt nc
      by (cases "take n rest" rule: rev_cases) (auto simp: sorted_wrt_append dest: less_imp_le)
    have "sorted_wrt (<) (map key xs)"
      unfolding xs using srt ih le by (auto simp: sorted_wrt_append sorted_wrt_map intro: le_less_trans)
    moreover have "c0 < key x" if "after = Some c0" "x \<in> set xs" for c0 x
    proof -
      have "c0 < key (last (take n rest))" using aft that(1) nc(1) by simp
      then show ?thesis using that aft ih(2) nc(2) unfolding xs by (auto intro: less_trans)
    qed
    ultimately show ?thesis by blast
  qed
qed

text \<open>
  A row that is in every table the walk sees, from the first request to the last, is served.
\<close>

lemma walk_over_complete:
  "\<forall>t \<in> set ts. ok t \<and> k \<in> key ` set (rows t) \<Longrightarrow> 0 < n \<Longrightarrow>
     walk_over (\<lambda>t. fetch t n) ts after = Some xs \<Longrightarrow> (\<forall>c. after = Some c \<longrightarrow> c < k) \<Longrightarrow>
     k \<in> key ` set xs"
proof (induction ts arbitrary: after xs)
  case Nil
  then show ?case by simp
next
  case (Cons t ts)
  have ok: "ok t" and n: "0 < n" using Cons.prems by auto
  define rest where "rest = after_cursor key after (rows t)"
  have it: "fst (fetch t n after) = take n rest" using items [OF ok n] by (simp add: rest_def)
  obtain r where r: "r \<in> set (rows t)" "k = key r" using Cons.prems(1) by auto
  have in_rest: "r \<in> set rest"
    using r Cons.prems(4) by (auto simp: rest_def after_cursor_def split: option.splits)
  show ?case
  proof (cases "snd (fetch t n after)")
    case None
    then have "drop n rest = []" using last_page [OF ok n] by (simp add: rest_def)
    moreover have "xs = take n rest" using None Cons.prems it by (cases "fetch t n after") simp
    ultimately show ?thesis using in_rest r by simp
  next
    case (Some c)
    then obtain ys where ys: "walk_over (\<lambda>t. fetch t n) ts (Some c) = Some ys"
      and xs: "xs = take n rest @ ys"
      using Cons.prems it by (cases "fetch t n after") auto
    show ?thesis
    proof (cases "r \<in> set (take n rest)")
      case True
      then show ?thesis using r xs by auto
    next
      case False
      then have "r \<in> set (drop n rest)"
        using in_rest by (metis append_take_drop_id Un_iff set_append)
      then have "r \<in> set (after_cursor key (Some c) (rows t))"
        using next_rows [OF ok n Some] by (simp add: rest_def)
      then have "\<forall>c'. Some c = Some c' \<longrightarrow> c' < k" using r by (simp add: after_cursor_def)
      from Cons.IH [OF _ n ys this] Cons.prems(1) show ?thesis unfolding xs by auto
    qed
  qed
qed

text \<open>
  The walk ends: every request but the last moves the cursor to a key of its table, so when all the
  tables take their keys from a finite set, one request more than the keys that are left is enough.
\<close>

definition left_over :: "'c set \<Rightarrow> 'c option \<Rightarrow> 'c set" where
  "left_over K after = {k \<in> K. case after of None \<Rightarrow> True | Some c \<Rightarrow> c < k}"

lemma walk_over_ends:
  "\<forall>t \<in> set ts. ok t \<and> key ` set (rows t) \<subseteq> K \<Longrightarrow> finite K \<Longrightarrow> 0 < n \<Longrightarrow> card (left_over K after) < length ts \<Longrightarrow>
     \<exists>xs. walk_over (\<lambda>t. fetch t n) ts after = Some xs"
proof (induction ts arbitrary: after)
  case Nil
  then show ?case by simp
next
  case (Cons t ts)
  have ok: "ok t" and n: "0 < n" and K: "key ` set (rows t) \<subseteq> K" using Cons.prems by auto
  show ?case
  proof (cases "snd (fetch t n after)")
    case None
    then show ?thesis by (cases "fetch t n after") simp
  next
    case (Some c)
    let ?page = "take n (after_cursor key after (rows t))"
    have nc: "?page \<noteq> []" "c = key (last ?page)" using next_cursor [OF ok n Some] items [OF ok n] by auto
    have "last ?page \<in> set (after_cursor key after (rows t))" using nc(1) by (metis in_set_takeD last_in_set)
    then have c: "c \<in> left_over K after" using K nc(2) by (auto simp: left_over_def after_cursor_def split: option.splits)
    then have "left_over K (Some c) \<subset> left_over K after"
      by (auto simp: left_over_def split: option.splits intro: less_trans)
    then have "card (left_over K (Some c)) < card (left_over K after)"
      using Cons.prems(2) by (intro psubset_card_mono) (simp_all add: left_over_def)
    then have "card (left_over K (Some c)) < length ts" using Cons.prems(4) by simp
    then obtain ys where "walk_over (\<lambda>t. fetch t n) ts (Some c) = Some ys" using Cons.IH [of "Some c"] Cons.prems by auto
    then show ?thesis using Some by (cases "fetch t n after") simp
  qed
qed

end

end
