(* ===== verification/PriceRepo.thy ===== *)
theory PriceRepo
  imports SqlTable Keyset PyConv "HOL-Library.Product_Lexorder"
begin

text \<open>
  The observation repository of 16-testing-engineering/03 (src/impl.py, class PriceRepo): an
  upsert keyed by (product_url, scraped_at), the incremental load behind a watermark, and keyset
  pages in (scraped_at, id) order.  A timestamp is its number of microseconds.
\<close>

section \<open>Rows and table\<close>

record observation =
  ob_id :: int
  ob_url :: pystr
  ob_at :: int
  ob_price :: dec
  ob_currency :: pystr

record obs_input =
  in_url :: pystr
  in_at :: int
  in_price :: dec
  in_currency :: pystr

type_synonym obs_table = "observation sql_table"

definition obs_key :: "observation \<Rightarrow> int \<times> int" where
  "obs_key r = (ob_at r, ob_id r)"

definition obs_bkey :: "observation \<Rightarrow> pystr \<times> int" where
  "obs_bkey r = (ob_url r, ob_at r)"

definition in_bkey :: "obs_input \<Rightarrow> pystr \<times> int" where
  "in_bkey x = (in_url x, in_at x)"

section \<open>Operations\<close>

definition create_schema :: "obs_table option \<Rightarrow> obs_table" where
  "create_schema t = (case t of None \<Rightarrow> empty_table | Some t' \<Rightarrow> t')"

definition insert_obs :: "int \<Rightarrow> obs_input \<Rightarrow> observation" where
  "insert_obs i x =
     \<lparr>ob_id = i, ob_url = in_url x, ob_at = in_at x, ob_price = to_numeric (in_price x),
      ob_currency = in_currency x\<rparr>"

definition update_obs :: "obs_input \<Rightarrow> observation \<Rightarrow> observation" where
  "update_obs x r = r\<lparr>ob_price := to_numeric (in_price x), ob_currency := in_currency x\<rparr>"

definition upsert_observations :: "obs_input list \<Rightarrow> obs_table \<Rightarrow> obs_table" where
  "upsert_observations rows t =
     (if rows = [] then t
      else fold (upsert_row obs_bkey in_bkey insert_obs update_obs) rows t)"

definition load_incremental :: "obs_table \<Rightarrow> int \<Rightarrow> observation list" where
  "load_incremental t since = order_by obs_key (filter (\<lambda>r. since < ob_at r) (fst t))"

definition page :: "obs_table \<Rightarrow> (int \<times> int) option \<Rightarrow> nat \<Rightarrow> observation list" where
  "page t after limit =
     (case after of
        None \<Rightarrow> take limit (order_by obs_key (fst t))
      | Some (after_at, after_id) \<Rightarrow>
          take limit (order_by obs_key (filter (\<lambda>r. (after_at, after_id) < obs_key r) (fst t))))"

text \<open>
  The documented way to walk: pass the cursor of the last row seen back in, until a page comes
  back empty.
\<close>

definition fetch_page :: "obs_table \<Rightarrow> nat \<Rightarrow> (int \<times> int) option \<Rightarrow> observation list \<times> (int \<times> int) option" where
  "fetch_page t limit after =
     (let rows = page t after limit in
      (rows, if rows = [] then None else Some (obs_key (last rows))))"

section \<open>The table as a map\<close>

interpretation obs: upsert_table ob_id obs_bkey in_bkey insert_obs update_obs
  by unfold_locales
    (auto simp: insert_obs_def update_obs_def obs_bkey_def in_bkey_def)

definition obs_ok :: "obs_table \<Rightarrow> bool" where
  "obs_ok t \<longleftrightarrow> distinct (map ob_id (fst t)) \<and> distinct (map obs_bkey (fst t))"

lemma wf_obs_ok: "obs.wf_table t \<Longrightarrow> obs_ok t"
  by (simp add: obs.wf_table_def obs_ok_def strict_sorted_distinct)

lemma upsert_obs_wf: "obs.wf_table t \<Longrightarrow> obs.wf_table (upsert_observations rows t)"
  by (simp add: upsert_observations_def obs.wf_upserts)

lemma batches_wf: "obs.wf_table t \<Longrightarrow> obs.wf_table (fold upsert_observations batches t)"
  by (induction batches arbitrary: t) (simp_all add: upsert_obs_wf)

lemma distinct_obs_key: "obs_ok t \<Longrightarrow> distinct (map obs_key (fst t))"
  by (auto simp: obs_ok_def obs_key_def distinct_map inj_on_def)

lemma order_by_ids: "distinct (map obs_key rows) \<Longrightarrow> sorted_wrt (<) (map obs_key (order_by obs_key rows))"
  by (rule order_by_strict)

section \<open>Pages\<close>

lemma page_after_cursor:
  "page t after n = take n (after_cursor obs_key after (order_by obs_key (fst t)))"
  by (cases after) (auto simp: page_def after_cursor_def order_by_filter)

interpretation obs_pages: keyset "\<lambda>t. order_by obs_key (fst t)" obs_key fetch_page obs_ok
proof unfold_locales
  fix t :: obs_table and n :: nat and after c
  assume ok: "obs_ok t"
  show "sorted_wrt (<) (map obs_key (order_by obs_key (fst t)))"
    using ok by (intro order_by_ids distinct_obs_key)
  show "fst (fetch_page t n after) = take n (after_cursor obs_key after (order_by obs_key (fst t)))"
    by (simp add: fetch_page_def Let_def page_after_cursor)
  show "0 < n \<Longrightarrow> snd (fetch_page t n after) = None \<Longrightarrow>
      drop n (after_cursor obs_key after (order_by obs_key (fst t))) = []"
    by (auto simp: fetch_page_def Let_def page_after_cursor split: if_splits)
  show "snd (fetch_page t n after) = Some c \<Longrightarrow>
      fst (fetch_page t n after) \<noteq> [] \<and> c = obs_key (last (fst (fetch_page t n after)))"
    by (auto simp: fetch_page_def Let_def split: if_splits)
qed

section \<open>Incremental loads\<close>

lemma sorted_partition:
  "sorted_wrt (<) (map key xs) \<Longrightarrow> (\<And>x y. P y \<Longrightarrow> \<not> P x \<Longrightarrow> key x < key y) \<Longrightarrow>
     xs = filter (\<lambda>x. \<not> P x) xs @ filter P (xs :: 'r list)" for key :: "'r \<Rightarrow> 'c::linorder"
proof (induction xs)
  case Nil
  then show ?case by simp
next
  case (Cons x xs)
  show ?case
  proof (cases "P x")
    case True
    then have "\<forall>y \<in> set xs. P y"
      using Cons.prems by (auto dest: less_asym)
    then have "filter P xs = xs" "filter (\<lambda>x. \<not> P x) xs = []"
      by (simp_all add: filter_id_conv filter_empty_conv)
    then show ?thesis using True by simp
  next
    case False
    then show ?thesis using Cons by simp
  qed
qed

lemma load_incremental_split:
  assumes "obs_ok t" "w \<le> w'"
  shows "load_incremental t w = filter (\<lambda>r. ob_at r \<le> w') (load_incremental t w) @ load_incremental t w'"
proof -
  let ?xs = "load_incremental t w"
  have "distinct (map obs_key (filter (\<lambda>r. w < ob_at r) (fst t)))"
    using distinct_obs_key [OF assms(1)] by (simp add: distinct_map inj_on_def)
  then have "sorted_wrt (<) (map obs_key ?xs)"
    unfolding load_incremental_def by (rule order_by_ids)
  then have "?xs = filter (\<lambda>x. \<not> w' < ob_at x) ?xs @ filter (\<lambda>r. w' < ob_at r) ?xs"
    by (rule sorted_partition) (auto simp: obs_key_def)
  moreover have "filter (\<lambda>r. w' < ob_at r) ?xs = load_incremental t w'"
    unfolding load_incremental_def order_by_filter filter_filter
    using assms(2) by (intro arg_cong [of _ _ "order_by obs_key"] filter_cong) auto
  ultimately show ?thesis by (simp add: not_less)
qed

section \<open>Properties\<close>

text \<open>
  Whatever batches were upserted into a fresh table, a caller that walks the pages by passing
  the last row's cursor back in sees every row of the table exactly once, in (scraped_at, id)
  order, for every page size, and the walk ends.
\<close>

theorem obs_page_walk:
  assumes "0 < n"
  shows "let t = fold upsert_observations batches (create_schema None) in
    walk (Suc (length (fst t))) (fetch_page t n) None = Some (order_by obs_key (fst t)) \<and>
    distinct (map ob_id (order_by obs_key (fst t)))"
proof -
  let ?t = "fold upsert_observations batches (create_schema None)"
  have "obs.wf_table ?t"
    by (rule batches_wf) (simp add: create_schema_def obs.wf_empty)
  then have ok: "obs_ok ?t" by (rule wf_obs_ok)
  have len: "length (order_by obs_key (fst ?t)) < Suc (length (fst ?t))" by (simp add: order_by_def)
  have "distinct (map ob_id (order_by obs_key (fst ?t)))"
    using ok by (simp add: obs_ok_def order_by_def distinct_map)
  then show ?thesis using obs_pages.walk_all [OF ok assms len] by (simp add: Let_def)
qed

theorem obs_page_walk_witness:
  "let batches = [[\<lparr>in_url = u ''/b'', in_at = 7, in_price = Dec False 5 0, in_currency = u ''EUR''\<rparr>,
                   \<lparr>in_url = u ''/a'', in_at = 7, in_price = Dec False 9 0, in_currency = u ''EUR''\<rparr>],
                  [\<lparr>in_url = u ''/b'', in_at = 3, in_price = Dec False 4 0, in_currency = u ''EUR''\<rparr>]];
       t = fold upsert_observations batches (create_schema None)
   in map ob_id (the (walk (Suc (length (fst t))) (fetch_page t 1) None)) = [3, 1, 2]"
  using obs_page_walk [of 1
      "[[\<lparr>in_url = u ''/b'', in_at = 7, in_price = Dec False 5 0, in_currency = u ''EUR''\<rparr>,
        \<lparr>in_url = u ''/a'', in_at = 7, in_price = Dec False 9 0, in_currency = u ''EUR''\<rparr>],
       [\<lparr>in_url = u ''/b'', in_at = 3, in_price = Dec False 4 0, in_currency = u ''EUR''\<rparr>]]"]
  by (simp add: Let_def upsert_observations_def upsert_row_def create_schema_def empty_table_def
      obs_bkey_def in_bkey_def insert_obs_def order_by_def obs_key_def)

text \<open>
  The upsert is idempotent and last-write-wins: replaying a batch leaves every row as it was,
  and after a batch a (product_url, scraped_at) pair holds the price and currency of the last
  input row for it, under the id it had before, if it had one.
\<close>

theorem obs_upsert_idempotent:
  "fst (upsert_observations rows (upsert_observations rows t)) = fst (upsert_observations rows t) \<and>
   (case find (\<lambda>x. in_bkey x = k) (rev rows) of
      None \<Rightarrow> obs.row_for k (upsert_observations rows t) = obs.row_for k t
    | Some x \<Rightarrow> \<exists>i. obs.row_for k (upsert_observations rows t) =
        Some (case obs.row_for k t of None \<Rightarrow> insert_obs i x | Some r \<Rightarrow> update_obs x r))"
  unfolding upsert_observations_def
  using obs.replay_rows [of rows t] obs.row_for_untouched [of rows k t]
    obs.row_for_upserts [of rows k _ t]
  by (auto simp: obs.last_write_def split: option.split)

text \<open>
  C38. The watermark loses and repeats nothing: loading since \<open>w\<close> gives the rows up to any later
  watermark \<open>w'\<close>, then exactly what loading since \<open>w'\<close> gives; and no row at or before the
  watermark is ever returned.
\<close>

theorem obs_incremental_watermark:
  assumes "obs_ok t" "w \<le> w'"
  shows "load_incremental t w = filter (\<lambda>r. ob_at r \<le> w') (load_incremental t w) @ load_incremental t w' \<and>
    (\<forall>r. r \<in> set (load_incremental t w) \<longleftrightarrow> r \<in> set (fst t) \<and> w < ob_at r)"
  using load_incremental_split [OF assms] by (auto simp: load_incremental_def)

theorem obs_incremental_watermark_witness:
  "let r = (\<lambda>i t. \<lparr>ob_id = i, ob_url = u ''/a'', ob_at = t, ob_price = Dec False 1 0, ob_currency = u ''EUR''\<rparr>);
       t = ([r 1 30, r 2 10, r 3 20], 4)
   in obs_ok t \<and> map ob_id (load_incremental t 10) = [3, 1] \<and> map ob_id (load_incremental t 20) = [1] \<and>
      load_incremental t 10 = filter (\<lambda>r. ob_at r \<le> 20) (load_incremental t 10) @ load_incremental t 20"
  using obs_incremental_watermark [of
      "([\<lparr>ob_id = 1, ob_url = u ''/a'', ob_at = 30, ob_price = Dec False 1 0, ob_currency = u ''EUR''\<rparr>,
         \<lparr>ob_id = 2, ob_url = u ''/a'', ob_at = 10, ob_price = Dec False 1 0, ob_currency = u ''EUR''\<rparr>,
         \<lparr>ob_id = 3, ob_url = u ''/a'', ob_at = 20, ob_price = Dec False 1 0, ob_currency = u ''EUR''\<rparr>], 4)" 10 20]
  by (simp add: Let_def obs_ok_def obs_bkey_def load_incremental_def order_by_def obs_key_def)

end
