(* ===== verification/ContractApi.thy ===== *)
theory ContractApi
  imports Keyset PyConv
begin

text \<open>
  The catalog service of 16-testing-engineering/05 (src/impl.py): a fixed catalog, cursor
  pagination with the cursor as the string form of the last id, and its error responses.  FastAPI
  hands the endpoint a \<open>limit\<close> that is already an integer, and answers 422 when the declared
  bounds \<open>ge=1, le=100\<close> fail.
\<close>

section \<open>Data\<close>

record product =
  p_id :: int
  p_name :: pystr
  p_price :: pystr
  p_currency :: pystr

definition catalog_names :: "pystr list" where
  "catalog_names =
     [u ''Aluminum Water Bottle'', u ''Canvas Tote Bag'', u ''Ceramic Coffee Mug'', u ''Wireless Mouse'',
      u ''Mechanical Keyboard'', u ''Desk Lamp'', u ''Notebook, Ruled'', u ''Fountain Pen'',
      u ''Wool Beanie'', u ''Leather Wallet'', u ''Bluetooth Speaker'', u ''Travel Pillow'',
      u ''Stainless Steel Thermos'', u ''Bamboo Cutting Board'', u ''Cast Iron Skillet'',
      u ''Yoga Mat'', u ''Resistance Bands'', u ''Running Socks (3-pack)'', u ''Rain Jacket'',
      u ''Hiking Backpack'', u ''Solar Power Bank'', u ''USB-C Cable, 2m'', u ''Phone Tripod'']"

definition product_at :: "nat \<Rightarrow> pystr \<Rightarrow> product" where
  "product_at i name =
     \<lparr>p_id = int i + 1, p_name = name,
      p_price = format_2f (fl (fl (999 / 100) + fl (of_nat i * (5 / 2)))), p_currency = u ''USD''\<rparr>"

definition products :: "product list" where
  "products = map (\<lambda>(i, name). product_at i name) (List.enumerate 0 catalog_names)"

definition products_by_id :: "int \<Rightarrow> product option" where
  "products_by_id i = map_of (map (\<lambda>p. (p_id p, p)) products) i"

datatype body =
    PageBody "product list" "pystr option"
  | ProductBody product
  | ErrorBody (code: pystr) (message: pystr)
  | DetailBody pystr
  | ValidationBody

record response =
  status :: nat
  body :: body
  cache_control :: "pystr option"

definition default_limit :: int where "default_limit = 10"
definition max_limit :: int where "max_limit = 100"

section \<open>Endpoints\<close>

definition list_products :: "pystr option \<Rightarrow> int option \<Rightarrow> response" where
  "list_products cursor limit_arg =
     (let limit = (case limit_arg of None \<Rightarrow> default_limit | Some l \<Rightarrow> l) in
      if limit < 1 \<or> max_limit < limit
      then \<lparr>status = 422, body = ValidationBody, cache_control = None\<rparr>
      else
        case (case cursor of None \<Rightarrow> Some 0 | Some c \<Rightarrow> int_of_str c) of
          None \<Rightarrow> \<lparr>status = 400, body = DetailBody (u ''invalid cursor''), cache_control = None\<rparr>
        | Some after_id \<Rightarrow>
            let remaining = filter (\<lambda>p. after_id < p_id p) products;
                page = take (nat limit) remaining;
                has_more = length page < length remaining;
                next_cursor = (if page \<noteq> [] \<and> has_more then Some (int_str (p_id (last page))) else None)
            in \<lparr>status = 200, body = PageBody page next_cursor,
                cache_control = Some (u ''public, max-age=30'')\<rparr>)"

definition not_found_handler :: "pystr \<Rightarrow> response" where
  "not_found_handler msg =
     \<lparr>status = 404, body = ErrorBody (u ''not_found'') msg, cache_control = None\<rparr>"

definition get_product :: "int \<Rightarrow> response" where
  "get_product product_id =
     (case products_by_id product_id of
        None \<Rightarrow> not_found_handler (u ''product '' @ int_str product_id @ u '' not found'')
      | Some p \<Rightarrow> \<lparr>status = 200, body = ProductBody p, cache_control = None\<rparr>)"

text \<open>What a consumer reads off a page.\<close>

definition read_page :: "response \<Rightarrow> product list \<times> pystr option" where
  "read_page r = (case body r of PageBody items next_cursor \<Rightarrow> (items, next_cursor) | _ \<Rightarrow> ([], None))"

section \<open>Lemmas\<close>

lemma length_products: "length products = 23"
  by (simp add: products_def catalog_names_def)

lemma map_id_enumerate: "map p_id (map (\<lambda>(i, name). product_at i name) (List.enumerate n xs)) = map (\<lambda>i. int i + 1) [n..<n + length xs]"
proof (induction xs arbitrary: n)
  case Nil
  then show ?case by simp
next
  case (Cons x xs)
  have "[n..<n + length (x # xs)] = n # [Suc n..<Suc n + length xs]" using upt_conv_Cons [of n "n + length (x # xs)"] by simp
  then show ?case using Cons.IH [of "Suc n"]
    by (simp only: enumerate_simps list.map prod.case product_at_def product.select_convs)
qed

lemma product_ids: "map p_id products = map (\<lambda>i. int i + 1) [0..<23]"
proof -
  have "length catalog_names = 23" by (simp add: catalog_names_def)
  then show ?thesis unfolding products_def map_id_enumerate by simp
qed

lemma product_id_range: "i \<in> p_id ` set products \<longleftrightarrow> 1 \<le> i \<and> i \<le> 23"
proof -
  have "p_id ` set products = (\<lambda>i. int i + 1) ` {0..<23}"
    using arg_cong [OF product_ids, of set] by simp
  also have "\<dots> = {1..23}"
  proof (rule set_eqI, rule iffI)
    fix x :: int
    assume "x \<in> {1..23}"
    then have "x = int (nat (x - 1)) + 1" "nat (x - 1) \<in> {0..<23}" by auto
    then show "x \<in> (\<lambda>i. int i + 1) ` {0..<23}" by blast
  qed auto
  finally show ?thesis by simp
qed

lemma product_ids_sorted: "sorted_wrt (<) (map p_id products)"
  unfolding product_ids by (simp add: sorted_wrt_map sorted_wrt_iff_nth_less)

text \<open>Two fraction digits, whatever the float.\<close>

lemma format_2f_shape:
  "\<exists>whole d1 d2. format_2f x = whole @ [46, 48 + d1, 48 + d2] \<and> whole \<noteq> [] \<and>
     (\<forall>c \<in> set whole. 48 \<le> c \<and> c < 58) \<and> d1 < 10 \<and> d2 < 10"
proof -
  define n where "n = nat (round_half_even (x * 100))"
  have "format_2f x = nat_str (n div 100) @ [46, 48 + n mod 100 div 10, 48 + n mod 10]"
    by (simp add: format_2f_def n_def Let_def chars_of_digits_def)
  moreover have "n mod 100 div 10 < 10" "n mod 10 < 10" by (simp_all add: less_mult_imp_div_less)
  moreover have "\<forall>c \<in> set (nat_str (n div 100)). 48 \<le> c \<and> c < 58" using nat_str_chars by blast
  ultimately show ?thesis by (meson nat_str_nonempty)
qed

lemma id_digits: "1 \<le> i \<Longrightarrow> i \<le> 23 \<Longrightarrow> length (digits_of (nat \<bar>i\<bar>)) \<le> 4300"
  using digits_of_length [of "nat i" 2] by force

section \<open>Pagination\<close>

text \<open>The page endpoint over integer cursors, and the same over the string cursors it exposes.\<close>

definition fetch_ids :: "unit \<Rightarrow> nat \<Rightarrow> int option \<Rightarrow> product list \<times> int option" where
  "fetch_ids _ n after =
     (let rest = after_cursor p_id after products in
      (take n rest, if take n rest \<noteq> [] \<and> n < length rest then Some (p_id (last (take n rest))) else None))"

interpretation contract: keyset "\<lambda>_ :: unit. products" p_id fetch_ids "\<lambda>_. True"
  by unfold_locales (auto simp: fetch_ids_def Let_def product_ids_sorted split: if_splits)

definition encodes :: "int option \<Rightarrow> pystr option \<Rightarrow> bool" where
  "encodes after cursor \<longleftrightarrow> cursor = map_option int_str after \<and> (\<forall>i. after = Some i \<longrightarrow> 1 \<le> i \<and> i \<le> 23)"

lemma after_zero: "filter (\<lambda>p. 0 < p_id p) products = products"
proof -
  have "0 < p_id p" if "p \<in> set products" for p
    using product_id_range [of "p_id p"] that by auto
  then show ?thesis by (simp add: filter_id_conv)
qed

lemma fetch_ids_next:
  assumes "snd (fetch_ids t n after) = Some c"
  shows "1 \<le> c \<and> c \<le> 23"
proof -
  let ?rest = "after_cursor p_id after products"
  have "take n ?rest \<noteq> []" "c = p_id (last (take n ?rest))"
    using assms by (auto simp: fetch_ids_def Let_def split: if_splits)
  then have "c \<in> p_id ` set products"
    using in_set_takeD [OF last_in_set] by (fastforce simp: after_cursor_def)
  then show ?thesis by (simp add: product_id_range)
qed

lemma list_products_fetch:
  assumes "encodes after cursor" "1 \<le> limit" "limit \<le> 100"
  shows "list_products cursor (Some limit) =
      \<lparr>status = 200,
       body = PageBody (fst (fetch_ids () (nat limit) after)) (map_option int_str (snd (fetch_ids () (nat limit) after))),
       cache_control = Some (u ''public, max-age=30'')\<rparr>"
proof -
  have dec: "(case cursor of None \<Rightarrow> Some 0 | Some c \<Rightarrow> int_of_str c) =
      Some (case after of None \<Rightarrow> 0 | Some i \<Rightarrow> i)"
    using assms(1) int_of_int_str id_digits by (cases after) (auto simp: encodes_def)
  have flt: "filter (\<lambda>p. (case after of None \<Rightarrow> 0 | Some i \<Rightarrow> i) < p_id p) products =
      after_cursor p_id after products"
    by (cases after) (simp_all add: after_zero after_cursor_Some)
  have b: "\<not> (limit < 1 \<or> max_limit < limit)" using assms(2,3) by (simp add: max_limit_def)
  show ?thesis
    unfolding list_products_def option.case(2) Let_def if_not_P [OF b] dec flt fetch_ids_def
    by auto
qed

lemma walk_strings:
  assumes "1 \<le> limit" "limit \<le> 100"
  shows "encodes after cursor \<Longrightarrow>
    walk k (\<lambda>c. read_page (list_products c (Some limit))) cursor = walk k (fetch_ids () (nat limit)) after"
proof (induction k arbitrary: after cursor)
  case 0
  then show ?case by simp
next
  case (Suc k)
  note lp = list_products_fetch [OF Suc.prems assms]
  show ?case
  proof (cases "snd (fetch_ids () (nat limit) after)")
    case None
    then show ?thesis using lp by (cases "fetch_ids () (nat limit) after") (simp add: read_page_def)
  next
    case (Some c)
    then have "encodes (Some c) (Some (int_str c))"
      using fetch_ids_next by (simp add: encodes_def)
    from Suc.IH [OF this] show ?thesis
      using lp Some by (cases "fetch_ids () (nat limit) after") (simp add: read_page_def)
  qed
qed

section \<open>Properties\<close>

text \<open>
  Walking cursor to next_cursor from the first page, for every accepted limit, visits every
  product exactly once in id order and stops after a finite number of pages; every price on the
  way is a decimal string with exactly two fraction digits.
\<close>

theorem contract_walk_complete:
  assumes "1 \<le> limit" "limit \<le> 100"
  shows "walk 24 (\<lambda>c. read_page (list_products c (Some limit))) None = Some products \<and>
    map p_id products = map (\<lambda>i. int i + 1) [0..<23] \<and>
    (\<forall>p \<in> set products. \<exists>whole d1 d2. p_price p = whole @ [46, 48 + d1, 48 + d2] \<and> d1 < 10 \<and> d2 < 10)"
proof -
  have "encodes None None" by (simp add: encodes_def)
  from walk_strings [OF assms this]
  have "walk 24 (\<lambda>c. read_page (list_products c (Some limit))) None = Some products"
    using contract.walk_all [where t = "()" and n = "nat limit" and k = 24] assms by (simp add: length_products)
  moreover have "\<exists>whole d1 d2. p_price p = whole @ [46, 48 + d1, 48 + d2] \<and> d1 < 10 \<and> d2 < 10"
    if "p \<in> set products" for p
  proof -
    have "\<exists>i name. p = product_at i name"
      using that unfolding products_def set_map by (auto simp del: enumerate_simps)
    then obtain i name where "p = product_at i name" by blast
    then show ?thesis using format_2f_shape by (metis product_at_def product.select_convs(3))
  qed
  ultimately show ?thesis using product_ids by blast
qed

theorem contract_walk_complete_witness:
  "walk 24 (\<lambda>c. read_page (list_products c (Some 7))) None = Some products \<and> length products = 23"
  using contract_walk_complete [of 7] length_products by simp

text \<open>
  The error responses, on every branch: an unknown product id is the documented 404 envelope;
  but an unreadable cursor is answered with a bare \<open>detail\<close> body, and a limit outside 1..100 is
  rejected with 422, not clamped, so the envelope is not the only error shape of the service.
\<close>

theorem contract_error_shapes:
  "(body (get_product i) = ErrorBody (u ''not_found'') (u ''product '' @ int_str i @ u '' not found'') \<and>
      status (get_product i) = 404 \<longleftrightarrow> i < 1 \<or> 23 < i) \<and>
   (1 \<le> limit \<and> limit \<le> 100 \<and> int_of_str c = None \<longrightarrow>
      list_products (Some c) (Some limit) =
        \<lparr>status = 400, body = DetailBody (u ''invalid cursor''), cache_control = None\<rparr>) \<and>
   (limit < 1 \<or> 100 < limit \<longrightarrow> status (list_products cursor (Some limit)) = 422)"
proof -
  have "products_by_id i = None \<longleftrightarrow> i < 1 \<or> 23 < i"
    using product_id_range [of i] unfolding products_by_id_def map_of_eq_None_iff
    by (auto simp: image_image)
  then have "body (get_product i) = ErrorBody (u ''not_found'') (u ''product '' @ int_str i @ u '' not found'') \<and>
      status (get_product i) = 404 \<longleftrightarrow> i < 1 \<or> 23 < i"
    by (auto simp: get_product_def not_found_handler_def split: option.splits)
  then show ?thesis by (auto simp: list_products_def max_limit_def Let_def)
qed

theorem contract_error_shapes_witness:
  "list_products (Some (u ''abc'')) (Some 10) =
     \<lparr>status = 400, body = DetailBody (u ''invalid cursor''), cache_control = None\<rparr> \<and>
   status (list_products None (Some 101)) = 422 \<and> status (get_product 24) = 404"
proof -
  have "strip_by int_space (u ''abc'') = u ''abc''"
    by (rule strip_by_id) (simp add: int_space_def is_space_def py_spaces_def)
  then have "int_of_str (u ''abc'') = None"
    by (simp add: int_of_str_def int_digits_def is_digit_def digit_value_def nd_zeros_def)
  then show ?thesis
    using contract_error_shapes [of 24 10 "u ''abc''" None] contract_error_shapes [of 24 101 "u ''abc''" None]
    by simp
qed

end
