(* ===== verification/CatalogRecord.thy ===== *)
theory CatalogRecord
  imports PyConv
begin

text \<open>
  The parser layer of 16-testing-engineering/07 (src/impl.py): \<open>parse_price\<close> and
  \<open>normalize_record\<close>.  A raw record is a dict of Python values.
\<close>

section \<open>Raw values\<close>

datatype py_value = VNone | VBool bool | VInt int | VStr pystr

text \<open>\<open>str(v)\<close> and \<open>bool(v)\<close>.\<close>

fun py_str :: "py_value \<Rightarrow> pystr" where
  "py_str VNone = u ''None''"
| "py_str (VBool b) = (if b then u ''True'' else u ''False'')"
| "py_str (VInt i) = int_str i"
| "py_str (VStr s) = s"

fun truthy :: "py_value \<Rightarrow> bool" where
  "truthy VNone = False"
| "truthy (VBool b) = b"
| "truthy (VInt i) = (i \<noteq> 0)"
| "truthy (VStr s) = (s \<noteq> [])"

type_synonym raw_record = "(pystr \<times> py_value) list"

section \<open>Prices\<close>

datatype catalog_price = CatalogPrice (cp_amount: dec) (cp_currency: pystr)

definition currency_symbols :: "(nat \<times> pystr) list" where
  "currency_symbols = [(36, u ''USD''), (8364, u ''EUR''), (163, u ''GBP'')]"

text \<open>
  The groups of \<open>^(-)?\s*([$\<^bold>s])?\s*([\d.,]+)\s*$\<close> on text without surrounding white space: the
  sign, the symbol and the number, which is all that is left.
\<close>

definition match_price :: "pystr \<Rightarrow> (bool \<times> nat option \<times> pystr) option" where
  "match_price text =
     (let sign = startswith text [45];
          s1 = lstrip_by is_space (if sign then tl text else text);
          symbol = (if s1 \<noteq> [] \<and> hd s1 \<in> fst ` set currency_symbols then Some (hd s1) else None);
          number = lstrip_by is_space (if symbol = None then s1 else tl s1)
      in if number \<noteq> [] \<and> list_all (\<lambda>c. is_digit c \<or> c = 46 \<or> c = 44) number
         then Some (sign, symbol, number) else None)"

definition parse_price :: "py_value \<Rightarrow> catalog_price result" where
  "parse_price raw =
     (case raw of
        VNone \<Rightarrow> Inl ValueError
      | VStr r \<Rightarrow>
          (case match_price (strip_by is_space r) of
             None \<Rightarrow> Inl ValueError
           | Some (sign, symbol, number) \<Rightarrow>
               (let cleaned = filter (\<lambda>c. c \<noteq> 44) number in
                if 1 < count_list cleaned 46 \<or> cleaned = [] \<or> cleaned = [46] then Inl ValueError
                else case decimal_parse cleaned of
                    None \<Rightarrow> Inl ValueError
                  | Some amount \<Rightarrow>
                      Inr (CatalogPrice (if sign then dec_minus amount else amount)
                        (case symbol of
                           None \<Rightarrow> u ''USD''
                         | Some s \<Rightarrow> (case map_of currency_symbols s of None \<Rightarrow> u ''USD'' | Some c \<Rightarrow> c)))))
      | _ \<Rightarrow> Inl AttributeError)"

section \<open>Records\<close>

record canonical =
  c_sku :: pystr
  c_title :: pystr
  c_price_amount :: pystr
  c_currency :: pystr
  c_url :: pystr
  c_in_stock :: bool

definition required_keys :: "pystr list" where
  "required_keys = [u ''id'', u ''title'', u ''price'', u ''url'']"

definition normalize_record :: "raw_record \<Rightarrow> (py_error \<times> pystr) + canonical" where
  "normalize_record raw =
     (case find (\<lambda>k. map_of raw k = None) required_keys of
        Some k \<Rightarrow> Inl (KeyError, k)
      | None \<Rightarrow>
          (let fld = (\<lambda>k. the (map_of raw k)) in
           case parse_price (fld (u ''price'')) of
             Inl e \<Rightarrow> Inl (e, [])
           | Inr price \<Rightarrow>
               Inr \<lparr>c_sku = py_str (fld (u ''id'')),
                    c_title = join [32] (split_ws (py_str (fld (u ''title'')))),
                    c_price_amount = dec_str (cp_amount price),
                    c_currency = cp_currency price,
                    c_url = strip_by is_space (py_str (fld (u ''url''))),
                    c_in_stock = (case map_of raw (u ''in_stock'') of None \<Rightarrow> True | Some v \<Rightarrow> truthy v)\<rparr>))"

section \<open>Lemmas\<close>

lemma space_blank: "is_space 32"
  by (simp add: is_space_def py_spaces_def)

text \<open>Collapsing white space twice changes nothing more.\<close>

lemma collapse_idem: "join [32] (split_ws (join [32] (split_ws s))) = join [32] (split_ws s)"
  using split_ws_join [of "split_ws s" 32] split_ws_words space_blank by simp

lemma takeWhile_until: "x \<notin> set a \<Longrightarrow> takeWhile (\<lambda>c. c \<noteq> x) (a @ x # b) = a"
  by (induction a) auto

lemma number_parses:
  assumes "list_all (\<lambda>c. is_digit c \<or> c = 46) s" "count_list s 46 \<le> 1" "s \<noteq> []" "s \<noteq> [46]"
  shows "decimal_parse s \<noteq> None"
proof -
  have pt: "\<not> is_digit 46" "\<not> is_digit 69" "\<not> is_digit 101" "\<not> is_digit 95" "\<not> is_digit 45" "\<not> is_digit 43"
    by (simp_all add: is_digit_def digit_value_def nd_zeros_def)
  have ch: "is_digit c \<or> c = 46" if "c \<in> set s" for c using assms(1) that by (simp add: list_all_iff)
  have spd: "\<not> is_space c" if "is_digit c \<or> c = 46" for c
  proof -
    have "list_all (\<lambda>c. \<not> (is_digit c \<or> c = 46)) py_spaces"
      by (simp add: py_spaces_def is_digit_def digit_value_def nd_zeros_def)
    then show ?thesis using that by (auto simp: is_space_def list_all_iff)
  qed
  have st: "strip_by is_space s = s" using ch spd assms(3) by (intro strip_by_id) auto
  have "95 \<notin> set s" "69 \<notin> set s" "101 \<notin> set s" using ch pt by force+
  then have fl: "filter (\<lambda>c. c \<noteq> 95) s = s" by (auto simp: filter_id_conv)
  have sg: "take_sign_of s = (False, s)"
    using ch [of "hd s"] pt assms(3) by (cases s) (auto simp: take_sign_of_def)
  have tw: "takeWhile (\<lambda>c. c \<noteq> 69 \<and> c \<noteq> 101) s = s"
    using \<open>69 \<notin> set s\<close> \<open>101 \<notin> set s\<close> by (auto simp: takeWhile_eq_all_conv)
  have "digits_value (takeWhile (\<lambda>c. c \<noteq> 46) s @ drop (Suc (length (takeWhile (\<lambda>c. c \<noteq> 46) s))) s) \<noteq> None"
  proof (cases "46 \<in> set s")
    case True
    then obtain a b where s: "s = a @ 46 # b" "46 \<notin> set a" by (meson split_list_first)
    then have b: "46 \<notin> set b" using assms(2) by (auto simp: count_list_0_iff [symmetric] count_list_append)
    have tw: "takeWhile (\<lambda>c. c \<noteq> 46) s = a" using s takeWhile_until by simp
    have "a @ b \<noteq> []" using assms(4) s by auto
    moreover have "list_all is_digit (a @ b)" using ch s b by (fastforce simp: list_all_iff)
    ultimately show ?thesis unfolding tw using s by (simp add: digits_value_def)
  next
    case False
    then have tw: "takeWhile (\<lambda>c. c \<noteq> 46) s = s" by (auto simp: takeWhile_eq_all_conv)
    have "list_all is_digit s" using ch False by (auto simp: list_all_iff)
    then show ?thesis using assms(3) unfolding tw by (simp add: digits_value_def)
  qed
  then show ?thesis
    unfolding decimal_parse_def st fl sg prod.case Let_def tw by (auto simp: exponent_of_def)
qed

lemma only_points:
  "list_all (\<lambda>c. is_digit c \<or> c = 46) s \<Longrightarrow> \<not> list_ex is_digit s \<Longrightarrow> count_list s 46 \<le> 1 \<Longrightarrow> s = [] \<or> s = [46]"
proof (induction s)
  case Nil
  then show ?case by simp
next
  case (Cons c s)
  then have c: "c = 46" and n: "count_list s 46 = 0" by auto
  then have "46 \<notin> set s" by (simp add: count_list_0_iff)
  then have "s = []" using Cons.prems by (cases s) (auto simp: list_ex_iff list_all_iff)
  then show ?case using c by simp
qed

section \<open>Properties\<close>

text \<open>
  C35. The record normaliser on every branch: a missing required key is a KeyError naming the first
  missing one in the documented order; otherwise the outcome is the price parser's error, or a
  record whose price text reads back to exactly the parsed amount, whose title is free of runs
  of white space (normalising it again changes nothing), and whose \<open>in_stock\<close> defaults to true.
\<close>

theorem normalize_record_branches:
  "case normalize_record raw of
     Inl (e, k) \<Rightarrow>
       (e = KeyError \<and> find (\<lambda>k. map_of raw k = None) required_keys = Some k) \<or>
       ((\<forall>k \<in> set required_keys. map_of raw k \<noteq> None) \<and>
          parse_price (the (map_of raw (u ''price''))) = Inl e)
   | Inr c \<Rightarrow>
       (\<exists>p. parse_price (the (map_of raw (u ''price''))) = Inr p \<and>
          decimal_parse (c_price_amount c) = Some (cp_amount p) \<and> c_currency c = cp_currency p) \<and>
       join [32] (split_ws (c_title c)) = c_title c \<and>
       (map_of raw (u ''in_stock'') = None \<longrightarrow> c_in_stock c)"
proof (cases "find (\<lambda>k. map_of raw k = None) required_keys")
  case (Some k)
  then show ?thesis by (simp add: normalize_record_def)
next
  case None
  then have all: "\<forall>k \<in> set required_keys. map_of raw k \<noteq> None" by (auto simp: find_None_iff)
  show ?thesis
  proof (cases "parse_price (the (map_of raw (u ''price'')))")
    case (Inl e)
    then show ?thesis using None all by (simp add: normalize_record_def Let_def)
  next
    case (Inr p)
    then show ?thesis
      using None by (simp add: normalize_record_def Let_def decimal_parse_str collapse_idem del: map_map)
  qed
qed

theorem normalize_record_branches_witness:
  "map_of [(u ''in_stock'', VInt 0)] (u ''id'') = None \<and>
   normalize_record [(u ''id'', VInt 7), (u ''price'', VNone)] = Inl (KeyError, u ''title'')"
  using normalize_record_branches [of "[(u ''id'', VInt 7), (u ''price'', VNone)]"]
  by (simp add: normalize_record_def required_keys_def)

text \<open>
  The catalog's price parser accepts exactly its grammar: a string is rejected, with ValueError
  and nothing else, when it does not match the pattern, has more than one decimal point or no
  digit; every other string gives a price.  In particular the \<open>InvalidOperation\<close> handler is
  never reached.
\<close>

theorem catalog_price_grammar:
  "let bad = (case match_price (strip_by is_space r) of
       None \<Rightarrow> True
     | Some (sign, symbol, number) \<Rightarrow>
         1 < count_list (filter (\<lambda>c. c \<noteq> 44) number) 46 \<or> \<not> list_ex is_digit number)
   in if bad then parse_price (VStr r) = Inl ValueError else (\<exists>p. parse_price (VStr r) = Inr p)"
proof (cases "match_price (strip_by is_space r)")
  case None
  then show ?thesis by (simp add: parse_price_def)
next
  case (Some m)
  obtain sign symbol number where m: "m = (sign, symbol, number)" by (cases m)
  let ?c = "filter (\<lambda>c. c \<noteq> 44) number"
  have num: "list_all (\<lambda>c. is_digit c \<or> c = 46 \<or> c = 44) number"
    using Some m by (auto simp: match_price_def Let_def split: if_splits)
  then have cl: "list_all (\<lambda>c. is_digit c \<or> c = 46) ?c" by (auto simp: list_all_iff)
  have d44: "\<not> is_digit 44" "\<not> is_digit 46" by (simp_all add: is_digit_def digit_value_def nd_zeros_def)
  have no_digit: "list_ex is_digit number \<longleftrightarrow> list_ex is_digit ?c" using d44 by (auto simp: list_ex_iff)
  have "list_ex is_digit xs \<Longrightarrow> xs \<noteq> [] \<and> xs \<noteq> [46]" for xs using d44 by auto
  then have "list_ex is_digit ?c \<Longrightarrow> ?c \<noteq> [] \<and> ?c \<noteq> [46]" by blast
  moreover have "\<not> list_ex is_digit ?c \<Longrightarrow> count_list ?c 46 \<le> 1 \<Longrightarrow> ?c = [] \<or> ?c = [46]"
    using only_points [OF cl] by simp
  ultimately show ?thesis
    using Some m number_parses [OF cl] no_digit
    by (auto simp: parse_price_def Let_def not_less split: option.splits)
qed

theorem catalog_price_grammar_witness:
  "(\<exists>p. parse_price (VStr (u ''$5.1'')) = Inr p) \<and> parse_price (VStr (u ''$,.'')) = Inl ValueError"
proof -
  note d = is_digit_def digit_value_def nd_zeros_def
  have st: "strip_by is_space (u ''$5.1'') = u ''$5.1''" "strip_by is_space (u ''$,.'') = u ''$,.''"
    by (rule strip_by_id, simp add: is_space_def py_spaces_def)+
  have m: "match_price (u ''$5.1'') = Some (False, Some 36, u ''5.1'')"
    "match_price (u ''$,.'') = Some (False, Some 36, u '',.'')"
    by (simp_all add: match_price_def currency_symbols_def lstrip_by_def is_space_def py_spaces_def d)
  show ?thesis
    using catalog_price_grammar [of "u ''$5.1''"] catalog_price_grammar [of "u ''$,.''"]
    unfolding st m by (simp add: Let_def d)
qed

end
