(* ===== verification/RedisClient.thy ===== *)
theory RedisClient
  imports PyConv
begin

text \<open>
  The Redis client is not part of the repository: it is a record of the commands the code sends,
  a parameter of the components that use it.  The locale \<open>redis\<close> states the documented behaviour
  of those commands over an abstract view of the key space, at times in milliseconds.  An
  in-memory client shows that the contract can be met.
\<close>

record 'r redis_client =
  rc_get :: "pystr \<Rightarrow> int \<Rightarrow> 'r \<Rightarrow> pystr option"
  rc_set_ex :: "pystr \<Rightarrow> pystr \<Rightarrow> int \<Rightarrow> int \<Rightarrow> 'r \<Rightarrow> 'r"
  rc_set_nx_ex :: "pystr \<Rightarrow> pystr \<Rightarrow> int \<Rightarrow> int \<Rightarrow> 'r \<Rightarrow> bool \<times> 'r"
  rc_delete :: "pystr \<Rightarrow> int \<Rightarrow> 'r \<Rightarrow> 'r"
  rc_incr :: "pystr \<Rightarrow> int \<Rightarrow> 'r \<Rightarrow> int \<times> 'r"
  rc_expire :: "pystr \<Rightarrow> int \<Rightarrow> int \<Rightarrow> 'r \<Rightarrow> 'r"

type_synonym entries = "pystr \<Rightarrow> (pystr \<times> int option) option"

text \<open>The value under a key at a time: an entry whose deadline has come is gone.\<close>

definition live_at :: "int \<Rightarrow> (pystr \<times> int option) option \<Rightarrow> (pystr \<times> int option) option" where
  "live_at t e =
     (case e of Some (v, Some d) \<Rightarrow> if t < d then e else None | _ \<Rightarrow> e)"

lemma live_at_simps [simp]:
  "live_at t None = None" "live_at t (Some (v, None)) = Some (v, None)"
  "live_at t (Some (v, Some d)) = (if t < d then Some (v, Some d) else None)"
  by (simp_all add: live_at_def)

definition max_int64 :: int where
  "max_int64 = 9223372036854775807"

locale redis =
  fixes cl :: "'r redis_client" and view :: "'r \<Rightarrow> entries"
  assumes get: "rc_get cl k t r = map_option fst (live_at t (view r k))"
    and set_ex: "0 < ex \<Longrightarrow> view (rc_set_ex cl k v ex t r) = (view r)(k \<mapsto> (v, Some (t + 1000 * ex)))"
    and set_nx_new: "0 < ex \<Longrightarrow> live_at t (view r k) = None \<Longrightarrow>
      fst (rc_set_nx_ex cl k v ex t r) \<and>
      view (snd (rc_set_nx_ex cl k v ex t r)) = (view r)(k \<mapsto> (v, Some (t + 1000 * ex)))"
    and set_nx_old: "0 < ex \<Longrightarrow> live_at t (view r k) \<noteq> None \<Longrightarrow>
      \<not> fst (rc_set_nx_ex cl k v ex t r) \<and> view (snd (rc_set_nx_ex cl k v ex t r)) = view r"
    and delete: "view (rc_delete cl k t r) = (view r)(k := None)"
    and incr_new: "live_at t (view r k) = None \<Longrightarrow>
      fst (rc_incr cl k t r) = 1 \<and> view (snd (rc_incr cl k t r)) = (view r)(k \<mapsto> (int_str 1, None))"
    and incr_old: "live_at t (view r k) = Some (int_str n, d) \<Longrightarrow> 0 \<le> n \<Longrightarrow> n < max_int64 \<Longrightarrow>
      fst (rc_incr cl k t r) = n + 1 \<and> view (snd (rc_incr cl k t r)) = (view r)(k \<mapsto> (int_str (n + 1), d))"
    and expire: "0 < secs \<Longrightarrow> live_at t (view r k) = Some (v, d) \<Longrightarrow>
      view (rc_expire cl k secs t r) = (view r)(k \<mapsto> (v, Some (t + 1000 * secs)))"

section \<open>An in-memory client\<close>

definition mem_incr :: "pystr \<Rightarrow> int \<Rightarrow> entries \<Rightarrow> int \<times> entries" where
  "mem_incr k t r =
     (case live_at t (r k) of
        None \<Rightarrow> (1, r(k \<mapsto> (int_str 1, None)))
      | Some (v, d) \<Rightarrow> (let n = the (int_of_str v) + 1 in (n, r(k \<mapsto> (int_str n, d)))))"

definition mem_client :: "entries redis_client" where
  "mem_client =
     \<lparr>rc_get = (\<lambda>k t r. map_option fst (live_at t (r k))),
      rc_set_ex = (\<lambda>k v ex t r. r(k \<mapsto> (v, Some (t + 1000 * ex)))),
      rc_set_nx_ex = (\<lambda>k v ex t r.
        if live_at t (r k) = None then (True, r(k \<mapsto> (v, Some (t + 1000 * ex)))) else (False, r)),
      rc_delete = (\<lambda>k t r. r(k := None)),
      rc_incr = mem_incr,
      rc_expire = (\<lambda>k secs t r.
        case live_at t (r k) of None \<Rightarrow> r | Some (v, d) \<Rightarrow> r(k \<mapsto> (v, Some (t + 1000 * secs))))\<rparr>"

lemma int64_digits: "0 \<le> n \<Longrightarrow> n < max_int64 \<Longrightarrow> int_of_str (int_str n) = Some n"
proof -
  assume n: "0 \<le> n" "n < max_int64"
  then have "nat n < 10 ^ 19" by (simp add: max_int64_def nat_less_iff)
  then have "length (digits_of (nat \<bar>n\<bar>)) \<le> 19" using n digits_of_length [of "nat n" 19] by simp
  then show ?thesis by (intro int_of_int_str) simp
qed

interpretation mem: redis mem_client "\<lambda>r. r"
  by unfold_locales (simp_all add: mem_client_def mem_incr_def int64_digits Let_def)

end
