(* ===== verification/CatalogRepo.thy ===== *)
theory CatalogRepo
  imports CatalogRecord SqlTable Keyset Json RedisClient
begin

text \<open>
  The repository, cache and API layers of 16-testing-engineering/07 (src/impl.py): CatalogRepo
  over a Postgres connection, ProductCache over Redis, and the two routes of \<open>make_app\<close>.  The
  connection does not autocommit: the first statement after a commit opens a transaction, and
  \<open>now()\<close> is the time that transaction began, which is why it is part of the state.
\<close>

section \<open>The repository\<close>

record catalog_row =
  r_id :: int
  r_sku :: pystr
  r_title :: pystr
  r_price_amount :: dec
  r_currency :: pystr
  r_url :: pystr
  r_in_stock :: bool
  r_updated_at :: int

record catalog_conn =
  tbl :: "catalog_row sql_table"
  tx :: "int option"

definition create_schema :: "catalog_row sql_table option \<Rightarrow> catalog_conn" where
  "create_schema t = \<lparr>tbl = (case t of None \<Rightarrow> empty_table | Some t' \<Rightarrow> t'), tx = None\<rparr>"

definition begin_tx :: "int \<Rightarrow> catalog_conn \<Rightarrow> catalog_conn" where
  "begin_tx now c = (case tx c of None \<Rightarrow> c\<lparr>tx := Some now\<rparr> | Some _ \<Rightarrow> c)"

definition commit :: "catalog_conn \<Rightarrow> catalog_conn" where
  "commit c = c\<lparr>tx := None\<rparr>"

type_synonym upsert_args = "int \<times> canonical \<times> dec"

definition up_key :: "upsert_args \<Rightarrow> pystr" where
  "up_key x = c_sku (fst (snd x))"

definition insert_row :: "int \<Rightarrow> upsert_args \<Rightarrow> catalog_row" where
  "insert_row i x =
     (case x of (now, c, amount) \<Rightarrow>
        \<lparr>r_id = i, r_sku = c_sku c, r_title = c_title c, r_price_amount = to_numeric amount,
         r_currency = c_currency c, r_url = c_url c, r_in_stock = c_in_stock c, r_updated_at = now\<rparr>)"

definition update_row :: "upsert_args \<Rightarrow> catalog_row \<Rightarrow> catalog_row" where
  "update_row x r =
     (case x of (now, c, amount) \<Rightarrow>
        r\<lparr>r_title := c_title c, r_price_amount := to_numeric amount, r_currency := c_currency c,
          r_url := c_url c, r_in_stock := c_in_stock c, r_updated_at := now\<rparr>)"

abbreviation upsert_one :: "upsert_args \<Rightarrow> catalog_row sql_table \<Rightarrow> catalog_row sql_table" where
  "upsert_one \<equiv> upsert_row r_sku up_key insert_row update_row"

definition exec_upsert :: "canonical \<Rightarrow> dec \<Rightarrow> catalog_conn \<Rightarrow> catalog_conn" where
  "exec_upsert r amount c =
     (case tx c of None \<Rightarrow> c | Some now \<Rightarrow> c\<lparr>tbl := upsert_one (now, r, amount) (tbl c)\<rparr>)"

text \<open>The loop of \<open>upsert_products\<close>; a malformed amount raises out of it, with the transaction open.\<close>

fun upsert_loop :: "int \<Rightarrow> canonical list \<Rightarrow> catalog_conn \<Rightarrow> unit result \<times> catalog_conn" where
  "upsert_loop now [] c = (Inr (), c)"
| "upsert_loop now (r # rs) c =
     (case decimal_parse (c_price_amount r) of
        None \<Rightarrow> (Inl InvalidOperation, c)
      | Some amount \<Rightarrow> upsert_loop now rs (exec_upsert r amount (begin_tx now c)))"

definition upsert_products :: "int \<Rightarrow> canonical list \<Rightarrow> catalog_conn \<Rightarrow> unit result \<times> catalog_conn" where
  "upsert_products now records c =
     (if records = [] then (Inr (), c)
      else case upsert_loop now records c of
          (Inr _, c') \<Rightarrow> (Inr (), commit c')
        | (Inl e, c') \<Rightarrow> (Inl e, c'))"

definition page :: "int \<Rightarrow> int option \<Rightarrow> nat \<Rightarrow> catalog_conn \<Rightarrow> catalog_row list \<times> catalog_conn" where
  "page now after limit c =
     (let rows = fst (tbl c) in
      (case after of
         None \<Rightarrow> take limit (order_by r_id rows)
       | Some a \<Rightarrow> take limit (order_by r_id (filter (\<lambda>r. a < r_id r) rows)),
       begin_tx now c))"

definition load_incremental :: "int \<Rightarrow> int \<Rightarrow> catalog_conn \<Rightarrow> catalog_row list \<times> catalog_conn" where
  "load_incremental now since c =
     (sort_key r_updated_at (order_by r_id (filter (\<lambda>r. since < r_updated_at r) (fst (tbl c)))),
      begin_tx now c)"

definition get_by_sku :: "int \<Rightarrow> pystr \<Rightarrow> catalog_conn \<Rightarrow> catalog_row option \<times> catalog_conn" where
  "get_by_sku now sku c = (find (\<lambda>r. r_sku r = sku) (fst (tbl c)), begin_tx now c)"

section \<open>The cache\<close>

definition cache_key :: "pystr \<Rightarrow> pystr" where
  "cache_key sku = u ''catalog:product:'' @ sku"

definition default_ttl :: int where
  "default_ttl = 60"

definition cache_get :: "'r redis_client \<Rightarrow> pystr \<Rightarrow> int \<Rightarrow> 'r \<Rightarrow> json option result" where
  "cache_get cl sku t r =
     (case rc_get cl (cache_key sku) t r of
        None \<Rightarrow> Inr None
      | Some raw \<Rightarrow> bind_result (json_loads raw) (\<lambda>v. Inr (if v = JNull then None else Some v)))"

definition cache_set :: "'r redis_client \<Rightarrow> pystr \<Rightarrow> json \<Rightarrow> int option \<Rightarrow> int \<Rightarrow> 'r \<Rightarrow> 'r" where
  "cache_set cl sku item ttl t r =
     (let effective_ttl = (case ttl of Some s \<Rightarrow> s | None \<Rightarrow> default_ttl) in
      rc_set_ex cl (cache_key sku) (json_dumps item) effective_ttl t r)"

definition cache_invalidate :: "'r redis_client \<Rightarrow> pystr \<Rightarrow> int \<Rightarrow> 'r \<Rightarrow> 'r" where
  "cache_invalidate cl sku t r = rc_delete cl (cache_key sku) t r"

section \<open>The API\<close>

text \<open>
  A missing product's 404 envelope carries the code and the sku that its message prints; a
  decoding error that leaves the handler is a 500.
\<close>

datatype api_response =
    Page "json list" "int option"
  | Product json
  | NotFound pystr
  | Unprocessable
  | ServerError

definition row_to_item :: "catalog_row \<Rightarrow> json" where
  "row_to_item r =
     JObj [(u ''id'', JInt (r_id r)), (u ''sku'', JStr (r_sku r)), (u ''title'', JStr (r_title r)),
           (u ''price_amount'', JStr (dec_str (r_price_amount r))), (u ''currency'', JStr (r_currency r)),
           (u ''url'', JStr (r_url r)), (u ''in_stock'', JBool (r_in_stock r))]"

definition list_products :: "int \<Rightarrow> int option \<Rightarrow> int option \<Rightarrow> catalog_conn \<Rightarrow> api_response \<times> catalog_conn" where
  "list_products now cursor limit_arg c =
     (let limit = (case limit_arg of None \<Rightarrow> 20 | Some l \<Rightarrow> l) in
      if limit < 1 \<or> 100 < limit then (Unprocessable, c)
      else
        let (rows, c') = page now cursor (nat limit) c; items = map row_to_item rows in
        (Page items (if int (length items) = limit then Some (r_id (last rows)) else None), c'))"

definition get_product ::
  "'r redis_client \<Rightarrow> int \<Rightarrow> int \<Rightarrow> pystr \<Rightarrow> catalog_conn \<times> 'r \<Rightarrow> api_response \<times> catalog_conn \<times> 'r" where
  "get_product cl t1 t2 sku s =
     (case s of (c, r) \<Rightarrow>
        (case cache_get cl sku t1 r of
           Inl e \<Rightarrow> (ServerError, c, r)
         | Inr (Some cached) \<Rightarrow> (Product cached, c, r)
         | Inr None \<Rightarrow>
             (let (row, c') = get_by_sku t1 sku c in
              case row of
                None \<Rightarrow> (NotFound sku, c', r)
              | Some row \<Rightarrow>
                  (let item = row_to_item row in (Product item, c', cache_set cl sku item None t2 r)))))"

section \<open>The table as a map from skus\<close>

interpretation cat: upsert_table r_id r_sku up_key insert_row update_row
  by unfold_locales (auto simp: insert_row_def update_row_def up_key_def split: prod.splits)

lemma tbl_begin [simp]: "tbl (begin_tx now c) = tbl c"
  by (simp add: begin_tx_def split: option.splits)

lemma tx_begin: "tx (begin_tx now c) = Some (case tx c of None \<Rightarrow> now | Some t \<Rightarrow> t)"
  by (simp add: begin_tx_def split: option.splits)

lemma tbl_commit [simp]: "tbl (commit c) = tbl c"
  by (simp add: commit_def)

text \<open>The writes a successful batch makes, all stamped with the transaction's begin.\<close>

definition writes :: "int \<Rightarrow> canonical list \<Rightarrow> upsert_args list" where
  "writes t records = map (\<lambda>r. (t, r, the (decimal_parse (c_price_amount r)))) records"

definition stamp :: "int \<Rightarrow> catalog_conn \<Rightarrow> int" where
  "stamp now c = (case tx c of None \<Rightarrow> now | Some t \<Rightarrow> t)"

lemma upsert_loop_fold:
  "fst (upsert_loop now rs c) = Inr () \<Longrightarrow>
     tbl (snd (upsert_loop now rs c)) = fold upsert_one (writes (stamp now c) rs) (tbl c)"
proof (induction rs arbitrary: c)
  case Nil
  then show ?case by (simp add: writes_def)
next
  case (Cons r rs)
  show ?case
  proof (cases "decimal_parse (c_price_amount r)")
    case None
    then show ?thesis using Cons.prems by simp
  next
    case (Some a)
    have st: "stamp now (exec_upsert r a (begin_tx now c)) = stamp now c"
      by (simp add: stamp_def exec_upsert_def tx_begin split: option.splits)
    have "tbl (exec_upsert r a (begin_tx now c)) = upsert_one (stamp now c, r, a) (tbl c)"
      by (simp add: exec_upsert_def tx_begin stamp_def)
    then show ?thesis
      using Cons.IH [of "exec_upsert r a (begin_tx now c)"] Cons.prems Some st
      by (simp add: writes_def)
  qed
qed

lemma upsert_products_fold:
  assumes "upsert_products now records c = (Inr (), c')"
  shows "tbl c' = fold upsert_one (writes (stamp now c) records) (tbl c)"
  using assms upsert_loop_fold [of now records c]
  by (cases "upsert_loop now records c")
    (auto simp: upsert_products_def writes_def split: if_splits sum.splits)

lemma upsert_loop_ok:
  "fst (upsert_loop now rs c) = Inr () \<longleftrightarrow> (\<forall>r \<in> set rs. decimal_parse (c_price_amount r) \<noteq> None)"
  by (induction rs arbitrary: c) (auto split: option.splits)

lemma upsert_products_ok:
  "fst (upsert_products now rs c) = Inr () \<longleftrightarrow> (\<forall>r \<in> set rs. decimal_parse (c_price_amount r) \<noteq> None)"
  using upsert_loop_ok [of now rs c]
  by (auto simp: upsert_products_def split: prod.splits sum.splits)

section \<open>Pages\<close>

definition rows_by_id :: "catalog_row sql_table \<Rightarrow> catalog_row list" where
  "rows_by_id t = order_by r_id (fst t)"

text \<open>What a consumer reads off a page of the API, as rows.\<close>

definition fetch_rows :: "catalog_row sql_table \<Rightarrow> nat \<Rightarrow> int option \<Rightarrow> catalog_row list \<times> int option" where
  "fetch_rows t n after =
     (let rows = take n (after_cursor r_id after (rows_by_id t)) in
      (rows, if length rows = n then Some (r_id (last rows)) else None))"

lemma page_rows:
  "fst (page now after n c) = take n (after_cursor r_id after (rows_by_id (tbl c)))"
  by (cases after) (simp_all add: page_def Let_def rows_by_id_def after_cursor_Some order_by_filter)

lemma list_products_rows:
  assumes "1 \<le> limit" "limit \<le> 100"
  shows "fst (list_products now cursor (Some limit) c) =
    Page (map row_to_item (fst (fetch_rows (tbl c) (nat limit) cursor))) (snd (fetch_rows (tbl c) (nat limit) cursor))"
  using assms page_rows [of now cursor "nat limit" c]
  by (auto simp: list_products_def fetch_rows_def Let_def split_beta)

interpretation catalog: keyset rows_by_id r_id fetch_rows cat.wf_table
proof unfold_locales
  fix t :: "catalog_row sql_table" and n :: nat and after c
  assume ok: "cat.wf_table t"
  then have "distinct (map r_id (fst t))"
    by (simp add: cat.wf_table_def strict_sorted_distinct)
  then show "sorted_wrt (<) (map r_id (rows_by_id t))"
    unfolding rows_by_id_def by (rule order_by_strict)
  show "fst (fetch_rows t n after) = take n (after_cursor r_id after (rows_by_id t))"
    by (simp add: fetch_rows_def Let_def)
  show "snd (fetch_rows t n after) = None \<Longrightarrow> drop n (after_cursor r_id after (rows_by_id t)) = []"
    by (auto simp: fetch_rows_def Let_def split: if_splits)
  show "0 < n \<Longrightarrow> snd (fetch_rows t n after) = Some c \<Longrightarrow>
      fst (fetch_rows t n after) \<noteq> [] \<and> c = r_id (last (fst (fetch_rows t n after)))"
    by (auto simp: fetch_rows_def Let_def split: if_splits)
qed

end
