(* ===== verification/CatalogApi.thy ===== *)
theory CatalogApi
  imports CatalogRepo
begin

text \<open>
  What the capstone catalog (16-testing-engineering/07) promises end to end: complete pages, also
  while products are being upserted, idempotent ingestion, watermarks, and how stale the
  read-through cache can be.
\<close>

section \<open>Walking the API\<close>

definition read_page :: "int \<Rightarrow> int \<Rightarrow> catalog_conn \<Rightarrow> int option \<Rightarrow> json list \<times> int option" where
  "read_page now limit c cursor =
     (case fst (list_products now cursor (Some limit) c) of Page items nxt \<Rightarrow> (items, nxt) | _ \<Rightarrow> ([], None))"

text \<open>The connections successive requests see when the given batches are upserted in between.\<close>

fun conn_states :: "catalog_conn \<Rightarrow> (int \<times> canonical list) list \<Rightarrow> catalog_conn list" where
  "conn_states c [] = [c]"
| "conn_states c ((now, records) # bs) = c # conn_states (snd (upsert_products now records c)) bs"

lemma read_page_rows:
  assumes "1 \<le> limit" "limit \<le> 100"
  shows "read_page now limit c cursor = map_prod (map row_to_item) (\<lambda>x. x) (fetch_rows (tbl c) (nat limit) cursor)"
  using list_products_rows [OF assms, of now cursor c] by (simp add: read_page_def map_prod_def split_beta)

lemma walk_map:
  "(\<And>c. f' c = map_prod (map g) (\<lambda>x. x) (f c)) \<Longrightarrow> walk k f' after = map_option (map g) (walk k f after)"
proof (induction k arbitrary: after)
  case 0
  then show ?case by simp
next
  case (Suc k)
  then show ?case by (cases "f after"; cases "snd (f after)") (auto simp: option.map_comp comp_def)
qed

lemma walk_over_map:
  "(\<And>t c. f' t c = map_prod (map g) (\<lambda>x. x) (f (h t) c)) \<Longrightarrow>
     walk_over f' ts after = map_option (map g) (walk_over f (map h ts) after)"
proof (induction ts arbitrary: after)
  case Nil
  then show ?case by simp
next
  case (Cons t ts)
  then show ?case by (cases "f (h t) after"; cases "snd (f (h t) after)") (auto simp: option.map_comp comp_def)
qed

lemma upsert_loop_some: "\<exists>xs. tbl (snd (upsert_loop now rs c)) = fold upsert_one xs (tbl c)"
proof (induction rs arbitrary: c)
  case Nil
  show ?case by (rule exI [of _ "[]"]) simp
next
  case (Cons r rs)
  show ?case
  proof (cases "decimal_parse (c_price_amount r)")
    case None
    then show ?thesis by (intro exI [of _ "[]"]) simp
  next
    case (Some a)
    let ?c = "exec_upsert r a (begin_tx now c)"
    obtain xs where "tbl (snd (upsert_loop now rs ?c)) = fold upsert_one xs (tbl ?c)" using Cons by blast
    moreover have "tbl ?c = upsert_one (stamp now c, r, a) (tbl c)"
      by (simp add: exec_upsert_def tx_begin stamp_def)
    ultimately show ?thesis using Some by (intro exI [of _ "(stamp now c, r, a) # xs"]) simp
  qed
qed

text \<open>An upsert that fails half way has still only upserted rows.\<close>

lemma upsert_products_some: "\<exists>xs. tbl (snd (upsert_products now rs c)) = fold upsert_one xs (tbl c)"
proof (cases "rs = []")
  case True
  then show ?thesis by (intro exI [of _ "[]"]) (simp add: upsert_products_def)
next
  case False
  obtain xs where "tbl (snd (upsert_loop now rs c)) = fold upsert_one xs (tbl c)"
    using upsert_loop_some by blast
  then show ?thesis
    using False
    by (intro exI [of _ xs], cases "upsert_loop now rs c") (auto simp: upsert_products_def split: sum.split)
qed

lemma upsert_products_wf: "cat.wf_table (tbl c) \<Longrightarrow> cat.wf_table (tbl (snd (upsert_products now rs c)))"
  using upsert_products_some [of now rs c] cat.wf_upserts by metis

lemma upsert_products_ids:
  "r_id ` set (fst (tbl c)) \<subseteq> r_id ` set (fst (tbl (snd (upsert_products now rs c))))"
  using upsert_products_some [of now rs c] cat.ids_upserts by metis

lemma conn_states_keep:
  "cat.wf_table (tbl c) \<Longrightarrow> c' \<in> set (conn_states c bs) \<Longrightarrow>
     cat.wf_table (tbl c') \<and> r_id ` set (fst (tbl c)) \<subseteq> r_id ` set (fst (tbl c'))"
proof (induction c bs rule: conn_states.induct)
  case (1 c)
  then show ?case by simp
next
  case (2 c now rs bs)
  show ?case
  proof (cases "c' = c")
    case False
    then have "c' \<in> set (conn_states (snd (upsert_products now rs c)) bs)" using 2(3) by simp
    from 2(1) [OF upsert_products_wf [OF 2(2)] this] upsert_products_ids [of c now rs]
    show ?thesis by blast
  qed (use 2(2) in simp)
qed

lemma conn_states_nonempty: "conn_states c bs \<noteq> []"
  by (induction c bs rule: conn_states.induct) simp_all

lemma conn_states_length: "length (conn_states c bs) = Suc (length bs)"
  by (induction c bs rule: conn_states.induct) simp_all

lemma conn_states_last:
  "cat.wf_table (tbl c) \<Longrightarrow> c' \<in> set (conn_states c bs) \<Longrightarrow>
     r_id ` set (fst (tbl c')) \<subseteq> r_id ` set (fst (tbl (last (conn_states c bs))))"
proof (induction c bs rule: conn_states.induct)
  case (1 c)
  then show ?case by simp
next
  case (2 c now rs bs)
  let ?rest = "conn_states (snd (upsert_products now rs c)) bs"
  have l: "last (conn_states c ((now, rs) # bs)) = last ?rest" by (simp add: conn_states_nonempty)
  show ?case
  proof (cases "c' = c")
    case True
    have "last (conn_states c ((now, rs) # bs)) \<in> set (conn_states c ((now, rs) # bs))"
      by (rule last_in_set) (rule conn_states_nonempty)
    from conn_states_keep [OF 2(2) this] show ?thesis using True by blast
  next
    case False
    then have "c' \<in> set ?rest" using 2(3) by simp
    then show ?thesis using 2(1) [OF upsert_products_wf [OF 2(2)]] unfolding l by blast
  qed
qed

lemma create_schema_wf: "cat.wf_table (tbl (create_schema None))"
  by (simp add: create_schema_def cat.wf_empty)

section \<open>Ingestion\<close>

definition forget_time :: "catalog_row \<Rightarrow> catalog_row" where
  "forget_time r = r\<lparr>r_updated_at := 0\<rparr>"

definition untimed :: "catalog_row sql_table \<Rightarrow> catalog_row sql_table" where
  "untimed t = (map forget_time (fst t), snd t)"

lemma untimed_upsert: "untimed (upsert_one (t, r, a) tb) = upsert_one (0, r, a) (untimed tb)"
proof -
  have k: "map r_sku (map forget_time rows) = map r_sku rows" for rows
    by (simp add: forget_time_def)
  have u: "forget_time (update_row (t, r, a) x) = update_row (0, r, a) (forget_time x)" for x
    by (cases x) (simp add: forget_time_def update_row_def)
  have s: "r_sku (forget_time x) = r_sku x" for x by (simp add: forget_time_def)
  have i: "forget_time (insert_row n (t, r, a)) = insert_row n (0, r, a)" for n
    by (simp add: forget_time_def insert_row_def)
  obtain rows seq where tb: "tb = (rows, seq)" by fastforce
  show ?thesis
    unfolding tb upsert_row_def untimed_def prod.case fst_conv snd_conv k up_key_def
    by (auto simp: u s i)
qed

lemma untimed_upserts: "untimed (fold upsert_one (writes t rs) tb) = fold upsert_one (writes 0 rs) (untimed tb)"
  by (induction rs arbitrary: tb) (simp_all add: writes_def untimed_upsert)

lemma last_write_writes:
  "cat.last_write (writes t rs) k = map_option (\<lambda>r. (t, r, the (decimal_parse (c_price_amount r)))) (find (\<lambda>r. c_sku r = k) (rev rs))"
proof -
  have "find (\<lambda>x. up_key x = k) (map (\<lambda>r. (t, r, f r)) xs) =
      map_option (\<lambda>r. (t, r, f r)) (find (\<lambda>r. c_sku r = k) xs)" for xs and f :: "canonical \<Rightarrow> dec"
    by (induction xs) (auto simp: up_key_def)
  then show ?thesis by (simp add: cat.last_write_def writes_def rev_map)
qed

section \<open>The cache over time\<close>

text \<open>
  The running service: the connection, Redis, the time, and for the statements below the tables
  there have been, each with the time it was current.
\<close>

record 'r catalog_sys =
  sys_conn :: catalog_conn
  sys_redis :: 'r
  sys_now :: int
  sys_hist :: "(int \<times> catalog_row sql_table) list"

definition canonical_ok :: "canonical \<Rightarrow> bool" where
  "canonical_ok r \<longleftrightarrow>
     list_all code_point (c_sku r) \<and> list_all code_point (c_title r) \<and> list_all code_point (c_currency r) \<and>
     list_all code_point (c_url r)"

datatype sys_event = Upserted "canonical list" | Served pystr api_response

text \<open>
  Its steps: a batch is upserted, or a product is requested, the cache being read at \<open>t1\<close> and, on a
  miss, written at \<open>t2\<close>.  Ids stay in the range of BIGSERIAL.
\<close>

inductive sys_step :: "'r redis_client \<Rightarrow> 'r catalog_sys \<Rightarrow> sys_event \<Rightarrow> 'r catalog_sys \<Rightarrow> bool" for cl where
  upserted:
    "sys_now s \<le> t \<Longrightarrow> list_all canonical_ok rs \<Longrightarrow> upsert_products t rs (sys_conn s) = (Inr (), c') \<Longrightarrow>
     snd (tbl c') \<le> max_int64 \<Longrightarrow>
     sys_step cl s (Upserted rs)
       (s\<lparr>sys_conn := c', sys_now := t, sys_hist := (t, tbl c') # sys_hist s\<rparr>)"
| served:
    "sys_now s \<le> t1 \<Longrightarrow> t1 \<le> t2 \<Longrightarrow> get_product cl t1 t2 sku (sys_conn s, sys_redis s) = (resp, c', r') \<Longrightarrow>
     sys_step cl s (Served sku resp)
       (s\<lparr>sys_conn := c', sys_redis := r', sys_now := t2, sys_hist := (t2, tbl c') # sys_hist s\<rparr>)"

inductive reachable :: "'r redis_client \<Rightarrow> 'r \<Rightarrow> int \<Rightarrow> 'r catalog_sys \<Rightarrow> bool" for cl r0 t0 where
  start: "reachable cl r0 t0
    \<lparr>sys_conn = create_schema None, sys_redis = r0, sys_now = t0, sys_hist = [(t0, empty_table)]\<rparr>"
| step: "reachable cl r0 t0 s \<Longrightarrow> sys_step cl s e s' \<Longrightarrow> reachable cl r0 t0 s'"

text \<open>Rows that come back from JSON as they went in.\<close>

definition row_ok :: "catalog_row \<Rightarrow> bool" where
  "row_ok r \<longleftrightarrow> 0 \<le> r_id r \<and> r_id r < max_int64 \<and> list_all code_point (r_sku r) \<and>
     list_all code_point (r_title r) \<and> list_all code_point (r_currency r) \<and> list_all code_point (r_url r)"

definition table_ok :: "catalog_row sql_table \<Rightarrow> bool" where
  "table_ok t \<longleftrightarrow> cat.wf_table t \<and> (\<forall>r \<in> set (fst t). 0 \<le> r_id r \<and> list_all code_point (r_sku r) \<and>
     list_all code_point (r_title r) \<and> list_all code_point (r_currency r) \<and> list_all code_point (r_url r)) \<and>
     0 \<le> snd t"

lemma table_ok_upsert:
  assumes "table_ok tb" "canonical_ok r"
  shows "table_ok (upsert_one (t, r, a) tb)"
proof -
  obtain rows seq where tb: "tb = (rows, seq)" by fastforce
  have "cat.wf_table (upsert_one (t, r, a) tb)" using assms(1) cat.wf_upsert by (simp add: table_ok_def)
  then show ?thesis
    using assms by (auto simp: table_ok_def tb upsert_row_def update_row_def insert_row_def canonical_ok_def)
qed

lemma table_ok_upserts: "table_ok tb \<Longrightarrow> list_all canonical_ok rs \<Longrightarrow> table_ok (fold upsert_one (writes t rs) tb)"
  by (induction rs arbitrary: tb) (simp_all add: writes_def table_ok_upsert)

lemma table_ok_row:
  assumes "table_ok t" "snd t \<le> max_int64" "cat.row_for sku t = Some row"
  shows "row_ok row"
proof -
  have "row \<in> set (fst t)" using assms(3) find_mem unfolding cat.row_for_def by metis
  then show ?thesis
    using assms(1,2) by (auto simp: table_ok_def row_ok_def cat.wf_table_def dest: bspec)
qed

lemma dec_str_ascii: "list_all code_point (dec_str d)"
proof -
  have n: "list_all code_point (nat_str n)" for n
    by (auto simp: list_all_iff code_point_def dest!: nat_str_chars)
  have i: "list_all code_point (int_str i)" for i using n by (simp add: int_str_def code_point_def)
  have c: "\<forall>x \<in> set ds. x < 10 \<Longrightarrow> list_all code_point (chars_of_digits ds)" for ds
    using chars_of_digits_ascii by (fastforce simp: list_all_iff code_point_def)
  obtain js fs e where "dec_str d = dec_text (dneg d) js fs e" "\<forall>x \<in> set (js @ fs). x < 10"
    using dec_str_text by blast
  then show ?thesis using c [of js] c [of fs] i by (simp add: dec_text_def code_point_def)
qed

lemma item_json_ok:
  assumes "row_ok r"
  shows "json_ok (row_to_item r)"
proof -
  have "nat \<bar>r_id r\<bar> < 10 ^ 19" using assms by (auto simp: row_ok_def max_int64_def)
  then have "length (digits_of (nat \<bar>r_id r\<bar>)) \<le> 19" by (intro digits_of_length) simp_all
  then have "length (digits_of (nat \<bar>r_id r\<bar>)) \<le> 4300" by linarith
  then show ?thesis
    using assms dec_str_ascii by (simp add: row_to_item_def row_ok_def code_point_def)
qed

text \<open>
  The invariant: every entry of the cache is the JSON of the row its sku had in one of the tables
  there have been, and expires \<open>default_ttl\<close> seconds after that table was current.
\<close>

definition entry_ok :: "(int \<times> catalog_row sql_table) list \<Rightarrow> pystr \<Rightarrow> pystr \<times> int option \<Rightarrow> bool" where
  "entry_ok hist sku e \<longleftrightarrow>
     (\<exists>t tb row. (t, tb) \<in> set hist \<and> cat.row_for sku tb = Some row \<and> row_ok row \<and>
        e = (json_dumps (row_to_item row), Some (t + 1000 * default_ttl)))"

definition sys_inv :: "('r \<Rightarrow> entries) \<Rightarrow> 'r catalog_sys \<Rightarrow> bool" where
  "sys_inv view s \<longleftrightarrow>
     table_ok (tbl (sys_conn s)) \<and> snd (tbl (sys_conn s)) \<le> max_int64 \<and>
     (\<forall>sku e. view (sys_redis s) (cache_key sku) = Some e \<longrightarrow> entry_ok (sys_hist s) sku e)"

lemma cache_key_inj [simp]: "cache_key a = cache_key b \<longleftrightarrow> a = b"
  by (simp add: cache_key_def)

lemma entry_ok_mono: "entry_ok hist sku e \<Longrightarrow> set hist \<subseteq> set hist' \<Longrightarrow> entry_ok hist' sku e"
  unfolding entry_ok_def by blast

text \<open>A request on a state where the invariant holds: served from the cache, from the table, or 404.\<close>

lemma get_product_cases:
  assumes r: "redis cl view" and inv: "sys_inv view s"
  shows "(\<exists>row. get_product cl t1 t2 sku (sys_conn s, sys_redis s) = (Product (row_to_item row), sys_conn s, sys_redis s) \<and>
      (\<exists>t tb. (t, tb) \<in> set (sys_hist s) \<and> cat.row_for sku tb = Some row \<and> t1 < t + 1000 * default_ttl)) \<or>
    (\<exists>row. cat.row_for sku (tbl (sys_conn s)) = Some row \<and>
      get_product cl t1 t2 sku (sys_conn s, sys_redis s) =
        (Product (row_to_item row), begin_tx t1 (sys_conn s), cache_set cl sku (row_to_item row) None t2 (sys_redis s))) \<or>
    (cat.row_for sku (tbl (sys_conn s)) = None \<and>
      get_product cl t1 t2 sku (sys_conn s, sys_redis s) = (NotFound sku, begin_tx t1 (sys_conn s), sys_redis s))"
proof (cases "live_at t1 (view (sys_redis s) (cache_key sku))")
  case None
  then have "cache_get cl sku t1 (sys_redis s) = Inr None"
    by (simp add: cache_get_def redis.get [OF r])
  then show ?thesis
    by (cases "cat.row_for sku (tbl (sys_conn s))")
      (auto simp: get_product_def get_by_sku_def cat.row_for_def Let_def)
next
  case (Some e)
  then have e: "view (sys_redis s) (cache_key sku) = Some e" and live: "\<And>v d. e = (v, Some d) \<Longrightarrow> t1 < d"
    by (auto simp: live_at_def split: option.splits prod.splits if_splits)
  from inv e have "entry_ok (sys_hist s) sku e" unfolding sys_inv_def by blast
  then obtain t tb row where row: "(t, tb) \<in> set (sys_hist s)" "cat.row_for sku tb = Some row" "row_ok row"
      "e = (json_dumps (row_to_item row), Some (t + 1000 * default_ttl))"
    unfolding entry_ok_def by blast
  have "json_loads (json_dumps (row_to_item row)) = Inr (row_to_item row)"
    using item_json_ok [OF row(3)] by (rule json_loads_dumps)
  then have "cache_get cl sku t1 (sys_redis s) = Inr (Some (row_to_item row))"
    using Some row(4) by (simp add: cache_get_def redis.get [OF r] row_to_item_def)
  then have "get_product cl t1 t2 sku (sys_conn s, sys_redis s) = (Product (row_to_item row), sys_conn s, sys_redis s)"
    by (simp add: get_product_def)
  moreover have "t1 < t + 1000 * default_ttl" using live row(4) by blast
  ultimately show ?thesis using row(1,2) by blast
qed

lemma cache_set_view:
  assumes r: "redis cl view"
  shows "view (cache_set cl sku item None t r0) =
    (view r0)(cache_key sku \<mapsto> (json_dumps item, Some (t + 1000 * default_ttl)))"
  by (simp add: cache_set_def Let_def default_ttl_def redis.set_ex [OF r])

lemma sys_inv_step:
  assumes r: "redis cl view" and inv: "sys_inv view s" and step: "sys_step cl s e s'"
  shows "sys_inv view s'"
  using step
proof cases
  case (upserted t rs c')
  have "tbl c' = fold upsert_one (writes (stamp t (sys_conn s)) rs) (tbl (sys_conn s))"
    using upserted(5) by (rule upsert_products_fold)
  then have "table_ok (tbl c')" using inv upserted(4) by (simp add: sys_inv_def table_ok_upserts)
  moreover have "entry_ok ((t, tbl c') # sys_hist s) k e'" if "entry_ok (sys_hist s) k e'" for k e'
    using that by (rule entry_ok_mono) auto
  ultimately show ?thesis
    using inv upserted(6) unfolding sys_inv_def upserted(2) by simp
next
  case (served t1 t2 sku resp c' r')
  have mono: "entry_ok (sys_hist s) k e' \<Longrightarrow> entry_ok ((t2, tb) # sys_hist s) k e'" for k e' tb
    by (rule entry_ok_mono) auto
  from get_product_cases [OF r inv, of t1 t2 sku] show ?thesis
  proof (elim disjE exE conjE)
    fix row
    assume "get_product cl t1 t2 sku (sys_conn s, sys_redis s) = (Product (row_to_item row), sys_conn s, sys_redis s)"
    then have "c' = sys_conn s" "r' = sys_redis s" using served(5) by simp_all
    then show ?thesis using inv served(2) mono by (simp add: sys_inv_def)
  next
    assume "get_product cl t1 t2 sku (sys_conn s, sys_redis s) = (NotFound sku, begin_tx t1 (sys_conn s), sys_redis s)"
    then have "c' = begin_tx t1 (sys_conn s)" "r' = sys_redis s" using served(5) by simp_all
    then show ?thesis using inv served(2) mono by (simp add: sys_inv_def)
  next
    fix row
    assume row: "cat.row_for sku (tbl (sys_conn s)) = Some row"
      and "get_product cl t1 t2 sku (sys_conn s, sys_redis s) =
        (Product (row_to_item row), begin_tx t1 (sys_conn s), cache_set cl sku (row_to_item row) None t2 (sys_redis s))"
    then have c': "c' = begin_tx t1 (sys_conn s)"
      and r': "r' = cache_set cl sku (row_to_item row) None t2 (sys_redis s)" using served(5) by simp_all
    have ok: "row_ok row" using inv row table_ok_row unfolding sys_inv_def by blast
    have "entry_ok ((t2, tbl (sys_conn s)) # sys_hist s) sku
        (json_dumps (row_to_item row), Some (t2 + 1000 * default_ttl))"
      unfolding entry_ok_def using row ok
      by (intro exI [of _ t2] exI [of _ "tbl (sys_conn s)"] exI [of _ row]) simp
    then show ?thesis
      using inv served(2) mono by (simp add: sys_inv_def c' r' cache_set_view [OF r])
  qed
qed

lemma sys_inv_reachable:
  assumes r: "redis cl view" and empty: "\<forall>sku. view r0 (cache_key sku) = None"
  shows "reachable cl r0 t0 s \<Longrightarrow> sys_inv view s"
proof (induction rule: reachable.induct)
  case start
  have "table_ok empty_table"
    using cat.wf_empty by (simp add: table_ok_def empty_table_def)
  then show ?case
    using empty by (simp add: sys_inv_def create_schema_def) (simp add: empty_table_def max_int64_def)
next
  case (step s e s')
  then show ?case using sys_inv_step [OF r] by blast
qed

lemma writes_find:
  assumes "upsert_products now rs c = (Inr (), c')"
  shows "cat.row_for sku (tbl c') =
    (case find (\<lambda>r. c_sku r = sku) (rev rs) of
       None \<Rightarrow> cat.row_for sku (tbl c)
     | Some r \<Rightarrow> cat.row_for sku (tbl c'))"
  using upsert_products_fold [OF assms] last_write_writes [of "stamp now c" rs sku]
    cat.row_for_untouched [of "writes (stamp now c) rs" sku "tbl c"]
  by (auto split: option.split)

lemma writes_last:
  assumes "upsert_products now rs c = (Inr (), c')" "find (\<lambda>r. c_sku r = sku) (rev rs) = Some r"
  shows "\<exists>i. cat.row_for sku (tbl c') = Some (case cat.row_for sku (tbl c) of
      None \<Rightarrow> insert_row i (stamp now c, r, the (decimal_parse (c_price_amount r)))
    | Some row \<Rightarrow> update_row (stamp now c, r, the (decimal_parse (c_price_amount r))) row)"
  using upsert_products_fold [OF assms(1)] assms(2)
    cat.row_for_upserts [of "writes (stamp now c) rs" sku _ "tbl c"] last_write_writes [of "stamp now c" rs sku]
  by simp

lemma writes_columns:
  assumes "upsert_products now rs c = (Inr (), c')" "find (\<lambda>r. c_sku r = sku) (rev rs) = Some r"
  shows "\<exists>row. fst (get_by_sku now' sku c') = Some row \<and> r_sku row = sku \<and> r_title row = c_title r \<and>
    r_price_amount row = to_numeric (the (decimal_parse (c_price_amount r))) \<and>
    r_currency row = c_currency r \<and> r_url row = c_url r \<and> r_in_stock row = c_in_stock r \<and>
    r_updated_at row = stamp now c \<and>
    (\<forall>old. fst (get_by_sku now' sku c) = Some old \<longrightarrow> r_id row = r_id old)"
proof -
  have sku: "c_sku r = sku" using assms(2) by (auto simp: find_Some_iff)
  obtain i where "cat.row_for sku (tbl c') = Some (case cat.row_for sku (tbl c) of
      None \<Rightarrow> insert_row i (stamp now c, r, the (decimal_parse (c_price_amount r)))
    | Some row \<Rightarrow> update_row (stamp now c, r, the (decimal_parse (c_price_amount r))) row)"
    using writes_last [OF assms] by blast
  moreover have "r_sku old = sku" if "cat.row_for sku (tbl c) = Some old" for old
    using that by (auto simp: cat.row_for_def find_Some_iff)
  ultimately show ?thesis
    by (cases "cat.row_for sku (tbl c)")
      (auto simp: get_by_sku_def cat.row_for_def insert_row_def update_row_def sku)
qed

text \<open>A sample record and its row, for the instances below.\<close>

definition sample :: "pystr \<Rightarrow> canonical" where
  "sample sku =
     \<lparr>c_sku = sku, c_title = u ''t'', c_price_amount = dec_str (Dec False 150 (- 2)), c_currency = u ''USD'',
      c_url = [], c_in_stock = True\<rparr>"

definition sample_row :: "int \<Rightarrow> pystr \<Rightarrow> int \<Rightarrow> catalog_row" where
  "sample_row i sku t =
     \<lparr>r_id = i, r_sku = sku, r_title = u ''t'', r_price_amount = Dec False 150 (- 2), r_currency = u ''USD'',
      r_url = [], r_in_stock = True, r_updated_at = t\<rparr>"

lemma sample_parse: "decimal_parse (c_price_amount (sample sku)) = Some (Dec False 150 (- 2))"
  by (simp add: sample_def decimal_parse_str)

lemma sample_insert: "insert_row i (t, sample sku, Dec False 150 (- 2)) = sample_row i sku t"
  by (simp add: insert_row_def sample_def sample_row_def to_numeric_def)

lemma sample_update: "update_row (t, sample sku, Dec False 150 (- 2)) (sample_row i sku t') = sample_row i sku t"
  by (simp add: update_row_def sample_def sample_row_def to_numeric_def)

lemma sample_fields:
  "r_sku (sample_row i sku t) = sku" "r_id (sample_row i sku t) = i" "r_updated_at (sample_row i sku t) = t"
  "up_key (t, sample sku, a) = sku"
  by (simp_all add: sample_row_def sample_def up_key_def)

lemmas sample_eval = sample_parse exec_upsert_def begin_tx_def commit_def upsert_row_def
  sample_insert sample_update sample_fields create_schema_def empty_table_def upsert_products_def

lemma sample_one:
  "upsert_products 5 [sample (u ''b'')] (create_schema None) =
     (Inr (), \<lparr>tbl = ([sample_row 1 (u ''b'') 5], 2), tx = None\<rparr>)"
  by (simp add: sample_eval)

lemma sample_three:
  "upsert_products 5 [sample (u ''b''), sample (u ''a''), sample (u ''b'')] (create_schema None) =
     (Inr (), \<lparr>tbl = ([sample_row 1 (u ''b'') 5, sample_row 2 (u ''a'') 5], 4), tx = None\<rparr>)"
  by (simp add: sample_eval)

lemma sample_two:
  "upsert_products 7 [sample (u ''a'')] \<lparr>tbl = ([sample_row 1 (u ''b'') 5], 2), tx = None\<rparr> =
     (Inr (), \<lparr>tbl = ([sample_row 1 (u ''b'') 5, sample_row 2 (u ''a'') 7], 3), tx = None\<rparr>)"
  by (simp add: sample_eval)

lemma sample_again:
  "upsert_products t [sample (u ''b'')] \<lparr>tbl = ([sample_row 1 (u ''b'') 5], 2), tx = tx0\<rparr> =
     (Inr (), \<lparr>tbl = ([sample_row 1 (u ''b'') (case tx0 of None \<Rightarrow> t | Some t0 \<Rightarrow> t0)], 3), tx = None\<rparr>)"
  by (cases tx0) (simp_all add: sample_eval)

section \<open>Properties\<close>

text \<open>
  C3. Walking the catalog from the first page, for every accepted limit and whatever batches were
  upserted before, visits every product exactly once in id order and ends: the rule "another page
  exists when this one is full" never cuts the walk short.
\<close>

theorem catalog_walk_complete:
  assumes "1 \<le> limit" "limit \<le> 100" "c \<in> set (conn_states (create_schema None) bs)"
  shows "walk (Suc (length (fst (tbl c)))) (read_page now limit c) None =
      Some (map row_to_item (rows_by_id (tbl c))) \<and>
    sorted_wrt (<) (map r_id (rows_by_id (tbl c))) \<and> set (rows_by_id (tbl c)) = set (fst (tbl c))"
proof -
  have wf: "cat.wf_table (tbl c)" using conn_states_keep [OF create_schema_wf assms(3)] by blast
  have len: "length (rows_by_id (tbl c)) < Suc (length (fst (tbl c)))" by (simp add: rows_by_id_def order_by_def)
  have "walk (Suc (length (fst (tbl c)))) (read_page now limit c) None =
      map_option (map row_to_item) (walk (Suc (length (fst (tbl c)))) (fetch_rows (tbl c) (nat limit)) None)"
    using read_page_rows [OF assms(1,2)] by (rule walk_map)
  then show ?thesis
    using catalog.walk_all [OF wf _ len, of "nat limit"] catalog.sorted [OF wf] assms(1)
    by (simp add: rows_by_id_def)
qed

theorem catalog_walk_complete_witness:
  "walk 3 (read_page 9 1 (snd (upsert_products 5 [sample (u ''b''), sample (u ''a''), sample (u ''b'')] (create_schema None)))) None =
     Some (map row_to_item [sample_row 1 (u ''b'') 5, sample_row 2 (u ''a'') 5])"
proof -
  let ?rs = "[sample (u ''b''), sample (u ''a''), sample (u ''b'')]"
  let ?c = "snd (upsert_products 5 ?rs (create_schema None))"
  have "?c \<in> set (conn_states (create_schema None) [(5, ?rs)])" by simp
  from catalog_walk_complete [of 1, OF _ _ this, of 9] show ?thesis
    unfolding sample_three by (simp add: sample_fields rows_by_id_def order_by_def numeral_3_eq_3)
qed

text \<open>
  C2. Paging while the catalog is being written, with any batches upserted between the requests of
  one walk, empty and failing ones included: the walk ends within one request more than there are
  products in the end, and whenever it ends, no product was served twice and every product that was
  there at the first request was served.
\<close>

theorem catalog_walk_concurrent:
  assumes "1 \<le> limit" "limit \<le> 100" "c \<in> set (conn_states (create_schema None) bs0)"
  shows "(length (fst (tbl (last (conn_states c bs)))) \<le> length bs \<longrightarrow>
      walk_over (read_page now limit) (conn_states c bs) None \<noteq> None) \<and>
    pred_option (\<lambda>items. \<exists>rows. items = map row_to_item rows \<and> sorted_wrt (<) (map r_id rows) \<and>
      r_id ` set (fst (tbl c)) \<subseteq> r_id ` set rows) (walk_over (read_page now limit) (conn_states c bs) None)"
proof -
  have wf: "cat.wf_table (tbl c)" using conn_states_keep [OF create_schema_wf assms(3)] by blast
  note keep = conn_states_keep [OF wf, of _ bs]
  let ?ts = "map tbl (conn_states c bs)"
  let ?walk = "walk_over (\<lambda>t. fetch_rows t (nat limit)) ?ts None"
  have walk: "walk_over (read_page now limit) (conn_states c bs) None = map_option (map row_to_item) ?walk"
    using read_page_rows [OF assms(1,2), of now] by (intro walk_over_map) simp
  have n: "0 < nat limit" using assms(1) by simp
  have all: "\<forall>t \<in> set ?ts. cat.wf_table t" using keep by auto
  have "?walk \<noteq> None" if few: "length (fst (tbl (last (conn_states c bs)))) \<le> length bs"
  proof -
    let ?K = "r_id ` set (fst (tbl (last (conn_states c bs))))"
    have "card (catalog.left_over ?K None) \<le> card (set (fst (tbl (last (conn_states c bs)))))"
      by (simp add: catalog.left_over_def card_image_le)
    also have "\<dots> \<le> length (fst (tbl (last (conn_states c bs))))" by (rule card_length)
    finally have "card (catalog.left_over ?K None) < length ?ts" using few by (simp add: conn_states_length)
    moreover have "\<forall>t \<in> set ?ts. cat.wf_table t \<and> r_id ` set (rows_by_id t) \<subseteq> ?K"
      using keep conn_states_last [OF wf, of _ bs] by (auto simp: rows_by_id_def)
    ultimately have "\<exists>xs. ?walk = Some xs" using n by (intro catalog.walk_over_ends) simp_all
    then show ?thesis by simp
  qed
  moreover have "sorted_wrt (<) (map r_id rows) \<and> r_id ` set (fst (tbl c)) \<subseteq> r_id ` set rows" if rows: "?walk = Some rows" for rows
  proof
    show "sorted_wrt (<) (map r_id rows)" using catalog.walk_over_sorted [OF all n rows] by blast
    show "r_id ` set (fst (tbl c)) \<subseteq> r_id ` set rows"
    proof
      fix k assume k: "k \<in> r_id ` set (fst (tbl c))"
      have "\<forall>t \<in> set ?ts. cat.wf_table t \<and> k \<in> r_id ` set (rows_by_id t)"
        using keep k by (auto simp: rows_by_id_def)
      then show "k \<in> r_id ` set rows" by (rule catalog.walk_over_complete [OF _ n rows]) simp
    qed
  qed
  ultimately show ?thesis unfolding walk by (cases ?walk) auto
qed

theorem catalog_walk_concurrent_witness:
  "\<exists>rows. walk_over (read_page 9 1)
       (conn_states (snd (upsert_products 5 [sample (u ''b'')] (create_schema None))) [(7, [sample (u ''a'')]), (8, [])])
       None = Some (map row_to_item rows) \<and> length rows = 2 \<and> sorted_wrt (<) (map r_id rows) \<and> 1 \<in> r_id ` set rows"
proof -
  let ?c = "snd (upsert_products 5 [sample (u ''b'')] (create_schema None))"
  let ?bs = "[(7, [sample (u ''a'')]), (8, [])]"
  have c: "?c \<in> set (conn_states (create_schema None) [(5, [sample (u ''b'')])])" by simp
  have st: "conn_states ?c ?bs =
      [\<lparr>tbl = ([sample_row 1 (u ''b'') 5], 2), tx = None\<rparr>,
       \<lparr>tbl = ([sample_row 1 (u ''b'') 5, sample_row 2 (u ''a'') 7], 3), tx = None\<rparr>,
       \<lparr>tbl = ([sample_row 1 (u ''b'') 5, sample_row 2 (u ''a'') 7], 3), tx = None\<rparr>]"
    unfolding sample_one conn_states.simps snd_conv sample_two by (simp add: upsert_products_def)
  have w: "walk_over (read_page 9 1) (conn_states ?c ?bs) None =
      Some (map row_to_item [sample_row 1 (u ''b'') 5, sample_row 2 (u ''a'') 7])"
    unfolding st
    by (simp add: sample_fields read_page_rows fetch_rows_def rows_by_id_def order_by_def after_cursor_def)
  have "\<exists>rows. map row_to_item [sample_row 1 (u ''b'') 5, sample_row 2 (u ''a'') 7] = map row_to_item rows \<and>
      sorted_wrt (<) (map r_id rows) \<and> r_id ` set (fst (tbl ?c)) \<subseteq> r_id ` set rows"
    using catalog_walk_concurrent [of 1, OF _ _ c, of ?bs 9] unfolding w by simp
  then obtain rows
    where rows: "map row_to_item [sample_row 1 (u ''b'') 5, sample_row 2 (u ''a'') 7] = map row_to_item rows"
      "sorted_wrt (<) (map r_id rows)" "r_id ` set (fst (tbl ?c)) \<subseteq> r_id ` set rows" by blast
  have "length rows = 2" using arg_cong [OF rows(1), of length] by simp
  moreover have "1 \<in> r_id ` set rows" using rows(3) unfolding sample_one by (simp add: sample_fields)
  ultimately show ?thesis using w rows(1,2) by metis
qed

text \<open>
  C9. Idempotent, last-write-wins ingestion: a batch is accepted exactly when every price text is
  a decimal; then looking a sku up gives the columns of its last record in the batch, under the
  id it had before; skus the batch does not name keep their rows; no sku ever has two rows; and
  replaying the batch at any later time changes nothing but \<open>updated_at\<close>.
\<close>

theorem catalog_upsert_idempotent:
  assumes "upsert_products now rs c = (Inr (), c')" "upsert_products later rs c' = (Inr (), c'')"
    and "cat.wf_table (tbl c)"
  shows "map forget_time (fst (tbl c'')) = map forget_time (fst (tbl c')) \<and>
    distinct (map r_sku (fst (tbl c'))) \<and>
    (case find (\<lambda>r. c_sku r = sku) (rev rs) of
       None \<Rightarrow> fst (get_by_sku t sku c') = fst (get_by_sku t sku c)
     | Some r \<Rightarrow> \<exists>row. fst (get_by_sku t sku c') = Some row \<and> r_title row = c_title r \<and>
         r_price_amount row = to_numeric (the (decimal_parse (c_price_amount r))) \<and>
         r_currency row = c_currency r \<and> r_url row = c_url r \<and> r_in_stock row = c_in_stock r \<and>
         (\<forall>old. fst (get_by_sku t sku c) = Some old \<longrightarrow> r_id row = r_id old))"
proof -
  have t: "tbl c' = fold upsert_one (writes (stamp now c) rs) (tbl c)"
    "tbl c'' = fold upsert_one (writes (stamp later c') rs) (tbl c')"
    using assms(1,2) upsert_products_fold by blast+
  have "fst (untimed (tbl c'')) = fst (untimed (tbl c'))"
    unfolding t untimed_upserts by (rule cat.replay_rows)
  then have "map forget_time (fst (tbl c'')) = map forget_time (fst (tbl c'))" by (simp add: untimed_def)
  moreover have "cat.wf_table (tbl c')" using upsert_products_wf [OF assms(3), of now rs] assms(1) by simp
  moreover have "case find (\<lambda>r. c_sku r = sku) (rev rs) of
       None \<Rightarrow> fst (get_by_sku t sku c') = fst (get_by_sku t sku c)
     | Some r \<Rightarrow> \<exists>row. fst (get_by_sku t sku c') = Some row \<and> r_title row = c_title r \<and>
         r_price_amount row = to_numeric (the (decimal_parse (c_price_amount r))) \<and>
         r_currency row = c_currency r \<and> r_url row = c_url r \<and> r_in_stock row = c_in_stock r \<and>
         (\<forall>old. fst (get_by_sku t sku c) = Some old \<longrightarrow> r_id row = r_id old)"
  proof (cases "find (\<lambda>r. c_sku r = sku) (rev rs)")
    case None
    then show ?thesis using writes_find [OF assms(1), of sku] by (simp add: get_by_sku_def cat.row_for_def)
  next
    case (Some r)
    from writes_columns [OF assms(1) Some, of t] show ?thesis unfolding Some option.case by blast
  qed
  ultimately show ?thesis by (simp add: cat.wf_table_def)
qed

theorem catalog_upsert_idempotent_witness:
  "let c = create_schema None; c' = snd (upsert_products 5 [sample (u ''b'')] c);
       c'' = snd (upsert_products 8 [sample (u ''b'')] c')
   in map r_updated_at (fst (tbl c'')) = [8] \<and> map forget_time (fst (tbl c'')) = map forget_time (fst (tbl c'))"
  using catalog_upsert_idempotent
      [OF sample_one sample_again [of 8] create_schema_wf, where sku = "u ''b''" and t = 0]
  unfolding Let_def sample_one snd_conv sample_again by (simp add: sample_fields)

text \<open>
  C1. How stale a product response can be: in every state the service can reach, a request is
  answered with a product that the database held for that sku less than 60 seconds before the
  cache was read (or holds now), with a 404 only when the database has no such product now, and
  never with an error from decoding the cache.
\<close>

theorem catalog_bounded_staleness:
  assumes "redis cl view" "\<forall>sku. view r0 (cache_key sku) = None" "reachable cl r0 t0 s"
  shows "case fst (get_product cl t1 t2 sku (sys_conn s, sys_redis s)) of
      Product item \<Rightarrow>
        \<exists>row. item = row_to_item row \<and>
          (cat.row_for sku (tbl (sys_conn s)) = Some row \<or>
           (\<exists>t tb. (t, tb) \<in> set (sys_hist s) \<and> t1 - 60000 < t \<and> cat.row_for sku tb = Some row))
    | NotFound k \<Rightarrow> k = sku \<and> cat.row_for sku (tbl (sys_conn s)) = None
    | _ \<Rightarrow> False"
  using get_product_cases [OF assms(1) sys_inv_reachable [OF assms], of t1 t2 sku]
  by (elim disjE exE conjE) (force simp: default_ttl_def)+

theorem catalog_bounded_staleness_witness:
  "(\<forall>sku. (\<lambda>_. None :: (pystr \<times> int option) option) (cache_key sku) = None) \<and>
   fst (get_product mem_client 5 6 (u ''a'') (create_schema None, \<lambda>_. None)) = NotFound (u ''a'')"
  using catalog_bounded_staleness [OF mem.redis_axioms _ reachable.start [of mem_client "\<lambda>_. None" 0],
      where ?t1.0 = 5 and ?t2.0 = 6 and sku = "u ''a''"]
  by (simp add: cat.row_for_def create_schema_def empty_table_def get_product_def cache_get_def
      mem_client_def get_by_sku_def)

text \<open>
  \<open>updated_at\<close> is the time the transaction began, not the time of the write: a batch upserted
  on a connection that has already read is stamped with the time of that first read, so an
  incremental load whose watermark lies between the read and the write does not return the
  products of the batch.
\<close>

theorem catalog_updated_at_is_tx_start:
  assumes "upsert_products now rs c = (Inr (), c')" "r \<in> set rs"
  shows "\<exists>row. fst (get_by_sku now' (c_sku r) c') = Some row \<and> r_updated_at row = stamp now c \<and>
    (row \<in> set (fst (load_incremental now' since c')) \<longleftrightarrow> since < stamp now c)"
proof -
  obtain r' where f: "find (\<lambda>x. c_sku x = c_sku r) (rev rs) = Some r'"
    using assms(2) by (cases "find (\<lambda>x. c_sku x = c_sku r) (rev rs)") (auto simp: find_None_iff)
  from writes_columns [OF assms(1) f, of now'] obtain row
    where row: "fst (get_by_sku now' (c_sku r) c') = Some row" "r_updated_at row = stamp now c" by blast
  have "row \<in> set (fst (tbl c'))" using row(1) find_mem unfolding get_by_sku_def by fastforce
  then show ?thesis using row by (auto simp: load_incremental_def)
qed

theorem catalog_updated_at_is_tx_start_witness:
  "let c = snd (upsert_products 5 [sample (u ''b'')] (create_schema None));
       c1 = snd (page 100 None 10 c);
       c2 = snd (upsert_products 500 [sample (u ''b'')] c1)
   in map r_updated_at (fst (tbl c2)) = [100] \<and> fst (load_incremental 600 300 c2) = []"
proof -
  let ?c = "\<lparr>tbl = ([sample_row 1 (u ''b'') 5], 2), tx = Some 100\<rparr>"
  have c1: "snd (page 100 None 10 (snd (upsert_products 5 [sample (u ''b'')] (create_schema None)))) = ?c"
    unfolding sample_one by (simp add: page_def begin_tx_def)
  from catalog_updated_at_is_tx_start [OF sample_again [of 500 "Some 100"], of "sample (u ''b'')" 600 300] show ?thesis
    unfolding Let_def c1 sample_again by (simp add: load_incremental_def order_by_def sample_fields)
qed

end
