(* ===== verification/RateLimiter.thy ===== *)
theory RateLimiter
  imports RedisClient
begin

text \<open>
  The Redis-backed components of 16-testing-engineering/04 (src/impl.py): the fixed-window rate
  limiter, whose check and write is one Lua script, and the deduplication filter, one
  \<open>SET NX EX\<close>.  Both are shown to implement a window described without Redis.
\<close>

section \<open>The components\<close>

definition redis_key :: "pystr \<Rightarrow> pystr \<Rightarrow> pystr" where
  "redis_key ns key = ns @ [58] @ key"

text \<open>The script: INCR always, EXPIRE only on the call that creates the key.\<close>

definition lua_allow :: "'r redis_client \<Rightarrow> pystr \<Rightarrow> int \<Rightarrow> int \<Rightarrow> int \<Rightarrow> 'r \<Rightarrow> int \<times> 'r" where
  "lua_allow cl k limit window t r =
     (let (count, r1) = rc_incr cl k t r;
          r2 = (if count = 1 then rc_expire cl k window t r1 else r1)
      in (if limit < count then 0 else 1, r2))"

definition allow ::
  "'r redis_client \<Rightarrow> pystr \<Rightarrow> pystr \<Rightarrow> int \<Rightarrow> int \<Rightarrow> int \<Rightarrow> 'r \<Rightarrow> bool \<times> 'r" where
  "allow cl ns key limit window t r =
     (let (res, r') = lua_allow cl (redis_key ns key) limit window t r in (res \<noteq> 0, r'))"

definition seen :: "'r redis_client \<Rightarrow> pystr \<Rightarrow> int \<Rightarrow> pystr \<Rightarrow> int \<Rightarrow> 'r \<Rightarrow> bool \<times> 'r" where
  "seen cl ns ttl key t r =
     (let (was_new, r') = rc_set_nx_ex cl (redis_key ns key) (u ''1'') ttl t r in (\<not> was_new, r'))"

text \<open>A sequence of calls for one key, at the given times.\<close>

fun calls :: "(int \<Rightarrow> 'r \<Rightarrow> bool \<times> 'r) \<Rightarrow> int list \<Rightarrow> 'r \<Rightarrow> bool list \<times> 'r" where
  "calls f [] r = ([], r)"
| "calls f (t # ts) r =
     (let (b, r1) = f t r; (bs, r2) = calls f ts r1 in (b # bs, r2))"

section \<open>What they promise\<close>

text \<open>
  The abstract limiter keeps the start of the current window and the number of calls in it; the
  abstract filter keeps the time of the last recording.
\<close>

fun spec_allow :: "int \<Rightarrow> int \<Rightarrow> int \<Rightarrow> (int \<times> int) option \<Rightarrow> bool \<times> (int \<times> int) option" where
  "spec_allow limit window t None = (1 \<le> limit, Some (t, 1))"
| "spec_allow limit window t (Some (start, n)) =
     (if t < start + 1000 * window then (n + 1 \<le> limit, Some (start, n + 1)) else (1 \<le> limit, Some (t, 1)))"

fun spec_seen :: "int \<Rightarrow> int \<Rightarrow> int option \<Rightarrow> bool \<times> int option" where
  "spec_seen ttl t None = (False, Some t)"
| "spec_seen ttl t (Some a) = (if t < a + 1000 * ttl then (True, Some a) else (False, Some t))"

text \<open>How the abstract states show in the key space.\<close>

fun window_rel :: "int \<Rightarrow> (int \<times> int) option \<Rightarrow> (pystr \<times> int option) option \<Rightarrow> bool" where
  "window_rel window None e \<longleftrightarrow> e = None"
| "window_rel window (Some (start, n)) e \<longleftrightarrow> 1 \<le> n \<and> e = Some (int_str n, Some (start + 1000 * window))"

fun dedup_rel :: "int \<Rightarrow> int option \<Rightarrow> (pystr \<times> int option) option \<Rightarrow> bool" where
  "dedup_rel ttl None e \<longleftrightarrow> e = None"
| "dedup_rel ttl (Some a) e \<longleftrightarrow> e = Some (u ''1'', Some (a + 1000 * ttl))"

context redis
begin

lemma allow_opens:
  assumes w: "0 < window" and dead: "live_at t (view r (redis_key ns key)) = None"
  shows "fst (allow cl ns key limit window t r) = (1 \<le> limit)"
    "view (snd (allow cl ns key limit window t r)) =
       (view r)(redis_key ns key \<mapsto> (int_str 1, Some (t + 1000 * window)))"
proof -
  let ?k = "redis_key ns key"
  obtain r1 where i: "rc_incr cl ?k t r = (1, r1)"
    and v: "view r1 = (view r)(?k \<mapsto> (int_str 1, None))"
    using incr_new [OF dead] by (cases "rc_incr cl ?k t r") auto
  have "view (rc_expire cl ?k window t r1) = (view r)(?k \<mapsto> (int_str 1, Some (t + 1000 * window)))"
    using expire [OF w, of t r1 ?k] v by simp
  then show "fst (allow cl ns key limit window t r) = (1 \<le> limit)"
    "view (snd (allow cl ns key limit window t r)) =
       (view r)(?k \<mapsto> (int_str 1, Some (t + 1000 * window)))"
    using i by (simp_all add: allow_def lua_allow_def)
qed

lemma allow_counts:
  assumes e: "view r (redis_key ns key) = Some (int_str n, Some d)" and t: "t < d"
    and n: "1 \<le> n" "n < max_int64"
  shows "fst (allow cl ns key limit window t r) = (n + 1 \<le> limit)"
    "view (snd (allow cl ns key limit window t r)) =
       (view r)(redis_key ns key \<mapsto> (int_str (n + 1), Some d))"
proof -
  let ?k = "redis_key ns key"
  have "live_at t (view r ?k) = Some (int_str n, Some d)" using e t by simp
  from incr_old [OF this] n obtain r1 where i: "rc_incr cl ?k t r = (n + 1, r1)"
    and v: "view r1 = (view r)(?k \<mapsto> (int_str (n + 1), Some d))"
    by (cases "rc_incr cl ?k t r") auto
  then show "fst (allow cl ns key limit window t r) = (n + 1 \<le> limit)"
    "view (snd (allow cl ns key limit window t r)) = (view r)(?k \<mapsto> (int_str (n + 1), Some d))"
    using n by (simp_all add: allow_def lua_allow_def)
qed

lemma allow_refines:
  assumes w: "0 < window" and rel: "window_rel window st (view r (redis_key ns key))"
    and n: "\<forall>start n. st = Some (start, n) \<longrightarrow> n < max_int64"
  shows "fst (allow cl ns key limit window t r) = fst (spec_allow limit window t st) \<and>
    window_rel window (snd (spec_allow limit window t st))
      (view (snd (allow cl ns key limit window t r)) (redis_key ns key)) \<and>
    (\<forall>k'. k' \<noteq> redis_key ns key \<longrightarrow> view (snd (allow cl ns key limit window t r)) k' = view r k')"
proof (cases st)
  case None
  then have "live_at t (view r (redis_key ns key)) = None" using rel by simp
  from allow_opens [OF w this] show ?thesis using None by simp
next
  case (Some sn)
  obtain start m where sn: "sn = (start, m)" by fastforce
  then have e: "view r (redis_key ns key) = Some (int_str m, Some (start + 1000 * window))" "1 \<le> m"
    using rel Some by auto
  show ?thesis
  proof (cases "t < start + 1000 * window")
    case True
    have "m < max_int64" using n Some sn by blast
    from allow_counts [OF e(1) True e(2) this] show ?thesis using True Some sn e(2) by simp
  next
    case False
    then have "live_at t (view r (redis_key ns key)) = None" using e by simp
    from allow_opens [OF w this] show ?thesis using False Some sn by simp
  qed
qed

lemma seen_refines:
  assumes ttl: "0 < ttl" and rel: "dedup_rel ttl st (view r (redis_key ns key))"
  shows "fst (seen cl ns ttl key t r) = fst (spec_seen ttl t st) \<and>
    dedup_rel ttl (snd (spec_seen ttl t st)) (view (snd (seen cl ns ttl key t r)) (redis_key ns key)) \<and>
    (\<forall>k'. k' \<noteq> redis_key ns key \<longrightarrow> view (snd (seen cl ns ttl key t r)) k' = view r k')"
proof (cases "live_at t (view r (redis_key ns key)) = None")
  case True
  have "spec_seen ttl t st = (False, Some t)"
    using rel True by (cases st) auto
  then show ?thesis
    using set_nx_new [OF ttl True, of "u ''1''"] by (auto simp: seen_def split: prod.splits)
next
  case False
  have "\<exists>a. st = Some a \<and> t < a + 1000 * ttl" using rel False by (cases st) (auto split: if_splits)
  then have "spec_seen ttl t st = (True, st)" by auto
  then show ?thesis
    using set_nx_old [OF ttl False, of "u ''1''"] rel by (auto simp: seen_def split: prod.splits)
qed

lemma seen_calls:
  assumes ttl: "0 < ttl"
  shows "dedup_rel ttl st (view r (redis_key ns key)) \<Longrightarrow>
    fst (calls (\<lambda>t. seen cl ns ttl key t) ts r) = fst (calls (spec_seen ttl) ts st)"
proof (induction ts arbitrary: r st)
  case Nil
  then show ?case by simp
next
  case (Cons t ts)
  note step = seen_refines [OF ttl Cons.prems, of t]
  then show ?case
    using Cons.IH [of "snd (spec_seen ttl t st)" "snd (seen cl ns ttl key t r)"]
    by (simp add: split_beta)
qed

lemma allow_calls:
  assumes w: "0 < window"
  shows "window_rel window st (view r (redis_key ns key)) \<Longrightarrow>
    (case st of None \<Rightarrow> 0 | Some (start, n) \<Rightarrow> n) + int (length ts) < max_int64 \<Longrightarrow>
    fst (calls (\<lambda>t. allow cl ns key limit window t) ts r) = fst (calls (spec_allow limit window) ts st) \<and>
    (\<forall>k'. k' \<noteq> redis_key ns key \<longrightarrow>
       view (snd (calls (\<lambda>t. allow cl ns key limit window t) ts r)) k' = view r k')"
proof (induction ts arbitrary: r st)
  case Nil
  then show ?case by simp
next
  case (Cons t ts)
  have n: "\<forall>start n. st = Some (start, n) \<longrightarrow> n < max_int64" using Cons.prems(2) by auto
  note step = allow_refines [OF w Cons.prems(1) n, of limit t]
  let ?st = "snd (spec_allow limit window t st)"
  have "(case ?st of None \<Rightarrow> 0 | Some (start, n) \<Rightarrow> n) + int (length ts) < max_int64"
  proof (cases st)
    case None
    then show ?thesis using Cons.prems(2) by simp
  next
    case (Some sn)
    moreover have "1 \<le> snd sn" using Cons.prems(1) Some by (cases sn) auto
    ultimately show ?thesis using Cons.prems(2) by (cases sn) auto
  qed
  then show ?case
    using Cons.IH [of ?st "snd (allow cl ns key limit window t r)"] step
    by (simp add: split_beta)
qed

end

section \<open>The abstract limiter\<close>

text \<open>In one window: the first \<open>limit\<close> calls, then nothing.\<close>

lemma spec_in_window:
  "\<forall>t \<in> set ts. t < start + 1000 * window \<Longrightarrow>
     fst (calls (spec_allow limit window) ts (Some (start, n))) =
       map (\<lambda>i. n + 1 + int i \<le> limit) [0..<length ts] \<and>
     snd (calls (spec_allow limit window) ts (Some (start, n))) = Some (start, n + int (length ts))"
proof (induction ts arbitrary: n)
  case Nil
  then show ?case by simp
next
  case (Cons t ts)
  have "map (\<lambda>i. n + 1 + int i \<le> limit) [0..<Suc m] =
      (n + 1 \<le> limit) # map (\<lambda>i. n + 1 + 1 + int i \<le> limit) [0..<m]" for m
    by (subst upt_conv_Cons) (simp_all add: map_Suc_upt [symmetric] comp_def add.assoc del: upt_Suc)
  then show ?case using Cons.IH [of "n + 1"] Cons.prems by (simp add: split_beta del: upt_Suc)
qed

lemma calls_append:
  "calls f (ts @ us) r =
     (fst (calls f ts r) @ fst (calls f us (snd (calls f ts r))), snd (calls f us (snd (calls f ts r))))"
  by (induction ts arbitrary: r) (simp_all add: split_beta)

section \<open>Properties\<close>

text \<open>
  C28. The fixed window: starting with no counter for the key, of the calls made before the window
  closes exactly the first \<open>limit\<close> are allowed; the first call at or after
  \<open>window\<close> seconds from the call that opened it is the first of a new window.  Other keys are
  untouched.
\<close>

theorem rate_limiter_window:
  assumes "redis cl view" "view r (redis_key ns key) = None" "0 < window"
    and "\<forall>t \<in> set ts. t < t0 + 1000 * window" "t0 + 1000 * window \<le> t1"
    and "int (length ts) + 2 < max_int64"
  shows "fst (calls (\<lambda>t. allow cl ns key limit window t) (t0 # ts @ [t1]) r) =
      map (\<lambda>i. int i < limit) [0..<Suc (length ts)] @ [0 < limit] \<and>
    (\<forall>k'. k' \<noteq> redis_key ns key \<longrightarrow>
      view (snd (calls (\<lambda>t. allow cl ns key limit window t) (t0 # ts @ [t1]) r)) k' = view r k')"
proof -
  have rel: "window_rel window None (view r (redis_key ns key))" using assms(2) by simp
  have len: "(case None of None \<Rightarrow> 0 | Some (start, n) \<Rightarrow> n) + int (length (t0 # ts @ [t1])) < max_int64"
    using assms(6) by simp
  note run = redis.allow_calls [OF assms(1,3) rel len, of limit]
  note win = spec_in_window [OF assms(4), of limit 1]
  have "map (\<lambda>i. int i < limit) [0..<Suc n] = (0 < limit) # map (\<lambda>i. 1 + 1 + int i \<le> limit) [0..<n]" for n
    by (subst upt_conv_Cons) (auto simp: map_Suc_upt [symmetric] comp_def simp del: upt_Suc)
  then have "fst (calls (spec_allow limit window) (t0 # ts @ [t1]) None) =
      map (\<lambda>i. int i < limit) [0..<Suc (length ts)] @ [0 < limit]"
    using win assms(5) by (simp add: calls_append split_beta del: upt_Suc) linarith
  then show ?thesis using run by simp
qed

theorem rate_limiter_window_witness:
  "fst (calls (\<lambda>t. allow mem_client (u ''ratelimit'') (u ''a'') 2 60 t) [0, 10, 20, 59999, 60000] (\<lambda>_. None)) =
     [True, True, False, False, True]"
  using rate_limiter_window [OF mem.redis_axioms, of "\<lambda>_. None" "u ''ratelimit''" "u ''a''" 60 "[10, 20, 59999]" 0 60000 2]
  by (simp add: max_int64_def upt_rec)

text \<open>
  C30. The filter implements "recorded less than ttl ago": over any times of the calls, the answers
  are those of the abstract filter that remembers only when the key was last recorded, so a key
  is new at its first call, seen for ttl seconds, and new again from then on; the calls that
  answer "seen" do not prolong the record.
\<close>

theorem dedup_filter_ttl:
  assumes "redis cl view" "view r (redis_key ns key) = None" "0 < ttl"
  shows "fst (calls (\<lambda>t. seen cl ns ttl key t) ts r) = fst (calls (spec_seen ttl) ts None)"
  using redis.seen_calls [OF assms(1,3), of None r ns key ts] assms(2) by simp

theorem dedup_filter_ttl_witness:
  "fst (calls (\<lambda>t. seen mem_client (u ''dedup'') 5 (u ''x'') t) [0, 4000, 4999, 5000, 9999, 10000] (\<lambda>_. None)) =
     [False, True, True, False, True, False]"
  using dedup_filter_ttl [OF mem.redis_axioms, of "\<lambda>_. None" "u ''dedup''" "u ''x''" 5 "[0, 4000, 4999, 5000, 9999, 10000]"]
  by simp

text \<open>
  Namespacing: the same logical key under different prefixes is never the same Redis key, and one
  component never shares a Redis key between two logical keys.
\<close>

lemma redis_key_namespaced:
  "(redis_key p1 key = redis_key p2 key \<longleftrightarrow> p1 = p2) \<and> (redis_key p k1 = redis_key p k2 \<longleftrightarrow> k1 = k2)"
  by (simp add: redis_key_def)

end
