(* ===== verification/Registry.thy ===== *)
theory Registry
  imports PyAscii Json
begin

text \<open>
  The module registry of the repository's CI (ci-meta/registry.py) and the mapping from a diff to
  the modules it touches (ci-meta/detect_changes.py).  Git is a parameter: what a diff command
  printed, or that it failed.
\<close>

section \<open>The registry\<close>

datatype kind = Python | Rust | Pnpm
datatype services = NoServices | LightServices | HeavyServices

datatype module = Module (path: string) (kind: kind) (services: services) (why: string)

definition modules :: "(string \<times> module) list" where
  "modules =
     [
      (''01-sql-foundations'',
       Module ''01-sql-foundations'' Python LightServices
         ''Postgres only; boots and reaches healthy on a hosted runner''),
      (''02-sql-optimization'',
       Module ''02-sql-optimization'' Python HeavyServices
         ''Postgres tuned for a multi-GB bloat/locking/partitioning scenario; booting the empty container proves nothing about the seeded workload, so it is not run live on a hosted runner''),
      (''03-data-modeling'',
       Module ''03-data-modeling'' Python LightServices
         ''Postgres only; boots and reaches healthy on a hosted runner''),
      (''04-storage-and-formats'',
       Module ''04-storage-and-formats'' Python HeavyServices
         ''MinIO plus multi-GB Parquet/Delta datasets; not feasible on a hosted runner''),
      (''05-distributed-processing-spark'',
       Module ''05-distributed-processing-spark'' Python HeavyServices
         ''PySpark cluster plus MinIO; not feasible on a hosted runner''),
      (''06-pipelines-and-orchestration'',
       Module ''06-pipelines-and-orchestration'' Python HeavyServices
         ''Airflow plus Postgres plus MinIO multi-container stack; not feasible on a hosted runner''),
      (''07-streaming'',
       Module ''07-streaming'' Python HeavyServices
         ''Postgres plus redpanda (Kafka API); not feasible on a hosted runner''),
      (''08-cdc-debezium'',
       Module ''08-cdc-debezium'' Python HeavyServices
         ''Two Postgres instances plus redpanda plus Kafka Connect/Debezium; not feasible on a hosted runner''),
      (''09-olap-clickhouse-duckdb'',
       Module ''09-olap-clickhouse-duckdb'' Python HeavyServices
         ''ClickHouse at 50M-row scale; not feasible on a hosted runner''),
      (''10-nosql-patterns'',
       Module ''10-nosql-patterns'' Python LightServices
         ''Redis Stack, MongoDB, Postgres; all boot and reach healthy on a hosted runner''),
      (''11-python-concurrency'',
       Module ''11-python-concurrency'' Python NoServices
         ''No services; static checks only''),
      (''12-api-engineering'',
       Module ''12-api-engineering'' Python LightServices
         ''Postgres and Redis; boot and reach healthy on a hosted runner''),
      (''13-scraping-at-scale'',
       Module ''13-scraping-at-scale'' Python HeavyServices
         ''Local target site plus Prometheus plus Grafana multi-container stack; not feasible on a hosted runner''),
      (''14-stats-and-ml-foundations'',
       Module ''14-stats-and-ml-foundations'' Python NoServices
         ''No services; static checks only''),
      (''15-llm-in-pipelines'',
       Module ''15-llm-in-pipelines'' Python HeavyServices
         ''Ollama needs a GPU-capable host; not feasible on a hosted runner''),
      (''16-testing-engineering'',
       Module ''16-testing-engineering'' Python NoServices
         ''Uses testcontainers directly inside its own test suite, not a module-level docker-compose.yml''),
      (''17-system-design'',
       Module ''17-system-design'' Python NoServices
         ''Writing module; no services, pure document/capacity-model checks''),
      (''18-rust-track'',
       Module ''18-rust-track'' Rust NoServices
         ''Cargo workspace; no services''),
      (''19-ts-track'',
       Module ''19-ts-track'' Pnpm NoServices
         ''pnpm workspace; no services''),
      (''20-kubernetes'',
       Module ''20-kubernetes'' Python NoServices
         ''Runs a kind cluster, not docker-compose; special-cased, not booted in CI''),
      (''toolkit/t1-ai-assisted-engineering'',
       Module ''toolkit/t1-ai-assisted-engineering'' Python NoServices
         ''No services; static checks only''),
      (''toolkit/t2-modern-python-toolchain'',
       Module ''toolkit/t2-modern-python-toolchain'' Python NoServices
         ''No services; static checks only''),
      (''toolkit/t3-cli-data-toolkit'',
       Module ''toolkit/t3-cli-data-toolkit'' Python NoServices
         ''No services; static checks only''),
      (''toolkit/t4-git-advanced'',
       Module ''toolkit/t4-git-advanced'' Python NoServices
         ''No services; static checks only'')]"

definition stub_marker :: "kind \<Rightarrow> string list" where
  "stub_marker k =
     (case k of Python \<Rightarrow> [''NotImplementedError''] | Rust \<Rightarrow> [''todo!'', ''unimplemented!''] | Pnpm \<Rightarrow> [''not implemented''])"

definition all_module_ids :: "string list" where
  "all_module_ids = map fst modules"

definition get_module :: "string \<Rightarrow> module result" where
  "get_module mid = (case map_of modules mid of None \<Rightarrow> Inl KeyError | Some m \<Rightarrow> Inr m)"

section \<open>Changed files\<close>

type_synonym environ = "string \<Rightarrow> string option"

definition env_get :: "environ \<Rightarrow> string \<Rightarrow> string" where
  "env_get env k = (case env k of None \<Rightarrow> [] | Some v \<Rightarrow> v)"

definition zero_sha :: string where
  "zero_sha = replicate 40 CHR ''0''"

definition pick_base :: "environ \<Rightarrow> string" where
  "pick_base env =
     (let event_name = env_get env ''GITHUB_EVENT_NAME'';
          base_ref = env_get env ''GITHUB_BASE_REF''; before = env_get env ''GITHUB_EVENT_BEFORE'' in
      if event_name = ''pull_request'' \<and> base_ref \<noteq> [] then ''origin/'' @ base_ref
      else if event_name = ''push'' \<and> before \<noteq> [] \<and> before \<noteq> zero_sha then before
      else ''HEAD~1'')"

text \<open>\<open>git diff --name-only\<close> on a range: its output, or \<open>None\<close> for a failing command.\<close>

definition changed_files :: "(string \<Rightarrow> string option) \<Rightarrow> string \<Rightarrow> string list" where
  "changed_files git_diff base =
     (let out = (case git_diff (base @ ''...HEAD'') of
                   Some out \<Rightarrow> Some out
                 | None \<Rightarrow> git_diff ''HEAD~1'')
      in case out of None \<Rightarrow> [] | Some out \<Rightarrow> filter (\<lambda>line. line \<noteq> []) (splitlines out))"

text \<open>The inner loop of \<open>map_files_to_modules\<close>: the best match so far and the length of its path.\<close>

fun best_match :: "string \<Rightarrow> (string \<times> module) list \<Rightarrow> string option \<times> int \<Rightarrow> string option" where
  "best_match f [] (best, best_len) = best"
| "best_match f ((mid, m) # ms) (best, best_len) =
     (if startswith f (path m @ ''/'') \<and> best_len < int (length (path m))
      then best_match f ms (Some mid, int (length (path m)))
      else best_match f ms (best, best_len))"

definition posix :: "string \<Rightarrow> string" where
  "posix f = map (\<lambda>c. if c = CHR 0x5C then CHR ''/'' else c) f"

definition map_files_to_modules :: "string list \<Rightarrow> string list" where
  "map_files_to_modules files =
     (let matched = map (\<lambda>f. best_match (posix f) modules (None, -1)) files
      in filter (\<lambda>mid. Some mid \<in> set matched) all_module_ids)"

text \<open>
  What \<open>main\<close> writes: the two lines for \<open>$GITHUB_OUTPUT\<close> and the lines of the step summary when the
  variables are set, the lines it prints otherwise.
\<close>

datatype ci_output = GithubOutput (out_lines: "pystr list") (summary: "pystr list") | Stdout "pystr list"

definition pt :: "string \<Rightarrow> pystr" where
  "pt s = map code_of s"

definition modules_json :: "string list \<Rightarrow> pystr" where
  "modules_json mids = json_dumps (JList (map (\<lambda>mid. JStr (pt mid)) mids))"

definition detect_main :: "environ \<Rightarrow> (string \<Rightarrow> string option) \<Rightarrow> ci_output" where
  "detect_main env git_diff =
     (let base = pick_base env; files = changed_files git_diff base; mids = map_files_to_modules files in
      if env_get env ''GITHUB_OUTPUT'' \<noteq> [] then
        GithubOutput
          [u ''modules='' @ modules_json mids, u ''any='' @ (if mids \<noteq> [] then u ''true'' else u ''false'')]
          (if env_get env ''GITHUB_STEP_SUMMARY'' \<noteq> [] then
             [u ''## ci-meta: changed modules'', [], u ''Base: `'' @ pt base @ u ''`'', []] @
             (if mids \<noteq> [] then map (\<lambda>mid. u ''- `'' @ pt mid @ u ''`'') mids
              else [u ''(none -- no registered module touched by this diff)''])
           else [])
      else
        Stdout ([u ''base: '' @ pt base, u ''changed files: '' @ nat_str (length files), modules_json mids] @
          map (\<lambda>mid. u ''  - '' @ pt mid) mids))"

section \<open>Lemmas\<close>

lemma ids_paths: "\<forall>(mid, m) \<in> set modules. path m = mid"
  by (simp add: modules_def)

lemma distinct_ids: "distinct all_module_ids"
  by (simp add: all_module_ids_def modules_def)

text \<open>No registered directory lies inside another one.\<close>

lemma prefix_free:
  "list_all (\<lambda>a. list_all (\<lambda>b. a = b \<or> \<not> startswith (b @ ''/'') (a @ ''/'')) all_module_ids) all_module_ids"
  by (simp add: all_module_ids_def modules_def)

lemma one_module:
  assumes "a \<in> set all_module_ids" "b \<in> set all_module_ids" "startswith f (a @ ''/'')" "startswith f (b @ ''/'')"
  shows "a = b"
proof -
  have pf: "x = y \<or> \<not> prefix (y @ ''/'') (x @ ''/'')"
    if "x \<in> set all_module_ids" "y \<in> set all_module_ids" for x y
    using bspec [OF bspec [OF prefix_free [unfolded list_all_iff] that(2)] that(1)]
    unfolding startswith_prefix by (auto dest: sym)
  have "prefix (a @ ''/'') (b @ ''/'') \<or> prefix (b @ ''/'') (a @ ''/'')"
    by (rule prefix_same_cases
        [OF assms(3) [unfolded startswith_prefix] assms(4) [unfolded startswith_prefix]])
  then show ?thesis using pf [OF assms(1,2)] pf [OF assms(2,1)] by blast
qed

text \<open>The loop returns the module with the longest matching path.\<close>

definition under :: "string \<Rightarrow> module \<Rightarrow> bool" where
  "under f m \<longleftrightarrow> startswith f (path m @ ''/'')"

lemma best_match_longest:
  "(best_match f ms (best, n) = best \<and> (\<forall>im \<in> set ms. under f (snd im) \<longrightarrow> int (length (path (snd im))) \<le> n)) \<or>
   (\<exists>im \<in> set ms. best_match f ms (best, n) = Some (fst im) \<and> under f (snd im) \<and> n < int (length (path (snd im))) \<and>
      (\<forall>jm \<in> set ms. under f (snd jm) \<longrightarrow> length (path (snd jm)) \<le> length (path (snd im))))"
proof (induction ms arbitrary: best n)
  case Nil
  then show ?case by simp
next
  case (Cons im ms)
  obtain mid m where im: "im = (mid, m)" by fastforce
  let ?n = "int (length (path m))"
  show ?case
  proof (cases "under f m \<and> n < ?n")
    case True
    then have st: "best_match f (im # ms) (best, n) = best_match f ms (Some mid, ?n)"
      by (simp add: im under_def)
    from Cons.IH [of "Some mid" ?n] show ?thesis
    proof (elim disjE bexE)
      assume "best_match f ms (Some mid, ?n) = Some mid \<and>
        (\<forall>jm \<in> set ms. under f (snd jm) \<longrightarrow> int (length (path (snd jm))) \<le> ?n)"
      then show ?thesis unfolding st using True by (intro disjI2 bexI [of _ im]) (auto simp: im)
    next
      fix jm
      assume "jm \<in> set ms" "best_match f ms (Some mid, ?n) = Some (fst jm) \<and> under f (snd jm) \<and>
        ?n < int (length (path (snd jm))) \<and>
        (\<forall>jm' \<in> set ms. under f (snd jm') \<longrightarrow> length (path (snd jm')) \<le> length (path (snd jm)))"
      then show ?thesis unfolding st using True by (intro disjI2 bexI [of _ jm]) (auto simp: im)
    qed
  next
    case False
    then have st: "best_match f (im # ms) (best, n) = best_match f ms (best, n)"
      by (auto simp: im under_def)
    from Cons.IH [of best n] show ?thesis
    proof (elim disjE bexE)
      assume "best_match f ms (best, n) = best \<and>
        (\<forall>jm \<in> set ms. under f (snd jm) \<longrightarrow> int (length (path (snd jm))) \<le> n)"
      then show ?thesis unfolding st using False by (intro disjI1) (auto simp: im)
    next
      fix jm
      assume "jm \<in> set ms" "best_match f ms (best, n) = Some (fst jm) \<and> under f (snd jm) \<and>
        n < int (length (path (snd jm))) \<and>
        (\<forall>jm' \<in> set ms. under f (snd jm') \<longrightarrow> length (path (snd jm')) \<le> length (path (snd jm)))"
      then show ?thesis unfolding st using False by (intro disjI2 bexI [of _ jm]) (auto simp: im)
    qed
  qed
qed

lemma module_path: "im \<in> set modules \<Longrightarrow> path (snd im) = fst im \<and> fst im \<in> set all_module_ids"
  using bspec [OF ids_paths, of im] by (simp add: all_module_ids_def split_beta)

lemma best_match_module:
  "best_match f modules (None, -1) = Some mid \<longleftrightarrow> mid \<in> set all_module_ids \<and> startswith f (mid @ ''/'')"
  using best_match_longest [of f modules None "-1"]
proof (elim disjE bexE)
  assume n: "best_match f modules (None, -1) = None \<and>
    (\<forall>im \<in> set modules. under f (snd im) \<longrightarrow> int (length (path (snd im))) \<le> -1)"
  have "\<not> startswith f (mid @ ''/'')" if i: "mid \<in> set all_module_ids"
  proof -
    obtain im where im: "im \<in> set modules" "fst im = mid" using i by (auto simp: all_module_ids_def)
    then have "\<not> under f (snd im)" using n by fastforce
    then show ?thesis using module_path [OF im(1)] im(2) by (simp add: under_def)
  qed
  then show ?thesis using n by auto
next
  fix im
  assume im: "im \<in> set modules" and b: "best_match f modules (None, -1) = Some (fst im) \<and> under f (snd im) \<and>
    -1 < int (length (path (snd im))) \<and>
    (\<forall>jm \<in> set modules. under f (snd jm) \<longrightarrow> length (path (snd jm)) \<le> length (path (snd im)))"
  have "startswith f (fst im @ ''/'')" using b module_path [OF im] by (simp add: under_def)
  then show ?thesis using b module_path [OF im] one_module [of mid "fst im" f] by auto
qed

lemma code_of_less: "code_of c < 256"
  unfolding code_of_def by (rule nat_of_char_less_256)

section \<open>Properties\<close>

text \<open>
  The mapping from a diff to the module matrix: a registered module is in the matrix exactly
  when some changed file, with backslashes read as slashes, lies under its directory; the matrix
  lists the modules in registry order without duplicates; and no file counts for two modules.
\<close>

theorem changed_modules_exact:
  "(\<forall>mid. mid \<in> set (map_files_to_modules files) \<longleftrightarrow>
      mid \<in> set all_module_ids \<and> (\<exists>f \<in> set files. startswith (posix f) (mid @ ''/''))) \<and>
   map_files_to_modules files = filter (\<lambda>mid. mid \<in> set (map_files_to_modules files)) all_module_ids \<and>
   distinct (map_files_to_modules files)"
proof -
  have m: "mid \<in> set (map_files_to_modules files) \<longleftrightarrow>
      mid \<in> set all_module_ids \<and> (\<exists>f \<in> set files. startswith (posix f) (mid @ ''/''))" for mid
    using best_match_module [of _ mid] by (force simp: map_files_to_modules_def Let_def)
  have "map_files_to_modules files = filter (\<lambda>mid. mid \<in> set (map_files_to_modules files)) all_module_ids"
    by (auto simp: map_files_to_modules_def Let_def intro: filter_cong)
  moreover have "distinct (map_files_to_modules files)"
    using distinct_ids by (simp add: map_files_to_modules_def Let_def)
  ultimately show ?thesis using m by blast
qed

text \<open>
  The line for the workflow's matrix round-trips: whatever the environment and the diff, the
  JSON after \<open>modules=\<close> parses back to the list of changed modules.
\<close>

theorem modules_line_roundtrip:
  "json_loads (modules_json (map_files_to_modules files)) =
     Inr (JList (map (\<lambda>mid. JStr (pt mid)) (map_files_to_modules files)))"
proof -
  have "code_point (code_of c)" for c :: char
    using code_of_less [of c] by (simp add: code_point_def)
  then have "list_all code_point (pt mid)" for mid by (simp add: pt_def list_all_iff)
  then show ?thesis unfolding modules_json_def by (intro json_loads_dumps) (simp add: list_all_iff)
qed

end
