(* ===== verification/FileTree.thy ===== *)
theory FileTree
  imports PyAscii
begin

text \<open>
  A directory tree as the scripts see it through \<open>pathlib\<close> and \<open>os.walk\<close>: named entries in the
  order the operating system lists them, file contents as text, \<open>None\<close> for a file that cannot be
  read.
\<close>

datatype fs = File "string option" | Dir "(string \<times> fs) list"

fun entries :: "fs \<Rightarrow> (string \<times> fs) list" where
  "entries (File c) = []"
| "entries (Dir es) = es"

definition is_dir :: "fs option \<Rightarrow> bool" where
  "is_dir t = (case t of Some (Dir _) \<Rightarrow> True | _ \<Rightarrow> False)"

definition is_file :: "fs option \<Rightarrow> bool" where
  "is_file t = (case t of Some (File _) \<Rightarrow> True | _ \<Rightarrow> False)"

fun lookup :: "fs \<Rightarrow> string list \<Rightarrow> fs option" where
  "lookup t [] = Some t"
| "lookup t (n # ns) = (case map_of (entries t) n of None \<Rightarrow> None | Some t' \<Rightarrow> lookup t' ns)"

text \<open>
  \<open>os.walk\<close> from the top with the directories in \<open>prune\<close> left out: the files of a directory first,
  then those of its subdirectories, each with its path below the start.
\<close>

fun walk_files :: "string list \<Rightarrow> fs \<Rightarrow> (string list \<times> string option) list" where
  "walk_files prune (File c) = []"
| "walk_files prune (Dir es) =
     concat (map (\<lambda>(n, t). case t of File c \<Rightarrow> [([n], c)] | Dir _ \<Rightarrow> []) es) @
     concat (map (\<lambda>(n, t). if n \<in> set prune then [] else map (\<lambda>(p, c). (n # p, c)) (walk_files prune t)) es)"

text \<open>\<open>any(d.rglob(name))\<close>.\<close>

fun has_named :: "string \<Rightarrow> fs \<Rightarrow> bool" where
  "has_named name (File c) = False"
| "has_named name (Dir es) = list_ex (\<lambda>(n, t). n = name \<or> has_named name t) es"

text \<open>\<open>_read_text\<close>: an unreadable file reads as empty.\<close>

definition read_text :: "string option \<Rightarrow> string" where
  "read_text c = (case c of None \<Rightarrow> [] | Some t \<Rightarrow> t)"

lemma walk_files_sound:
  "(p, c) \<in> set (walk_files prune t) \<Longrightarrow> p \<noteq> [] \<and> (\<forall>d \<in> set (butlast p). d \<notin> set prune)"
proof (induction t arbitrary: p c)
  case (File x)
  then show ?case by simp
next
  case (Dir es)
  then consider n where "p = [n]"
    | n t' q where "(n, t') \<in> set es" "n \<notin> set prune" "(q, c) \<in> set (walk_files prune t')" "p = n # q"
    by (auto split: fs.splits if_splits)
  then show ?case
  proof cases
    case 1
    then show ?thesis by simp
  next
    case 2
    then have "q \<noteq> [] \<and> (\<forall>d \<in> set (butlast q). d \<notin> set prune)"
      using Dir.IH [of "(n, t')" t' q c] by simp
    then show ?thesis using 2 by auto
  qed
qed

text \<open>The walk visits exactly the files that are reachable without a pruned directory.\<close>

inductive file_at :: "string list \<Rightarrow> fs \<Rightarrow> string list \<Rightarrow> string option \<Rightarrow> bool" for prune where
  here: "(n, File c) \<in> set es \<Longrightarrow> file_at prune (Dir es) [n] c"
| below: "(n, t) \<in> set es \<Longrightarrow> n \<notin> set prune \<Longrightarrow> file_at prune t p c \<Longrightarrow> file_at prune (Dir es) (n # p) c"

inductive_cases file_at_Dir: "file_at prune (Dir es) p c"
inductive_cases file_at_File: "file_at prune (File x) p c"

lemma walk_files_iff: "(p, c) \<in> set (walk_files prune t) \<longleftrightarrow> file_at prune t p c"
proof (induction t arbitrary: p c)
  case (File x)
  then show ?case by (auto elim: file_at_File)
next
  case (Dir es)
  have ih: "(q, c) \<in> set (walk_files prune t') \<longleftrightarrow> file_at prune t' q c" if "(n, t') \<in> set es" for n t' q c
    using Dir.IH [of "(n, t')" t' q c] that by simp
  show ?case
  proof
    assume "(p, c) \<in> set (walk_files prune (Dir es))"
    then show "file_at prune (Dir es) p c"
      using ih by (auto split: fs.splits if_splits intro: file_at.intros)
  next
    assume "file_at prune (Dir es) p c"
    then show "(p, c) \<in> set (walk_files prune (Dir es))"
      by (rule file_at_Dir) (use ih in \<open>force split: fs.splits\<close>)+
  qed
qed

end
