(* ===== verification/ModuleCi.thy ===== *)
theory ModuleCi
  imports Registry FileTree
begin

text \<open>
  The per-module CI of ci-meta (checks.py and run_module_ci.py).  The repository is a file tree;
  what git, uv and docker answer is a parameter; the commands run and the lines printed are a
  trace.  A reason text is a constructor that carries the values the text interpolates.
\<close>

section \<open>Reasons\<close>

datatype failure =
    NoSuchModule string
  | NoModuleDir string
  | NoTaskDirs string
  | MissingFile string string
  | UnknownKind string
  | GitFailed string
  | SolutionTracked string
  | NoStubMarker string
  | DocFilledIn "string list"
  | LockOutdated string
  | NoComposeFile string
  | Unhealthy string
  | RequiredFiles failure
  | NoSolution failure

section \<open>checks.py\<close>

definition prune_dirs :: "string list" where
  "prune_dirs =
     [''node_modules'', ''.venv'', ''target'', ''__pycache__'', ''.git'', ''data'', ''dist'', ''build'',
      ''.ruff_cache'', ''.mypy_cache'', ''.pytest_cache'', ''scratch'', ''work'']"

definition deliverable_doc_names :: "string list" where
  "deliverable_doc_names =
     [''ANSWER.md'', ''DESIGN.md'', ''POLICY.md'', ''REVIEW.md'', ''MAPPING.md'', ''RECON.md'', ''ANALYSIS.md'']"

definition unfilled_markers :: "string list" where
  "unfilled_markers = [''fill in'', ''[fill'', ''answer here'']"

definition task_name :: "string \<Rightarrow> bool" where
  "task_name n \<longleftrightarrow> 3 \<le> length n \<and> list_all digit_char (take 2 n) \<and> n ! 2 = CHR ''-''"

definition iter_source_files :: "fs \<Rightarrow> string list \<Rightarrow> (string list \<times> string option) list" where
  "iter_source_files t extensions =
     filter (\<lambda>(p, c). list_ex (\<lambda>e. endswith (last p) e) extensions) (walk_files prune_dirs t)"

definition iter_named_files :: "fs \<Rightarrow> string list \<Rightarrow> (string list \<times> string option) list" where
  "iter_named_files t names = filter (\<lambda>(p, c). last p \<in> set names) (walk_files prune_dirs t)"

definition task_dirs :: "fs \<Rightarrow> (string \<times> fs) list" where
  "task_dirs t =
     sort_key fst (filter (\<lambda>(n, d). is_dir (Some d) \<and> (task_name n \<or> n = ''k8s-bonus'')) (entries t))"

definition has_file :: "fs \<Rightarrow> string \<Rightarrow> bool" where
  "has_file t name = is_file (lookup t [name])"

definition check_task :: "string \<Rightarrow> fs \<Rightarrow> failure option" where
  "check_task rel d =
     (if \<not> has_file d ''README.md'' then Some (MissingFile rel ''README.md'')
      else if \<not> has_file d ''NOTES.md'' then Some (MissingFile rel ''NOTES.md'')
      else case lookup d [''hints''] of
          Some (Dir es) \<Rightarrow>
            map_option (\<lambda>hint. MissingFile (rel @ ''/hints'') hint)
              (find (\<lambda>hint. \<not> has_file (Dir es) hint) [''hint-1.md'', ''hint-2.md'', ''hint-3.md''])
        | _ \<Rightarrow> None)"

definition check_project_files :: "module \<Rightarrow> fs \<Rightarrow> failure option" where
  "check_project_files entry d =
     (case kind entry of
        Python \<Rightarrow>
          if \<not> has_file d ''pyproject.toml'' then Some (MissingFile (path entry) ''pyproject.toml'')
          else if \<not> has_file d ''uv.lock'' then Some (MissingFile (path entry) ''uv.lock'') else None
      | Rust \<Rightarrow>
          if (has_file d ''Cargo.toml'' \<or> has_named ''Cargo.toml'' d) \<and>
             (has_file d ''Cargo.lock'' \<or> has_named ''Cargo.lock'' d)
          then None else Some (MissingFile (path entry) ''Cargo.toml/Cargo.lock'')
      | Pnpm \<Rightarrow>
          if \<not> has_file d ''package.json'' then Some (MissingFile (path entry) ''package.json'')
          else if \<not> has_file d ''pnpm-lock.yaml'' then Some (MissingFile (path entry) ''pnpm-lock.yaml'')
          else None)"

text \<open>The first failure of a list of checks, as the early returns of the loop.\<close>

fun first_failure :: "failure option list \<Rightarrow> failure option" where
  "first_failure [] = None"
| "first_failure (None # fs) = first_failure fs"
| "first_failure (Some f # fs) = Some f"

definition check_required_files :: "fs \<Rightarrow> string \<Rightarrow> failure option" where
  "check_required_files repo module_id =
     (case get_module module_id of
        Inl e \<Rightarrow> Some (NoSuchModule module_id)
      | Inr entry \<Rightarrow>
          (case lookup repo (components (path entry)) of
             Some (Dir es) \<Rightarrow>
               (let d = Dir es; tasks = task_dirs d in
                if tasks = [] then Some (NoTaskDirs (path entry))
                else case first_failure (map (\<lambda>(n, t). check_task (path entry @ ''/'' @ n) t) tasks) of
                    Some f \<Rightarrow> Some f
                  | None \<Rightarrow> check_project_files entry d)
           | _ \<Rightarrow> Some (NoModuleDir (path entry))))"

definition extensions_of :: "kind \<Rightarrow> string list" where
  "extensions_of k = (case k of Python \<Rightarrow> [''.py''] | Rust \<Rightarrow> [''.rs''] | Pnpm \<Rightarrow> [''.ts'', ''.tsx''])"

text \<open>\<open>git ls-files\<close> on the module's path: its output, \<open>None\<close> when it fails.\<close>

definition check_no_solution :: "fs \<Rightarrow> (string \<Rightarrow> string option) \<Rightarrow> string \<Rightarrow> failure option" where
  "check_no_solution repo git_ls module_id =
     (case get_module module_id of
        Inl e \<Rightarrow> Some (NoSuchModule module_id)
      | Inr entry \<Rightarrow>
          (case git_ls (path entry) of
             None \<Rightarrow> Some (GitFailed (path entry))
           | Some out \<Rightarrow>
               (let tracked = filter (\<lambda>l. l \<noteq> []) (splitlines out);
                    d = (case lookup repo (components (path entry)) of None \<Rightarrow> Dir [] | Some d \<Rightarrow> d);
                    markers = stub_marker (kind entry);
                    sources = concat (map (\<lambda>(n, t). iter_source_files t (extensions_of (kind entry))) (task_dirs d))
                in case find (\<lambda>f. startswith (file_name f) ''solution.'') tracked of
                    Some f \<Rightarrow> Some (SolutionTracked f)
                  | None \<Rightarrow>
                      if sources \<noteq> [] \<and> kind entry \<in> {Rust, Pnpm} \<and>
                         \<not> list_ex (\<lambda>(p, c). list_ex (\<lambda>m. contains m (read_text c)) markers) sources
                      then Some (NoStubMarker (path entry))
                      else map_option (\<lambda>(p, c). DocFilledIn (components (path entry) @ p))
                        (find (\<lambda>(p, c). let text = lower (read_text c) in
                           text \<noteq> [] \<and> \<not> list_ex (\<lambda>m. contains m text) unfilled_markers)
                         (iter_named_files d deliverable_doc_names)))))"

section \<open>run_module_ci.py\<close>

datatype ci_event = Notice string | ErrorLine string failure | Print string | PrintFailure failure | Cmd "string list"

text \<open>
  A command gives its exit code and its error and standard output, or \<open>subprocess.run\<close> raises: an
  error (the program cannot be started, its output cannot be decoded) or an interrupt.
\<close>

datatype exn = Failed string | Interrupted

datatype 'a outcome = Done 'a | Raised exn

record ci_env =
  uv_on_path :: bool
  uv_lock :: "(int \<times> string \<times> string) outcome"
  docker_on_path :: bool
  docker_info :: "int outcome"
  compose_up :: "(int \<times> string \<times> string) outcome"
  compose_down :: "unit outcome"

text \<open>A part of the run with its trace, and what comes after it unless it raises.\<close>

definition then_do :: "'a outcome \<times> ci_event list \<Rightarrow> ('a \<Rightarrow> 'b outcome \<times> ci_event list) \<Rightarrow> 'b outcome \<times> ci_event list" where
  "then_do m f = (case m of (Raised e, tr) \<Rightarrow> (Raised e, tr) | (Done x, tr) \<Rightarrow> (fst (f x), tr @ snd (f x)))"

text \<open>The last line of the error output, or of the standard output when that is empty.\<close>

definition detail :: "string \<Rightarrow> string \<Rightarrow> string \<Rightarrow> string" where
  "detail err out fallback =
     (let lines = splitlines (strip (if err \<noteq> [] then err else out)) in
      if lines \<noteq> [] then last lines else fallback)"

definition uv_lock_check :: "ci_env \<Rightarrow> failure option outcome \<times> ci_event list" where
  "uv_lock_check env =
     (if \<not> uv_on_path env
      then (Done None, [Notice ''uv not found on PATH; skipping `uv lock --check` (would run in CI)''])
      else then_do (uv_lock env, [Cmd [''uv'', ''lock'', ''--check'']]) (\<lambda>(rc, err, out).
        (Done (if rc \<noteq> 0 then Some (LockOutdated (detail err out ''uv lock --check failed'')) else None), [])))"

definition docker_available :: "ci_env \<Rightarrow> bool outcome \<times> ci_event list" where
  "docker_available env =
     (if \<not> docker_on_path env then (Done False, [])
      else then_do (docker_info env, [Cmd [''docker'', ''info'']]) (\<lambda>rc. (Done (rc = 0), [])))"

definition up_cmd :: "string \<Rightarrow> string list" where
  "up_cmd file = [''docker'', ''compose'', ''-f'', file, ''up'', ''-d'', ''--wait'']"

definition down_cmd :: "string \<Rightarrow> string list" where
  "down_cmd file = [''docker'', ''compose'', ''-f'', file, ''down'', ''-v'']"

text \<open>
  \<open>up\<close> runs before the \<open>try\<close>: when it raises, no \<open>down\<close> follows.  The \<open>finally\<close> runs \<open>down\<close> on both
  returns; what \<open>down\<close> raises replaces them.
\<close>

definition run_light_services :: "ci_env \<Rightarrow> fs \<Rightarrow> string \<Rightarrow> string \<Rightarrow> failure option outcome \<times> ci_event list" where
  "run_light_services env d compose_file module_id =
     (if \<not> has_file d ''docker-compose.yml'' then (Done (Some (NoComposeFile module_id)), [])
      else then_do (docker_available env) (\<lambda>available.
        if \<not> available then (Done None, [Notice module_id])
        else then_do (compose_up env, [Cmd (up_cmd compose_file)]) (\<lambda>(rc, err, out).
          then_do (compose_down env, [Cmd (down_cmd compose_file)]) (\<lambda>_.
            (Done (if rc \<noteq> 0 then Some (Unhealthy (detail err out ''docker compose up --wait failed'')) else None), [])))))"

definition run :: "ci_env \<Rightarrow> fs \<Rightarrow> (string \<Rightarrow> string option) \<Rightarrow> string \<Rightarrow> failure option outcome \<times> ci_event list" where
  "run env repo git_ls module_id =
     (case get_module module_id of
        Inl e \<Rightarrow> (Done (Some (NoSuchModule module_id)), [])
      | Inr entry \<Rightarrow>
          (case check_required_files repo module_id of
             Some f \<Rightarrow> (Done (Some (RequiredFiles f)), [])
           | None \<Rightarrow>
               (case check_no_solution repo git_ls module_id of
                  Some f \<Rightarrow> (Done (Some (NoSolution f)), [])
                | None \<Rightarrow>
                    (let d = (case lookup repo (components (path entry)) of None \<Rightarrow> Dir [] | Some d \<Rightarrow> d)
                     in then_do (if kind entry = Python then uv_lock_check env else (Done None, [])) (\<lambda>uv.
                       case uv of
                         Some f \<Rightarrow> (Done (Some f), [])
                       | None \<Rightarrow>
                           (case services entry of
                              LightServices \<Rightarrow> run_light_services env d (path entry @ ''/docker-compose.yml'') module_id
                            | HeavyServices \<Rightarrow> (Done None, [Notice (module_id @ why entry)])
                            | NoServices \<Rightarrow> (Done None, [])))))))"

definition main :: "ci_env \<Rightarrow> fs \<Rightarrow> (string \<Rightarrow> string option) \<Rightarrow> string list \<Rightarrow> int outcome \<times> ci_event list" where
  "main env repo git_ls args =
     (case args of
        [module_id] \<Rightarrow>
          then_do (run env repo git_ls module_id) (\<lambda>res.
            case res of
              None \<Rightarrow> (Done 0, [Print ''PASSED''])
            | Some f \<Rightarrow> (Done 1, [ErrorLine module_id f, PrintFailure f]))
      | _ \<Rightarrow> (Done 1, [Print ''NOT PASSED: usage: python run_module_ci.py <module-id>'']))"

text \<open>The script: an error raised through \<open>main\<close> is printed and ends with 1; an interrupt is not caught.\<close>

definition script :: "ci_env \<Rightarrow> fs \<Rightarrow> (string \<Rightarrow> string option) \<Rightarrow> string list \<Rightarrow> int outcome \<times> ci_event list" where
  "script env repo git_ls args =
     (case main env repo git_ls args of
        (Raised (Failed msg), tr) \<Rightarrow> (Done 1, tr @ [Print (''NOT PASSED: '' @ msg)])
      | (r, tr) \<Rightarrow> (r, tr))"

section \<open>Lemmas\<close>

lemma first_failure_None: "first_failure fs = None \<longleftrightarrow> (\<forall>f \<in> set fs. f = None)"
  by (induction fs rule: first_failure.induct) auto

lemma get_module_Inr: "get_module mid = Inr m \<longleftrightarrow> map_of modules mid = Some m"
  by (simp add: get_module_def split: option.splits)

lemma sources_files:
  "(p, c) \<in> set (iter_source_files t exts) \<longleftrightarrow> file_at prune_dirs t p c \<and> (\<exists>e \<in> set exts. endswith (last p) e)"
  by (auto simp: iter_source_files_def walk_files_iff list_ex_iff)

lemma named_files:
  "(p, c) \<in> set (iter_named_files t names) \<longleftrightarrow> file_at prune_dirs t p c \<and> last p \<in> set names"
  by (auto simp: iter_named_files_def walk_files_iff)

text \<open>A trace in which containers that are started are taken down by the very next command.\<close>

fun torn_down :: "string \<Rightarrow> ci_event list \<Rightarrow> bool" where
  "torn_down file [] = True"
| "torn_down file (e # tr) =
     (if e = Cmd (up_cmd file) then (case tr of e' # tr' \<Rightarrow> e' = Cmd (down_cmd file) \<and> torn_down file tr' | [] \<Rightarrow> False)
      else torn_down file tr)"

lemma torn_down_append: "Cmd (up_cmd file) \<notin> set tr \<Longrightarrow> torn_down file (tr @ tr') = torn_down file tr'"
  by (induction tr) auto

lemma torn_down_concat: "torn_down file xs \<Longrightarrow> torn_down file ys \<Longrightarrow> torn_down file (xs @ ys)"
  by (induction xs rule: torn_down.induct) (auto split: list.splits if_splits)

lemma torn_down_none: "Cmd (up_cmd file) \<notin> set tr \<Longrightarrow> torn_down file tr"
  using torn_down_append [of "file" tr "[]"] by simp

lemma then_do_cases:
  "(\<exists>e. fst m = Raised e \<and> then_do m f = (Raised e, snd m)) \<or> (\<exists>x. fst m = Done x \<and> then_do m f = (fst (f x), snd m @ snd (f x)))"
  by (cases m; cases "fst m") (auto simp: then_do_def)

lemma then_do_trace: "set (snd (then_do m f)) \<subseteq> set (snd m) \<union> (\<Union>x. set (snd (f x)))"
  using then_do_cases [of m f] by auto

lemma then_do_torn_down: "torn_down file (snd m) \<Longrightarrow> (\<And>x. torn_down file (snd (f x))) \<Longrightarrow> torn_down file (snd (then_do m f))"
  using then_do_cases [of m f] torn_down_concat [of "file" "snd m"] by auto

text \<open>The commands other than those of docker compose.\<close>

definition plain :: "ci_event list \<Rightarrow> bool" where
  "plain tr \<longleftrightarrow> (\<forall>file. Cmd (up_cmd file) \<notin> set tr \<and> Cmd (down_cmd file) \<notin> set tr)"

lemma plain_simps [simp]:
  "plain []" "plain (Notice n # tr) = plain tr" "plain (Print n # tr) = plain tr" "plain (ErrorLine n g # tr) = plain tr"
  "plain (PrintFailure g # tr) = plain tr" "plain (xs @ ys) \<longleftrightarrow> plain xs \<and> plain ys"
  by (auto simp: plain_def)

lemma then_do_plain: "plain (snd m) \<Longrightarrow> (\<And>x. plain (snd (f x))) \<Longrightarrow> plain (snd (then_do m f))"
  using then_do_cases [of m f] by auto

lemma uv_plain: "plain (snd (uv_lock_check env))"
  unfolding uv_lock_check_def by (auto intro!: then_do_plain) (simp add: plain_def up_cmd_def down_cmd_def)

lemma docker_plain: "plain (snd (docker_available env))"
  unfolding docker_available_def by (auto intro!: then_do_plain) (simp add: plain_def up_cmd_def down_cmd_def)

text \<open>How a trace looks when \<open>up\<close> has returned, and when it has raised.\<close>

definition compose_ok :: "ci_env \<Rightarrow> string \<Rightarrow> ci_event list \<Rightarrow> bool" where
  "compose_ok env file tr \<longleftrightarrow>
     (\<forall>r. compose_up env = Done r \<longrightarrow> torn_down file tr) \<and> (\<forall>e. compose_up env = Raised e \<longrightarrow> Cmd (down_cmd file) \<notin> set tr)"

lemma plain_compose_ok: "plain tr \<Longrightarrow> compose_ok env file tr"
  by (simp add: compose_ok_def plain_def torn_down_none)

lemma compose_ok_append: "compose_ok env file xs \<Longrightarrow> compose_ok env file ys \<Longrightarrow> compose_ok env file (xs @ ys)"
  by (auto simp: compose_ok_def torn_down_concat)

lemma then_do_compose_ok:
  "compose_ok env file (snd m) \<Longrightarrow> (\<And>x. compose_ok env file (snd (f x))) \<Longrightarrow> compose_ok env file (snd (then_do m f))"
  using then_do_cases [of m f] compose_ok_append [of "env" "file" "snd m"] by auto

lemma up_down_ok: "compose_ok env file (snd (then_do (compose_up env, [Cmd (up_cmd file)]) (\<lambda>(rc, err, out).
    then_do (compose_down env, [Cmd (down_cmd file)]) (\<lambda>_. (Done (g rc err out), [])))))"
proof (cases "compose_up env")
  case (Done r)
  then show ?thesis
    by (cases "compose_down env") (auto simp: compose_ok_def then_do_def up_cmd_def down_cmd_def split: prod.split)
next
  case (Raised e)
  then show ?thesis by (auto simp: compose_ok_def then_do_def up_cmd_def down_cmd_def)
qed

lemma light_ok: "compose_ok env file (snd (run_light_services env d file mid))"
  unfolding run_light_services_def
proof (split if_split, intro conjI impI)
  show "compose_ok env file (snd (Done (Some (NoComposeFile mid)) :: failure option outcome, []))" by (simp add: plain_compose_ok)
next
  show "compose_ok env file (snd (then_do (docker_available env) (\<lambda>available.
        if \<not> available then (Done None, [Notice mid])
        else then_do (compose_up env, [Cmd (up_cmd file)]) (\<lambda>(rc, err, out).
          then_do (compose_down env, [Cmd (down_cmd file)]) (\<lambda>_.
            (Done (if rc \<noteq> 0 then Some (Unhealthy (detail err out ''docker compose up --wait failed'')) else None), []))))))"
    by (rule then_do_compose_ok [OF plain_compose_ok [OF docker_plain]]) (simp add: plain_compose_ok up_down_ok)
qed

lemma run_trace:
  assumes m: "get_module mid = Inr m"
  shows "compose_ok env (path m @ ''/docker-compose.yml'') (snd (run env repo git mid))"
    "services m \<noteq> LightServices \<Longrightarrow> plain (snd (run env repo git mid))"
proof -
  show "compose_ok env (path m @ ''/docker-compose.yml'') (snd (run env repo git mid))"
    unfolding run_def m sum.case Let_def
    by (auto simp: plain_compose_ok uv_plain light_ok intro!: then_do_compose_ok split: option.split services.split)
  show "services m \<noteq> LightServices \<Longrightarrow> plain (snd (run env repo git mid))"
    unfolding run_def m sum.case Let_def
    by (auto simp: uv_plain intro!: then_do_plain split: option.split services.split)
qed

lemma run_passes:
  assumes "fst (run env repo git mid) = Done None"
  shows "\<exists>m. get_module mid = Inr m \<and> check_required_files repo mid = None \<and> check_no_solution repo git mid = None"
  using assms by (auto simp: run_def split: sum.splits option.splits)

lemma check_task_ok:
  "check_task rel d = None \<longleftrightarrow> has_file d ''README.md'' \<and> has_file d ''NOTES.md'' \<and>
     (\<forall>es. lookup d [''hints''] = Some (Dir es) \<longrightarrow>
        (\<forall>hint \<in> {''hint-1.md'', ''hint-2.md'', ''hint-3.md''}. has_file (Dir es) hint))"
  by (auto simp: check_task_def find_None_iff split: option.splits fs.splits)

lemma required_files_ok:
  assumes "check_required_files repo mid = None" "get_module mid = Inr m"
  shows "\<exists>d. lookup repo (components (path m)) = Some d \<and> task_dirs d \<noteq> [] \<and>
    (\<forall>(n, t) \<in> set (task_dirs d). \<exists>rel. check_task rel t = None) \<and> check_project_files m d = None"
  using assms
  by (auto simp: check_required_files_def Let_def first_failure_None split: option.splits fs.splits if_splits)

lemma no_solution_ok:
  assumes "check_no_solution repo git mid = None" "get_module mid = Inr m" "lookup repo (components (path m)) = Some d"
  shows "\<exists>out. git (path m) = Some out \<and>
    (\<forall>f \<in> set (splitlines out). f \<noteq> [] \<longrightarrow> \<not> startswith (file_name f) ''solution.'') \<and>
    (\<forall>p c. file_at prune_dirs d p c \<and> last p \<in> set deliverable_doc_names \<and> read_text c \<noteq> [] \<longrightarrow>
      (\<exists>marker \<in> set unfilled_markers. contains marker (lower (read_text c)))) \<and>
    (kind m \<in> {Rust, Pnpm} \<and> (\<exists>(n, t) \<in> set (task_dirs d). \<exists>x. x \<in> set (iter_source_files t (extensions_of (kind m)))) \<longrightarrow>
      (\<exists>(n, t) \<in> set (task_dirs d). \<exists>p c. file_at prune_dirs t p c \<and>
         (\<exists>marker \<in> set (stub_marker (kind m)). contains marker (read_text c))))"
proof -
  obtain out where out: "git (path m) = Some out"
    using assms by (auto simp: check_no_solution_def split: option.splits)
  let ?tracked = "filter (\<lambda>l. l \<noteq> []) (splitlines out)"
  let ?sources = "concat (map (\<lambda>(n, t). iter_source_files t (extensions_of (kind m))) (task_dirs d))"
  have sol: "find (\<lambda>f. startswith (file_name f) ''solution.'') ?tracked = None"
    and stub: "\<not> (?sources \<noteq> [] \<and> kind m \<in> {Rust, Pnpm} \<and>
      \<not> list_ex (\<lambda>(p, c). list_ex (\<lambda>mk. contains mk (read_text c)) (stub_marker (kind m))) ?sources)"
    and doc: "find (\<lambda>(p, c). let text = lower (read_text c) in
        text \<noteq> [] \<and> \<not> list_ex (\<lambda>mk. contains mk text) unfilled_markers) (iter_named_files d deliverable_doc_names) = None"
    using assms out unfolding check_no_solution_def by (simp_all add: Let_def split: option.splits if_splits)
  have "\<forall>f \<in> set (splitlines out). f \<noteq> [] \<longrightarrow> \<not> startswith (file_name f) ''solution.''"
    using sol by (auto simp: find_None_iff)
  moreover have "\<exists>marker \<in> set unfilled_markers. contains marker (lower (read_text c))"
    if "file_at prune_dirs d p c" "last p \<in> set deliverable_doc_names" "read_text c \<noteq> []" for p c
  proof -
    have "(p, c) \<in> set (iter_named_files d deliverable_doc_names)" using that by (simp add: named_files)
    then show ?thesis using doc that(3) by (fastforce simp: find_None_iff list_ex_iff lower_def)
  qed
  moreover have "\<exists>(n, t) \<in> set (task_dirs d). \<exists>p c. file_at prune_dirs t p c \<and>
      (\<exists>marker \<in> set (stub_marker (kind m)). contains marker (read_text c))"
    if k: "kind m \<in> {Rust, Pnpm}" and
      x: "\<exists>(n, t) \<in> set (task_dirs d). \<exists>x. x \<in> set (iter_source_files t (extensions_of (kind m)))"
  proof -
    have "?sources \<noteq> []" using x by fastforce
    then obtain n t p c mk where "(n, t) \<in> set (task_dirs d)" "(p, c) \<in> set (iter_source_files t (extensions_of (kind m)))"
      "mk \<in> set (stub_marker (kind m))" "contains mk (read_text c)"
      using stub k by (auto simp: list_ex_iff)
    then show ?thesis by (force simp: sources_files)
  qed
  ultimately show ?thesis using out by blast
qed

section \<open>Properties\<close>

text \<open>
  C15. Containers and the module CI, whatever docker, uv and git answer: when \<open>docker compose up\<close>
  returns, healthy or not, it is followed at once by the matching \<open>down -v\<close>, whatever comes after; when
  \<open>subprocess.run\<close> raises in it, no \<open>down\<close> is run at all, so what it has started stays; and only a
  module classified light starts containers.
\<close>

theorem module_ci_tears_down:
  assumes "get_module mid = Inr m"
  shows "(\<forall>r. compose_up env = Done r \<longrightarrow> torn_down (path m @ ''/docker-compose.yml'') (snd (script env repo git [mid]))) \<and>
    (\<forall>e. compose_up env = Raised e \<longrightarrow> Cmd (down_cmd (path m @ ''/docker-compose.yml'')) \<notin> set (snd (script env repo git [mid]))) \<and>
    (services m \<noteq> LightServices \<longrightarrow> (\<forall>file. Cmd (up_cmd file) \<notin> set (snd (script env repo git [mid]))))"
proof -
  let ?file = "path m @ ''/docker-compose.yml''"
  have main: "compose_ok env ?file (snd (main env repo git [mid]))"
    "services m \<noteq> LightServices \<Longrightarrow> plain (snd (main env repo git [mid]))"
    unfolding main_def list.case
    by (rule then_do_compose_ok [OF run_trace(1) [OF assms]], simp add: plain_compose_ok split: option.split)
       (rule then_do_plain [OF run_trace(2) [OF assms]], simp_all split: option.split)
  have "\<exists>tr'. plain tr' \<and> snd (script env repo git [mid]) = snd (main env repo git [mid]) @ tr'"
    by (auto simp: script_def split: prod.split outcome.split exn.split intro: exI [of _ "[]"])
  then obtain tr' where tr: "plain tr'" "snd (script env repo git [mid]) = snd (main env repo git [mid]) @ tr'" by blast
  then have "compose_ok env ?file (snd (script env repo git [mid]))"
    using compose_ok_append [OF main(1) plain_compose_ok [OF tr(1)]] by simp
  moreover have "services m \<noteq> LightServices \<Longrightarrow> plain (snd (script env repo git [mid]))" using main(2) tr by simp
  ultimately show ?thesis unfolding compose_ok_def plain_def by blast
qed

text \<open>A light module that passes the checks, and docker with containers that do not become healthy.\<close>

definition light_repo :: fs where
  "light_repo =
     Dir [(''01-sql-foundations'',
       Dir [(''pyproject.toml'', File (Some [])), (''uv.lock'', File (Some [])), (''docker-compose.yml'', File (Some [])),
            (''01-x'', Dir [(''README.md'', File (Some [])), (''NOTES.md'', File (Some []))])])]"

definition sick_docker :: ci_env where
  "sick_docker = \<lparr>uv_on_path = False, uv_lock = Done (0, [], []), docker_on_path = True, docker_info = Done 0,
     compose_up = Done (1, ''boom'', []), compose_down = Done ()\<rparr>"

lemma light_module: "get_module ''01-sql-foundations'' =
    Inr (Module ''01-sql-foundations'' Python LightServices ''Postgres only; boots and reaches healthy on a hosted runner'')"
  by (simp add: get_module_def modules_def)

lemma light_docker: "lookup light_repo (components ''01-sql-foundations'') = Some (snd (hd (entries light_repo)))"
    "has_file (snd (hd (entries light_repo))) ''docker-compose.yml''"
  by (simp_all add: light_repo_def components_def has_file_def is_file_def)

lemma light_checks:
  "check_required_files light_repo ''01-sql-foundations'' = None" "check_no_solution light_repo (\<lambda>_. Some []) ''01-sql-foundations'' = None"
  by (simp_all add: light_module check_required_files_def check_no_solution_def light_repo_def components_def
      task_dirs_def task_name_def is_dir_def digit_char_def code_of_def check_task_def has_file_def is_file_def
      check_project_files_def splitlines_def iter_source_files_def iter_named_files_def extensions_of_def
      stub_marker_def read_text_def endswith_def deliverable_doc_names_def prune_dirs_def Let_def)

theorem module_ci_tears_down_witness:
  "Cmd (up_cmd ''01-sql-foundations/docker-compose.yml'') \<in> set (snd (script sick_docker light_repo (\<lambda>_. Some []) [''01-sql-foundations''])) \<and>
   torn_down ''01-sql-foundations/docker-compose.yml'' (snd (script sick_docker light_repo (\<lambda>_. Some []) [''01-sql-foundations'']))"
proof
  show "Cmd (up_cmd ''01-sql-foundations/docker-compose.yml'') \<in> set (snd (script sick_docker light_repo (\<lambda>_. Some []) [''01-sql-foundations'']))"
    using light_checks by (simp add: script_def main_def run_def light_module then_do_def sick_docker_def uv_lock_check_def
      run_light_services_def docker_available_def light_docker)
  have "compose_up sick_docker = Done (1, ''boom'', [])" by (simp add: sick_docker_def)
  then show "torn_down ''01-sql-foundations/docker-compose.yml'' (snd (script sick_docker light_repo (\<lambda>_. Some []) [''01-sql-foundations'']))"
    using module_ci_tears_down [OF light_module, of sick_docker light_repo "\<lambda>_. Some []"] by simp
qed

text \<open>
  C16. What a passing module satisfies: its directory exists and has a task directory; every task
  directory has its README and NOTES and, if it has hints, all three of them; the project files of
  its kind are there; no tracked file is a reference solution; every deliverable document outside
  the pruned directories still has an unfilled marker (or is empty); and a Rust or TypeScript
  module with any source file still has a stub marker in one.
\<close>

theorem module_ci_pass_sound:
  assumes "fst (main env repo git [mid]) = Done 0"
  shows "\<exists>m d out. get_module mid = Inr m \<and> lookup repo (components (path m)) = Some d \<and>
    git (path m) = Some out \<and> task_dirs d \<noteq> [] \<and> check_project_files m d = None \<and>
    (\<forall>(n, t) \<in> set (task_dirs d). has_file t ''README.md'' \<and> has_file t ''NOTES.md'' \<and>
       (\<forall>es. lookup t [''hints''] = Some (Dir es) \<longrightarrow>
          (\<forall>hint \<in> {''hint-1.md'', ''hint-2.md'', ''hint-3.md''}. has_file (Dir es) hint))) \<and>
    (\<forall>f \<in> set (splitlines out). f \<noteq> [] \<longrightarrow> \<not> startswith (file_name f) ''solution.'') \<and>
    (\<forall>p c. file_at prune_dirs d p c \<and> last p \<in> set deliverable_doc_names \<and> read_text c \<noteq> [] \<longrightarrow>
      (\<exists>marker \<in> set unfilled_markers. contains marker (lower (read_text c)))) \<and>
    (kind m \<in> {Rust, Pnpm} \<and> (\<exists>(n, t) \<in> set (task_dirs d). \<exists>x. x \<in> set (iter_source_files t (extensions_of (kind m)))) \<longrightarrow>
      (\<exists>(n, t) \<in> set (task_dirs d). \<exists>p c. file_at prune_dirs t p c \<and>
         (\<exists>marker \<in> set (stub_marker (kind m)). contains marker (read_text c))))"
proof -
  have "fst (run env repo git mid) = Done None"
    using assms unfolding main_def list.case then_do_def
    by (cases "run env repo git mid"; cases "fst (run env repo git mid)") (auto split: option.splits)
  then obtain m where m: "get_module mid = Inr m" "check_required_files repo mid = None"
      "check_no_solution repo git mid = None"
    using run_passes by blast
  obtain d where d: "lookup repo (components (path m)) = Some d" "task_dirs d \<noteq> []"
      "\<forall>(n, t) \<in> set (task_dirs d). \<exists>rel. check_task rel t = None" "check_project_files m d = None"
    using required_files_ok [OF m(2,1)] by blast
  have "\<forall>(n, t) \<in> set (task_dirs d). has_file t ''README.md'' \<and> has_file t ''NOTES.md'' \<and>
       (\<forall>es. lookup t [''hints''] = Some (Dir es) \<longrightarrow>
          (\<forall>hint \<in> {''hint-1.md'', ''hint-2.md'', ''hint-3.md''}. has_file (Dir es) hint))"
    using d(3) unfolding check_task_ok by blast
  then show ?thesis using no_solution_ok [OF m(3,1) d(1)] m(1) d by blast
qed

text \<open>A small repository that passes.\<close>

definition sample_repo :: fs where
  "sample_repo =
     Dir [(''18-rust-track'',
       Dir [(''Cargo.toml'', File (Some [])), (''Cargo.lock'', File (Some [])),
            (''01-x'', Dir [(''README.md'', File (Some [])), (''NOTES.md'', File (Some [])),
                            (''lib.rs'', File (Some ''todo!()''))])])]"

theorem module_ci_pass_sound_witness:
  "let env = \<lparr>uv_on_path = False, uv_lock = Done (0, [], []), docker_on_path = False, docker_info = Done 0, compose_up = Done (0, [], []), compose_down = Done ()\<rparr>
   in fst (main env sample_repo (\<lambda>_. Some []) [''18-rust-track'']) = Done 0 \<and>
      (\<exists>m d. get_module ''18-rust-track'' = Inr m \<and> lookup sample_repo (components (path m)) = Some d \<and> task_dirs d \<noteq> [])"
proof -
  let ?env = "\<lparr>uv_on_path = False, uv_lock = Done (0, [], []), docker_on_path = False, docker_info = Done 0, compose_up = Done (0, [], []), compose_down = Done ()\<rparr>"
  have m: "get_module ''18-rust-track'' = Inr (Module ''18-rust-track'' Rust NoServices ''Cargo workspace; no services'')"
    by (simp add: get_module_def modules_def)
  have "fst (main ?env sample_repo (\<lambda>_. Some []) [''18-rust-track'']) = Done 0"
    by (simp add: main_def run_def then_do_def m check_required_files_def check_no_solution_def sample_repo_def components_def
        task_dirs_def task_name_def is_dir_def digit_char_def code_of_def check_task_def has_file_def is_file_def
        check_project_files_def splitlines_def iter_source_files_def iter_named_files_def extensions_of_def
        stub_marker_def read_text_def endswith_def deliverable_doc_names_def prune_dirs_def Let_def)
  from this module_ci_pass_sound [OF this] show ?thesis by (auto simp: Let_def)
qed

end
