(* ===== verification/RepoGuards.thy ===== *)
theory RepoGuards
  imports Registry FileTree
begin

text \<open>
  The repository-wide guards (ci-meta/repo_guards.py): tracked junk, pending lines of
  GENERATION_STATE.md, and the registry against the directories on disk.  The patterns are read
  on the components of a path: \<open>(^|/)x/\<close> is a component \<open>x\<close> that is not the last.
\<close>

section \<open>Patterns\<close>

definition dir_component :: "string \<Rightarrow> string \<Rightarrow> bool" where
  "dir_component x f \<longleftrightarrow> x \<in> set (butlast (components f))"

definition junk_patterns :: "((string \<Rightarrow> bool) \<times> string) list" where
  "junk_patterns =
     [(dir_component ''.venv'', ''.venv/''),
      (\<lambda>f. ''__pycache__'' \<in> set (components f), ''__pycache__''),
      (\<lambda>f. endswith f ''.pyc'', ''*.pyc''),
      (\<lambda>f. endswith f ''-local.json'', ''*-local.json''),
      (dir_component ''scratch'', ''scratch/''),
      (dir_component ''work'', ''work/''),
      (dir_component ''node_modules'', ''node_modules/''),
      (dir_component ''target'', ''target/''),
      (dir_component ''.ruff_cache'', ''.ruff_cache/''),
      (dir_component ''.mypy_cache'', ''.mypy_cache/''),
      (\<lambda>f. startswith (file_name f) ''solution.'' \<and> file_name f \<noteq> ''solution.'', ''solution.*'')]"

definition allowed_data_file :: string where
  "allowed_data_file = ''data/ground-truth.json''"

definition allowed_target_prefix :: string where
  "allowed_target_prefix = ''13-scraping-at-scale/docker/target/''"

section \<open>Checks\<close>

datatype reason =
    JunkFound "string list" nat
  | StateMissing
  | StatePending nat string nat
  | RegistryMismatch "string list" "string list"

text \<open>The loop body: whether a tracked file is an offender.\<close>

definition offends :: "string \<Rightarrow> bool" where
  "offends f \<longleftrightarrow>
     (if dir_component ''data'' f \<and> \<not> endswith f allowed_data_file then True
      else if startswith f allowed_target_prefix then False
      else list_ex (\<lambda>(pattern, desc). pattern f) junk_patterns)"

definition check_no_tracked_junk :: "string \<Rightarrow> reason option" where
  "check_no_tracked_junk git_out =
     (let offenders = filter offends (filter (\<lambda>l. l \<noteq> []) (splitlines git_out)) in
      if offenders \<noteq> [] then Some (JunkFound (take 5 offenders) (length offenders - 5)) else None)"

text \<open>\<open>re.match\<close> of a bullet with an empty check box.\<close>

definition pending_line :: "string \<Rightarrow> bool" where
  "pending_line line =
     (case lstrip_by space_char line of
        c # r1 \<Rightarrow> c = CHR ''-'' \<and>
          (case lstrip_by space_char r1 of
             d # r2 \<Rightarrow> d = CHR ''['' \<and> startswith (lstrip_by space_char r2) '']''
           | [] \<Rightarrow> False)
      | [] \<Rightarrow> False)"

text \<open>What can be raised through \<open>main\<close>: a failing git command, a state file that cannot be read or decoded.\<close>

datatype raised = GitError | UnreadableState

definition check_generation_state_complete :: "fs \<Rightarrow> raised + reason option" where
  "check_generation_state_complete repo =
     (case lookup repo [''GENERATION_STATE.md''] of
        Some (File None) \<Rightarrow> Inl UnreadableState
      | Some (File (Some content)) \<Rightarrow>
          (let pending = filter (\<lambda>(n, line). pending_line line) (List.enumerate 1 (splitlines content)) in
           case pending of
             [] \<Rightarrow> Inr None
           | (n, line) # rest \<Rightarrow> Inr (Some (StatePending n (strip line) (length rest))))
      | _ \<Rightarrow> Inr (Some StateMissing))"

definition toolkit_name :: "string \<Rightarrow> bool" where
  "toolkit_name n \<longleftrightarrow>
     (case n of
        c # r \<Rightarrow> c = CHR ''t'' \<and> takeWhile digit_char r \<noteq> [] \<and> startswith (dropWhile digit_char r) ''-''
      | [] \<Rightarrow> False)"

definition task_dir_name :: "string \<Rightarrow> bool" where
  "task_dir_name n \<longleftrightarrow> 3 \<le> length n \<and> list_all digit_char (take 2 n) \<and> n ! 2 = CHR ''-''"

definition real_module_dirs :: "fs \<Rightarrow> string list" where
  "real_module_dirs repo =
     concat (map (\<lambda>(n, t).
       case t of
         File _ \<Rightarrow> []
       | Dir subs \<Rightarrow>
           if n = ''toolkit'' then
             map (\<lambda>(m, _). ''toolkit/'' @ m) (filter (\<lambda>(m, t'). is_dir (Some t') \<and> toolkit_name m) subs)
           else if task_dir_name n then [n] else []) (entries repo))"

definition check_registry_matches_disk :: "fs \<Rightarrow> reason option" where
  "check_registry_matches_disk repo =
     (let real = real_module_dirs repo;
          missing_from_registry = sort (filter (\<lambda>d. d \<notin> set all_module_ids) (remdups real));
          missing_from_disk = sort (filter (\<lambda>d. d \<notin> set real) all_module_ids)
      in if missing_from_registry \<noteq> [] \<or> missing_from_disk \<noteq> []
         then Some (RegistryMismatch missing_from_registry missing_from_disk) else None)"

text \<open>\<open>main\<close>: the failures it prints, in the order of the checks, or what is raised through it.\<close>

definition guards_main :: "fs \<Rightarrow> string option \<Rightarrow> raised + (string \<times> reason) list" where
  "guards_main repo git_out =
     (case git_out of
        None \<Rightarrow> Inl GitError
      | Some out \<Rightarrow>
          (case check_generation_state_complete repo of
             Inl e \<Rightarrow> Inl e
           | Inr state \<Rightarrow>
               (let results =
                      [(''no tracked junk'', check_no_tracked_junk out),
                       (''GENERATION_STATE.md complete'', state),
                       (''registry matches disk'', check_registry_matches_disk repo)]
                in Inr (concat (map (\<lambda>(name, r). case r of None \<Rightarrow> [] | Some f \<Rightarrow> [(name, f)]) results)))))"

text \<open>The exit code of the script: what is raised is caught and printed at the top.\<close>

definition guards_exit :: "fs \<Rightarrow> string option \<Rightarrow> int" where
  "guards_exit repo git_out =
     (case guards_main repo git_out of Inl e \<Rightarrow> 1 | Inr failures \<Rightarrow> if failures \<noteq> [] then 1 else 0)"

section \<open>Lemmas\<close>

lemma no_junk_iff:
  "check_no_tracked_junk out = None \<longleftrightarrow> (\<forall>f \<in> set (splitlines out). f \<noteq> [] \<longrightarrow> \<not> offends f)"
  by (auto simp: check_no_tracked_junk_def Let_def filter_empty_conv)

lemma enumerate_mem: "x \<in> set xs \<longleftrightarrow> (\<exists>n. (n, x) \<in> set (List.enumerate k xs))"
proof -
  have "map snd (List.enumerate k xs) = xs" by simp
  from arg_cong [OF this, of set] show ?thesis by (force simp del: map_snd_enumerate)
qed

lemma state_iff:
  "check_generation_state_complete repo = Inr None \<longleftrightarrow>
     (\<exists>c. lookup repo [''GENERATION_STATE.md''] = Some (File (Some c)) \<and>
        (\<forall>line \<in> set (splitlines c). \<not> pending_line line))"
proof (cases "\<exists>c. lookup repo [''GENERATION_STATE.md''] = Some (File (Some c))")
  case False
  then show ?thesis by (auto simp: check_generation_state_complete_def split: option.splits fs.splits)
next
  case True
  then obtain c where c: "lookup repo [''GENERATION_STATE.md''] = Some (File (Some c))" by blast
  let ?xs = "List.enumerate 1 (splitlines c)"
  have "check_generation_state_complete repo = Inr None \<longleftrightarrow> filter (\<lambda>(n, line). pending_line line) ?xs = []"
    using c by (auto simp: check_generation_state_complete_def Let_def split: list.splits prod.splits)
  also have "\<dots> \<longleftrightarrow> (\<forall>line \<in> set (splitlines c). \<not> pending_line line)"
    using enumerate_mem [of _ "splitlines c" 1] by (force simp: filter_empty_conv)
  finally show ?thesis using c by simp
qed

lemma sort_empty: "sort xs = [] \<longleftrightarrow> xs = []"
  by (metis length_0_conv length_sort)

lemma registry_iff:
  "check_registry_matches_disk repo = None \<longleftrightarrow> set (real_module_dirs repo) = set all_module_ids"
  by (auto simp: check_registry_matches_disk_def Let_def sort_empty filter_empty_conv)

definition module_dir :: "string \<Rightarrow> string \<Rightarrow> fs \<Rightarrow> bool" where
  "module_dir x n t \<longleftrightarrow>
     (\<exists>subs. t = Dir subs \<and>
       (if n = ''toolkit'' then \<exists>m es. (m, Dir es) \<in> set subs \<and> toolkit_name m \<and> x = ''toolkit/'' @ m
        else task_dir_name n \<and> x = n))"

lemma dir_iff: "is_dir (Some t) \<longleftrightarrow> (\<exists>es. t = Dir es)"
  by (cases t) (auto simp: is_dir_def)

lemma real_dirs: "x \<in> set (real_module_dirs repo) \<longleftrightarrow> (\<exists>(n, t) \<in> set (entries repo). module_dir x n t)"
proof -
  have sub: "x \<in> set (map (\<lambda>(m, _). ''toolkit/'' @ m) (filter (\<lambda>(m, t'). is_dir (Some t') \<and> toolkit_name m) subs)) \<longleftrightarrow>
      (\<exists>m es. (m, Dir es) \<in> set subs \<and> toolkit_name m \<and> x = ''toolkit/'' @ m)" for subs
    unfolding set_map set_filter dir_iff by (auto simp: image_iff)
  have "x \<in> set (case t of File _ \<Rightarrow> [] | Dir subs \<Rightarrow>
      if n = ''toolkit'' then
        map (\<lambda>(m, _). ''toolkit/'' @ m) (filter (\<lambda>(m, t'). is_dir (Some t') \<and> toolkit_name m) subs)
      else if task_dir_name n then [n] else []) \<longleftrightarrow> module_dir x n t" for n t
    unfolding module_dir_def by (cases t) (simp_all only: fs.case sub fs.inject fs.distinct split: if_splits, auto)
  then show ?thesis unfolding real_module_dirs_def by (simp add: split_beta)
qed

lemma registry_dirs:
  "check_registry_matches_disk repo = None \<longleftrightarrow>
     (\<forall>x. x \<in> set all_module_ids \<longleftrightarrow> (\<exists>(n, t) \<in> set (entries repo). module_dir x n t))"
  unfolding registry_iff set_eq_iff real_dirs by (rule iff_allI) (rule eq_commute)

section \<open>Properties\<close>

text \<open>
  C36. The guards exit with 0 exactly when git answers and the three invariants hold: no tracked file
  is junk, GENERATION_STATE.md is a readable file with no unchecked box, and the directories that look
  like modules are exactly the registered ones; a state file that cannot be read or decoded ends the
  script with 1.  A file is junk when it lies in a data directory and is not the committed ground
  truth, or when it matches a junk pattern and is not under 13-scraping-at-scale/docker/target/, a
  prefix that is exempt from every pattern and not from the pattern for target directories alone.
\<close>

theorem guards_exact:
  "guards_exit repo git_out = 0 \<longleftrightarrow>
    (\<exists>out. git_out = Some out \<and>
      (\<forall>f \<in> set (splitlines out). f \<noteq> [] \<longrightarrow>
        \<not> (dir_component ''data'' f \<and> \<not> endswith f allowed_data_file) \<and>
        (startswith f allowed_target_prefix \<or> (\<forall>(pattern, desc) \<in> set junk_patterns. \<not> pattern f))) \<and>
      (\<exists>c. lookup repo [''GENERATION_STATE.md''] = Some (File (Some c)) \<and>
        (\<forall>line \<in> set (splitlines c). \<not> pending_line line)) \<and>
      (\<forall>x. x \<in> set all_module_ids \<longleftrightarrow> (\<exists>(n, t) \<in> set (entries repo). module_dir x n t)))"
proof (cases git_out)
  case None
  then show ?thesis by (simp add: guards_exit_def guards_main_def)
next
  case (Some out)
  have junk: "\<not> offends f \<longleftrightarrow> \<not> (dir_component ''data'' f \<and> \<not> endswith f allowed_data_file) \<and>
      (startswith f allowed_target_prefix \<or> (\<forall>(pattern, desc) \<in> set junk_patterns. \<not> pattern f))" for f
    by (auto simp: offends_def list_ex_iff)
  have "guards_exit repo git_out = 0 \<longleftrightarrow> check_no_tracked_junk out = None \<and>
      check_generation_state_complete repo = Inr None \<and> check_registry_matches_disk repo = None"
    using Some by (auto simp: guards_exit_def guards_main_def Let_def split: option.splits sum.splits)
  then show ?thesis
    using Some unfolding no_junk_iff state_iff registry_dirs junk by simp
qed

theorem guards_exact_witness:
  "guards_exit (Dir [(''GENERATION_STATE.md'', File None)]) (Some []) = 1 \<and>
   guards_exit (Dir []) (Some ''13-scraping-at-scale/docker/target/.venv/x.pyc'') = 1 \<and>
   \<not> offends ''13-scraping-at-scale/docker/target/.venv/x.pyc''"
proof -
  have "guards_exit (Dir []) (Some ''13-scraping-at-scale/docker/target/.venv/x.pyc'') \<noteq> 0"
    "guards_exit (Dir [(''GENERATION_STATE.md'', File None)]) (Some []) \<noteq> 0"
    using guards_exact [of "Dir []"] guards_exact [of "Dir [(''GENERATION_STATE.md'', File None)]"] by simp_all
  moreover have "guards_exit r g = 0 \<or> guards_exit r g = 1" for r g
    by (simp add: guards_exit_def split: sum.split)
  ultimately show ?thesis
    by (auto simp: offends_def dir_component_def components_def allowed_target_prefix_def)
qed

end
