(* ===== verification/PriceEvents.thy ===== *)
theory PriceEvents
  imports PyDict
begin

text \<open>
  The admin-event state of 03-data-modeling/harness/ground_truth.py: the event records, the
  \<open>Entities\<close> object, the single pass \<open>parse_events\<close>, \<open>finalize\<close>, and the as-of lookup.  A line
  of the event file is an \<open>event\<close>, its constructor the \<open>event_type\<close> and its fields the ones the
  pass reads; times are still text there, so a malformed one is an error of the pass.
\<close>

section \<open>Event records\<close>

datatype lifecycle = Delisted | Relisted

datatype event =
    PriceObserved pystr pystr pystr pystr rat pystr
      \<comment> \<open>shop, product, event time, ingestion time, price, currency\<close>
  | ShopRegistered pystr pystr pystr pystr pystr
      \<comment> \<open>event time, shop, country, tier, name\<close>
  | ShopRenamed pystr pystr pystr
  | ShopTierChanged pystr pystr pystr
  | ProductDiscovered pystr pystr pystr pystr pystr pystr
      \<comment> \<open>event time, shop, product, title, brand, category\<close>
  | ProductAttrsChanged pystr pystr "(pystr \<times> pystr) list"
  | ListingChange pystr lifecycle pystr pystr
  | UnknownEvent pystr pystr

record raw_obs =
  ro_sc :: pystr
  ro_pc :: pystr
  ro_et :: pystr
  ro_ing :: pystr
  ro_price :: rat
  ro_cur :: pystr

record client_row =
  cl_code :: pystr
  cl_name :: pystr
  cl_product :: pystr
  cl_since :: pystr

section \<open>Entities\<close>

type_synonym listing = "pystr \<times> pystr"
type_synonym history = "(instant \<times> pystr) list"
type_synonym breakpoints = "instant list \<times> pystr list"

record entities =
  shop_country :: "(pystr \<times> pystr) list"
  shop_tier_bp :: "(pystr \<times> breakpoints) list"
  shop_name_bp :: "(pystr \<times> breakpoints) list"
  shop_tier_raw :: "(pystr \<times> history) list"
  shop_name_raw :: "(pystr \<times> history) list"
  prod_disc_events :: "(pystr \<times> (instant \<times> pystr \<times> pystr \<times> pystr) list) list"
  prod_category_bp :: "(pystr \<times> breakpoints) list"
  prod_brand_bp :: "(pystr \<times> breakpoints) list"
  prod_attr_raw :: "(pystr \<times> (instant \<times> pystr \<times> pystr) list) list"
  listing_discovered :: "(listing \<times> instant) list"
  listing_lifecycle :: "(listing \<times> (instant \<times> lifecycle) list) list"
  clients :: "client_row list"

definition empty_entities :: entities where
  "empty_entities =
     \<lparr>shop_country = [], shop_tier_bp = [], shop_name_bp = [], shop_tier_raw = [], shop_name_raw = [],
      prod_disc_events = [], prod_category_bp = [], prod_brand_bp = [], prod_attr_raw = [],
      listing_discovered = [], listing_lifecycle = [], clients = []\<rparr>"

definition split_history :: "history \<Rightarrow> breakpoints" where
  "split_history h = (map fst h, map snd h)"

definition sort_dict :: "('k \<times> (instant \<times> 'v) list) list \<Rightarrow> ('k \<times> (instant \<times> 'v) list) list" where
  "sort_dict m = map (\<lambda>(k, h). (k, sort_key fst h)) m"

text \<open>
  The breakpoints of one attribute of a product: its value at the first discovery, then its
  changes in time order.
\<close>

definition attr_history ::
  "pystr \<Rightarrow> (instant \<times> pystr) \<Rightarrow> (instant \<times> pystr \<times> pystr) list \<Rightarrow> history" where
  "attr_history field first changes =
     first # map (\<lambda>(t, f, v). (t, v)) (filter (\<lambda>(t, f, v). f = field) changes)"

definition finalize :: "entities \<Rightarrow> entities" where
  "finalize ent =
     (let tiers = sort_dict (shop_tier_raw ent);
          names = sort_dict (shop_name_raw ent);
          discs = sort_dict (prod_disc_events ent);
          attrs = sort_dict (prod_attr_raw ent);
          bp = (\<lambda>field pick. map (\<lambda>(pc, disc).
                  (pc, split_history (attr_history field (fst (hd disc), pick (snd (hd disc)))
                         (get_or [] attrs pc)))) discs)
      in ent \<lparr>shop_tier_raw := tiers, shop_name_raw := names, prod_disc_events := discs, prod_attr_raw := attrs,
              shop_tier_bp := map (\<lambda>(sc, h). (sc, split_history h)) tiers,
              shop_name_bp := map (\<lambda>(sc, h). (sc, split_history h)) names,
              prod_category_bp := bp (u ''category'') (\<lambda>(title, brand, cat). cat),
              prod_brand_bp := bp (u ''brand'') (\<lambda>(title, brand, cat). brand),
              listing_lifecycle := sort_dict (listing_lifecycle ent)\<rparr>)"

section \<open>The pass over the event file\<close>

definition first_discovery :: "listing \<Rightarrow> instant \<Rightarrow> entities \<Rightarrow> entities" where
  "first_discovery key t ent =
     (case map_of (listing_discovered ent) key of
        Some t0 \<Rightarrow>
          if t < t0 then ent \<lparr>listing_discovered := alist_set key t (listing_discovered ent)\<rparr> else ent
      | None \<Rightarrow> ent \<lparr>listing_discovered := alist_set key t (listing_discovered ent)\<rparr>)"

fun admin_event :: "entities \<Rightarrow> event \<Rightarrow> instant \<Rightarrow> entities result" where
  "admin_event ent (ShopRegistered _ sc country tier name) t =
     Inr (ent \<lparr>shop_country := alist_set sc country (shop_country ent),
               shop_tier_raw := dict_append sc [(t, tier)] (shop_tier_raw ent),
               shop_name_raw := dict_append sc [(t, name)] (shop_name_raw ent)\<rparr>)"
| "admin_event ent (ShopRenamed _ sc name) t =
     Inr (ent \<lparr>shop_name_raw := dict_append sc [(t, name)] (shop_name_raw ent)\<rparr>)"
| "admin_event ent (ShopTierChanged _ sc tier) t =
     Inr (ent \<lparr>shop_tier_raw := dict_append sc [(t, tier)] (shop_tier_raw ent)\<rparr>)"
| "admin_event ent (ProductDiscovered _ sc pc title brand cat) t =
     (let ent' = first_discovery (sc, pc) t ent in
      Inr (ent' \<lparr>prod_disc_events := dict_append pc [(t, title, brand, cat)] (prod_disc_events ent')\<rparr>))"
| "admin_event ent (ProductAttrsChanged _ pc changes) t =
     Inr (ent \<lparr>prod_attr_raw :=
        foldl (\<lambda>m (field, v). dict_append pc [(t, field, v)] m) (prod_attr_raw ent) changes\<rparr>)"
| "admin_event ent (ListingChange _ kind sc pc) t =
     Inr (ent \<lparr>listing_lifecycle := dict_append (sc, pc) [(t, kind)] (listing_lifecycle ent)\<rparr>)"
| "admin_event ent (UnknownEvent _ _) t = Inl ValueError"
| "admin_event ent (PriceObserved _ _ _ _ _ _) t = Inr ent"

fun event_time :: "event \<Rightarrow> pystr" where
  "event_time (PriceObserved _ _ t _ _ _) = t"
| "event_time (ShopRegistered t _ _ _ _) = t"
| "event_time (ShopRenamed t _ _) = t"
| "event_time (ShopTierChanged t _ _) = t"
| "event_time (ProductDiscovered t _ _ _ _ _) = t"
| "event_time (ProductAttrsChanged t _ _) = t"
| "event_time (ListingChange t _ _ _) = t"
| "event_time (UnknownEvent t _) = t"

fun event_step :: "entities \<times> raw_obs list \<Rightarrow> event \<Rightarrow> (entities \<times> raw_obs list) result" where
  "event_step (ent, raw) (PriceObserved sc pc et ing price cur) =
     Inr (ent, raw @ [\<lparr>ro_sc = sc, ro_pc = pc, ro_et = et, ro_ing = ing, ro_price = price, ro_cur = cur\<rparr>])"
| "event_step (ent, raw) e =
     bind_result (parse_instant (event_time e)) (\<lambda>t.
     bind_result (admin_event ent e t) (\<lambda>ent'. Inr (ent', raw)))"

definition parse_events :: "event list \<Rightarrow> client_row list \<Rightarrow> (entities \<times> raw_obs list) result" where
  "parse_events events rows =
     bind_result (fold_result event_step (empty_entities, []) events) (\<lambda>(ent, raw).
     Inr ((finalize ent) \<lparr>clients := rows\<rparr>, raw))"

section \<open>As-of lookup\<close>

definition asof :: "instant list \<Rightarrow> 'v list \<Rightarrow> instant \<Rightarrow> 'v option" where
  "asof ts vals t =
     (let i = int (bisect_right ts t) - 1 in if 0 \<le> i then Some (vals ! nat i) else None)"

lemma asof_sorted:
  assumes "sorted (map fst h)"
  shows "asof (map fst h) (map snd h) t =
    (let past = filter (\<lambda>x. fst x \<le> t) h in if past = [] then None else Some (snd (last past)))"
proof -
  define k where "k = bisect_right (map fst h) t"
  have eq: "map fst (take k h) = filter (\<lambda>x. x \<le> t) (map fst h)" and kl: "k \<le> length h"
    using bisect_right_filter [OF assms, of t] by (simp_all add: k_def take_map filter_map comp_def)
  have past: "fst x \<le> t" if "x \<in> set (take k h)" for x
  proof -
    have "fst x \<in> set (map fst (take k h))" using that by simp
    then show ?thesis unfolding eq by simp
  qed
  have "length (filter (\<lambda>x. fst x \<le> t) h) = k"
    using arg_cong [OF eq, of length] kl by (simp add: filter_map comp_def)
  moreover have "filter (\<lambda>x. fst x \<le> t) h = take k h @ filter (\<lambda>x. fst x \<le> t) (drop k h)"
    using past by (subst append_take_drop_id [of k h, symmetric], subst filter_append) (simp add: filter_id_conv del: append_take_drop_id)
  ultimately have "filter (\<lambda>x. fst x \<le> t) h = take k h" using kl by simp
  then show ?thesis
    unfolding asof_def Let_def k_def [symmetric]
    using kl by (cases k) (auto simp: last_conv_nth)
qed

end
