(* ===== verification/Observations.thy ===== *)
theory Observations
  imports PriceEvents
begin

text \<open>
  The price observations of 03-data-modeling/harness/ground_truth.py: encoding, stable sort and
  deduplication (\<open>build_observation_arrays\<close>), and the pass over the listing groups that adds the
  as-of attributes and finds the price drops (\<open>enrich_and_group_by_listing\<close>).  The parallel numpy
  arrays are one list of rows; the codes are encoded as indices, as in the code.
\<close>

section \<open>Constants\<close>

definition start_date :: date where
  "start_date = \<lparr>d_year = 2024, d_month = 1, d_day = 1\<rparr>"

definition end_date :: date where
  "end_date = \<lparr>d_year = 2026, d_month = 1, d_day = 1\<rparr>"

definition span_days :: nat where
  "span_days = to_ordinal end_date - to_ordinal start_date"

definition t0_epoch :: instant where
  "t0_epoch = instant_of start_date 0"

definition currencies :: "pystr list" where
  "currencies = [u ''USD'', u ''EUR'', u ''GBP'']"

definition fx_to_usd :: "(pystr \<times> rat) list" where
  "fx_to_usd = [(u ''USD'', 1), (u ''EUR'', fl (108 / 100)), (u ''GBP'', fl (127 / 100))]"

definition fx_vec :: "rat list" where
  "fx_vec = map (\<lambda>c. get_or 0 fx_to_usd c) currencies"

definition quarter :: "date \<Rightarrow> nat" where
  "quarter d = (d_month d - 1) div 3 + 1"

text \<open>The calendar indexed by the day offset from the start date.\<close>

definition calendar :: "date list" where
  "calendar = map (\<lambda>i. from_ordinal (to_ordinal start_date + i)) [0..<span_days]"

section \<open>Encoding and deduplication\<close>

record enc_row =
  e_sc :: nat
  e_pc :: nat
  e_t :: instant
  e_ing :: instant
  e_price :: rat
  e_cur :: nat

record obs_row = enc_row +
  o_usd :: rat
  o_year :: nat
  o_month :: nat
  o_day :: nat
  o_quarter :: nat

record observations =
  ob_shops :: "pystr list"
  ob_prods :: "pystr list"
  ob_raw_count :: nat
  ob_dedup_count :: nat
  ob_rows :: "obs_row list"

definition sorted_set :: "('a :: linorder) list \<Rightarrow> 'a list" where
  "sorted_set xs = sort (remdups xs)"

definition cur_index :: "pystr \<Rightarrow> nat result" where
  "cur_index c = (if c \<in> set currencies then Inr (index_of c currencies) else Inl KeyError)"

definition encode :: "raw_obs list \<Rightarrow> enc_row list result" where
  "encode raw =
     (let shops = sorted_set (map ro_sc raw); prods = sorted_set (map ro_pc raw) in
      bind_result (map_result (cur_index \<circ> ro_cur) raw) (\<lambda>curs.
      bind_result (map_result (parse_instant \<circ> ro_et) raw) (\<lambda>ets.
      bind_result (map_result (parse_instant \<circ> ro_ing) raw) (\<lambda>ings.
      Inr (map (\<lambda>(r, c, t, g).
             \<lparr>e_sc = index_of (ro_sc r) shops, e_pc = index_of (ro_pc r) prods, e_t = t, e_ing = g,
              e_price = ro_price r, e_cur = c\<rparr>)
           (zip raw (zip curs (zip ets ings))))))))"

definition row_key :: "('x) enc_row_scheme \<Rightarrow> nat \<times> nat \<times> instant" where
  "row_key r = (e_sc r, e_pc r, e_t r)"

definition dedup_rows :: "enc_row list \<Rightarrow> enc_row list" where
  "dedup_rows rows = run_heads row_key None (sort_key row_key rows)"

definition obs_of :: "enc_row \<Rightarrow> obs_row result" where
  "obs_of r =
     bind_result (py_index calendar ((e_t r - t0_epoch) div 86400)) (\<lambda>d.
     Inr (enc_row.extend r
       \<lparr>o_usd = np_round4 (fl (e_price r * fx_vec ! e_cur r)), o_year = d_year d, o_month = d_month d,
        o_day = d_day d, o_quarter = quarter d\<rparr>))"

definition build_observations :: "raw_obs list \<Rightarrow> observations result" where
  "build_observations raw =
     bind_result (encode raw) (\<lambda>rows.
     if rows = [] then Inl IndexError
     else let kept = dedup_rows rows in
       bind_result (map_result obs_of kept) (\<lambda>obs.
       Inr \<lparr>ob_shops = sorted_set (map ro_sc raw), ob_prods = sorted_set (map ro_pc raw),
            ob_raw_count = length raw, ob_dedup_count = length kept, ob_rows = obs\<rparr>))"

section \<open>As-of attributes and price drops\<close>

record rich_row = obs_row +
  r_tier :: pystr
  r_category :: pystr
  r_brand :: pystr
  r_country :: pystr

text \<open>
  \<open>np.searchsorted(times, t, side="right") - 1\<close> as an index into the values: an observation before
  the first breakpoint gets index -1, which Python reads as the last value.
\<close>

definition value_at :: "breakpoints \<Rightarrow> instant \<Rightarrow> pystr result" where
  "value_at bp t = (case bp of (ts, vs) \<Rightarrow> py_index vs (int (bisect_right ts t) - 1))"

definition price_drop :: "obs_row \<times> obs_row \<Rightarrow> bool" where
  "price_drop p \<longleftrightarrow> o_usd (snd p) \<le> fl (o_usd (fst p) * fl (8 / 10))"

definition drop_times :: "obs_row list \<Rightarrow> instant list" where
  "drop_times g = map (\<lambda>p. e_t (snd p)) (filter price_drop (zip g (tl g)))"

type_synonym drops = "(pystr \<times> instant list) list"

definition enrich_group ::
  "entities \<Rightarrow> observations \<Rightarrow> rich_row list \<times> drops \<Rightarrow> obs_row list \<Rightarrow> (rich_row list \<times> drops) result" where
  "enrich_group ent obs acc g =
     (let sc = ob_shops obs ! e_sc (hd g); pc = ob_prods obs ! e_pc (hd g) in
      bind_result (lookup (shop_tier_bp ent) sc) (\<lambda>tb.
      bind_result (map_result (\<lambda>r. value_at tb (e_t r)) g) (\<lambda>tiers.
      bind_result (lookup (shop_country ent) sc) (\<lambda>cnty.
      bind_result (lookup (prod_category_bp ent) pc) (\<lambda>cb.
      bind_result (map_result (\<lambda>r. value_at cb (e_t r)) g) (\<lambda>cats.
      bind_result (lookup (prod_brand_bp ent) pc) (\<lambda>bb.
      bind_result (map_result (\<lambda>r. value_at bb (e_t r)) g) (\<lambda>brands.
      let rows = map (\<lambda>(r, t, c, b).
            obs_row.extend r \<lparr>r_tier = t, r_category = c, r_brand = b, r_country = cnty\<rparr>)
            (zip g (zip tiers (zip cats brands)));
          dt = drop_times g
      in Inr (fst acc @ rows, if dt = [] then snd acc else dict_append pc dt (snd acc))))))))))"

definition pair_key :: "('x) enc_row_scheme \<Rightarrow> nat \<times> nat" where
  "pair_key r = (e_sc r, e_pc r)"

definition enrich :: "entities \<Rightarrow> observations \<Rightarrow> (rich_row list \<times> drops) result" where
  "enrich ent obs =
     (if ob_rows obs = [] then Inl IndexError
      else fold_result (enrich_group ent obs) ([], []) (runs pair_key (ob_rows obs)))"

section \<open>Runs of a sorted list\<close>

lemma run_heads_Some:
  assumes "sorted (map key xs)" "\<forall>x \<in> set xs. p \<le> key x"
  shows "run_heads key (Some p) xs = run_heads key None (filter (\<lambda>x. key x \<noteq> p) xs)"
  using assms
proof (induction xs)
  case Nil
  then show ?case by simp
next
  case (Cons x xs)
  show ?case
  proof (cases "key x = p")
    case True
    then show ?thesis using Cons by auto
  next
    case False
    have "\<forall>y \<in> set xs. key y \<noteq> p"
      using Cons.prems False by fastforce
    then have "filter (\<lambda>x. key x \<noteq> p) xs = xs" by (simp add: filter_id_conv)
    then show ?thesis using False by simp
  qed
qed

text \<open>
  What the deduplication keeps of a sorted list: strictly ascending keys, every key of the list,
  and for every key the first element that has it.
\<close>

lemma run_heads_sorted_all:
  assumes "sorted (map key xs)"
  shows "sorted_wrt (<) (map key (run_heads key None xs)) \<and>
    set (map key (run_heads key None xs)) = set (map key xs) \<and>
    (\<forall>r \<in> set (run_heads key None xs). \<exists>ys. filter (\<lambda>x. key x = key r) xs = r # ys)"
  using assms
proof (induction "length xs" arbitrary: xs rule: less_induct)
  case less
  note IH = less.hyps and sorted = less.prems
  show ?case
  proof (cases xs)
    case Nil
    then show ?thesis by simp
  next
    case (Cons x ys)
    define zs where "zs = filter (\<lambda>y. key y \<noteq> key x) ys"
    have ge: "\<forall>y \<in> set ys. key x \<le> key y" and s: "sorted (map key ys)" using sorted Cons by auto
    have rh: "run_heads key None xs = x # run_heads key None zs"
      using run_heads_Some [OF s ge] by (simp add: Cons zs_def)
    have lz: "length zs < length xs" by (simp add: zs_def Cons le_imp_less_Suc)
    have sz: "sorted (map key zs)" unfolding zs_def by (rule sorted_filter [OF s])
    note I0 = IH [OF lz sz]
    have I: "sorted_wrt (<) (map key (run_heads key None zs))"
      "set (map key (run_heads key None zs)) = set (map key zs)"
      "\<And>r. r \<in> set (run_heads key None zs) \<Longrightarrow> \<exists>ys. filter (\<lambda>x. key x = key r) zs = r # ys"
      using I0 by blast+
    have gt: "\<forall>k \<in> set (map key zs). key x < k"
      using ge by (auto simp: zs_def order_less_le)
    have "\<exists>us. filter (\<lambda>y. key y = key r) xs = r # us" if "r \<in> set (run_heads key None xs)" for r
    proof (cases "r = x")
      case True
      then show ?thesis by (simp add: Cons)
    next
      case False
      then have rz: "r \<in> set (run_heads key None zs)" using that rh by simp
      then have "key r \<in> set (map key (run_heads key None zs))" by simp
      then have "key x < key r" using gt unfolding I(2) by blast
      then have "filter (\<lambda>y. key y = key r) xs = filter (\<lambda>y. key y = key r) zs"
        by (auto simp: Cons zs_def intro: filter_cong)
      then show ?thesis using I(3) [OF rz] by simp
    qed
    moreover have "sorted_wrt (<) (map key (run_heads key None xs))"
      unfolding rh using I(1) I(2) gt by simp
    moreover have "set (map key (run_heads key None xs)) = set (map key xs)"
    proof -
      have "set (map key xs) = insert (key x) (set (map key zs))" by (auto simp: Cons zs_def)
      then show ?thesis unfolding rh using I(2) by simp
    qed
    ultimately show ?thesis by blast
  qed
qed

lemmas run_heads_sorted = run_heads_sorted_all [THEN conjunct1]
  run_heads_sorted_all [THEN conjunct2, THEN conjunct1]
  run_heads_sorted_all [THEN conjunct2, THEN conjunct2, rule_format]

lemma dedup_rows_spec:
  shows "sorted_wrt (<) (map row_key (dedup_rows rows))"
    and "set (map row_key (dedup_rows rows)) = set (map row_key rows)"
    and "r \<in> set (dedup_rows rows) \<Longrightarrow> \<exists>ys. filter (\<lambda>x. row_key x = row_key r) rows = r # ys"
proof -
  have s: "sorted (map row_key (sort_key row_key rows))" by simp
  show "sorted_wrt (<) (map row_key (dedup_rows rows))"
    unfolding dedup_rows_def by (rule run_heads_sorted(1) [OF s])
  show "set (map row_key (dedup_rows rows)) = set (map row_key rows)"
    unfolding dedup_rows_def run_heads_sorted(2) [OF s] by simp
  show "\<exists>ys. filter (\<lambda>x. row_key x = row_key r) rows = r # ys" if "r \<in> set (dedup_rows rows)"
    using run_heads_sorted(3) [OF s that [unfolded dedup_rows_def]] by (simp add: sort_key_stable)
qed

section \<open>Deduplication\<close>

lemma sorted_set_set [simp]: "set (sorted_set xs) = set xs"
  by (simp add: sorted_set_def)

lemma sorted_set_strict: "sorted_wrt (<) (sorted_set xs)"
  by (simp add: sorted_set_def strict_sorted_iff)

text \<open>The key of a raw observation: shop, product and event time.\<close>

definition raw_key :: "raw_obs \<Rightarrow> (pystr \<times> pystr \<times> instant) result" where
  "raw_key r = bind_result (parse_instant (ro_et r)) (\<lambda>t. Inr (ro_sc r, ro_pc r, t))"

definition code_key :: "pystr list \<Rightarrow> pystr list \<Rightarrow> ('x) enc_row_scheme \<Rightarrow> pystr \<times> pystr \<times> instant" where
  "code_key shops prods r = (shops ! e_sc r, prods ! e_pc r, e_t r)"

definition encodes :: "raw_obs list \<Rightarrow> raw_obs \<Rightarrow> ('x) enc_row_scheme \<Rightarrow> bool" where
  "encodes raw x r \<longleftrightarrow>
     x \<in> set raw \<and>
     e_sc r = index_of (ro_sc x) (sorted_set (map ro_sc raw)) \<and>
     e_pc r = index_of (ro_pc x) (sorted_set (map ro_pc raw)) \<and>
     parse_instant (ro_et x) = Inr (e_t r) \<and> parse_instant (ro_ing x) = Inr (e_ing r) \<and>
     e_price r = ro_price x \<and> cur_index (ro_cur x) = Inr (e_cur r)"

lemma encode_rows:
  assumes "encode raw = Inr rows"
  shows "list_all2 (encodes raw) raw rows"
proof -
  obtain curs ets ings where c: "map_result (cur_index \<circ> ro_cur) raw = Inr curs"
    "map_result (parse_instant \<circ> ro_et) raw = Inr ets" "map_result (parse_instant \<circ> ro_ing) raw = Inr ings"
    and rows: "rows = map (\<lambda>(r, c, t, g).
             \<lparr>e_sc = index_of (ro_sc r) (sorted_set (map ro_sc raw)),
              e_pc = index_of (ro_pc r) (sorted_set (map ro_pc raw)), e_t = t, e_ing = g,
              e_price = ro_price r, e_cur = c\<rparr>)
           (zip raw (zip curs (zip ets ings)))"
    using assms unfolding encode_def Let_def bind_result_Inr by blast
  have l: "list_all2 (\<lambda>x y. cur_index (ro_cur x) = Inr y) raw curs"
    "list_all2 (\<lambda>x y. parse_instant (ro_et x) = Inr y) raw ets"
    "list_all2 (\<lambda>x y. parse_instant (ro_ing x) = Inr y) raw ings"
    using c unfolding map_result_Inr comp_def by simp_all
  show ?thesis
    unfolding rows using l by (simp add: list_all2_conv_all_nth encodes_def)
qed

lemma encodes_key:
  assumes "encodes raw x r"
  shows "raw_key x = Inr (code_key (sorted_set (map ro_sc raw)) (sorted_set (map ro_pc raw)) r)"
proof -
  have "ro_sc x \<in> set (sorted_set (map ro_sc raw))" "ro_pc x \<in> set (sorted_set (map ro_pc raw))"
    using assms by (auto simp: encodes_def)
  then show ?thesis using assms by (simp add: encodes_def raw_key_def code_key_def nth_index_of)
qed

lemma encodes_key_inj:
  assumes "encodes raw x r" "encodes raw y k"
  shows "raw_key x = Inr (code_key (sorted_set (map ro_sc raw)) (sorted_set (map ro_pc raw)) k) \<longleftrightarrow>
    row_key r = row_key k"
proof -
  have "ro_sc x \<in> set (sorted_set (map ro_sc raw))" "ro_pc x \<in> set (sorted_set (map ro_pc raw))"
    "ro_sc y \<in> set (sorted_set (map ro_sc raw))" "ro_pc y \<in> set (sorted_set (map ro_pc raw))"
    using assms by (auto simp: encodes_def)
  then show ?thesis
    unfolding encodes_key [OF assms(2), symmetric] using assms
    by (simp add: encodes_def raw_key_def row_key_def index_of_inject)
qed

lemma encodes_mono:
  assumes "encodes raw x r" "encodes raw y k" "row_key r < row_key k"
  shows "code_key (sorted_set (map ro_sc raw)) (sorted_set (map ro_pc raw)) r <
    code_key (sorted_set (map ro_sc raw)) (sorted_set (map ro_pc raw)) k"
proof -
  have b: "e_sc k < length (sorted_set (map ro_sc raw))" "e_pc k < length (sorted_set (map ro_pc raw))"
    using assms(2) by (auto simp: encodes_def intro!: index_of_less)
  have s: "i < e_sc k \<Longrightarrow> sorted_set (map ro_sc raw) ! i < sorted_set (map ro_sc raw) ! e_sc k" for i
    using sorted_wrt_nth_less [OF sorted_set_strict _ b(1)] by blast
  have p: "i < e_pc k \<Longrightarrow> sorted_set (map ro_pc raw) ! i < sorted_set (map ro_pc raw) ! e_pc k" for i
    using sorted_wrt_nth_less [OF sorted_set_strict _ b(2)] by blast
  show ?thesis
  proof -
    consider "e_sc r < e_sc k" | "e_sc r = e_sc k" "e_pc r < e_pc k"
      | "e_sc r = e_sc k" "e_pc r = e_pc k" "e_t r < e_t k"
      using assms(3) unfolding row_key_def less_prod_def by fastforce
    then show ?thesis
      by cases (simp_all add: code_key_def less_prod_def s p)
  qed
qed

lemma list_all2_mem2: "list_all2 P xs ys \<Longrightarrow> y \<in> set ys \<Longrightarrow> \<exists>x \<in> set xs. P x y"
  by (induction rule: list_all2_induct) auto

lemma list_all2_mem1: "list_all2 P xs ys \<Longrightarrow> x \<in> set xs \<Longrightarrow> \<exists>y \<in> set ys. P x y"
  by (induction rule: list_all2_induct) auto

lemma list_all2_find_filter:
  assumes "list_all2 P xs ys" "\<And>x y. P x y \<Longrightarrow> Q x \<longleftrightarrow> R y" "filter R ys = k # t"
  shows "\<exists>x. find Q xs = Some x \<and> P x k"
  using assms by (induction arbitrary: t rule: list_all2_induct) (auto split: if_splits)

lemma obs_of_row:
  assumes "obs_of k = Inr r"
  shows "e_sc r = e_sc k \<and> e_pc r = e_pc k \<and> e_t r = e_t k \<and> e_ing r = e_ing k \<and>
    e_price r = e_price k \<and> e_cur r = e_cur k \<and> o_usd r = np_round4 (fl (e_price k * fx_vec ! e_cur k))"
  using assms by (auto simp: obs_of_def bind_result_Inr enc_row.extend_def)

lemma obs_rows:
  assumes "build_observations raw = Inr obs"
  shows "\<exists>rows kept. list_all2 (encodes raw) raw rows \<and> kept = dedup_rows rows \<and>
    list_all2 (\<lambda>k r. obs_of k = Inr r) kept (ob_rows obs) \<and>
    obs = \<lparr>ob_shops = sorted_set (map ro_sc raw), ob_prods = sorted_set (map ro_pc raw),
      ob_raw_count = length raw, ob_dedup_count = length kept, ob_rows = ob_rows obs\<rparr>"
proof -
  obtain rows where rows: "encode raw = Inr rows"
    and c: "(if rows = [] then Inl IndexError else
       bind_result (map_result obs_of (dedup_rows rows)) (\<lambda>obs.
       Inr \<lparr>ob_shops = sorted_set (map ro_sc raw), ob_prods = sorted_set (map ro_pc raw),
            ob_raw_count = length raw, ob_dedup_count = length (dedup_rows rows), ob_rows = obs\<rparr>)) = Inr obs"
    using assms unfolding build_observations_def Let_def bind_result_Inr by blast
  have "rows \<noteq> []" using c by (cases "rows = []") auto
  with c have "bind_result (map_result obs_of (dedup_rows rows)) (\<lambda>obs.
       Inr \<lparr>ob_shops = sorted_set (map ro_sc raw), ob_prods = sorted_set (map ro_pc raw),
            ob_raw_count = length raw, ob_dedup_count = length (dedup_rows rows), ob_rows = obs\<rparr>) = Inr obs"
    by simp
  then obtain os where "map_result obs_of (dedup_rows rows) = Inr os"
    "obs = \<lparr>ob_shops = sorted_set (map ro_sc raw), ob_prods = sorted_set (map ro_pc raw),
            ob_raw_count = length raw, ob_dedup_count = length (dedup_rows rows), ob_rows = os\<rparr>"
    unfolding bind_result_Inr by auto
  then show ?thesis
    using encode_rows [OF rows] by (auto simp: map_result_Inr)
qed

lemma dedup_sub: "k \<in> set (dedup_rows rows) \<Longrightarrow> k \<in> set rows"
proof -
  assume "k \<in> set (dedup_rows rows)"
  then obtain ys where "filter (\<lambda>x. row_key x = row_key k) rows = k # ys" using dedup_rows_spec(3) by blast
  then have "k \<in> set (filter (\<lambda>x. row_key x = row_key k) rows)" by simp
  then show ?thesis by simp
qed

lemma dedup_ascending:
  assumes "list_all2 (encodes raw) raw rows"
  shows "sorted_wrt (<) (map (code_key (sorted_set (map ro_sc raw)) (sorted_set (map ro_pc raw))) (dedup_rows rows))"
  unfolding sorted_wrt_map
proof (rule sorted_wrt_mono_rel [OF _ dedup_rows_spec(1) [of rows, unfolded sorted_wrt_map]])
  fix x y assume "x \<in> set (dedup_rows rows)" "y \<in> set (dedup_rows rows)" and lt: "row_key x < row_key y"
  then obtain a b where "encodes raw a x" "encodes raw b y"
    using list_all2_mem2 [OF assms] dedup_sub by metis
  then show "code_key (sorted_set (map ro_sc raw)) (sorted_set (map ro_pc raw)) x <
      code_key (sorted_set (map ro_sc raw)) (sorted_set (map ro_pc raw)) y"
    using lt by (rule encodes_mono)
qed

lemma dedup_keys:
  assumes rows: "list_all2 (encodes raw) raw rows"
  shows "Inr ` set (map (code_key (sorted_set (map ro_sc raw)) (sorted_set (map ro_pc raw))) (dedup_rows rows)) =
    set (map raw_key raw)" (is "Inr ` set (map ?key ?D) = _")
proof (intro equalityI subsetI)
  fix z :: "(pystr \<times> pystr \<times> instant) result" assume "z \<in> Inr ` set (map ?key ?D)"
  then obtain k where k: "k \<in> set ?D" "z = Inr (?key k)" by auto
  then obtain x where x: "encodes raw x k" using list_all2_mem2 [OF rows] dedup_sub by blast
  then have "x \<in> set raw" by (simp add: encodes_def)
  then show "z \<in> set (map raw_key raw)" using encodes_key [OF x] k(2) by (metis image_eqI list.set_map)
next
  fix z assume "z \<in> set (map raw_key raw)"
  then obtain x where x: "x \<in> set raw" "z = raw_key x" by auto
  then obtain y where y: "y \<in> set rows" "encodes raw x y" using list_all2_mem1 [OF rows] by blast
  then have "row_key y \<in> set (map row_key ?D)" unfolding dedup_rows_spec(2) by simp
  then obtain d where d: "d \<in> set ?D" "row_key d = row_key y" by auto
  then have "?key d = ?key y" by (simp add: row_key_def code_key_def)
  then have "z = Inr (?key d)" using x(2) encodes_key [OF y(2)] by simp
  then show "z \<in> Inr ` set (map ?key ?D)" using d(1) by simp
qed

lemma dedup_first:
  assumes rows: "list_all2 (encodes raw) raw rows" and k: "k \<in> set (dedup_rows rows)"
  shows "\<exists>x. find (\<lambda>x. raw_key x = Inr (code_key (sorted_set (map ro_sc raw)) (sorted_set (map ro_pc raw)) k)) raw = Some x \<and>
    encodes raw x k"
proof -
  obtain ys where f: "filter (\<lambda>x. row_key x = row_key k) rows = k # ys" using dedup_rows_spec(3) [OF k] by blast
  obtain y where y: "encodes raw y k" using list_all2_mem2 [OF rows dedup_sub [OF k]] by blast
  show ?thesis by (rule list_all2_find_filter [OF rows _ f]) (rule encodes_key_inj [OF _ y])
qed

text \<open>
  C5.  Deduplication of the price observations.  The rows that \<open>build_observation_arrays\<close> returns
  are strictly ascending by shop code, product code and event time, so no key occurs twice; their
  keys are exactly the keys of the raw observations; and the row kept for a key carries the
  price, currency and ingestion time of the first raw observation of that key in arrival order.
\<close>

theorem observations_dedup:
  assumes "build_observations raw = Inr obs"
  shows "let key = code_key (ob_shops obs) (ob_prods obs) in
    sorted_wrt (<) (map key (ob_rows obs)) \<and>
    Inr ` set (map key (ob_rows obs)) = set (map raw_key raw) \<and>
    ob_dedup_count obs = length (ob_rows obs) \<and> ob_raw_count obs = length raw \<and>
    (\<forall>r \<in> set (ob_rows obs). \<exists>x. find (\<lambda>x. raw_key x = Inr (key r)) raw = Some x \<and>
       parse_instant (ro_ing x) = Inr (e_ing r) \<and> e_price r = ro_price x \<and> cur_index (ro_cur x) = Inr (e_cur r))"
proof -
  let ?S = "sorted_set (map ro_sc raw)" and ?P = "sorted_set (map ro_pc raw)"
  let ?key = "code_key ?S ?P"
  obtain rows where rows: "list_all2 (encodes raw) raw rows"
    and os: "list_all2 (\<lambda>k r. obs_of k = Inr r) (dedup_rows rows) (ob_rows obs)"
    and obs: "ob_shops obs = ?S" "ob_prods obs = ?P" "ob_raw_count obs = length raw"
      "ob_dedup_count obs = length (dedup_rows rows)"
    using obs_rows [OF assms] by (metis (no_types, lifting) observations.select_convs(1-4))
  have same: "map (?key :: obs_row \<Rightarrow> _) (ob_rows obs) = map ?key (dedup_rows rows)"
    using os by (induction rule: list_all2_induct) (simp_all add: code_key_def obs_of_row)
  have first: "\<exists>x. find (\<lambda>x. raw_key x = Inr (?key r)) raw = Some x \<and>
       parse_instant (ro_ing x) = Inr (e_ing r) \<and> e_price r = ro_price x \<and> cur_index (ro_cur x) = Inr (e_cur r)"
    if r: "r \<in> set (ob_rows obs)" for r
  proof -
    obtain k where k: "k \<in> set (dedup_rows rows)" "obs_of k = Inr r" using list_all2_mem2 [OF os r] by blast
    have "?key r = ?key k" using obs_of_row [OF k(2)] by (simp add: code_key_def)
    then show ?thesis using dedup_first [OF rows k(1)] obs_of_row [OF k(2)] by (auto simp: encodes_def)
  qed
  have len: "length (dedup_rows rows) = length (ob_rows obs)" using os by (rule list_all2_lengthD)
  show ?thesis
    unfolding Let_def obs(1,2) same
    using dedup_ascending [OF rows] dedup_keys [OF rows] obs(3,4) len first by simp
qed

definition two_raw :: "raw_obs list" where
  "two_raw =
     [\<lparr>ro_sc = u ''S1'', ro_pc = u ''P1'', ro_et = u ''2024-01-05T00:00:00Z'', ro_ing = u ''2024-01-05T00:00:10Z'',
       ro_price = 5, ro_cur = u ''USD''\<rparr>,
      \<lparr>ro_sc = u ''S1'', ro_pc = u ''P1'', ro_et = u ''2024-01-05T00:00:00Z'', ro_ing = u ''2024-01-06T00:00:00Z'',
       ro_price = 5, ro_cur = u ''USD''\<rparr>]"

lemma calendar_length: "length calendar = 731"
  by (simp add: calendar_def span_days_def to_ordinal_def start_date_def end_date_def days_before_year_def
      days_before_month_def)

lemma observations_dedup_witness:
  "\<exists>obs. build_observations two_raw = Inr obs \<and> ob_dedup_count obs = length (ob_rows obs) \<and>
     Inr ` set (map (code_key (ob_shops obs) (ob_prods obs)) (ob_rows obs)) = set (map raw_key two_raw)"
proof -
  have t: "parse_instant (u ''2024-01-05T00:00:00Z'') = Inr 1704412800"
    "parse_instant (u ''2024-01-05T00:00:10Z'') = Inr 1704412810"
    "parse_instant (u ''2024-01-06T00:00:00Z'') = Inr 1704499200"
    by (simp_all add: parse_instant_def parse_date_def parse_clock_def two_digits_def valid_date_def Let_def
        days_in_month_def month_lengths_def leap_def instant_of_def to_ordinal_def days_before_year_def
        days_before_month_def epoch_ordinal_def)
  have c: "cur_index (u ''USD'') = Inr 0"
    by (simp add: cur_index_def currencies_def index_of_def)
  have z: "t0_epoch = 1704067200"
    by (simp add: t0_epoch_def start_date_def instant_of_def to_ordinal_def days_before_year_def
        days_before_month_def epoch_ordinal_def)
  have p: "py_index calendar 4 = Inr (calendar ! 4)"
    by (simp add: py_index_def calendar_length)
  have "\<exists>obs. build_observations two_raw = Inr obs"
    by (simp add: build_observations_def two_raw_def encode_def t c dedup_rows_def row_key_def obs_of_def z p
        Let_def del: u_Cons)
  then obtain obs where o: "build_observations two_raw = Inr obs" ..
  show ?thesis using o observations_dedup [OF o] unfolding Let_def by blast
qed

end
