(* ===== verification/Enrichment.thy ===== *)
theory Enrichment
  imports Observations
begin

text \<open>
  The as-of semantics of 03-data-modeling/harness/ground_truth.py: the histories that
  \<open>parse_events\<close> and \<open>finalize\<close> build are the events folded in time order, and every enriched row
  carries the values in force at its event time.
\<close>

section \<open>Histories\<close>

text \<open>The tier and name events of a shop, in arrival order.\<close>

fun tier_events :: "event list \<Rightarrow> pystr \<Rightarrow> history" where
  "tier_events [] sc = []"
| "tier_events (e # es) sc =
     (case (e, parse_instant (event_time e)) of
        (ShopRegistered _ s _ tier _, Inr t) \<Rightarrow> if s = sc then [(t, tier)] else []
      | (ShopTierChanged _ s tier, Inr t) \<Rightarrow> if s = sc then [(t, tier)] else []
      | _ \<Rightarrow> []) @ tier_events es sc"

lemma event_step_tier:
  assumes "event_step (ent, raw) e = Inr (ent', raw')"
  shows "get_or [] (shop_tier_raw ent') sc = get_or [] (shop_tier_raw ent) sc @ tier_events [e] sc"
proof (cases "parse_instant (event_time e)")
  case (Inl x)
  then show ?thesis using assms by (cases e) auto
next
  case (Inr t)
  have fd: "shop_tier_raw (first_discovery k t' en) = shop_tier_raw en" for k t' en
    by (simp add: first_discovery_def split: option.split)
  show ?thesis
    using assms Inr by (cases e) (auto simp: get_or_dict_append fd Let_def)
qed

lemma events_tier:
  assumes "fold_result event_step (ent, raw) es = Inr (ent', raw')"
  shows "get_or [] (shop_tier_raw ent') sc = get_or [] (shop_tier_raw ent) sc @ tier_events es sc"
  using assms
proof (induction es arbitrary: ent raw)
  case Nil
  then show ?case by simp
next
  case (Cons e es)
  obtain s where s: "event_step (ent, raw) e = Inr s" "fold_result event_step s es = Inr (ent', raw')"
    using Cons.prems by (auto simp: bind_result_Inr)
  obtain ent1 raw1 where p: "s = (ent1, raw1)" by (cases s)
  have "tier_events (e # es) sc = tier_events [e] sc @ tier_events es sc" by simp
  then show ?case
    using Cons.IH [OF s(2) [unfolded p]] event_step_tier [OF s(1) [unfolded p], of sc] by simp
qed

text \<open>The discoveries and attribute changes of a product, and the countries a shop registered with.\<close>

fun discoveries :: "event list \<Rightarrow> pystr \<Rightarrow> (instant \<times> pystr \<times> pystr \<times> pystr) list" where
  "discoveries [] pc = []"
| "discoveries (e # es) pc =
     (case (e, parse_instant (event_time e)) of
        (ProductDiscovered _ _ p title brand cat, Inr t) \<Rightarrow> if p = pc then [(t, title, brand, cat)] else []
      | _ \<Rightarrow> []) @ discoveries es pc"

fun attr_changes :: "event list \<Rightarrow> pystr \<Rightarrow> (instant \<times> pystr \<times> pystr) list" where
  "attr_changes [] pc = []"
| "attr_changes (e # es) pc =
     (case (e, parse_instant (event_time e)) of
        (ProductAttrsChanged _ p changes, Inr t) \<Rightarrow> if p = pc then map (\<lambda>(f, v). (t, f, v)) changes else []
      | _ \<Rightarrow> []) @ attr_changes es pc"

fun countries :: "event list \<Rightarrow> pystr \<Rightarrow> pystr list" where
  "countries [] sc = []"
| "countries (e # es) sc =
     (case e of ShopRegistered _ s country _ _ \<Rightarrow> if s = sc then [country] else [] | _ \<Rightarrow> []) @ countries es sc"

lemma attr_fold:
  "get_or [] (foldl (\<lambda>m (field, v). dict_append p [(t, field, v)] m) m changes) pc =
     get_or [] m pc @ (if p = pc then map (\<lambda>(f, v). (t, f, v)) changes else [])"
proof (induction changes arbitrary: m)
  case (Cons c changes)
  then show ?case by (cases c) (simp add: get_or_dict_append)
qed simp

lemma event_step_product:
  assumes "event_step (ent, raw) e = Inr (ent', raw')"
  shows "get_or [] (prod_disc_events ent') pc = get_or [] (prod_disc_events ent) pc @ discoveries [e] pc \<and>
    get_or [] (prod_attr_raw ent') pc = get_or [] (prod_attr_raw ent) pc @ attr_changes [e] pc \<and>
    map_of (shop_country ent') sc = (if countries [e] sc = [] then map_of (shop_country ent) sc else Some (last (countries [e] sc)))"
proof (cases "parse_instant (event_time e)")
  case (Inl x)
  then show ?thesis using assms by (cases e) auto
next
  case (Inr t)
  have fd: "prod_disc_events (first_discovery k t' en) = prod_disc_events en" "prod_attr_raw (first_discovery k t' en) = prod_attr_raw en"
    "shop_country (first_discovery k t' en) = shop_country en" for k t' en
    by (simp_all add: first_discovery_def split: option.split)
  show ?thesis
    using assms Inr by (cases e) (auto simp: get_or_dict_append fd Let_def attr_fold map_of_alist_set)
qed

lemma events_product:
  assumes "fold_result event_step (ent, raw) es = Inr (ent', raw')"
  shows "get_or [] (prod_disc_events ent') pc = get_or [] (prod_disc_events ent) pc @ discoveries es pc \<and>
    get_or [] (prod_attr_raw ent') pc = get_or [] (prod_attr_raw ent) pc @ attr_changes es pc \<and>
    map_of (shop_country ent') sc = (if countries es sc = [] then map_of (shop_country ent) sc else Some (last (countries es sc)))"
  using assms
proof (induction es arbitrary: ent raw)
  case Nil
  then show ?case by simp
next
  case (Cons e es)
  obtain s where s: "event_step (ent, raw) e = Inr s" "fold_result event_step s es = Inr (ent', raw')"
    using Cons.prems by (auto simp: bind_result_Inr)
  obtain ent1 raw1 where p: "s = (ent1, raw1)" by (cases s)
  have e: "discoveries (e # es) pc = discoveries [e] pc @ discoveries es pc"
    "attr_changes (e # es) pc = attr_changes [e] pc @ attr_changes es pc"
    "countries (e # es) sc = countries [e] sc @ countries es sc" by simp_all
  show ?case
    using Cons.IH [OF s(2) [unfolded p]] event_step_product [OF s(1) [unfolded p], of pc sc] unfolding e by simp
qed

text \<open>
  The histories the events give: the tiers of a shop by event time, and an attribute of a product
  from its earliest discovery on, with its changes by event time.
\<close>

definition tier_history :: "event list \<Rightarrow> pystr \<Rightarrow> history" where
  "tier_history es sc = sort_key fst (tier_events es sc)"

definition product_history :: "event list \<Rightarrow> pystr \<Rightarrow> (pystr \<times> pystr \<times> pystr \<Rightarrow> pystr) \<Rightarrow> pystr \<Rightarrow> history" where
  "product_history es field pick pc =
     (let first = hd (sort_key fst (discoveries es pc)) in
      (fst first, pick (snd first)) #
      sort_key fst (map (\<lambda>(t, f, v). (t, v)) (filter (\<lambda>(t, f, v). f = field) (attr_changes es pc))))"

definition category_history :: "event list \<Rightarrow> pystr \<Rightarrow> history" where
  "category_history es = product_history es (u ''category'') (\<lambda>(title, brand, cat). cat)"

definition brand_history :: "event list \<Rightarrow> pystr \<Rightarrow> history" where
  "brand_history es = product_history es (u ''brand'') (\<lambda>(title, brand, cat). brand)"

lemma sort_key_map: "map g (sort_key (\<lambda>x. f (g x)) xs) = sort_key f (map g xs)"
proof (induction xs)
  case (Cons x xs)
  have "map g (insort_key (\<lambda>x. f (g x)) x ys) = insort_key f (g x) (map g ys)" for ys by (induction ys) auto
  then show ?case using Cons by simp
qed simp

lemma get_or_sort_dict: "get_or [] (sort_dict m) k = sort_key fst (get_or [] m k)"
  by (induction m) (auto simp: sort_dict_def get_or_def)

lemma asof_split_history:
  assumes "sorted (map fst h)"
  shows "asof (fst (split_history h)) (snd (split_history h)) t =
    foldl (\<lambda>s x. Some (snd x)) None (filter (\<lambda>x. fst x \<le> t) h)"
proof -
  have f: "foldl (\<lambda>s x. Some (snd x)) s xs = (if xs = [] then s else Some (snd (last xs)))"
    for s and xs :: history
    by (induction xs arbitrary: s) auto
  show ?thesis unfolding split_history_def fst_conv snd_conv asof_sorted [OF assms] f Let_def ..
qed

lemma sorted_attrs:
  "map (\<lambda>(t, f, v). (t, v)) (filter (\<lambda>(t, f, v). f = field) (sort_key fst xs)) =
     sort_key fst (map (\<lambda>(t, f, v). (t, v)) (filter (\<lambda>(t, f, v). f = field) xs))"
  for xs :: "(instant \<times> pystr \<times> pystr) list"
  unfolding filter_sort using sort_key_map [of "\<lambda>(t, f, v). (t, v)" fst] by (simp add: case_prod_unfold)

lemma map_of_map_key: "map_of (map (\<lambda>(k, v). (k, f k v)) m) k = map_option (f k) (map_of m k)"
  by (induction m) auto

lemma parsed:
  assumes "parse_events es cl = Inr (ent, raw)"
  shows "lookup (shop_tier_bp ent) sc = Inr tb \<Longrightarrow> tb = split_history (tier_history es sc)"
    and "lookup (prod_category_bp ent) pc = Inr cb \<Longrightarrow> cb = split_history (category_history es pc)"
    and "lookup (prod_brand_bp ent) pc = Inr bb \<Longrightarrow> bb = split_history (brand_history es pc)"
    and "map_of (shop_country ent) sc = (if countries es sc = [] then None else Some (last (countries es sc)))"
proof -
  obtain ent0 where e0: "fold_result event_step (empty_entities, []) es = Inr (ent0, raw)"
    and ent: "ent = (finalize ent0) \<lparr>clients := cl\<rparr>"
    using assms by (auto simp: parse_events_def bind_result_Inr)
  have d: "get_or [] (shop_tier_raw ent0) sc = tier_events es sc" "get_or [] (prod_disc_events ent0) pc = discoveries es pc"
    "get_or [] (prod_attr_raw ent0) pc = attr_changes es pc" for sc pc
    using events_tier [OF e0, of sc] events_product [OF e0, of pc] by (simp_all add: empty_entities_def get_or_def)
  have some: "get_or [] m k = v" if "map_of m k = Some v" for m :: "(pystr \<times> 'v list) list" and k v
    using that by (simp add: get_or_def)
  show "tb = split_history (tier_history es sc)" if "lookup (shop_tier_bp ent) sc = Inr tb"
    using that some [of "sort_dict (shop_tier_raw ent0)" sc] unfolding ent
    by (auto simp: finalize_def Let_def lookup_def map_of_map get_or_sort_dict d tier_history_def split: option.splits)
  have attr: "bp = split_history (product_history es field pick pc)"
    if "map_of (map (\<lambda>(pc, disc). (pc, split_history (attr_history field (fst (hd disc), pick (snd (hd disc)))
           (get_or [] (sort_dict (prod_attr_raw ent0)) pc)))) (sort_dict (prod_disc_events ent0))) pc = Some bp" (is ?lookup) for bp field pick
  proof -
    have m: ?lookup by (fact that)
    obtain disc where disc: "map_of (sort_dict (prod_disc_events ent0)) pc = Some disc"
      and bp: "bp = split_history (attr_history field (fst (hd disc), pick (snd (hd disc)))
           (get_or [] (sort_dict (prod_attr_raw ent0)) pc))"
      using m by (auto simp: map_of_map_key)
    have "disc = sort_key fst (discoveries es pc)" using some [OF disc] by (simp add: get_or_sort_dict d)
    then show ?thesis unfolding bp by (simp add: product_history_def attr_history_def get_or_sort_dict d sorted_attrs Let_def)
  qed
  show "cb = split_history (category_history es pc)" if "lookup (prod_category_bp ent) pc = Inr cb"
    using that attr [of "u ''category''" "\<lambda>(title, brand, cat). cat" cb] unfolding ent
    by (auto simp: finalize_def Let_def lookup_def category_history_def split: option.splits)
  show "bb = split_history (brand_history es pc)" if "lookup (prod_brand_bp ent) pc = Inr bb"
    using that attr [of "u ''brand''" "\<lambda>(title, brand, cat). brand" bb] unfolding ent
    by (auto simp: finalize_def Let_def lookup_def brand_history_def split: option.splits)
  show "map_of (shop_country ent) sc = (if countries es sc = [] then None else Some (last (countries es sc)))"
    using events_product [OF e0, of _ sc] unfolding ent by (simp add: finalize_def Let_def empty_entities_def)
qed

text \<open>
  C4.  The as-of rule of the question battery.  After the pass over the event file, the tier of
  a shop at time \<open>t\<close> that binary search in the finalised breakpoints gives is the fold, in event
  time order, of all its tier events with event time at most \<open>t\<close>: registrations and tier changes,
  whatever their order of arrival.
\<close>

theorem asof_tier_fold:
  assumes "parse_events es rows = Inr (ent, raw)"
  shows "(case map_of (shop_tier_bp ent) sc of None \<Rightarrow> None | Some (ts, vs) \<Rightarrow> asof ts vs t) =
    foldl (\<lambda>s x. Some (snd x)) None (filter (\<lambda>x. fst x \<le> t) (sort_key fst (tier_events es sc)))"
proof -
  obtain ent0 where e0: "fold_result event_step (empty_entities, []) es = Inr (ent0, raw)"
    and ent: "ent = (finalize ent0) \<lparr>clients := rows\<rparr>"
    using assms by (auto simp: parse_events_def bind_result_Inr)
  define m where "m = sort_dict (shop_tier_raw ent0)"
  define h where "h = get_or [] m sc"
  have h: "h = sort_key fst (tier_events es sc)"
    unfolding h_def m_def get_or_sort_dict events_tier [OF e0] by (simp add: empty_entities_def get_or_def)
  have bp: "map_of (shop_tier_bp ent) sc = map_option split_history (map_of m sc)"
    unfolding ent by (simp add: finalize_def Let_def m_def map_of_map)
  show ?thesis
  proof (cases "map_of m sc")
    case None
    then have "h = []" by (simp add: h_def get_or_def)
    then show ?thesis unfolding bp None h [symmetric] by simp
  next
    case (Some h')
    then have e: "h' = h" by (simp add: h_def get_or_def)
    have "sorted (map fst h)" unfolding h by simp
    from asof_split_history [OF this, of t] show ?thesis
      unfolding bp Some e h [symmetric] by (simp add: case_prod_unfold)
  qed
qed

section \<open>Enriched rows\<close>

lemma value_at_asof:
  assumes "value_at bp t = Inr v"
  shows "v = (case asof (fst bp) (snd bp) t of Some w \<Rightarrow> w | None \<Rightarrow> last (snd bp))"
proof -
  obtain ts vs where bp: "bp = (ts, vs)" by (cases bp)
  define k where "k = bisect_right ts t"
  have v: "py_index vs (int k - 1) = Inr v" using assms by (simp add: value_at_def bp k_def)
  have a: "asof ts vs t = (if 0 < k then Some (vs ! (k - 1)) else None)"
    by (auto simp: asof_def Let_def k_def [symmetric] nat_diff_distrib)
  show ?thesis
  proof (cases k)
    case 0
    then have "vs \<noteq> []" "v = vs ! (length vs - 1)"
      using v by (auto simp: py_index_def nat_diff_distrib split: if_splits)
    then show ?thesis using 0 a by (simp add: bp last_conv_nth)
  next
    case (Suc n)
    then show ?thesis using v a by (simp add: bp py_index_def split: if_splits)
  qed
qed

lemma lookup_Inr: "lookup m k = Inr v \<longleftrightarrow> map_of m k = Some v"
  by (simp add: lookup_def split: option.split)

text \<open>What a lookup of a row gives: its value is the one \<open>value_at\<close> reads from the breakpoints found.\<close>

definition row_looked_up :: "entities \<Rightarrow> pystr \<Rightarrow> pystr \<Rightarrow> rich_row \<Rightarrow> bool" where
  "row_looked_up ent sc pc r \<longleftrightarrow>
     (\<exists>bp. lookup (shop_tier_bp ent) sc = Inr bp \<and> value_at bp (e_t r) = Inr (r_tier r)) \<and>
     (\<exists>bp. lookup (prod_category_bp ent) pc = Inr bp \<and> value_at bp (e_t r) = Inr (r_category r)) \<and>
     (\<exists>bp. lookup (prod_brand_bp ent) pc = Inr bp \<and> value_at bp (e_t r) = Inr (r_brand r)) \<and>
     map_of (shop_country ent) sc = Some (r_country r)"

lemma enrich_group_spec:
  assumes "enrich_group ent obs acc g = Inr (rows, drops)"
  shows "\<exists>rs. rows = fst acc @ rs \<and> map obs_row.truncate rs = g \<and>
      (\<forall>r \<in> set rs. row_looked_up ent (ob_shops obs ! e_sc (hd g)) (ob_prods obs ! e_pc (hd g)) r) \<and>
      (\<forall>pc. get_or [] drops pc =
         get_or [] (snd acc) pc @ (if ob_prods obs ! e_pc (hd g) = pc then drop_times g else []))"
proof -
  let ?sc = "ob_shops obs ! e_sc (hd g)" and ?pc = "ob_prods obs ! e_pc (hd g)"
  obtain tb tiers cnty cb cats bb brands where
    l: "lookup (shop_tier_bp ent) ?sc = Inr tb" "lookup (shop_country ent) ?sc = Inr cnty"
      "lookup (prod_category_bp ent) ?pc = Inr cb" "lookup (prod_brand_bp ent) ?pc = Inr bb"
    and v: "map_result (\<lambda>r. value_at tb (e_t r)) g = Inr tiers"
      "map_result (\<lambda>r. value_at cb (e_t r)) g = Inr cats"
      "map_result (\<lambda>r. value_at bb (e_t r)) g = Inr brands"
    and rows: "rows = fst acc @ map (\<lambda>(r, t, c, b).
            obs_row.extend r \<lparr>r_tier = t, r_category = c, r_brand = b, r_country = cnty\<rparr>)
            (zip g (zip tiers (zip cats brands)))"
    and drops: "drops = (if drop_times g = [] then snd acc else dict_append ?pc (drop_times g) (snd acc))"
    using assms unfolding enrich_group_def Let_def bind_result_Inr sum.inject prod.inject by metis
  define rs where "rs = map (\<lambda>(r, t, c, b).
            obs_row.extend r \<lparr>r_tier = t, r_category = c, r_brand = b, r_country = cnty\<rparr>)
            (zip g (zip tiers (zip cats brands)))"
  have len: "length tiers = length g" "length cats = length g" "length brands = length g"
    using v unfolding map_result_Inr by (auto dest: list_all2_lengthD)
  have nth: "i < length g \<Longrightarrow> value_at tb (e_t (g ! i)) = Inr (tiers ! i) \<and>
      value_at cb (e_t (g ! i)) = Inr (cats ! i) \<and> value_at bb (e_t (g ! i)) = Inr (brands ! i)" for i
    using v unfolding map_result_Inr by (simp add: list_all2_conv_all_nth)
  have rsi: "i < length g \<Longrightarrow> rs ! i =
      obs_row.extend (g ! i) \<lparr>r_tier = tiers ! i, r_category = cats ! i, r_brand = brands ! i, r_country = cnty\<rparr>" for i
    by (simp add: rs_def len)
  have lrs: "length rs = length g" by (simp add: rs_def len)
  have tr: "map obs_row.truncate rs = g"
    by (rule nth_equalityI) (simp_all add: lrs rsi obs_row.truncate_def obs_row.extend_def)
  have ok: "row_looked_up ent ?sc ?pc r" if r: "r \<in> set rs" for r
  proof -
    obtain i where i: "i < length g" "r = rs ! i" using r by (auto simp: in_set_conv_nth lrs)
    have "e_t r = e_t (g ! i)" "r_tier r = tiers ! i" "r_category r = cats ! i" "r_brand r = brands ! i"
      "r_country r = cnty"
      unfolding i(2) rsi [OF i(1)] by (simp_all add: obs_row.extend_def)
    then show ?thesis
      unfolding row_looked_up_def using nth [OF i(1)] l by (simp add: lookup_Inr)
  qed
  have "get_or [] drops pc = get_or [] (snd acc) pc @ (if ?pc = pc then drop_times g else [])" for pc
    unfolding drops by (auto simp: get_or_dict_append)
  then show ?thesis using rows tr ok unfolding rs_def [symmetric] by blast
qed

lemma enrich_groups:
  assumes "fold_result (enrich_group ent obs) acc gs = Inr (rows, drops)"
  shows "\<exists>rs. rows = fst acc @ rs \<and> map obs_row.truncate rs = concat gs \<and>
      (\<forall>r \<in> set rs. \<exists>g \<in> set gs. obs_row.truncate r \<in> set g \<and>
         row_looked_up ent (ob_shops obs ! e_sc (hd g)) (ob_prods obs ! e_pc (hd g)) r) \<and>
      (\<forall>pc. get_or [] drops pc = get_or [] (snd acc) pc @
         concat (map drop_times (filter (\<lambda>g. ob_prods obs ! e_pc (hd g) = pc) gs)))"
  using assms
proof (induction gs arbitrary: acc)
  case Nil
  then show ?case by (intro exI [of _ "[]"]) simp
next
  case (Cons g gs)
  obtain r1 d1 where g: "enrich_group ent obs acc g = Inr (r1, d1)"
    and gs: "fold_result (enrich_group ent obs) (r1, d1) gs = Inr (rows, drops)"
    using Cons.prems by (auto simp: bind_result_Inr)
  obtain a where a: "r1 = fst acc @ a" "map obs_row.truncate a = g"
    "\<forall>r \<in> set a. row_looked_up ent (ob_shops obs ! e_sc (hd g)) (ob_prods obs ! e_pc (hd g)) r"
    "\<And>pc. get_or [] d1 pc = get_or [] (snd acc) pc @ (if ob_prods obs ! e_pc (hd g) = pc then drop_times g else [])"
    using enrich_group_spec [OF g] by blast
  obtain b where b: "rows = r1 @ b" "map obs_row.truncate b = concat gs"
    "\<forall>r \<in> set b. \<exists>g \<in> set gs. obs_row.truncate r \<in> set g \<and>
         row_looked_up ent (ob_shops obs ! e_sc (hd g)) (ob_prods obs ! e_pc (hd g)) r"
    "\<And>pc. get_or [] drops pc = get_or [] d1 pc @
         concat (map drop_times (filter (\<lambda>g. ob_prods obs ! e_pc (hd g) = pc) gs))"
    using Cons.IH [OF gs] by auto
  have am: "obs_row.truncate r \<in> set g" if "r \<in> set a" for r
    using that a(2) by (metis image_eqI list.set_map)
  show ?case
    by (rule exI [of _ "a @ b"]) (use a(1,2,3) b(1,2,3) am in \<open>auto simp: a(4) b(4)\<close>)
qed

lemma truncate_pair_key: "pair_key (obs_row.truncate r) = pair_key r"
  by (simp add: pair_key_def obs_row.truncate_def)

section \<open>Drop times\<close>

lemma drop_times_Cons:
  "drop_times (x # g) = (if g \<noteq> [] \<and> price_drop (x, hd g) then [e_t (hd g)] else []) @ drop_times g"
  by (cases g) (simp_all add: drop_times_def)

lemma hd_hd_runs: "runs key xs \<noteq> [] \<Longrightarrow> hd (hd (runs key xs)) = hd xs"
  by (cases xs) (auto split: list.splits)

lemma runs_Cons:
  "runs key (x # xs) =
     (if xs = [] then [[x]] else if key x = key (hd xs) then (x # hd (runs key xs)) # tl (runs key xs) else [x] # runs key xs)"
proof (cases "runs key xs")
  case Nil
  then show ?thesis using runs_concat [of key xs] by simp
next
  case (Cons g gs)
  then have "hd g = hd xs" "xs \<noteq> []" using hd_hd_runs [of key xs] runs_concat [of key xs] by auto
  then show ?thesis by (simp add: Cons)
qed

lemma run_drops_zip:
  assumes "\<And>x y. pair_key x = pair_key y \<Longrightarrow> Q x = Q y"
  shows "concat (map drop_times (filter (\<lambda>g. Q (hd g)) (runs pair_key xs))) =
    map (\<lambda>p. e_t (snd p)) (filter (\<lambda>p. Q (snd p) \<and> pair_key (fst p) = pair_key (snd p) \<and> price_drop p) (zip xs (tl xs)))"
proof (induction xs)
  case Nil
  then show ?case by simp
next
  case (Cons x xs)
  show ?case
  proof (cases "runs pair_key xs")
    case Nil
    then have "xs = []" using runs_concat [of pair_key xs] by simp
    then show ?thesis by (simp add: drop_times_def)
  next
    case R: (Cons g gs)
    have g: "g \<noteq> []" using runs_nonempty [of g pair_key xs] R by simp
    have h: "hd g = hd xs" "xs \<noteq> []" using hd_hd_runs [of pair_key xs] runs_concat [of pair_key xs] R g by auto
    have z: "zip (x # xs) (tl (x # xs)) = (x, hd xs) # zip xs (tl xs)" using h(2) by (cases xs) simp_all
    have one: "drop_times [x] = []" "drop_times [] = []" by (simp_all add: drop_times_def)
    have q: "pair_key x = pair_key (hd xs) \<Longrightarrow> Q x = Q (hd xs)" by (rule assms)
    show ?thesis
      using Cons.IH q unfolding z runs_Cons R by (auto simp: h drop_times_Cons g one)
  qed
qed

text \<open>The observation of a listing just before one of its observations, by time.\<close>

definition just_before :: "obs_row list \<Rightarrow> obs_row \<Rightarrow> obs_row \<Rightarrow> bool" where
  "just_before rows p r \<longleftrightarrow>
     e_sc p = e_sc r \<and> e_pc p = e_pc r \<and> e_t p < e_t r \<and>
     (\<forall>q \<in> set rows. e_sc q = e_sc r \<and> e_pc q = e_pc r \<longrightarrow> \<not> (e_t p < e_t q \<and> e_t q < e_t r))"

lemma zip_just_before:
  assumes "sorted_wrt (<) (map row_key rows)"
  shows "map snd (filter (\<lambda>(p, r). pair_key p = pair_key r \<and> R p r) (zip rows (tl rows))) =
    filter (\<lambda>r. \<exists>p \<in> set rows. just_before rows p r \<and> R p r) rows"
  using assms
proof (induction rows)
  case Nil
  then show ?case by simp
next
  case (Cons x xs)
  have lt: "row_key x < row_key y" if "y \<in> set xs" for y using Cons.prems that by simp
  have no: "\<not> (\<exists>p \<in> set (x # xs). just_before (x # xs) p x \<and> R p x)"
    using lt by (fastforce simp: just_before_def row_key_def less_prod_def)
  show ?case
  proof (cases xs)
    case Nil
    then show ?thesis using no by simp
  next
    case ys: (Cons y ys)
    have gt: "row_key y < row_key z" if "z \<in> set ys" for z using Cons.prems that by (simp add: ys)
    have old: "just_before (x # xs) p r \<longleftrightarrow> just_before xs p r" if "p \<in> set xs" for p r
      using lt [OF that] by (auto simp: just_before_def row_key_def less_prod_def)
    have head: "just_before (x # xs) x r \<longleftrightarrow> r = y \<and> pair_key x = pair_key y" if r: "r \<in> set xs" for r
    proof (cases "r = y")
      case True
      then show ?thesis using lt [of y] gt
        by (fastforce simp: just_before_def pair_key_def row_key_def less_prod_def ys)
    next
      case False
      then have "row_key y < row_key r" using gt r by (auto simp: ys)
      moreover have "row_key x < row_key y" using lt by (simp add: ys)
      ultimately have "\<not> just_before (x # xs) x r"
        by (auto simp: just_before_def row_key_def less_prod_def ys)
      then show ?thesis using False by simp
    qed
    define P where "P r \<longleftrightarrow> (\<exists>p \<in> set xs. just_before xs p r \<and> R p r)" for r
    have rest: "filter (\<lambda>r. \<exists>p \<in> set (x # xs). just_before (x # xs) p r \<and> R p r) xs =
        filter (\<lambda>r. r = y \<and> pair_key x = pair_key y \<and> R x y \<or> P r) xs"
      by (rule filter_cong [OF refl]) (use head old in \<open>auto simp: P_def\<close>)
    have first: "\<not> P y"
      using gt by (fastforce simp: P_def just_before_def row_key_def less_prod_def ys)
    have ne: "z \<noteq> y" if "z \<in> set ys" for z using gt [OF that] by auto
    have split: "filter (\<lambda>r. r = y \<and> A \<or> P r) xs = (if A then [y] else []) @ filter P xs" for A
      unfolding ys using first ne by (auto intro: filter_cong)
    have "sorted_wrt (<) (map row_key xs)" using Cons.prems by simp
    note IH = Cons.IH [OF this, folded P_def]
    have z: "zip (x # xs) (tl (x # xs)) = (x, y) # zip xs (tl xs)" by (simp add: ys)
    have "map snd (filter (\<lambda>(p, r). pair_key p = pair_key r \<and> R p r) (zip (x # xs) (tl (x # xs)))) =
        (if pair_key x = pair_key y \<and> R x y then [y] else []) @ filter P xs"
      unfolding z by (simp add: IH)
    also have "\<dots> = filter (\<lambda>r. \<exists>p \<in> set (x # xs). just_before (x # xs) p r \<and> R p r) xs"
      unfolding rest split by simp
    finally show ?thesis using no by simp
  qed
qed

text \<open>The 80 percent of the comparison is that of the doubles, exact up to a part in two to the power of 52.\<close>

lemma rounded_price: "0 \<le> np_round4 x \<Longrightarrow> np_round4 x = 0 \<or> 1 / 2 ^ 20 \<le> np_round4 x"
proof -
  define n where "n = round_half_even (fl (x * 10000))"
  have f: "np_round4 x = fl (of_int n / 10000)" by (simp add: np_round4_def n_def)
  assume "0 \<le> np_round4 x"
  show ?thesis
  proof (cases "1 \<le> n")
    case True
    have e: "fl (1 / 2 ^ 14) = 1 / 2 ^ 14"
      using fl_scaled [of 1 "- 14"] by (simp add: power_int_minus)
    have "(1 :: rat) / 2 ^ 14 \<le> of_int n / 10000" using True by simp
    from fl_mono [OF this] show ?thesis unfolding f e by simp
  next
    case False
    then have "of_int n / 10000 \<le> (0 :: rat)" by (simp add: divide_nonpos_pos)
    from fl_mono [OF this] show ?thesis using \<open>0 \<le> np_round4 x\<close> unfolding f by simp
  qed
qed

lemma eighty_percent:
  assumes "0 \<le> np_round4 x"
  shows "\<bar>fl (np_round4 x * fl (8 / 10)) - np_round4 x * (8 / 10)\<bar> \<le> np_round4 x / 2 ^ 52"
proof (cases "np_round4 x = 0")
  case False
  define p a where "p = np_round4 x" and "a = fl (8 / 10)"
  have p: "1 / 2 ^ 20 \<le> p" using rounded_price [OF assms] False by (simp add: p_def)
  have t: "0 < tiny" "tiny \<le> 1 / 2 ^ 112" using tiny_bounds by (simp_all add: field_simps)
  have a: "\<bar>a - 8 / 10\<bar> \<le> (8 / 10 / 2 ^ 52 + tiny) / 2" unfolding a_def using fl_error [of "8 / 10"] by simp
  have a2: "0 \<le> a" "a \<le> 81 / 100" using a t unfolding abs_le_iff by simp_all
  have "\<bar>fl (p * a) - p * (8 / 10)\<bar> \<le> \<bar>fl (p * a) - p * a\<bar> + \<bar>p * a - p * (8 / 10)\<bar>" by linarith
  also have "\<bar>p * a - p * (8 / 10)\<bar> = p * \<bar>a - 8 / 10\<bar>"
    using p by (simp only: right_diff_distrib [symmetric] abs_mult) simp
  also have "\<bar>fl (p * a) - p * a\<bar> \<le> (p * a / 2 ^ 52 + tiny) / 2" using fl_error [of "p * a"] p a2 by simp
  also have "p * \<bar>a - 8 / 10\<bar> \<le> p * ((8 / 10 / 2 ^ 52 + tiny) / 2)" using a p by (intro mult_left_mono) simp_all
  also have "(p * a / 2 ^ 52 + tiny) / 2 \<le> (p * (81 / 100) / 2 ^ 52 + p / 2 ^ 92) / 2"
    using a2 p t by (intro divide_right_mono add_mono mult_left_mono) simp_all
  also have "p * ((8 / 10 / 2 ^ 52 + tiny) / 2) \<le> p * ((8 / 10 / 2 ^ 52 + 1 / 2 ^ 112) / 2)"
    using t p by (intro mult_left_mono) simp_all
  also have "(p * (81 / 100) / 2 ^ 52 + p / 2 ^ 92) / 2 + p * ((8 / 10 / 2 ^ 52 + 1 / 2 ^ 112) / 2) \<le> p / 2 ^ 52"
    using p by (simp add: field_simps)
  finally show ?thesis by (simp add: p_def a_def)
qed simp

lemma observed_rows:
  assumes "build_observations raw = Inr obs"
  shows "sorted_wrt (<) (map row_key (ob_rows obs))" "r \<in> set (ob_rows obs) \<Longrightarrow> \<exists>x. o_usd r = np_round4 x"
proof -
  obtain rows where os: "list_all2 (\<lambda>k r. obs_of k = Inr r) (dedup_rows rows) (ob_rows obs)"
    using obs_rows [OF assms] by blast
  have "map row_key (ob_rows obs) = map row_key (dedup_rows rows)"
    using os by (induction rule: list_all2_induct) (simp_all add: row_key_def obs_of_row)
  then show "sorted_wrt (<) (map row_key (ob_rows obs))" using dedup_rows_spec(1) [of rows] by simp
  show "\<exists>x. o_usd r = np_round4 x" if "r \<in> set (ob_rows obs)"
    using list_all2_mem2 [OF os that] obs_of_row by blast
qed

section \<open>Enriched rows over the events\<close>

text \<open>
  What a row reads from a history: the value of the latest entry up to its time, and the newest one
  if it has no such entry.
\<close>

definition reads :: "history \<Rightarrow> instant \<Rightarrow> pystr \<Rightarrow> bool" where
  "reads h t v \<longleftrightarrow>
     (let past = filter (\<lambda>x. fst x \<le> t) h in
      (past \<noteq> [] \<longrightarrow> v = snd (last past)) \<and> (past = [] \<longrightarrow> h \<noteq> [] \<and> v = snd (last h)))"

lemma value_at_reads:
  assumes "value_at (split_history h) t = Inr v" "sorted (map fst h)"
  shows "reads h t v"
proof -
  have "h \<noteq> []" using assms(1) by (auto simp: value_at_def split_history_def py_index_def split: if_splits)
  then show ?thesis
    using value_at_asof [OF assms(1)] asof_sorted [OF assms(2), of t]
    by (auto simp: split_history_def reads_def Let_def last_map split: if_splits)
qed

lemma looked_up_reads:
  assumes "parse_events es cl = Inr (ent, raw)" "row_looked_up ent sc pc r"
  shows "reads (tier_history es sc) (e_t r) (r_tier r) \<and>
    (sorted (map fst (category_history es pc)) \<longrightarrow> reads (category_history es pc) (e_t r) (r_category r)) \<and>
    (sorted (map fst (brand_history es pc)) \<longrightarrow> reads (brand_history es pc) (e_t r) (r_brand r)) \<and>
    countries es sc \<noteq> [] \<and> r_country r = last (countries es sc)"
proof -
  have "sorted (map fst (tier_history es sc))" by (simp add: tier_history_def)
  then show ?thesis
    using assms(2) value_at_reads parsed [OF assms(1)] unfolding row_looked_up_def by (auto split: if_splits)
qed

lemma enrich_enriched:
  assumes "enrich ent obs = Inr (rows, drops)"
  shows "map obs_row.truncate rows = ob_rows obs"
    and "r \<in> set rows \<Longrightarrow> row_looked_up ent (ob_shops obs ! e_sc r) (ob_prods obs ! e_pc r) r"
    and "get_or [] drops pc =
       concat (map drop_times (filter (\<lambda>g. ob_prods obs ! e_pc (hd g) = pc) (runs pair_key (ob_rows obs))))"
proof -
  have f: "fold_result (enrich_group ent obs) ([], []) (runs pair_key (ob_rows obs)) = Inr (rows, drops)"
    using assms by (simp add: enrich_def split: if_splits)
  have e: "get_or [] (snd ([], []) :: drops) pc = []" for pc by (simp add: get_or_def)
  obtain rs where rs: "rows = rs" "map obs_row.truncate rs = ob_rows obs"
    "\<forall>r \<in> set rs. \<exists>g \<in> set (runs pair_key (ob_rows obs)). obs_row.truncate r \<in> set g \<and>
         row_looked_up ent (ob_shops obs ! e_sc (hd g)) (ob_prods obs ! e_pc (hd g)) r"
    "\<And>pc. get_or [] drops pc =
         concat (map drop_times (filter (\<lambda>g. ob_prods obs ! e_pc (hd g) = pc) (runs pair_key (ob_rows obs))))"
    using enrich_groups [OF f] unfolding runs_concat e by auto
  then show "map obs_row.truncate rows = ob_rows obs" "get_or [] drops pc =
       concat (map drop_times (filter (\<lambda>g. ob_prods obs ! e_pc (hd g) = pc) (runs pair_key (ob_rows obs))))" by simp_all
  show "row_looked_up ent (ob_shops obs ! e_sc r) (ob_prods obs ! e_pc r) r" if r: "r \<in> set rows" for r
  proof -
    obtain g where g: "g \<in> set (runs pair_key (ob_rows obs))" "obs_row.truncate r \<in> set g"
      "row_looked_up ent (ob_shops obs ! e_sc (hd g)) (ob_prods obs ! e_pc (hd g)) r"
      using rs(1,3) r by blast
    have "pair_key r = pair_key (hd g)"
      using runs_key [OF g(1,2)] by (simp add: truncate_pair_key)
    then show ?thesis using g(3) by (simp add: pair_key_def)
  qed
qed

text \<open>
  C19.  The enrichment of the observations by the events, row by row.  The rows keep their
  observations, in order.  The tier of a row is that of its shop's latest tier event up to its own
  time, or the newest one if there is none yet; its category and brand come in the same way from the
  earliest discovery of its product and the later changes, where no change comes before that
  discovery; its country is the one its shop registered with last.  The drop times of a product are
  the times of the rows, in order, that have an observation just before them in their listing, of
  which their price is 80 percent or less in double arithmetic.  The 80 percent are exact up to a
  part in two to the power of 52 of the price.
\<close>

theorem enrich_rows:
  assumes "parse_events es cl = Inr (ent, raw)" "build_observations raw = Inr obs" "enrich ent obs = Inr (rows, drops)"
  shows "map obs_row.truncate rows = ob_rows obs \<and>
    (\<forall>r \<in> set rows. let sc = ob_shops obs ! e_sc r; pc = ob_prods obs ! e_pc r in
       reads (tier_history es sc) (e_t r) (r_tier r) \<and>
       (sorted (map fst (category_history es pc)) \<longrightarrow> reads (category_history es pc) (e_t r) (r_category r)) \<and>
       (sorted (map fst (brand_history es pc)) \<longrightarrow> reads (brand_history es pc) (e_t r) (r_brand r)) \<and>
       countries es sc \<noteq> [] \<and> r_country r = last (countries es sc)) \<and>
    (\<forall>pc. get_or [] drops pc =
       map e_t (filter (\<lambda>r. ob_prods obs ! e_pc r = pc \<and>
         (\<exists>p \<in> set (ob_rows obs). just_before (ob_rows obs) p r \<and> o_usd r \<le> fl (o_usd p * fl (8 / 10)))) (ob_rows obs))) \<and>
    (\<forall>p \<in> set (ob_rows obs). 0 \<le> o_usd p \<longrightarrow>
       \<bar>fl (o_usd p * fl (8 / 10)) - o_usd p * (8 / 10)\<bar> \<le> o_usd p / 2 ^ 52)"
proof -
  note e = enrich_enriched [OF assms(3)] and o = observed_rows [OF assms(2)]
  have d: "get_or [] drops pc = map e_t (filter (\<lambda>r. ob_prods obs ! e_pc r = pc \<and>
         (\<exists>p \<in> set (ob_rows obs). just_before (ob_rows obs) p r \<and> o_usd r \<le> fl (o_usd p * fl (8 / 10)))) (ob_rows obs))" for pc
  proof -
    define R :: "obs_row \<Rightarrow> obs_row \<Rightarrow> bool"
      where "R p r \<longleftrightarrow> ob_prods obs ! e_pc r = pc \<and> o_usd r \<le> fl (o_usd p * fl (8 / 10))" for p r
    have "get_or [] drops pc = map (\<lambda>p. e_t (snd p))
        (filter (\<lambda>p. ob_prods obs ! e_pc (snd p) = pc \<and> pair_key (fst p) = pair_key (snd p) \<and> price_drop p)
          (zip (ob_rows obs) (tl (ob_rows obs))))"
      unfolding e(3) by (rule run_drops_zip) (simp add: pair_key_def)
    also have "\<dots> = map e_t (map snd (filter (\<lambda>(p, r). pair_key p = pair_key r \<and> R p r)
        (zip (ob_rows obs) (tl (ob_rows obs)))))"
      by (simp add: comp_def R_def price_drop_def case_prod_unfold conj_left_commute)
    finally show ?thesis unfolding zip_just_before [OF o(1)] by (auto simp: R_def intro!: arg_cong [of _ _ "map e_t"] filter_cong)
  qed
  have m: "\<bar>fl (o_usd p * fl (8 / 10)) - o_usd p * (8 / 10)\<bar> \<le> o_usd p / 2 ^ 52" if "p \<in> set (ob_rows obs)" "0 \<le> o_usd p" for p
    using o(2) [OF that(1)] that(2) eighty_percent by auto
  show ?thesis
    unfolding Let_def
    by (intro conjI ballI allI impI e(1) d) (use looked_up_reads [OF assms(1) e(2)] m in \<open>simp_all only: not_False_eq_True\<close>)
qed

section \<open>Witnesses\<close>

definition shop_log :: "event list" where
  "shop_log =
     [ShopTierChanged (u ''2024-03-01T00:00:00Z'') (u ''S1'') (u ''gold''),
      ShopRegistered (u ''2024-01-05T00:00:00Z'') (u ''S1'') (u ''DE'') (u ''bronze'') (u ''Shop'')]"

lemma asof_tier_fold_witness:
  "\<exists>ent. parse_events shop_log [] = Inr (ent, []) \<and>
     (case map_of (shop_tier_bp ent) (u ''S1'') of None \<Rightarrow> None | Some (ts, vs) \<Rightarrow> asof ts vs 1705000000) =
     foldl (\<lambda>s x. Some (snd x)) None (filter (\<lambda>x. fst x \<le> 1705000000) (sort_key fst (tier_events shop_log (u ''S1''))))"
proof -
  have t: "parse_instant (u ''2024-03-01T00:00:00Z'') = Inr 1709251200"
    "parse_instant (u ''2024-01-05T00:00:00Z'') = Inr 1704412800"
    by (simp_all add: parse_instant_def parse_date_def parse_clock_def two_digits_def valid_date_def Let_def
        days_in_month_def month_lengths_def leap_def instant_of_def to_ordinal_def days_before_year_def
        days_before_month_def epoch_ordinal_def)
  have "\<exists>ent. parse_events shop_log [] = Inr (ent, [])"
    by (simp add: parse_events_def shop_log_def t del: u_Cons)
  then obtain ent where ent: "parse_events shop_log [] = Inr (ent, [])" ..
  show ?thesis using ent asof_tier_fold [OF ent, where sc = "u ''S1''" and t = 1705000000] by blast
qed

text \<open>A shop that turns gold, and a price that halves the day after.\<close>

definition price_log :: "event list" where
  "price_log =
     [ShopRegistered (u ''2024-01-05T00:00:00Z'') (u ''S1'') (u ''DE'') (u ''bronze'') (u ''Shop''),
      ProductDiscovered (u ''2024-01-05T00:00:00Z'') (u ''S1'') (u ''P1'') (u ''Pan'') (u ''Acme'') (u ''kitchen''),
      PriceObserved (u ''S1'') (u ''P1'') (u ''2024-01-05T00:00:00Z'') (u ''2024-01-05T00:00:10Z'') 10 (u ''USD''),
      PriceObserved (u ''S1'') (u ''P1'') (u ''2024-01-06T00:00:00Z'') (u ''2024-01-06T00:00:00Z'') 5 (u ''USD''),
      ShopTierChanged (u ''2024-01-06T00:00:00Z'') (u ''S1'') (u ''gold'')]"

lemma enrich_rows_witness:
  "\<exists>ent raw obs rows drops. parse_events price_log [] = Inr (ent, raw) \<and> build_observations raw = Inr obs \<and>
     enrich ent obs = Inr (rows, drops) \<and> map e_t rows = [1704412800, 1704499200] \<and>
     (\<forall>r \<in> set rows. reads (tier_history price_log (ob_shops obs ! e_sc r)) (e_t r) (r_tier r))"
proof -
  have t: "parse_instant (u ''2024-01-05T00:00:00Z'') = Inr 1704412800"
    "parse_instant (u ''2024-01-05T00:00:10Z'') = Inr 1704412810"
    "parse_instant (u ''2024-01-06T00:00:00Z'') = Inr 1704499200"
    by (simp_all add: parse_instant_def parse_date_def parse_clock_def two_digits_def valid_date_def Let_def
        days_in_month_def month_lengths_def leap_def instant_of_def to_ordinal_def days_before_year_def
        days_before_month_def epoch_ordinal_def)
  have c: "cur_index (u ''USD'') = Inr 0"
    by (simp add: cur_index_def currencies_def index_of_def)
  have z: "t0_epoch = 1704067200"
    by (simp add: t0_epoch_def start_date_def instant_of_def to_ordinal_def days_before_year_def
        days_before_month_def epoch_ordinal_def)
  have p: "py_index calendar 4 = Inr (calendar ! 4)" "py_index calendar 5 = Inr (calendar ! 5)"
    by (simp_all add: py_index_def calendar_length)
  define ent where "ent = empty_entities \<lparr>shop_country := [(u ''S1'', u ''DE'')],
     shop_tier_raw := [(u ''S1'', [(1704412800, u ''bronze''), (1704499200, u ''gold'')])],
     shop_name_raw := [(u ''S1'', [(1704412800, u ''Shop'')])],
     prod_disc_events := [(u ''P1'', [(1704412800, u ''Pan'', u ''Acme'', u ''kitchen'')])],
     listing_discovered := [((u ''S1'', u ''P1''), 1704412800)]\<rparr>"
  define raw where "raw =
     [\<lparr>ro_sc = u ''S1'', ro_pc = u ''P1'', ro_et = u ''2024-01-05T00:00:00Z'', ro_ing = u ''2024-01-05T00:00:10Z'',
       ro_price = 10, ro_cur = u ''USD''\<rparr>,
      \<lparr>ro_sc = u ''S1'', ro_pc = u ''P1'', ro_et = u ''2024-01-06T00:00:00Z'', ro_ing = u ''2024-01-06T00:00:00Z'',
       ro_price = 5, ro_cur = u ''USD''\<rparr>]"
  have parse: "parse_events price_log [] = Inr ((finalize ent) \<lparr>clients := []\<rparr>, raw)"
    by (simp add: parse_events_def price_log_def t ent_def raw_def empty_entities_def first_discovery_def
        dict_append_def get_or_def Let_def del: u_Cons)
  obtain obs where obs: "build_observations raw = Inr obs" "ob_shops obs = [u ''S1'']" "ob_prods obs = [u ''P1'']"
    "map e_sc (ob_rows obs) = [0, 0]" "map e_pc (ob_rows obs) = [0, 0]" "map e_t (ob_rows obs) = [1704412800, 1704499200]"
    by (simp add: build_observations_def raw_def encode_def t c dedup_rows_def row_key_def obs_of_def z p sorted_set_def
        index_of_def enc_row.extend_def Let_def del: u_Cons)
  have "\<exists>x y. ob_rows obs = [x, y] \<and> e_sc x = 0 \<and> e_sc y = 0 \<and> e_pc x = 0 \<and> e_pc y = 0 \<and> e_t x = 1704412800 \<and> e_t y = 1704499200"
    using obs(4-6) by (auto simp: map_eq_Cons_conv)
  then obtain x y where xy: "ob_rows obs = [x, y]" "e_sc x = 0" "e_sc y = 0" "e_pc x = 0" "e_pc y = 0"
    "e_t x = 1704412800" "e_t y = 1704499200" by blast
  have "\<exists>rows drops. enrich ((finalize ent) \<lparr>clients := []\<rparr>) obs = Inr (rows, drops)"
    by (simp add: enrich_def xy obs(2,3) pair_key_def enrich_group_def lookup_def finalize_def ent_def empty_entities_def
        sort_dict_def split_history_def attr_history_def get_or_def
        value_at_def py_index_def bisect_right_def bisect_loop.simps Let_def del: u_Cons)
  then obtain rows drops where e: "enrich ((finalize ent) \<lparr>clients := []\<rparr>) obs = Inr (rows, drops)" by blast
  note all = enrich_rows [OF parse obs(1) e]
  have "map e_t rows = map e_t (map obs_row.truncate rows)" by (simp add: obs_row.truncate_def)
  then have m1: "map e_t rows = [1704412800, 1704499200]" using all by (simp add: xy)
  have m2: "\<forall>r \<in> set rows. reads (tier_history price_log (ob_shops obs ! e_sc r)) (e_t r) (r_tier r)"
    using all unfolding Let_def by blast
  show ?thesis by (intro exI conjI) (rule parse, rule obs(1), rule e, rule m1, rule m2)
qed

end
