(* ===== verification/GroundTruth.thy ===== *)
theory GroundTruth
  imports Enrichment
begin

text \<open>
  The answers of 03-data-modeling/harness/ground_truth.py: one definition per question q01 to q15
  over the parsed entities and the enriched observations, \<open>compute_all\<close> with its assertions, and
  the cache of \<open>load_or_compute\<close>.  An answer is a list of column names and rows of cells.
\<close>

section \<open>Answers\<close>

datatype cell = CStr pystr | CInt int | CNum rat | CNone

type_synonym answer = "pystr list \<times> cell list list"

definition list_min :: "('a :: linorder) list \<Rightarrow> 'a" where
  "list_min xs = foldl min (hd xs) (tl xs)"

definition list_max :: "('a :: linorder) list \<Rightarrow> 'a" where
  "list_max xs = foldl max (hd xs) (tl xs)"

definition add_to :: "'k \<Rightarrow> rat \<Rightarrow> ('k \<times> rat) list \<Rightarrow> ('k \<times> rat) list" where
  "add_to k x m = alist_set k (fl (get_or 0 m k + x)) m"

text \<open>The per-key sum and count of the answers that average.\<close>

type_synonym 'k stats = "('k \<times> rat \<times> int) list"

definition add_stat :: "'k \<Rightarrow> rat \<Rightarrow> 'k stats \<Rightarrow> 'k stats" where
  "add_stat k x m = (case get_or (0, 0) m k of (s, c) \<Rightarrow> alist_set k (fl (s + x), c + 1) m)"

definition fmt_month :: "nat \<Rightarrow> nat \<Rightarrow> pystr" where
  "fmt_month y m = pad 4 y @ [45] @ pad 2 m"

definition fmt_quarter :: "nat \<Rightarrow> nat \<Rightarrow> pystr" where
  "fmt_quarter y q = pad 4 y @ u ''-Q'' @ nat_str q"

section \<open>Listings (q01, q02, q03)\<close>

definition is_active :: "(instant \<times> lifecycle) list \<Rightarrow> bool" where
  "is_active evs = foldl (\<lambda>_ e. snd e = Relisted) True evs"

definition q01 :: "entities \<Rightarrow> answer" where
  "q01 ent =
     (let counts = foldl (\<lambda>m l. if is_active (get_or [] (listing_lifecycle ent) (fst l)) then bump (fst (fst l)) m else m)
            [] (listing_discovered ent)
      in ([u ''shop_code'', u ''active_listings''], map (\<lambda>(sc, c). [CStr sc, CInt c]) (sort counts)))"

definition top10_products :: "pystr list" where
  "top10_products =
     [u ''P00001'', u ''P01996'', u ''P01001'', u ''P00004'', u ''P00998'',
      u ''P01995'', u ''P01000'', u ''P01999'', u ''P00002'', u ''P00999'']"

definition q02_keep :: "observations \<Rightarrow> (listing \<times> instant \<times> rat) list \<Rightarrow> rich_row \<Rightarrow> (listing \<times> instant \<times> rat) list" where
  "q02_keep obs latest r =
     (let key = (ob_shops obs ! e_sc r, ob_prods obs ! e_pc r) in
      case map_of latest key of
        None \<Rightarrow> alist_set key (e_t r, o_usd r) latest
      | Some (t0, _) \<Rightarrow> if t0 < e_t r then alist_set key (e_t r, o_usd r) latest else latest)"

definition q02 :: "observations \<Rightarrow> rich_row list \<Rightarrow> answer result" where
  "q02 obs rows =
     bind_result (map_result (\<lambda>pc. list_index pc (ob_prods obs)) top10_products) (\<lambda>idx.
     let latest = foldl (q02_keep obs) [] (filter (\<lambda>r. e_pc r \<in> set idx) rows);
         out = map (\<lambda>((sc, pc), t, usd). (pc, sc, fmt_instant t, round4 usd)) latest
     in Inr ([u ''product_code'', u ''shop_code'', u ''event_time'', u ''price_usd''],
             map (\<lambda>(pc, sc, t, p). [CStr pc, CStr sc, CStr t, CNum p])
               (sort_key (\<lambda>(pc, sc, t, p). (pc, sc)) out)))"

definition q03 :: "observations \<Rightarrow> rich_row list \<Rightarrow> answer result" where
  "q03 obs rows =
     (let counts = foldl (\<lambda>m r. bump (currencies ! e_cur r) m) [] rows in
      check (ob_dedup_count obs \<noteq> ob_raw_count obs)
        ([u ''currency'', u ''observation_count''],
         map (\<lambda>(c, n). [CStr c, CInt n]) (sort counts) @ [[CStr (u ''ALL''), CInt (int (ob_dedup_count obs))]]))"

section \<open>Daily and tier averages (q04, q05)\<close>

definition q04_product :: pystr where "q04_product = u ''P00001''"

definition q04_window_days :: nat where "q04_window_days = 60"

definition q04_start :: instant where "q04_start = midnight 2025 1 1"

definition q04_day :: "(int \<times> rat list) list \<Rightarrow> nat \<Rightarrow> cell list result" where
  "q04_day day_vals day =
     (let vals = get_or [] day_vals (int day) in
      if vals = [] then Inl AssertionError
      else Inr [CStr (fmt_date (date_of (q04_start + 86400 * int day))), CNum (round4 (list_min vals)),
                CNum (round4 (list_max vals)), CNum (round4 (fdiv (py_sum vals) (int (length vals))))])"

definition q04 :: "observations \<Rightarrow> rich_row list \<Rightarrow> answer result" where
  "q04 obs rows =
     bind_result (list_index q04_product (ob_prods obs)) (\<lambda>pidx.
     let win_end = q04_start + int q04_window_days * 86400;
         sel = filter (\<lambda>r. e_pc r = pidx \<and> q04_start \<le> e_t r \<and> e_t r < win_end) rows;
         day_vals = foldl (\<lambda>m r. dict_append ((e_t r - q04_start) div 86400) [o_usd r] m) [] sel
     in bind_result (map_result (q04_day day_vals) [0..<q04_window_days]) (\<lambda>out.
        Inr ([u ''day'', u ''min_price_usd'', u ''max_price_usd'', u ''avg_price_usd''], out)))"

definition mask_month :: "nat \<Rightarrow> nat \<Rightarrow> rich_row list \<Rightarrow> rich_row list" where
  "mask_month y m rows = filter (\<lambda>r. o_year r = y \<and> o_month r = m) rows"

definition averages :: "('k \<times> rat) list \<Rightarrow> ('k \<times> int) list \<Rightarrow> ('k \<times> rat) list" where
  "averages tots cnts = map (\<lambda>(k, s). (k, round4 (fdiv s (get_or 0 cnts k)))) tots"

definition dict_eq :: "('k \<times> 'v) list \<Rightarrow> ('k \<times> 'v) list \<Rightarrow> bool" where
  "dict_eq a b \<longleftrightarrow> list_all (\<lambda>k. map_of a k = map_of b k) (map fst a @ map fst b)"

definition final_tier :: "entities \<Rightarrow> (pystr \<times> pystr) list" where
  "final_tier ent = map (\<lambda>(sc, bp). (sc, last (snd bp))) (shop_tier_bp ent)"

type_synonym q05_delta = "(pystr \<times> rat option \<times> rat option) list"

definition q05_step ::
  "entities \<Rightarrow> observations \<Rightarrow> (pystr \<times> rat) list \<times> (pystr \<times> int) list \<Rightarrow> rich_row \<Rightarrow>
     ((pystr \<times> rat) list \<times> (pystr \<times> int) list) result" where
  "q05_step ent obs acc r =
     bind_result (lookup (final_tier ent) (ob_shops obs ! e_sc r)) (\<lambda>t.
     Inr (add_to t (o_usd r) (fst acc), bump t (snd acc)))"

definition q05 :: "entities \<Rightarrow> observations \<Rightarrow> rich_row list \<Rightarrow> (answer \<times> q05_delta) result" where
  "q05 ent obs rows =
     (let sel = mask_month 2024 12 rows;
          tots = foldl (\<lambda>m r. add_to (r_tier r) (o_usd r) m) [] sel;
          cnts = foldl (\<lambda>m r. bump (r_tier r) m) [] sel;
          asof_rows = averages (sort_key fst tots) cnts
      in bind_result (fold_result (q05_step ent obs) ([], []) sel) (\<lambda>(fsum, fcnt).
         let final_rows = averages fsum fcnt;
             delta = map (\<lambda>t. (t, map_of asof_rows t, map_of final_rows t))
                       (remdups (map fst asof_rows @ map fst final_rows))
         in if dict_eq asof_rows final_rows then Inl AssertionError
            else Inr (([u ''tier'', u ''avg_price_usd''], map (\<lambda>(t, a). [CStr t, CNum a]) asof_rows), delta)))"

section \<open>Names, brands and tiers at a date (q06, q07, q08)\<close>

definition q06_products :: "pystr list" where
  "q06_products = [u ''P00008'', u ''P00595'', u ''P00652'']"

definition q06_d1 :: instant where
  "q06_d1 = midnight 2024 4 1"

definition q06_d2 :: instant where
  "q06_d2 = midnight 2024 7 1"

definition opt_cell :: "pystr option \<Rightarrow> cell" where
  "opt_cell v = (case v of None \<Rightarrow> CNone | Some s \<Rightarrow> CStr s)"

definition q06 :: "entities \<Rightarrow> answer result" where
  "q06 ent =
     bind_result (map_result (\<lambda>pc.
        bind_result (lookup (prod_brand_bp ent) pc) (\<lambda>(ts, vs).
        Inr (pc, asof ts vs q06_d1, asof ts vs q06_d2))) (sort q06_products)) (\<lambda>rows.
     check (list_ex (\<lambda>(pc, b1, b2). b1 \<noteq> b2) rows)
       ([u ''product_code'', u ''brand_as_of_d1'', u ''brand_as_of_d2''],
        map (\<lambda>(pc, b1, b2). [CStr pc, opt_cell b1, opt_cell b2]) rows))"

definition q07_cutoff :: instant where
  "q07_cutoff = midnight 2024 9 1"

definition q07_row :: "pystr \<times> breakpoints \<Rightarrow> (pystr \<times> pystr option \<times> pystr) option" where
  "q07_row e = (case e of (sc, ts, vs) \<Rightarrow>
     if length vs < 2 then None
     else if ts ! 1 < q07_cutoff then Some (sc, asof ts vs q07_cutoff, last vs) else None)"

definition q07 :: "entities \<Rightarrow> answer result" where
  "q07 ent =
     (let rows = sort_key fst (List.map_filter q07_row (shop_name_bp ent)) in
      check (rows \<noteq> [])
        ([u ''shop_code'', u ''name_as_of_cutoff'', u ''current_name''],
         map (\<lambda>(sc, a, c). [CStr sc, opt_cell a, CStr c]) rows))"

definition q08_step ::
  "entities \<Rightarrow> (pystr \<times> int) list \<times> int \<Rightarrow> listing \<times> instant \<Rightarrow> ((pystr \<times> int) list \<times> int) result" where
  "q08_step ent acc l = (case l of ((sc, pc), t) \<Rightarrow>
     bind_result (lookup (shop_tier_bp ent) sc) (\<lambda>(ts, vs).
     Inr (if asof ts vs t = Some (u ''gold'') then (bump sc (fst acc), snd acc + 1) else acc)))"

definition q08 :: "entities \<Rightarrow> (answer \<times> int) result" where
  "q08 ent =
     bind_result (fold_result (q08_step ent) ([], 0) (listing_discovered ent)) (\<lambda>(counts, total).
     check (0 < total)
       (([u ''shop_code'', u ''gold_discovered_listings''],
         map (\<lambda>(sc, c). [CStr sc, CInt c]) (sort counts) @ [[CStr (u ''TOTAL''), CInt total]]), total))"

section \<open>Category and country averages (q09, q10, q11, q15)\<close>

definition mask_2025 :: "rich_row list \<Rightarrow> rich_row list" where
  "mask_2025 rows = filter (\<lambda>r. o_year r = 2025) rows"

definition cat_stats :: "rich_row list \<Rightarrow> (nat \<times> pystr) stats" where
  "cat_stats rows = sort_key fst (foldl (\<lambda>m r. add_stat (o_month r, r_category r) (o_usd r) m) [] (mask_2025 rows))"

definition q09 :: "rich_row list \<Rightarrow> answer" where
  "q09 rows =
     ([u ''month'', u ''category'', u ''avg_price_usd'', u ''observation_count''],
      map (\<lambda>((m, cat), s, c). [CStr (fmt_month 2025 m), CStr cat, CNum (round4 (fdiv s c)), CInt c]) (cat_stats rows))"

definition q15 :: "rich_row list \<Rightarrow> answer" where
  "q15 rows =
     ([u ''month'', u ''category'', u ''observation_count''],
      map (\<lambda>((m, cat), s, c). [CStr (fmt_month 2025 m), CStr cat, CInt c]) (cat_stats rows))"

definition q10 :: "rich_row list \<Rightarrow> answer" where
  "q10 rows =
     (let sel = filter (\<lambda>r. midnight 2025 1 1 \<le> e_t r \<and> e_t r < midnight 2025 7 1) rows;
          stats = foldl (\<lambda>m r. add_stat (r_country r, r_tier r) (o_usd r) m) [] sel
      in ([u ''country'', u ''tier'', u ''avg_price_usd''],
          map (\<lambda>((cnty, tier), s, c). [CStr cnty, CStr tier, CNum (round4 (fdiv s c))]) (sort stats)))"

definition q11_rank :: "(pystr \<times> int) list \<Rightarrow> (pystr \<times> int) list" where
  "q11_rank brands = take 5 (sort_key (\<lambda>(b, c). (- c, b)) brands)"

definition q11 :: "rich_row list \<Rightarrow> answer" where
  "q11 rows =
     (let q_stats = foldl (\<lambda>m r. bump (o_quarter r, r_brand r) m) [] (mask_2025 rows);
          by_quarter = foldl (\<lambda>m ((q, brand), c). dict_append q [(brand, c)] m) [] q_stats
      in ([u ''quarter'', u ''rank'', u ''brand'', u ''observation_count''],
          concat (map (\<lambda>(q, brands).
            map (\<lambda>(rank, brand, c). [CStr (fmt_quarter 2025 q), CInt (int rank), CStr brand, CInt c])
              (enumerate 1 (q11_rank brands))) (sort_key fst by_quarter))))"

section \<open>Delistings, lateness and clients (q12, q13, q14)\<close>

definition q12_last :: "(instant \<times> lifecycle) list \<Rightarrow> bool \<times> instant option" where
  "q12_last evs = foldl (\<lambda>(active, last_delist) (t, kind).
     if kind = Delisted then (False, Some t) else (True, last_delist)) (True, None) evs"

definition q12_row :: "listing \<times> (instant \<times> lifecycle) list \<Rightarrow> (pystr \<times> pystr \<times> pystr) option" where
  "q12_row e = (case e of ((sc, pc), evs) \<Rightarrow>
     (case q12_last evs of
        (False, Some t) \<Rightarrow> if d_year (date_of t) = 2025 then Some (sc, pc, fmt_date (date_of t)) else None
      | _ \<Rightarrow> None))"

definition q12 :: "entities \<Rightarrow> answer result" where
  "q12 ent =
     (let rows = sort_key (\<lambda>(sc, pc, d). (sc, pc)) (List.map_filter q12_row (listing_lifecycle ent)) in
      check (rows \<noteq> [])
        ([u ''shop_code'', u ''product_code'', u ''delisted_date''],
         map (\<lambda>(sc, pc, d). [CStr sc, CStr pc, CStr d]) rows))"

definition q13a :: "rich_row list \<Rightarrow> answer" where
  "q13a rows =
     (let sel = mask_2025 rows;
          total = foldl (\<lambda>m r. bump (o_month r) m) [] sel;
          late = foldl (\<lambda>m r. if 86400 < e_ing r - e_t r then bump (o_month r) m else m) [] sel
      in ([u ''month'', u ''late_share''],
          map (\<lambda>(m, n). [CStr (fmt_month 2025 m), CNum (round4 (fdiv (of_int (get_or 0 late m)) n))]) (sort total)))"

definition q13_cutoff :: instant where
  "q13_cutoff = midnight 2025 4 1"

definition q13b :: "rich_row list \<Rightarrow> (answer \<times> nat) result" where
  "q13b rows =
     (let sel = mask_month 2025 3 rows;
          cut = filter (\<lambda>r. e_ing r \<le> q13_cutoff) sel;
          all_sum = foldl (\<lambda>m r. add_to (r_category r) (o_usd r) m) [] sel;
          all_cnt = foldl (\<lambda>m r. bump (r_category r) m) [] sel;
          cut_sum = foldl (\<lambda>m r. add_to (r_category r) (o_usd r) m) [] cut;
          cut_cnt = foldl (\<lambda>m r. bump (r_category r) m) [] cut;
          out = map (\<lambda>(cat, s).
            (cat, round4 (fdiv s (get_or 0 all_cnt cat)),
             if get_or 0 cut_cnt cat = 0 then None
             else Some (round4 (fdiv (get_or 0 cut_sum cat) (get_or 0 cut_cnt cat))))) (sort_key fst all_sum);
          diff = length (filter (\<lambda>(cat, a, b). case b of None \<Rightarrow> False | Some b \<Rightarrow> fl (1 / 1000000) < \<bar>fl (a - b)\<bar>) out)
      in check (0 < diff)
        (([u ''category'', u ''avg_price_usd_all'', u ''avg_price_usd_by_cutoff''],
          map (\<lambda>(cat, a, b). [CStr cat, CNum a, case b of None \<Rightarrow> CNone | Some b \<Rightarrow> CNum b]) out), diff))"

definition q14_client :: "drops \<Rightarrow> pystr \<times> (pystr \<times> pystr) list \<Rightarrow> cell list result" where
  "q14_client product_drops c = (case c of (code, tracked) \<Rightarrow>
     bind_result (map_result (\<lambda>(pc, since).
        bind_result (parse_instant since) (\<lambda>t.
        Inr (int (length (filter (\<lambda>d. t \<le> d) (get_or [] product_drops pc)))))) tracked) (\<lambda>counts.
     Inr [CStr code, CInt (int (length tracked)), CInt (sum_list counts)]))"

definition q14 :: "entities \<Rightarrow> drops \<Rightarrow> answer result" where
  "q14 ent product_drops =
     (let products = foldl (\<lambda>m c. dict_append (cl_code c) [(cl_product c, cl_since c)] m) [] (clients ent) in
      bind_result (map_result (q14_client product_drops) (sort_key fst products)) (\<lambda>rows.
      Inr ([u ''client_code'', u ''tracked_products'', u ''price_drop_count''], rows)))"

section \<open>All answers and the cache\<close>

record meta =
  meta_sha :: pystr
  meta_clients_sha :: pystr

record gt_notes =
  n_raw_obs :: nat
  n_dedup_obs :: nat
  n_q03_delta :: int
  n_q05 :: q05_delta
  n_q08_total :: int
  n_q12_count :: nat
  n_q13b :: nat

record gt_result =
  res_sha :: pystr
  res_clients_sha :: pystr
  res_answers :: "(pystr \<times> answer) list"
  res_notes :: gt_notes

definition compute_all :: "event list \<Rightarrow> client_row list \<Rightarrow> meta \<Rightarrow> gt_result result" where
  "compute_all events cls meta =
     bind_result (parse_events events cls) (\<lambda>(ent, raw).
     bind_result (build_observations raw) (\<lambda>obs.
     bind_result (enrich ent obs) (\<lambda>(rows, product_drops).
     bind_result (q02 obs rows) (\<lambda>a02.
     bind_result (q03 obs rows) (\<lambda>a03.
     bind_result (q04 obs rows) (\<lambda>a04.
     bind_result (q05 ent obs rows) (\<lambda>(a05, delta).
     bind_result (q06 ent) (\<lambda>a06.
     bind_result (q07 ent) (\<lambda>a07.
     bind_result (q08 ent) (\<lambda>(a08, gold).
     bind_result (q12 ent) (\<lambda>a12.
     bind_result (q13b rows) (\<lambda>(a13b, diff).
     bind_result (q14 ent product_drops) (\<lambda>a14.
     Inr \<lparr>res_sha = meta_sha meta, res_clients_sha = meta_clients_sha meta,
          res_answers =
            [(u ''q01'', q01 ent), (u ''q02'', a02), (u ''q03'', a03), (u ''q04'', a04), (u ''q05'', a05),
             (u ''q06'', a06), (u ''q07'', a07), (u ''q08'', a08), (u ''q09'', q09 rows), (u ''q15'', q15 rows),
             (u ''q10'', q10 rows), (u ''q11'', q11 rows), (u ''q12'', a12), (u ''q13a'', q13a rows),
             (u ''q13b'', a13b), (u ''q14'', a14)],
          res_notes = \<lparr>n_raw_obs = ob_raw_count obs, n_dedup_obs = ob_dedup_count obs,
            n_q03_delta = int (ob_raw_count obs) - int (ob_dedup_count obs), n_q05 = delta,
            n_q08_total = gold, n_q12_count = length (snd a12), n_q13b = diff\<rparr>\<rparr>)))))))))))))"

text \<open>
  The cache file holds at most one result; \<open>json.load\<close> reads back what \<open>json.dump\<close> wrote.  The pass
  over the data is run only when the file is absent or carries other checksums.
\<close>

definition load_or_compute ::
  "event list \<Rightarrow> client_row list \<Rightarrow> meta \<Rightarrow> gt_result option \<Rightarrow> bool \<Rightarrow> (gt_result \<times> gt_result option) result" where
  "load_or_compute events cls meta cache refresh =
     (let fresh = bind_result (compute_all events cls meta) (\<lambda>r. Inr (r, Some r)) in
      if refresh then fresh
      else case cache of
        None \<Rightarrow> fresh
      | Some r \<Rightarrow> if res_sha r = meta_sha meta \<and> res_clients_sha r = meta_clients_sha meta then Inr (r, cache) else fresh)"

datatype gt_output = PrintAnswer answer | PrintAll gt_result | UnknownKey "pystr list"

definition gt_main ::
  "event list \<Rightarrow> client_row list \<Rightarrow> meta \<Rightarrow> gt_result option \<Rightarrow> bool \<Rightarrow> pystr option \<Rightarrow>
     (gt_output \<times> gt_result option) result" where
  "gt_main events cls meta cache refresh q =
     bind_result (load_or_compute events cls meta cache refresh) (\<lambda>(r, cache').
     Inr (case q of
        None \<Rightarrow> PrintAll r
      | Some k \<Rightarrow>
          if k = [] then PrintAll r
          else case map_of (res_answers r) k of
            None \<Rightarrow> UnknownKey (sort (map fst (res_answers r)))
          | Some a \<Rightarrow> PrintAnswer a, cache'))"

section \<open>Correctness\<close>

lemma sort_alist:
  assumes "distinct (map fst m)"
  shows "sort m = map (\<lambda>k. (k, get_or d m k)) (sort (map fst m))"
proof -
  have s: "sorted (map fst (sort m))"
  proof -
    have "sorted_wrt (\<le>) (sort m)" by simp
    then show ?thesis
      unfolding sorted_map by (rule sorted_wrt_mono_rel [rotated]) (auto simp: less_eq_prod_def)
  qed
  have "map fst (sort m) = sort (map fst m)"
  proof (rule sorted_distinct_set_unique)
    show "distinct (map fst (sort m))"
      by (metis assms distinct_map distinct_sort set_sort)
  qed (use s assms in simp_all)
  then have k: "sort (map fst m) = map fst (sort m)" ..
  have "get_or d m (fst x) = snd x" if "x \<in> set m" for x
    using map_of_is_SomeI [OF assms, of "fst x" "snd x"] that by (simp add: get_or_def)
  then have "map (\<lambda>x. (fst x, get_or d m (fst x))) (sort m) = sort m"
    by (intro map_idI) simp
  then show ?thesis unfolding k by (simp add: comp_def)
qed

lemma sort_distinct_keys: "distinct xs \<Longrightarrow> set xs = set ys \<Longrightarrow> sort xs = sorted_set ys"
  unfolding sorted_set_def by (rule sorted_distinct_set_unique) simp_all

lemma is_active_last: "is_active evs \<longleftrightarrow> evs = [] \<or> snd (last evs) = Relisted"
  unfolding is_active_def by (cases evs rule: rev_cases) simp_all

text \<open>
  Question q01 counts, for every shop with an active listing, its listings that are active at
  the end of the stream: discovered, and last relisted or never delisted.  The shops are in
  ascending order, each once, and a shop without an active listing has no row.
\<close>

theorem q01_counts:
  "let active = (\<lambda>l. let evs = get_or [] (listing_lifecycle ent) (fst l) in evs = [] \<or> snd (last evs) = Relisted);
       found = filter active (listing_discovered ent)
   in snd (q01 ent) =
     map (\<lambda>sc. [CStr sc, CInt (int (length (filter (\<lambda>l. fst (fst l) = sc) found)))])
       (sorted_set (map (fst \<circ> fst) found))"
proof -
  define P where "P = (\<lambda>l :: listing \<times> instant. is_active (get_or [] (listing_lifecycle ent) (fst l)))"
  define found where "found = filter P (listing_discovered ent)"
  define m where "m = foldl (\<lambda>m l. if P l then bump (fst (fst l)) m else m) [] (listing_discovered ent)"
  have d: "distinct (map fst m)" unfolding m_def by (rule distinct_fold_bump) simp
  have k: "set (map fst m) = set (map (fst \<circ> fst) found)"
    using keys_fold_bump [of P "\<lambda>l. fst (fst l)" "[]" "listing_discovered ent"]
    by (simp add: m_def found_def image_comp comp_def)
  have c: "get_or 0 m sc = int (length (filter (\<lambda>l. fst (fst l) = sc) found))" for sc
    using get_or_fold_bump [of P "\<lambda>l. fst (fst l)" "[]" "listing_discovered ent" sc]
    by (simp add: m_def found_def get_or_def conj_commute)
  have "sort m = map (\<lambda>sc. (sc, get_or 0 m sc)) (sorted_set (map (fst \<circ> fst) found))"
    unfolding sort_alist [OF d, of 0] sort_distinct_keys [OF d k] ..
  from this [unfolded c, unfolded m_def P_def] have "sort (foldl (\<lambda>m l. if is_active (get_or [] (listing_lifecycle ent) (fst l))
        then bump (fst (fst l)) m else m) [] (listing_discovered ent)) =
      map (\<lambda>sc. (sc, int (length (filter (\<lambda>l. fst (fst l) = sc) found)))) (sorted_set (map (fst \<circ> fst) found))"
    .
  then have "snd (q01 ent) = map (\<lambda>sc. [CStr sc, CInt (int (length (filter (\<lambda>l. fst (fst l) = sc) found)))])
       (sorted_set (map (fst \<circ> fst) found))"
    by (simp add: q01_def)
  then show ?thesis
    unfolding Let_def found_def P_def is_active_last .
qed

lemma compute_all_shas:
  "compute_all events cls meta = Inr r \<Longrightarrow> res_sha r = meta_sha meta \<and> res_clients_sha r = meta_clients_sha meta"
  unfolding compute_all_def by (auto simp: bind_result_Inr split: prod.splits)

text \<open>
  C33.  The cache of the reference answers.  A successful call returns a result that carries the
  checksums of the current event stream and clients file, and leaves exactly that result in the
  cache; it was computed from the data unless the cache already held a result with those checksums
  and no refresh was asked for.  The next call without a refresh returns the same result from the
  cache, whatever the data, as long as the checksums are the same.
\<close>

theorem cached_answers_current:
  assumes "load_or_compute events cls meta cache refresh = Inr (r, cache')"
  shows "res_sha r = meta_sha meta \<and> res_clients_sha r = meta_clients_sha meta \<and> cache' = Some r \<and>
    (compute_all events cls meta = Inr r \<or> \<not> refresh \<and> cache = Some r) \<and>
    load_or_compute events' cls' meta cache' False = Inr (r, cache')"
proof -
  have "(compute_all events cls meta = Inr r \<and> cache' = Some r) \<or>
    (\<not> refresh \<and> cache = Some r \<and> cache' = Some r \<and> res_sha r = meta_sha meta \<and> res_clients_sha r = meta_clients_sha meta)"
    using assms unfolding load_or_compute_def Let_def
    by (cases refresh; cases cache) (auto simp: bind_result_Inr split: if_splits)
  then have c: "res_sha r = meta_sha meta \<and> res_clients_sha r = meta_clients_sha meta \<and> cache' = Some r \<and>
    (compute_all events cls meta = Inr r \<or> \<not> refresh \<and> cache = Some r)"
    using compute_all_shas by blast
  then have "load_or_compute events' cls' meta cache' False = Inr (r, cache')"
    by (simp add: load_or_compute_def)
  with c show ?thesis by blast
qed

definition old_result :: gt_result where
  "old_result = \<lparr>res_sha = [49], res_clients_sha = [50], res_answers = [],
     res_notes = \<lparr>n_raw_obs = 1, n_dedup_obs = 1, n_q03_delta = 0, n_q05 = [], n_q08_total = 0, n_q12_count = 0, n_q13b = 0\<rparr>\<rparr>"

lemma cached_answers_current_witness:
  "load_or_compute [] [] \<lparr>meta_sha = [49], meta_clients_sha = [50]\<rparr> (Some old_result) False =
     Inr (old_result, Some old_result) \<and> res_sha old_result = [49]"
proof -
  have l: "load_or_compute [] [] \<lparr>meta_sha = [49], meta_clients_sha = [50]\<rparr> (Some old_result) False =
      Inr (old_result, Some old_result)"
    by (simp add: load_or_compute_def old_result_def)
  show ?thesis using l cached_answers_current [OF l, of "[]" "[]"] by simp
qed

end
