(* ===== verification/SqlGrader.thy ===== *)
theory SqlGrader
  imports GroundTruth Json PyAscii "HOL-Library.Multiset"
begin

text \<open>
  The SQL grader 03-data-modeling/harness/validate.py: stub detection, normalisation of the values
  the database returns, the tolerant multiset comparison, one question, the star-schema precheck
  and the command line.  PostgreSQL and the file system are parameters; the printed lines are the
  \<open>verdict\<close> of a question.
\<close>

section \<open>Questions\<close>

definition all_questions :: "pystr list" where
  "all_questions =
     [u ''q01'', u ''q02'', u ''q03'', u ''q04'', u ''q05'', u ''q06'', u ''q07'', u ''q08'',
      u ''q09'', u ''q10'', u ''q11'', u ''q12'', u ''q13a'', u ''q13b'', u ''q14'', u ''q15'']"

definition task_questions :: "(pystr \<times> pystr list) list" where
  "task_questions =
     [(u ''01'', [u ''q01'', u ''q02'', u ''q03'', u ''q04'']),
      (u ''02'', [u ''q05'', u ''q06'', u ''q07'', u ''q08'']),
      (u ''03'', [u ''q09'', u ''q10'', u ''q11'']),
      (u ''04'', [u ''q12'', u ''q13a'', u ''q13b'', u ''q14'', u ''q15''])]"

definition star_schema_questions :: "pystr list" where
  "star_schema_questions = [u ''q09'', u ''q10'', u ''q11'']"

definition default_sql_path :: "(pystr \<times> pystr) list" where
  "default_sql_path =
     [(u ''q01'', u ''01-relational-core/src/q01.sql''),
      (u ''q02'', u ''01-relational-core/src/q02.sql''),
      (u ''q03'', u ''01-relational-core/src/q03.sql''),
      (u ''q04'', u ''01-relational-core/src/q04.sql''),
      (u ''q05'', u ''02-scd2-history/src/q05.sql''),
      (u ''q06'', u ''02-scd2-history/src/q06.sql''),
      (u ''q07'', u ''02-scd2-history/src/q07.sql''),
      (u ''q08'', u ''02-scd2-history/src/q08.sql''),
      (u ''q09'', u ''03-star-schema/src/q09.sql''),
      (u ''q10'', u ''03-star-schema/src/q10.sql''),
      (u ''q11'', u ''03-star-schema/src/q11.sql''),
      (u ''q12'', u ''04-capstone-bitemporal/src/q12.sql''),
      (u ''q13a'', u ''04-capstone-bitemporal/src/q13a.sql''),
      (u ''q13b'', u ''04-capstone-bitemporal/src/q13b.sql''),
      (u ''q14'', u ''04-capstone-bitemporal/src/q14.sql''),
      (u ''q15'', u ''04-capstone-bitemporal/src/q15.sql'')]"

section \<open>SQL text\<close>

text \<open>The rest of the text after the first end of a block comment.\<close>

fun after_close :: "pystr \<Rightarrow> pystr option" where
  "after_close [] = None"
| "after_close (c # s) = (if startswith (c # s) [42, 47] then Some (drop 1 s) else after_close s)"

lemma after_close_length: "after_close s = Some r \<Longrightarrow> length r < length s"
  by (induction s) (auto split: if_splits)

function strip_block :: "pystr \<Rightarrow> pystr" where
  "strip_block s =
     (case s of
        [] \<Rightarrow> []
      | c # t \<Rightarrow>
          if startswith s [47, 42] then
            (case after_close (drop 2 s) of None \<Rightarrow> c # strip_block t | Some r \<Rightarrow> strip_block r)
          else c # strip_block t)"
  by pat_completeness auto
termination
  by (relation "measure length") (auto dest: after_close_length)

declare strip_block.simps [simp del]

function strip_line :: "pystr \<Rightarrow> pystr" where
  "strip_line s =
     (case s of
        [] \<Rightarrow> []
      | c # t \<Rightarrow> if startswith s [45, 45] then strip_line (dropWhile (\<lambda>c. c \<noteq> 10) s) else c # strip_line t)"
  by pat_completeness auto
termination
  by (relation "measure length") (auto simp: startswith_def length_dropWhile_le le_imp_less_Suc)

declare strip_line.simps [simp del]

definition strip_sql_comments :: "pystr \<Rightarrow> pystr" where
  "strip_sql_comments text = strip_line (strip_block text)"

definition is_stub :: "pystr \<Rightarrow> bool" where
  "is_stub text \<longleftrightarrow> strip_by is_space (strip_sql_comments text) = []"

text \<open>
  The pattern \<open>\bpublic\s*\.\<close>.  The word characters outside ASCII are a parameter.
\<close>

definition word_char :: "(nat \<Rightarrow> bool) \<Rightarrow> nat \<Rightarrow> bool" where
  "word_char uni c \<longleftrightarrow>
     (48 \<le> c \<and> c \<le> 57) \<or> (65 \<le> c \<and> c \<le> 90) \<or> c = 95 \<or> (97 \<le> c \<and> c \<le> 122) \<or> (128 \<le> c \<and> uni c)"

fun public_from :: "(nat \<Rightarrow> bool) \<Rightarrow> nat option \<Rightarrow> pystr \<Rightarrow> bool" where
  "public_from uni prev [] = False"
| "public_from uni prev (c # s) =
     ((case prev of None \<Rightarrow> True | Some p \<Rightarrow> \<not> word_char uni p) \<and>
        startswith (c # s) (u ''public'') \<and>
        startswith (dropWhile is_space (drop 6 (c # s))) [46]
      \<or> public_from uni (Some c) s)"

definition public_schema :: "(nat \<Rightarrow> bool) \<Rightarrow> pystr \<Rightarrow> bool" where
  "public_schema uni text = public_from uni None text"

datatype read_error = NotFound | StillStub

definition read_sql_file :: "(pystr \<Rightarrow> pystr option) \<Rightarrow> pystr \<Rightarrow> read_error + pystr" where
  "read_sql_file files path =
     (case files path of
        None \<Rightarrow> Inl NotFound
      | Some text \<Rightarrow> if is_stub text then Inl StillStub else Inr text)"

section \<open>Values\<close>

datatype sqlval =
    VNone
  | VDateTime instant "int option"  \<comment> \<open>local seconds, offset from UTC if aware\<close>
  | VDate date
  | VDecimal rat
  | VBool bool
  | VInt int
  | VFloat rat
  | VStr pystr
  | VOther pystr

definition ts_prefix :: "pystr \<Rightarrow> bool" where
  "ts_prefix s \<longleftrightarrow> 19 \<le> length s \<and> s ! 4 = 45 \<and> s ! 7 = 45 \<and> s ! 10 = 84 \<and> s ! 13 = 58 \<and> s ! 16 = 58 \<and>
     list_all (\<lambda>i. is_digit (s ! i)) [0, 1, 2, 3, 5, 6, 8, 9, 11, 12, 14, 15, 17, 18]"

definition ts_text :: "pystr \<Rightarrow> bool" where
  "ts_text s \<longleftrightarrow> ts_prefix s \<and> (drop 19 s = [90] \<or> drop 19 s = [90, 10])"

fun normalize_value :: "sqlval \<Rightarrow> sqlval \<Rightarrow> sqlval" where
  "normalize_value VNone _ = VNone"
| "normalize_value (VDateTime t off) _ = VStr (fmt_instant (t - (case off of None \<Rightarrow> 0 | Some z \<Rightarrow> z)))"
| "normalize_value (VDate d) _ = VStr (fmt_date d)"
| "normalize_value (VDecimal x) _ = VFloat (round4 (fl x))"
| "normalize_value (VBool b) _ = VBool b"
| "normalize_value (VInt i) ev = (case ev of VFloat _ \<Rightarrow> VFloat (round4 (fl (of_int i))) | _ \<Rightarrow> VInt i)"
| "normalize_value (VFloat x) _ = VFloat (round4 x)"
| "normalize_value (VStr s) ev =
     (case ev of
        VStr e \<Rightarrow> if ts_text e \<and> ts_prefix s then VStr (take 19 s @ [90]) else VStr s
      | _ \<Rightarrow> VStr s)"
| "normalize_value (VOther s) _ = VOther s"

definition normalize_row :: "sqlval list \<Rightarrow> sqlval list \<Rightarrow> sqlval list" where
  "normalize_row row expected = map (\<lambda>(v, ev). normalize_value v ev) (zip row expected)"

fun as_float :: "sqlval \<Rightarrow> rat option" where
  "as_float (VInt i) = Some (fl (of_int i))"
| "as_float (VFloat x) = Some x"
| "as_float _ = None"

fun num_of :: "sqlval \<Rightarrow> rat option" where
  "num_of (VInt i) = Some (of_int i)"
| "num_of (VFloat x) = Some x"
| "num_of (VBool b) = Some (if b then 1 else 0)"
| "num_of (VDecimal x) = Some x"
| "num_of _ = None"

text \<open>Python's \<open>==\<close>: numbers and Booleans by value, anything else within its own type.\<close>

definition py_eq :: "sqlval \<Rightarrow> sqlval \<Rightarrow> bool" where
  "py_eq a b \<longleftrightarrow>
     (case (num_of a, num_of b) of
        (Some x, Some y) \<Rightarrow> x = y
      | (None, None) \<Rightarrow> a = b
      | _ \<Rightarrow> False)"

definition values_equal :: "sqlval \<Rightarrow> sqlval \<Rightarrow> bool" where
  "values_equal a b \<longleftrightarrow>
     (if a = VNone \<or> b = VNone then a = VNone \<and> b = VNone
      else case (as_float a, as_float b) of
        (Some x, Some y) \<Rightarrow> \<bar>fl (x - y)\<bar> \<le> fl (1 / 1000)
      | _ \<Rightarrow> py_eq a b)"

definition rows_match :: "sqlval list \<Rightarrow> sqlval list \<Rightarrow> bool" where
  "rows_match g e \<longleftrightarrow> length g = length e \<and> list_all (\<lambda>(a, b). values_equal a b) (zip g e)"

section \<open>Comparison\<close>

text \<open>
  \<open>json.dumps(row, default=str)\<close>; the text of a float (its shortest \<open>repr\<close>) is a parameter.
\<close>

fun cell_json :: "(rat \<Rightarrow> pystr) \<Rightarrow> sqlval \<Rightarrow> json" where
  "cell_json fr VNone = JNull"
| "cell_json fr (VBool b) = JBool b"
| "cell_json fr (VInt i) = JInt i"
| "cell_json fr (VFloat x) = JFloat (fr x)"
| "cell_json fr (VStr s) = JStr s"
| "cell_json fr (VOther s) = JStr s"
| "cell_json fr (VDecimal x) = JStr (fr x)"
| "cell_json fr (VDate d) = JStr (fmt_date d)"
| "cell_json fr (VDateTime t off) = JStr (fmt_instant t)"

definition row_sort_key :: "(rat \<Rightarrow> pystr) \<Rightarrow> sqlval list \<Rightarrow> pystr" where
  "row_sort_key fr row = json_dumps (JList (map (cell_json fr) row))"

definition match_step ::
  "sqlval list list \<Rightarrow> nat list \<times> sqlval list list \<Rightarrow> sqlval list \<Rightarrow> nat list \<times> sqlval list list" where
  "match_step exps acc g =
     (case find (\<lambda>i. rows_match g (exps ! i)) (fst acc) of
        None \<Rightarrow> (fst acc, snd acc @ [g])
      | Some i \<Rightarrow> (remove1 i (fst acc), snd acc))"

datatype comparison =
    Same
  | CountMismatch "sqlval list list" "sqlval list list"
  | ContentMismatch "sqlval list list" "sqlval list list"

definition compare_rows :: "(rat \<Rightarrow> pystr) \<Rightarrow> sqlval list list \<Rightarrow> sqlval list list \<Rightarrow> comparison" where
  "compare_rows fr got expected =
     (if length got \<noteq> length expected then CountMismatch got expected
      else
        let got_sorted = sort_key (row_sort_key fr) got;
            exps = sort_key (row_sort_key fr) expected;
            (remaining, unmatched) = foldl (match_step exps) ([0..<length exps], []) got_sorted
        in if unmatched = [] \<and> remaining = [] then Same
           else ContentMismatch unmatched (map (\<lambda>i. exps ! i) remaining))"

section \<open>One question\<close>

datatype precheck_failure =
    NoSchema
  | MissingTables "pystr list"
  | EmptyTable pystr
  | MissingColumns pystr "pystr list"
  | PrecheckError pystr

text \<open>
  What the database answers: a statement, run in the schema \<open>mart\<close> or not, gives the first line of
  an error, or columns and rows; and the four queries of the precheck.
\<close>

record database =
  db_exec :: "bool \<Rightarrow> pystr \<Rightarrow> pystr + (pystr list \<times> sqlval list list)"
  db_schema :: "pystr + bool"
  db_tables :: "pystr + pystr list"
  db_count :: "pystr \<Rightarrow> pystr + int"
  db_columns :: "pystr \<Rightarrow> pystr + pystr list"

datatype verdict =
    Passed
  | PrecheckFailed precheck_failure
  | Unreadable read_error
  | PublicReference
  | ExecError pystr
  | ColumnMismatch "pystr list" "pystr list"
  | RowsDiffer comparison

definition lower_col :: "(nat \<Rightarrow> pystr) \<Rightarrow> pystr \<Rightarrow> pystr" where
  "lower_col low s = concat (map (\<lambda>c. if 65 \<le> c \<and> c \<le> 90 then [c + 32] else if c < 128 then [c] else low c) s)"

fun sqlval_of :: "cell \<Rightarrow> sqlval" where
  "sqlval_of (CStr s) = VStr s"
| "sqlval_of (CInt i) = VInt i"
| "sqlval_of (CNum x) = VFloat x"
| "sqlval_of CNone = VNone"

text \<open>The parts of Unicode and of number printing that are not modelled.\<close>

record text_env =
  te_word :: "nat \<Rightarrow> bool"
  te_lower :: "nat \<Rightarrow> pystr"
  te_repr :: "rat \<Rightarrow> pystr"

definition run_question ::
  "text_env \<Rightarrow> (pystr \<Rightarrow> pystr option) \<Rightarrow> database \<Rightarrow> pystr \<Rightarrow> pystr \<Rightarrow> answer \<Rightarrow> precheck_failure option \<Rightarrow> verdict" where
  "run_question te files db qkey path expected precheck =
     (let star = qkey \<in> set star_schema_questions in
      case (if star then precheck else None) of
        Some why \<Rightarrow> PrecheckFailed why
      | None \<Rightarrow>
        (case read_sql_file files path of
           Inl e \<Rightarrow> Unreadable e
         | Inr text \<Rightarrow>
           if star \<and> public_schema (te_word te) text then PublicReference
           else
             (case db_exec db star text of
                Inl msg \<Rightarrow> ExecError msg
              | Inr (cols, raw) \<Rightarrow>
                if map (lower_col (te_lower te)) cols \<noteq> map (lower_col (te_lower te)) (fst expected)
                then ColumnMismatch cols (fst expected)
                else
                  let rows = map (map sqlval_of) (snd expected);
                      template = (case rows of [] \<Rightarrow> replicate (length cols) VNone | r # _ \<Rightarrow> r);
                      got = map (\<lambda>r. normalize_row r template) raw
                  in (case compare_rows (te_repr te) got rows of Same \<Rightarrow> Passed | c \<Rightarrow> RowsDiffer c))))"

section \<open>The star-schema precheck\<close>

definition required_tables :: "pystr list" where
  "required_tables = [u ''dim_shop'', u ''dim_product'', u ''dim_date'', u ''fact_price_observation'']"

fun check_counts :: "database \<Rightarrow> pystr list \<Rightarrow> precheck_failure option" where
  "check_counts db [] = None"
| "check_counts db (t # ts) =
     (case db_count db t of
        Inl e \<Rightarrow> Some (PrecheckError e)
      | Inr n \<Rightarrow> if n = 0 then Some (EmptyTable t) else check_counts db ts)"

fun check_columns :: "database \<Rightarrow> pystr list \<Rightarrow> precheck_failure option" where
  "check_columns db [] = None"
| "check_columns db (t # ts) =
     (case db_columns db t of
        Inl e \<Rightarrow> Some (PrecheckError e)
      | Inr cols \<Rightarrow>
          let missing = filter (\<lambda>c. c \<notin> set cols) [u ''valid_from'', u ''valid_to''] in
          if missing \<noteq> [] then Some (MissingColumns t missing) else check_columns db ts)"

definition star_schema_precheck :: "database \<Rightarrow> precheck_failure option" where
  "star_schema_precheck db =
     (case db_schema db of
        Inl e \<Rightarrow> Some (PrecheckError e)
      | Inr exists \<Rightarrow>
          if \<not> exists then Some NoSchema
          else
            (case db_tables db of
               Inl e \<Rightarrow> Some (PrecheckError e)
             | Inr existing \<Rightarrow>
                 let missing = filter (\<lambda>t. t \<notin> set existing) required_tables in
                 if missing \<noteq> [] then Some (MissingTables missing)
                 else
                   (case check_counts db required_tables of
                      Some e \<Rightarrow> Some e
                    | None \<Rightarrow> check_columns db [u ''dim_shop'', u ''dim_product''])))"

section \<open>The command line\<close>

datatype selection = ByTask pystr | ByKeys pystr | AllQuestions

datatype grader_result = Usage | Graded "verdict list" int

definition select_questions :: "selection \<Rightarrow> pystr list option" where
  "select_questions sel =
     (case sel of
        ByTask t \<Rightarrow> map_of task_questions t
      | AllQuestions \<Rightarrow> Some all_questions
      | ByKeys s \<Rightarrow>
          let qs = filter (\<lambda>q. q \<noteq> []) (map (strip_by is_space) (split_on 44 s)) in
          if list_all (\<lambda>q. q \<in> set all_questions) qs then Some qs else None)"

definition sql_path :: "pystr option \<Rightarrow> pystr \<Rightarrow> pystr result" where
  "sql_path override qkey = (case override of Some f \<Rightarrow> Inr f | None \<Rightarrow> lookup default_sql_path qkey)"

definition grade_one ::
  "text_env \<Rightarrow> (pystr \<Rightarrow> pystr option) \<Rightarrow> database \<Rightarrow> (pystr \<times> answer) list \<Rightarrow> pystr option \<Rightarrow>
     precheck_failure option \<Rightarrow> pystr \<Rightarrow> verdict result" where
  "grade_one te files db answers override precheck qkey =
     bind_result (sql_path override qkey) (\<lambda>path.
     bind_result (lookup answers qkey) (\<lambda>expected.
     Inr (run_question te files db qkey path expected precheck)))"

definition grader_main ::
  "text_env \<Rightarrow> (pystr \<Rightarrow> pystr option) \<Rightarrow> database \<Rightarrow> (gt_result \<times> gt_result option) result \<Rightarrow> selection \<Rightarrow>
     pystr option \<Rightarrow> grader_result result" where
  "grader_main te files db gt sel file_arg =
     (let override = (if file_arg = Some [] then None else file_arg) in
      case select_questions sel of
        None \<Rightarrow> Inr Usage
      | Some questions \<Rightarrow>
          if override \<noteq> None \<and> ((case sel of ByKeys _ \<Rightarrow> False | _ \<Rightarrow> True) \<or> length questions \<noteq> 1) then Inr Usage
          else
            bind_result gt (\<lambda>(r, cache).
            let precheck = (if list_ex (\<lambda>q. q \<in> set star_schema_questions) questions
                            then star_schema_precheck db else None) in
            bind_result (map_result (grade_one te files db (res_answers r) override precheck) questions) (\<lambda>verdicts.
            let passed = length (filter (\<lambda>v. v = Passed) verdicts) in
            Inr (Graded verdicts (if passed = length questions then 0 else 1)))))"

section \<open>Soundness of the comparison\<close>

lemma match_step_unmatched:
  "snd (foldl (match_step exps) acc gs) = [] \<Longrightarrow> snd acc = []"
proof (induction gs arbitrary: acc)
  case Nil
  then show ?case by simp
next
  case (Cons g gs)
  have "snd (match_step exps acc g) = []"
    using Cons.IH [of "match_step exps acc g"] Cons.prems by simp
  then show ?case by (cases "find (\<lambda>i. rows_match g (exps ! i)) (fst acc)") (simp_all add: match_step_def)
qed

lemma match_pairs:
  assumes "foldl (match_step exps) (rem, []) gs = (rem', [])"
  shows "\<exists>ps. map fst ps = gs \<and> mset rem = mset (map snd ps) + mset rem' \<and>
    (\<forall>(g, i) \<in> set ps. rows_match g (exps ! i))"
  using assms
proof (induction gs arbitrary: rem)
  case Nil
  then show ?case by (intro exI [of _ "[]"]) simp
next
  case (Cons g gs)
  define acc where "acc = match_step exps (rem, []) g"
  have "snd acc = []"
    using match_step_unmatched [of exps acc gs] Cons.prems by (simp add: acc_def)
  then obtain i where i: "find (\<lambda>i. rows_match g (exps ! i)) rem = Some i" and acc: "acc = (remove1 i rem, [])"
    by (cases "find (\<lambda>i. rows_match g (exps ! i)) rem") (simp_all add: acc_def match_step_def)
  have ok: "rows_match g (exps ! i)" "i \<in> set rem"
    using find_mem [OF i] i by (auto simp: find_Some_iff)
  have "foldl (match_step exps) (remove1 i rem, []) gs = (rem', [])"
    using Cons.prems acc by (simp add: acc_def)
  from Cons.IH [OF this] obtain ps where ps: "map fst ps = gs"
    "mset (remove1 i rem) = mset (map snd ps) + mset rem'" "\<forall>(g, i) \<in> set ps. rows_match g (exps ! i)"
    by blast
  have "mset rem = add_mset i (mset (remove1 i rem))" using ok(2) by simp
  then show ?case
    using ps ok(1) by (intro exI [of _ "(g, i) # ps"]) simp
qed

definition pairing :: "sqlval list list \<Rightarrow> sqlval list list \<Rightarrow> (sqlval list \<times> sqlval list) list \<Rightarrow> bool" where
  "pairing got expected ps \<longleftrightarrow>
     mset (map fst ps) = mset got \<and> mset (map snd ps) = mset expected \<and> (\<forall>(g, e) \<in> set ps. rows_match g e)"

lemma compare_rows_same:
  assumes "compare_rows fr got expected = Same"
  shows "\<exists>ps. pairing got expected ps"
proof -
  define gs where "gs = sort_key (row_sort_key fr) got"
  define exps where "exps = sort_key (row_sort_key fr) expected"
  obtain rem un where f: "foldl (match_step exps) ([0..<length exps], []) gs = (rem, un)"
    by (cases "foldl (match_step exps) ([0..<length exps], []) gs")
  have "un = [] \<and> rem = []"
    using assms f by (simp add: compare_rows_def gs_def exps_def Let_def split: if_splits)
  with f obtain ps where ps: "map fst ps = gs" "mset [0..<length exps] = mset (map snd ps)"
    "\<forall>(g, i) \<in> set ps. rows_match g (exps ! i)"
    using match_pairs [of exps "[0..<length exps]" gs "[]"] by auto
  have "mset (map (\<lambda>i. exps ! i) (map snd ps)) = mset (map (\<lambda>i. exps ! i) [0..<length exps])"
    unfolding mset_map ps(2) ..
  also have "\<dots> = mset expected" unfolding map_nth by (simp add: exps_def)
  finally have e: "mset (map snd (map (\<lambda>(g, i). (g, exps ! i)) ps)) = mset expected"
    by (simp add: case_prod_unfold comp_def)
  have g: "map fst (map (\<lambda>(g, i). (g, exps ! i)) ps) = gs"
    using ps(1) by (simp add: case_prod_unfold comp_def)
  have "pairing got expected (map (\<lambda>(g, i). (g, exps ! i)) ps)"
    unfolding pairing_def g e using ps(3) by (auto simp: gs_def)
  then show ?thesis ..
qed

text \<open>
  The tolerance can pair rows across a multiset that differs, but a result equal to the reference
  up to order is always accepted, as long as different rows have different sort keys.
\<close>

lemma match_self:
  assumes "\<forall>r \<in> set exps. rows_match r r" "k \<le> length exps"
  shows "foldl (match_step exps) ([k..<length exps], []) (drop k exps) = ([], [])"
  using assms(2)
proof (induction "length exps - k" arbitrary: k)
  case 0
  then show ?case by simp
next
  case (Suc n)
  then have k: "k < length exps" by simp
  have f: "find (\<lambda>i. rows_match (exps ! k) (exps ! i)) [k..<length exps] = Some k"
    using k assms(1) by (simp add: upt_conv_Cons)
  have "foldl (match_step exps) ([Suc k..<length exps], []) (drop (Suc k) exps) = ([], [])"
    using Suc.hyps(2) k by (intro Suc.hyps(1)) simp_all
  then show ?case
    using f k by (simp add: Cons_nth_drop_Suc [symmetric] match_step_def upt_conv_Cons)
qed

lemma sort_key_cong_mset:
  assumes "mset xs = mset ys" "inj_on f (set xs)"
  shows "sort_key f xs = sort_key f ys"
proof (rule properties_for_sort_key)
  show "mset (sort_key f ys) = mset xs" using assms(1) by simp
  fix k assume "k \<in> set (sort_key f ys)"
  then have k: "k \<in> set xs" using assms(1) by (metis mset_eq_setD set_sort)
  have eq: "filter (\<lambda>x. f k = f x) zs = replicate (count (mset zs) k) k" if "set zs = set xs" for zs
  proof -
    have "filter (\<lambda>x. f k = f x) zs = filter (\<lambda>x. k = x) zs"
      using assms(2) k that by (intro filter_cong) (auto simp: inj_on_def)
    then show ?thesis by (simp add: filter_eq_replicate_mset [symmetric] flip: replicate_count_mset_eq_filter_eq)
  qed
  show "filter (\<lambda>x. f k = f x) (sort_key f ys) = filter (\<lambda>x. f k = f x) xs"
    using eq [of "sort_key f ys"] eq [of xs] assms(1) by (metis mset_eq_setD mset_sort set_sort)
qed simp

text \<open>
  Completeness of the comparison on equal results.  If the normalised result is the expected
  answer up to the order of rows, the sort key separates its rows, and no row is unequal to itself
  (as a NaN would make it), then \<open>compare_rows\<close> accepts it.
\<close>

theorem compare_rows_complete:
  assumes "mset got = mset expected" "inj_on (row_sort_key fr) (set got)" "\<forall>r \<in> set got. rows_match r r"
  shows "compare_rows fr got expected = Same"
proof -
  have s: "sort_key (row_sort_key fr) got = sort_key (row_sort_key fr) expected"
    using assms(1,2) by (rule sort_key_cong_mset)
  have l: "length got = length expected" using assms(1) by (metis size_mset)
  have "\<forall>r \<in> set (sort_key (row_sort_key fr) expected). rows_match r r"
    using assms(1,3) by (metis mset_eq_setD set_sort)
  from match_self [OF this, of 0] show ?thesis
    unfolding compare_rows_def s using l by (simp add: Let_def)
qed

lemma compare_rows_complete_witness:
  "compare_rows (\<lambda>_. [48]) [[VStr [98]], [VStr [97]]] [[VStr [97]], [VStr [98]]] = Same"
  by (rule compare_rows_complete)
    (auto simp: rows_match_def values_equal_def py_eq_def row_sort_key_def inj_on_def dump_str_def esc_char_def)

definition question_passed ::
  "text_env \<Rightarrow> (pystr \<Rightarrow> pystr option) \<Rightarrow> database \<Rightarrow> (pystr \<times> answer) list \<Rightarrow> pystr option \<Rightarrow> pystr \<Rightarrow> bool" where
  "question_passed te files db answers override q \<longleftrightarrow>
     (\<exists>path expected text cols raw template ps.
        sql_path override q = Inr path \<and> map_of answers q = Some expected \<and>
        files path = Some text \<and> \<not> is_stub text \<and>
        db_exec db (q \<in> set star_schema_questions) text = Inr (cols, raw) \<and>
        map (lower_col (te_lower te)) cols = map (lower_col (te_lower te)) (fst expected) \<and>
        pairing (map (\<lambda>r. normalize_row r template) raw) (map (map sqlval_of) (snd expected)) ps \<and>
        (q \<in> set star_schema_questions \<longrightarrow> star_schema_precheck db = None \<and> \<not> public_schema (te_word te) text))"

lemma run_question_passed:
  assumes "run_question te files db q path expected pre = Passed"
    "q \<in> set star_schema_questions \<Longrightarrow> pre = star_schema_precheck db"
    "sql_path override q = Inr path" "map_of answers q = Some expected"
  shows "question_passed te files db answers override q"
proof -
  define star where "star \<longleftrightarrow> q \<in> set star_schema_questions"
  have pre: "(if star then pre else None) = None"
    using assms(1) by (cases "if star then pre else None") (simp_all add: run_question_def star_def Let_def)
  obtain sql where sql: "read_sql_file files path = Inr sql"
    using assms(1) pre by (cases "read_sql_file files path") (simp_all add: run_question_def star_def Let_def split: if_splits)
  have pub: "\<not> (star \<and> public_schema (te_word te) sql)"
    using assms(1) pre sql by (auto simp: run_question_def star_def Let_def split: if_splits)
  obtain cols raw where ex: "db_exec db star sql = Inr (cols, raw)"
  proof (cases "db_exec db star sql")
    case (Inl e)
    then show ?thesis using assms(1) pre sql pub by (auto simp: run_question_def star_def Let_def split: if_splits)
  next
    case (Inr x)
    then show ?thesis using that by (cases x) simp
  qed
  define rows where "rows = map (map sqlval_of) (snd expected)"
  define template where "template = (case rows of [] \<Rightarrow> replicate (length cols) VNone | r # _ \<Rightarrow> r)"
  have run: "run_question te files db q path expected pre =
     (if map (lower_col (te_lower te)) cols \<noteq> map (lower_col (te_lower te)) (fst expected)
      then ColumnMismatch cols (fst expected)
      else case compare_rows (te_repr te) (map (\<lambda>r. normalize_row r template) raw) rows of Same \<Rightarrow> Passed | c \<Rightarrow> RowsDiffer c)"
    unfolding run_question_def star_def [symmetric] Let_def pre sql if_not_P [OF pub] ex
      rows_def [symmetric] template_def [symmetric] option.case sum.case prod.case ..
  have cols: "map (lower_col (te_lower te)) cols = map (lower_col (te_lower te)) (fst expected)"
    and cmp: "compare_rows (te_repr te) (map (\<lambda>r. normalize_row r template) raw) rows = Same"
    using assms(1) unfolding run by (auto split: if_splits comparison.splits)
  obtain ps where ps: "pairing (map (\<lambda>r. normalize_row r template) raw) rows ps"
    using compare_rows_same [OF cmp] by blast
  have file_text: "files path = Some sql" "\<not> is_stub sql"
    using sql by (auto simp: read_sql_file_def split: option.splits if_splits)
  have st: "star \<longrightarrow> star_schema_precheck db = None \<and> \<not> public_schema (te_word te) sql"
    using pre pub assms(2) by (auto simp: star_def split: if_splits)
  show ?thesis
    unfolding question_passed_def star_def [symmetric]
    using assms(3,4) file_text ex cols ps st unfolding rows_def by blast
qed

text \<open>
  C11.  Soundness of the grader.  If \<open>main\<close> exits with 0, then every selected question has a query
  file that is more than comments and white space, the query ran, its columns are the expected ones
  up to case, and its normalised rows can be paired one to one with the expected rows so that each
  pair agrees within the tolerance; and a star-schema question passed the precheck and does not
  name the public schema.
\<close>

theorem grader_sound:
  assumes "grader_main te files db gt sel file_arg = Inr (Graded verdicts 0)"
  shows "\<exists>questions r cache. select_questions sel = Some questions \<and> gt = Inr (r, cache) \<and>
    length verdicts = length questions \<and>
    (\<forall>q \<in> set questions.
       question_passed te files db (res_answers r) (if file_arg = Some [] then None else file_arg) q)"
proof -
  define override where "override = (if file_arg = Some [] then None else file_arg)"
  obtain questions where sel: "select_questions sel = Some questions"
    using assms by (cases "select_questions sel") (auto simp: grader_main_def Let_def)
  obtain r cache where gt: "gt = Inr (r, cache)"
  proof (cases gt)
    case (Inl e)
    then show ?thesis using assms sel by (auto simp: grader_main_def Let_def split: if_splits)
  next
    case (Inr x)
    then show ?thesis using that by (cases x) simp
  qed
  define precheck where "precheck = (if list_ex (\<lambda>q. q \<in> set star_schema_questions) questions
      then star_schema_precheck db else None)"
  have m: "map_result (grade_one te files db (res_answers r) override precheck) questions = Inr verdicts"
    and all: "length (filter (\<lambda>v. v = Passed) verdicts) = length questions"
    using assms unfolding grader_main_def sel gt override_def precheck_def
    by (auto simp: Let_def bind_result_Inr split: if_splits)
  have l2: "list_all2 (\<lambda>q v. grade_one te files db (res_answers r) override precheck q = Inr v) questions verdicts"
    using m by (simp add: map_result_Inr)
  have len: "length verdicts = length questions" using l2 by (simp add: list_all2_lengthD)
  have pass: "\<forall>v \<in> set verdicts. v = Passed"
  proof
    fix v assume "v \<in> set verdicts"
    then show "v = Passed" using length_filter_less [of v verdicts "\<lambda>v. v = Passed"] all len by auto
  qed
  have "question_passed te files db (res_answers r) override q" if q: "q \<in> set questions" for q
  proof -
    obtain v where v: "v \<in> set verdicts" "grade_one te files db (res_answers r) override precheck q = Inr v"
      using list_all2_mem1 [OF l2 q] by blast
    then obtain path expected where p: "sql_path override q = Inr path" "lookup (res_answers r) q = Inr expected"
      "run_question te files db q path expected precheck = Passed"
      using pass unfolding grade_one_def bind_result_Inr by auto
    have "q \<in> set star_schema_questions \<Longrightarrow> precheck = star_schema_precheck db"
      using q by (auto simp: precheck_def list_ex_iff)
    with p show ?thesis using run_question_passed by (simp add: lookup_Inr)
  qed
  then show ?thesis using sel gt len unfolding override_def by blast
qed

definition sample_db :: database where
  "sample_db = \<lparr>db_exec = (\<lambda>_ _. Inr ([[97]], [[VInt 1]])), db_schema = Inr False, db_tables = Inr [],
     db_count = (\<lambda>_. Inr 0), db_columns = (\<lambda>_. Inr [])\<rparr>"

definition sample_env :: text_env where
  "sample_env = \<lparr>te_word = (\<lambda>_. True), te_lower = (\<lambda>c. [c]), te_repr = (\<lambda>_. [48])\<rparr>"

definition sample_truth :: gt_result where
  "sample_truth = old_result \<lparr>res_answers := [(u ''q01'', ([[97]], [[CInt 1]]))]\<rparr>"

lemma grader_sound_witness:
  "grader_main sample_env (\<lambda>_. Some [120]) sample_db (Inr (sample_truth, None)) (ByKeys (u ''q01'')) None =
     Inr (Graded [Passed] 0) \<and>
   question_passed sample_env (\<lambda>_. Some [120]) sample_db (res_answers sample_truth) None (u ''q01'')"
proof -
  have b: "strip_block [120] = [120]" "strip_line [120] = [120]"
    by (simp_all add: strip_block.simps strip_line.simps startswith_def)
  have sp: "strip_by is_space [120] = [120]"
    by (rule strip_by_id) (simp add: is_space_def py_spaces_def)
  have stub: "\<not> is_stub [120]" by (simp add: is_stub_def strip_sql_comments_def b sp)
  have q: "strip_by is_space (u ''q01'') = u ''q01''"
    by (rule strip_by_id) (simp add: is_space_def py_spaces_def)
  have sel: "select_questions (ByKeys (u ''q01'')) = Some [u ''q01'']"
  proof -
    have "split_on 44 (u ''q01'') = [u ''q01'']" by simp
    then show ?thesis using q by (simp add: select_questions_def all_questions_def)
  qed
  have star: "u ''q01'' \<notin> set star_schema_questions" by (simp add: star_schema_questions_def)
  have v: "values_equal (VInt 1) (VInt 1)" by (simp add: values_equal_def fl_nonneg)
  have cmp: "compare_rows (\<lambda>_. [48]) [[VInt 1]] [[VInt 1]] = Same"
    by (simp add: compare_rows_def match_step_def rows_match_def v)
  have path: "lookup default_sql_path (u ''q01'') = Inr (u ''01-relational-core/src/q01.sql'')"
    by (simp add: lookup_def default_sql_path_def)
  have rq: "run_question sample_env (\<lambda>_. Some [120]) sample_db (u ''q01'') p ([[97]], [[CInt 1]]) None = Passed" for p
    using star stub cmp
    by (simp add: run_question_def read_sql_file_def sample_db_def sample_env_def normalize_row_def Let_def del: u_Cons)
  have main: "grader_main sample_env (\<lambda>_. Some [120]) sample_db (Inr (sample_truth, None)) (ByKeys (u ''q01'')) None =
     Inr (Graded [Passed] 0)"
    using sel star path rq
    by (simp add: grader_main_def grade_one_def sql_path_def lookup_def sample_truth_def Let_def del: u_Cons)
  show ?thesis using main grader_sound [OF main] sel by auto
qed

end
