(* ===== verification/TargetSite.thy ===== *)
theory TargetSite
  imports PyDict Json
begin

text \<open>
  The target site of module 13 (13-scraping-at-scale/docker/target/app.py): the day overlay and
  the injected defects of a product record, the choice of the markup version, the per-client
  defence state with its header gate, honeypots, token bucket and bans, and the pages.  The
  framework's routing and parameter validation are outside; a request carries its path and the
  validated route.
\<close>

section \<open>The specification and the catalog\<close>

type_synonym product_rec = "(pystr \<times> json) list"

record site =
  products :: "(int \<times> product_rec) list"
  honeypots :: "int list"
  trap_tokens :: "pystr list"
  bad_map :: "(int \<times> pystr) list"
  n_days :: int
  change_days :: "(int \<times> (int \<times> product_rec) list) list"
  capacity :: rat
  refill_per_sec :: rat
  ban_after :: int
  ua_substring :: pystr
  lang_required :: bool
  markup_count :: int
  chaos_period :: int
  chaos_env :: bool

text \<open>
  What the interpreter prints: \<open>str\<close> of a list or dict, and the \<open>repr\<close> of \<open>float(s)\<close> for a text.
\<close>

record printer =
  pr_str :: "json \<Rightarrow> pystr"
  pr_float :: "pystr \<Rightarrow> pystr option"

fun py_str :: "printer \<Rightarrow> json \<Rightarrow> pystr" where
  "py_str pr JNull = u ''None''"
| "py_str pr (JBool b) = (if b then u ''True'' else u ''False'')"
| "py_str pr (JInt i) = int_str i"
| "py_str pr (JFloat t) = t"
| "py_str pr (JStr s) = s"
| "py_str pr j = pr_str pr j"

definition page_size :: nat where
  "page_size = 50"

definition honeypots_per_page :: nat where
  "honeypots_per_page = 2"

definition product_ids_sorted :: "site \<Rightarrow> int list" where
  "product_ids_sorted s = sort (map fst (products s))"

definition honeypot_ids_sorted :: "site \<Rightarrow> int list" where
  "honeypot_ids_sorted s = sort (remdups (honeypots s))"

section \<open>The product record of a day\<close>

text \<open>\<open>{**a, **b}\<close> and \<open>a.update(b)\<close>.\<close>

definition merge :: "('k \<times> 'v) list \<Rightarrow> ('k \<times> 'v) list \<Rightarrow> ('k \<times> 'v) list" where
  "merge a b = foldl (\<lambda>m (k, v). alist_set k v m) a b"

fun overlay_upto :: "(int \<times> (int \<times> product_rec) list) list \<Rightarrow> nat \<Rightarrow> (int \<times> product_rec) list" where
  "overlay_upto raw 0 = []"
| "overlay_upto raw (Suc d) = merge (overlay_upto raw d) (get_or [] raw (int (Suc d)))"

definition clamp_day :: "site \<Rightarrow> int \<Rightarrow> int" where
  "clamp_day s day = max 0 (min day (n_days s - 1))"

definition effective_product :: "site \<Rightarrow> int \<Rightarrow> int \<Rightarrow> product_rec result" where
  "effective_product s pid day =
     bind_result (lookup (products s) pid) (\<lambda>p.
     Inr (merge p (get_or [] (overlay_upto (change_days s) (nat (clamp_day s day))) pid)))"

definition field :: "pystr \<Rightarrow> json \<Rightarrow> product_rec \<Rightarrow> json" where
  "field k dflt p = get_or dflt p k"

text \<open>\<open>-abs(float(x or 1.0))\<close> of a JSON value, printed.\<close>

definition negate_text :: "pystr \<Rightarrow> pystr" where
  "negate_text t = (if startswith t [45] then t else 45 # t)"

definition zero_text :: "pystr \<Rightarrow> bool" where
  "zero_text t \<longleftrightarrow> t = u ''0.0'' \<or> t = u ''-0.0''"

fun negative_price :: "printer \<Rightarrow> json \<Rightarrow> json result" where
  "negative_price pr JNull = Inr (JFloat (u ''-1.0''))"
| "negative_price pr (JBool b) = Inr (JFloat (u ''-1.0''))"
| "negative_price pr (JInt i) =
     Inr (JFloat (if i = 0 then u ''-1.0'' else negate_text (nat_str (nat \<bar>i\<bar>) @ u ''.0'')))"
| "negative_price pr (JFloat t) = Inr (JFloat (if zero_text t then u ''-1.0'' else negate_text t))"
| "negative_price pr (JStr s) =
     (if s = [] then Inr (JFloat (u ''-1.0''))
      else case pr_float pr s of None \<Rightarrow> Inl ValueError | Some t \<Rightarrow> Inr (JFloat (negate_text t)))"
| "negative_price pr (JList xs) = (if xs = [] then Inr (JFloat (u ''-1.0'')) else Inl TypeError)"
| "negative_price pr (JObj kvs) = (if kvs = [] then Inr (JFloat (u ''-1.0'')) else Inl TypeError)"

definition truncation_mark :: pystr where
  "truncation_mark = u ''...[TRNC]'' @ [65533, 65533]"

definition apply_defect :: "printer \<Rightarrow> site \<Rightarrow> product_rec \<Rightarrow> int \<Rightarrow> product_rec result" where
  "apply_defect pr s p pid =
     (case map_of (bad_map s) pid of
        None \<Rightarrow> Inr p
      | Some defect \<Rightarrow>
          if defect = u ''missing_price'' then Inr (alist_del (u ''price'') p)
          else if defect = u ''price_na'' then Inr (alist_set (u ''price'') (JStr (u ''N/A'')) p)
          else if defect = u ''empty_title'' then Inr (alist_set (u ''title'') (JStr []) p)
          else if defect = u ''negative_price'' then
            bind_result (negative_price pr (field (u ''price'') JNull p)) (\<lambda>v. Inr (alist_set (u ''price'') v p))
          else if defect = u ''bad_currency'' then Inr (alist_set (u ''currency'') (JStr (u ''XYZ'')) p)
          else if defect = u ''truncated'' then
            (case field (u ''description'') (JStr []) p of
               JStr d \<Rightarrow> Inr (alist_set (u ''description'')
                            (JStr (take (max 5 (length d div 3)) d @ truncation_mark)) p)
             | _ \<Rightarrow> Inl TypeError)
          else Inr p)"

definition resolved_record :: "printer \<Rightarrow> site \<Rightarrow> int \<Rightarrow> int \<Rightarrow> product_rec result" where
  "resolved_record pr s pid day = bind_result (effective_product s pid day) (\<lambda>p. apply_defect pr s p pid)"

text \<open>The wall clock is in seconds; the period and the number of versions are positive.\<close>

definition resolve_version :: "site \<Rightarrow> int \<Rightarrow> int option \<Rightarrow> int \<Rightarrow> rat \<Rightarrow> int" where
  "resolve_version s pid v chaos now =
     (let steady = (if chaos_env s \<or> chaos \<noteq> 0 then 1 + \<lfloor>now / of_int (chaos_period s)\<rfloor> mod markup_count s
                    else 1 + pid mod markup_count s)
      in case v of
        None \<Rightarrow> steady
      | Some k \<Rightarrow> if 1 \<le> k \<and> k \<le> markup_count s then k else steady)"

text \<open>A literal of the page markup, where a tilde stands for the double quotation mark.\<close>

definition h :: "string \<Rightarrow> pystr" where
  "h s = map (\<lambda>c. if c = 126 then 34 else c) (u s)"

section \<open>Client state and the defence middleware\<close>

record client =
  c_tokens :: rat
  c_last_refill :: rat
  c_requests :: nat
  c_honeypot_hits :: nat
  c_violations :: nat
  c_header_rejections :: nat
  c_banned :: bool

type_synonym clients = "(pystr \<times> client) list"

definition new_client :: "site \<Rightarrow> rat \<Rightarrow> client" where
  "new_client s now =
     \<lparr>c_tokens = capacity s, c_last_refill = now, c_requests = 0, c_honeypot_hits = 0, c_violations = 0,
      c_header_rejections = 0, c_banned = False\<rparr>"

datatype route =
    Landing
  | Robots
  | Catalog int int "int option" int   \<comment> \<open>page, day, v, chaos\<close>
  | ProductPage int int "int option" int
  | ProductApi int int
  | DebugClient
  | DebugReset
  | NoRoute

record request =
  rq_path :: pystr
  rq_client_id :: "pystr option"
  rq_peer :: "(pystr \<times> nat) option"
  rq_user_agent :: pystr
  rq_accept_language :: pystr
  rq_route :: route

datatype reply =
    RJson nat json
  | RHtml nat pystr
  | RText nat pystr

definition client_key :: "request \<Rightarrow> pystr" where
  "client_key r =
     (case rq_client_id r of
        Some (c # cs) \<Rightarrow> c # cs
      | _ \<Rightarrow> (case rq_peer r of
               Some (host, port) \<Rightarrow> u ''anon-'' @ host @ [58] @ nat_str port
             | None \<Rightarrow> u ''anon-unknown''))"

definition get_client :: "site \<Rightarrow> clients \<Rightarrow> pystr \<Rightarrow> rat \<Rightarrow> client" where
  "get_client s cs cid now = get_or (new_client s now) cs cid"

definition headers_ok :: "site \<Rightarrow> request \<Rightarrow> bool" where
  "headers_ok s r \<longleftrightarrow>
     contains (ua_substring s) (rq_user_agent r) \<and>
     (\<not> lang_required s \<or> strip_by is_space (rq_accept_language r) \<noteq> [])"

text \<open>The number in a path \<open>^/(?:api/)?product/(\d+)$\<close>; the pattern allows one final newline.\<close>

definition digits_value :: "pystr \<Rightarrow> int option" where
  "digits_value s =
     (if s \<noteq> [] \<and> list_all is_digit s then Some (int (foldl (\<lambda>n c. 10 * n + the (digit_value c)) 0 s)) else None)"

definition product_in_path :: "pystr \<Rightarrow> int option" where
  "product_in_path path =
     (let rest = (if startswith path (u ''/api/product/'') then Some (drop 13 path)
                  else if startswith path (u ''/product/'') then Some (drop 9 path) else None)
      in case rest of
        None \<Rightarrow> None
      | Some t \<Rightarrow>
          (case digits_value t of
             Some n \<Rightarrow> Some n
           | None \<Rightarrow> if t \<noteq> [] \<and> last t = 10 then digits_value (butlast t) else None))"

definition error_body :: "pystr \<Rightarrow> pystr \<Rightarrow> json" where
  "error_body e why = JObj [(u ''error'', JStr e), (u ''reason'', JStr why)]"

definition banned_reply :: reply where
  "banned_reply = RJson 403 (error_body (u ''forbidden'') (u ''banned''))"

definition headers_reply :: reply where
  "headers_reply = RJson 403 (error_body (u ''forbidden'') (u ''missing_or_invalid_headers''))"

definition too_many_reply :: reply where
  "too_many_reply = RJson 429 (JObj [(u ''error'', JStr (u ''too_many_requests''))])"

definition decoy_reply :: "bool \<Rightarrow> pystr \<Rightarrow> reply" where
  "decoy_reply as_json nonce =
     (if as_json then
        RJson 200 (JObj [(u ''id'', JNull), (u ''title'', JStr (u ''Item Unavailable'')), (u ''price'', JNull),
                         (u ''_nonce'', JStr nonce)])
      else
        RHtml 200 (h ''<html><body><h1>Item Unavailable</h1>'' @
          h ''<p>This listing is no longer available.</p>'' @
          h ''<meta name=~x-nonce~ content=~'' @ nonce @ h ''~></body></html>''))"

text \<open>The outcome of the middleware: its own reply, or the request is passed on.\<close>

definition take_token :: "site \<Rightarrow> client \<Rightarrow> rat \<Rightarrow> client \<times> reply option" where
  "take_token s c now =
     (let elapsed = fl (now - c_last_refill c);
          tokens = min (capacity s) (fl (c_tokens c + fl (elapsed * refill_per_sec s)));
          c1 = c \<lparr>c_tokens := tokens, c_last_refill := now\<rparr>
      in if tokens < 1 then
           let v = c_violations c1 + 1 in
           (c1 \<lparr>c_violations := v, c_banned := (c_banned c1 \<or> ban_after s \<le> int v), c_requests := c_requests c1 + 1\<rparr>,
            Some too_many_reply)
         else (c1 \<lparr>c_tokens := fl (tokens - 1), c_requests := c_requests c1 + 1\<rparr>, None))"

definition spring_trap :: "client \<Rightarrow> client" where
  "spring_trap c = c \<lparr>c_honeypot_hits := c_honeypot_hits c + 1, c_banned := True, c_requests := c_requests c + 1\<rparr>"

definition defend :: "site \<Rightarrow> client \<Rightarrow> request \<Rightarrow> rat \<Rightarrow> pystr \<Rightarrow> client \<times> reply option" where
  "defend s c r now nonce =
     (let path = rq_path r in
      if c_banned c then (c \<lparr>c_requests := c_requests c + 1\<rparr>, Some banned_reply)
      else if \<not> headers_ok s r then
        (c \<lparr>c_header_rejections := c_header_rejections c + 1, c_requests := c_requests c + 1\<rparr>, Some headers_reply)
      else if startswith path (u ''/trap/'') then (spring_trap c, Some (decoy_reply False nonce))
      else if (case product_in_path path of None \<Rightarrow> False | Some pid \<Rightarrow> pid \<in> set (honeypots s)) then
        (spring_trap c, Some (decoy_reply (startswith path (u ''/api/'')) nonce))
      else take_token s c now)"

definition is_debug :: "request \<Rightarrow> bool" where
  "is_debug r \<longleftrightarrow> startswith (rq_path r) (u ''/__debug/'')"

definition defense_middleware ::
  "site \<Rightarrow> clients \<Rightarrow> request \<Rightarrow> rat \<Rightarrow> pystr \<Rightarrow> clients \<times> reply option" where
  "defense_middleware s cs r now nonce =
     (if is_debug r then (cs, None)
      else let cid = client_key r; (c, out) = defend s (get_client s cs cid now) r now nonce
           in (alist_set cid c cs, out))"

section \<open>Lemmas\<close>

lemma map_of_merge: "map_of (merge a b) k = (case map_of (rev b) k of None \<Rightarrow> map_of a k | Some v \<Rightarrow> Some v)"
  unfolding merge_def
proof (induction b arbitrary: a)
  case Nil
  then show ?case by simp
next
  case (Cons kv b)
  show ?case
    by (cases kv) (simp add: Cons.IH map_of_alist_set map_add_def split: option.split)
qed

text \<open>The changes a day records for a product; a later entry of the same product wins.\<close>

definition delta_on :: "site \<Rightarrow> nat \<Rightarrow> int \<Rightarrow> product_rec option" where
  "delta_on s d pid = map_of (rev (get_or [] (change_days s) (int d))) pid"

text \<open>The delta of the latest day, from day 1 up to the given one, that changes the product.\<close>

definition latest_delta :: "site \<Rightarrow> nat \<Rightarrow> int \<Rightarrow> product_rec" where
  "latest_delta s d pid =
     (case find (\<lambda>k. delta_on s k pid \<noteq> None) (rev [1..<Suc d]) of
        None \<Rightarrow> []
      | Some k \<Rightarrow> the (delta_on s k pid))"

lemma overlay_latest: "get_or [] (overlay_upto (change_days s) d) pid = latest_delta s d pid"
proof (induction d)
  case 0
  then show ?case by (simp add: latest_delta_def get_or_def)
next
  case (Suc d)
  have g: "get_or [] (overlay_upto (change_days s) (Suc d)) pid =
      (case delta_on s (Suc d) pid of None \<Rightarrow> get_or [] (overlay_upto (change_days s) d) pid | Some v \<Rightarrow> v)"
    by (simp add: get_or_def map_of_merge delta_on_def split: option.split)
  have l: "latest_delta s (Suc d) pid =
      (case delta_on s (Suc d) pid of None \<Rightarrow> latest_delta s d pid | Some v \<Rightarrow> v)"
    by (cases "delta_on s (Suc d) pid") (simp_all add: latest_delta_def)
  show ?case unfolding g l Suc.IH ..
qed

text \<open>
  The day overlay applies one delta only.  The product record that the site shows on a day is
  the catalog record updated with the delta of the latest day up to it that changes the product;
  deltas of earlier days are not folded in, so a price changed on one day is back at its catalog
  value after a later day that only changes the stock.
\<close>

theorem overlay_is_latest_delta:
  "effective_product s pid day =
     (case map_of (products s) pid of
        None \<Rightarrow> Inl KeyError
      | Some p \<Rightarrow> Inr (merge p (latest_delta s (nat (max 0 (min day (n_days s - 1)))) pid)))"
  by (simp add: effective_product_def lookup_def overlay_latest clamp_day_def split: option.split)

definition two_changes :: site where
  "two_changes =
     \<lparr>products = [(1, [(u ''price'', JInt 10), (u ''in_stock'', JBool True)])], honeypots = [], trap_tokens = [],
      bad_map = [], n_days = 3,
      change_days = [(1, [(1, [(u ''price'', JInt 12)])]), (2, [(1, [(u ''in_stock'', JBool False)])])],
      capacity = 25, refill_per_sec = 50, ban_after = 25, ua_substring = [], lang_required = False,
      markup_count = 4, chaos_period = 30, chaos_env = False\<rparr>"

lemma overlay_loses_price:
  "effective_product two_changes 1 1 = Inr [(u ''price'', JInt 12), (u ''in_stock'', JBool True)]"
  "effective_product two_changes 1 2 = Inr [(u ''price'', JInt 10), (u ''in_stock'', JBool False)]"
  by (simp_all add: two_changes_def effective_product_def lookup_def clamp_day_def merge_def get_or_def
      eval_nat_numeral)

end
