(* ===== verification/TargetPages.thy ===== *)
theory TargetPages
  imports TargetSite
begin

text \<open>
  The pages and endpoints of 13-scraping-at-scale/docker/target/app.py: the four markup versions
  of a product page, the catalog page with its hidden honeypot links, the JSON endpoint, the debug
  endpoints, and the composition of the middleware with the routes.
\<close>

section \<open>Fields in markup\<close>

definition esc_html :: "nat \<Rightarrow> pystr" where
  "esc_html c =
     (if c = 38 then u ''&amp;'' else if c = 60 then u ''&lt;'' else if c = 62 then u ''&gt;''
      else if c = 34 then u ''&quot;'' else if c = 39 then u ''&#x27;'' else [c])"

definition escape :: "pystr \<Rightarrow> pystr" where
  "escape s = concat (map esc_html s)"

text \<open>\<open>escape(x)\<close> needs a text; \<open>escape(str(x))\<close> takes any value.\<close>

definition esc_text :: "json \<Rightarrow> pystr result" where
  "esc_text j = (case j of JStr s \<Rightarrow> Inr (escape s) | _ \<Rightarrow> Inl AttributeError)"

definition text_field :: "pystr \<Rightarrow> product_rec \<Rightarrow> json" where
  "text_field k p = field k (JStr []) p"

definition str_field :: "printer \<Rightarrow> pystr \<Rightarrow> product_rec \<Rightarrow> pystr" where
  "str_field pr k p = py_str pr (text_field k p)"

definition reviews :: "printer \<Rightarrow> product_rec \<Rightarrow> pystr" where
  "reviews pr p = py_str pr (field (u ''review_count'') (JInt 0) p)"

fun truthy :: "json \<Rightarrow> bool" where
  "truthy JNull = False"
| "truthy (JBool b) = b"
| "truthy (JInt i) = (i \<noteq> 0)"
| "truthy (JFloat t) = (\<not> zero_text t)"
| "truthy (JStr s) = (s \<noteq> [])"
| "truthy (JList xs) = (xs \<noteq> [])"
| "truthy (JObj kvs) = (kvs \<noteq> [])"

definition in_stock :: "product_rec \<Rightarrow> bool" where
  "in_stock p = truthy (field (u ''in_stock'') JNull p)"

definition has_price :: "product_rec \<Rightarrow> bool" where
  "has_price p \<longleftrightarrow> map_of p (u ''price'') \<noteq> None"

definition price_text :: "printer \<Rightarrow> product_rec \<Rightarrow> pystr" where
  "price_text pr p =
     (case map_of p (u ''price'') of
        None \<Rightarrow> []
      | Some val \<Rightarrow>
          if val = JStr (u ''N/A'') then u ''N/A''
          else str_field pr (u ''currency'') p @ [32] @ py_str pr val)"

definition availability :: "product_rec \<Rightarrow> pystr" where
  "availability p = (if in_stock p then u ''In Stock'' else u ''Out of Stock'')"

section \<open>Markup versions\<close>

definition render_v1 :: "printer \<Rightarrow> product_rec \<Rightarrow> pystr \<Rightarrow> pystr result" where
  "render_v1 pr p nonce =
     bind_result (lookup p (u ''id'')) (\<lambda>i.
     bind_result (esc_text (text_field (u ''category'') p)) (\<lambda>cat.
     bind_result (esc_text (text_field (u ''brand'') p)) (\<lambda>brand.
     bind_result (esc_text (text_field (u ''seller_name'') p)) (\<lambda>seller.
     bind_result (esc_text (text_field (u ''description'') p)) (\<lambda>desc.
     Inr (h ''<html><body>'' @
       h ''<div class=~product~ id=~product-'' @ py_str pr i @ h ''~>'' @
       h ''<h1 class=~product-title~>'' @ escape (str_field pr (u ''title'') p) @ h ''</h1>'' @
       h ''<div class=~product-meta~><span class=~category~>'' @ cat @ h ''</span>'' @
       h ''<span class=~brand~>'' @ brand @ h ''</span>'' @
       h ''<span class=~seller~>'' @ seller @ h ''</span></div>'' @
       h ''<div class=~price-block~><span class=~price~>'' @ escape (price_text pr p) @ h ''</span></div>'' @
       h ''<div class=~stock~>'' @ availability p @ h ''</div>'' @
       h ''<div class=~reviews~>'' @ reviews pr p @ h '' reviews</div>'' @
       h ''<p class=~description~>'' @ desc @ h ''</p>'' @
       h ''</div>'' @
       h ''<meta name=~x-nonce~ content=~'' @ nonce @ h ''~>'' @
       h ''</body></html>''))))))"

definition render_v2 :: "printer \<Rightarrow> product_rec \<Rightarrow> pystr \<Rightarrow> pystr result" where
  "render_v2 pr p nonce =
     (let token = (if in_stock p then u ''InStock'' else u ''OutOfStock'');
          price_val = py_str pr (text_field (u ''price'') p);
          display_price = (if has_price p then price_val @ [32] @ str_field pr (u ''currency'') p else [])
      in
      bind_result (lookup p (u ''id'')) (\<lambda>i.
      bind_result (esc_text (text_field (u ''brand'') p)) (\<lambda>brand.
      bind_result (esc_text (text_field (u ''seller_name'') p)) (\<lambda>seller.
      bind_result (esc_text (text_field (u ''category'') p)) (\<lambda>cat.
      bind_result (esc_text (text_field (u ''description'') p)) (\<lambda>desc.
      Inr (h ''<html><body>'' @
        h ''<article itemscope itemtype=~https://schema.org/Product~ data-pid=~'' @ py_str pr i @ h ''~>'' @
        h ''<h1 itemprop=~name~>'' @ escape (str_field pr (u ''title'') p) @ h ''</h1>'' @
        h ''<p><span itemprop=~brand~>'' @ brand @ h ''</span> &middot; '' @
        h ''<span class=~sold-by~>Sold by '' @ seller @ h ''</span></p>'' @
        h ''<div itemprop=~offers~ itemscope itemtype=~https://schema.org/Offer~>'' @
        h ''<meta itemprop=~priceCurrency~ content=~'' @ escape (str_field pr (u ''currency'') p) @ h ''~>'' @
        h ''<meta itemprop=~price~ content=~'' @ escape price_val @ h ''~>'' @
        h ''<span class=~display-price~>'' @ escape display_price @ h ''</span>'' @
        h ''<link itemprop=~availability~ href=~https://schema.org/'' @ token @ h ''~></div>'' @
        h ''<span class=~cat-tag~>'' @ cat @ h ''</span>'' @
        h ''<span class=~rc~>('' @ reviews pr p @ h '')</span>'' @
        h ''<div class=~desc~>'' @ desc @ h ''</div>'' @
        h ''<!-- nonce:'' @ nonce @ h '' -->'' @
        h ''</article></body></html>'')))))))"

definition ld_json :: "product_rec \<Rightarrow> json \<Rightarrow> json" where
  "ld_json p i =
     JObj [(u ''@context'', JStr (u ''https://schema.org'')), (u ''@type'', JStr (u ''Product'')),
           (u ''name'', text_field (u ''title'') p), (u ''sku'', i), (u ''brand'', text_field (u ''brand'') p),
           (u ''offers'', JObj
              [(u ''@type'', JStr (u ''Offer'')),
               (u ''price'', field (u ''price'') JNull p), (u ''priceCurrency'', field (u ''currency'') JNull p),
               (u ''availability'', JStr (if in_stock p then u ''https://schema.org/InStock''
                                          else u ''https://schema.org/OutOfStock''))])]"

definition render_v3 :: "printer \<Rightarrow> product_rec \<Rightarrow> pystr \<Rightarrow> pystr result" where
  "render_v3 pr p nonce =
     bind_result (lookup p (u ''id'')) (\<lambda>i.
     bind_result (esc_text (text_field (u ''category'') p)) (\<lambda>cat.
     bind_result (esc_text (text_field (u ''brand'') p)) (\<lambda>brand.
     bind_result (esc_text (text_field (u ''seller_name'') p)) (\<lambda>seller.
     bind_result (esc_text (text_field (u ''description'') p)) (\<lambda>desc.
     Inr (h ''<html><body>'' @
       h ''<div class=~pdp~>'' @
       h ''<h2>'' @ escape (str_field pr (u ''title'') p) @ h ''</h2>'' @
       h ''<div class=~tags~><span>'' @ cat @ h ''</span>'' @
       h ''<span>'' @ brand @ h ''</span></div>'' @
       h ''<div class=~by~>'' @ seller @ h ''</div>'' @
       h ''<div class=~avail~>'' @ (if in_stock p then u ''available'' else u ''unavailable'') @ h ''</div>'' @
       h ''<div class=~rv~>'' @ reviews pr p @ h ''</div>'' @
       h ''<div class=~body~>'' @ desc @ h ''</div>'' @
       h ''<script type=~application/ld+json~>'' @ json_dumps (ld_json p i) @ h ''</script>'' @
       h ''<span class=~hidden-nonce~ style=~display:none~>'' @ nonce @ h ''</span>'' @
       h ''</div></body></html>''))))))"

definition data_json :: "product_rec \<Rightarrow> json \<Rightarrow> pystr \<Rightarrow> json" where
  "data_json p i nonce =
     JObj [(u ''id'', i), (u ''price'', field (u ''price'') JNull p), (u ''currency'', field (u ''currency'') JNull p),
           (u ''in_stock'', field (u ''in_stock'') JNull p), (u ''seller'', field (u ''seller_name'') JNull p),
           (u ''nonce'', JStr nonce)]"

definition render_v4 :: "printer \<Rightarrow> product_rec \<Rightarrow> pystr \<Rightarrow> pystr result" where
  "render_v4 pr p nonce =
     bind_result (lookup p (u ''id'')) (\<lambda>i.
     bind_result (esc_text (text_field (u ''brand'') p)) (\<lambda>brand.
     bind_result (esc_text (text_field (u ''category'') p)) (\<lambda>cat.
     bind_result (esc_text (text_field (u ''description'') p)) (\<lambda>desc.
     Inr (h ''<html><body>'' @
       h ''<div id=~app-root~>'' @
       h ''<h1>'' @ escape (str_field pr (u ''title'') p) @ h ''</h1>'' @
       h ''<p class=~subtitle~>'' @ brand @ h '' &mdash; '' @ cat @ h ''</p>'' @
       h ''<p class=~rv~>'' @ reviews pr p @ h '' reviews</p>'' @
       h ''<p class=~body~>'' @ desc @ h ''</p>'' @
       h ''</div>'' @
       h ''<script id=~__DATA__~ type=~application/json~>'' @ json_dumps (data_json p i nonce) @ h ''</script>'' @
       h ''</body></html>'')))))"

definition render :: "printer \<Rightarrow> int \<Rightarrow> product_rec \<Rightarrow> pystr \<Rightarrow> pystr result" where
  "render pr version p nonce =
     (if version = 1 then render_v1 pr p nonce else if version = 2 then render_v2 pr p nonce
      else if version = 3 then render_v3 pr p nonce else if version = 4 then render_v4 pr p nonce
      else Inl KeyError)"

section \<open>Routes\<close>

definition landing :: "site \<Rightarrow> reply" where
  "landing s = RHtml 200
     (h ''<html><body><h1>Kupitron Bazaar</h1>'' @
      h ''<p>'' @ nat_str (length (product_ids_sorted s)) @ h '' products. <a href=~/catalog~>Browse the catalog</a>.</p>'' @
      h ''</body></html>'')"

definition robots :: reply where
  "robots = RText 200 (u ''User-agent: *'' @ [10] @ u ''Disallow: /trap/'' @ [10] @ u ''Disallow: /__debug/'' @ [10])"

definition honeypots_for_page :: "site \<Rightarrow> nat \<Rightarrow> int list" where
  "honeypots_for_page s page =
     (let ids = honeypot_ids_sorted s; n = length ids in
      if ids = [] then []
      else let start = (page - 1) * honeypots_per_page mod n in
        map (\<lambda>i. ids ! ((start + i) mod n)) [0..<min honeypots_per_page n])"

definition catalog_item :: "printer \<Rightarrow> site \<Rightarrow> int \<Rightarrow> int option \<Rightarrow> int \<Rightarrow> pystr result" where
  "catalog_item pr s day v pid =
     bind_result (resolved_record pr s pid day) (\<lambda>p.
     let title = escape (str_field pr (u ''title'') p);
         qs = u ''?day='' @ int_str day @ (case v of None \<Rightarrow> [] | Some k \<Rightarrow> u ''&v='' @ int_str k)
     in Inr (h ''<li><a href=~/product/'' @ int_str pid @ qs @ h ''~>'' @ title @ h ''</a></li>''))"

definition hidden_link :: "int \<Rightarrow> pystr" where
  "hidden_link hid =
     h ''<a href=~/product/'' @ int_str hid @ h ''~ style=~display:none~ rel=~nofollow~ class=~hp~>item '' @
     int_str hid @ h ''</a>''"

definition total_pages :: "site \<Rightarrow> nat" where
  "total_pages s = max 1 ((length (products s) + page_size - 1) div page_size)"

definition page_slice :: "site \<Rightarrow> nat \<Rightarrow> int list" where
  "page_slice s page = take page_size (drop ((page - 1) * page_size) (product_ids_sorted s))"

definition catalog :: "printer \<Rightarrow> site \<Rightarrow> nat \<Rightarrow> int \<Rightarrow> int option \<Rightarrow> pystr \<Rightarrow> reply result" where
  "catalog pr s page0 day0 v nonce =
     (let day = clamp_day s day0; pages = total_pages s; page = min page0 pages in
      bind_result (map_result (catalog_item pr s day v) (page_slice s page)) (\<lambda>items.
      let hidden = concat (map hidden_link (honeypots_for_page s page));
          trap = (case trap_tokens s of
                    t # _ \<Rightarrow> if page = 1 then
                        h ''<div class=~hp~ style=~display:none~>'' @
                        h ''<a href=~/trap/'' @ t @ h ''~ rel=~nofollow~>clearance items</a></div>'' else []
                  | [] \<Rightarrow> []);
          next_link = (if page < pages then
              h ''<a rel=~next~ href=~/catalog?page='' @ nat_str (page + 1) @ u ''&day='' @ int_str day @ h ''~>next</a>''
            else [])
      in Inr (RHtml 200
           (h ''<html><body><h1>Catalog page '' @ nat_str page @ [47] @ nat_str pages @ h ''</h1>'' @
            h ''<ul>'' @ concat items @ h ''</ul>'' @ hidden @ trap @ h ''<p>'' @ next_link @ h ''</p>'' @
            h ''<meta name=~x-nonce~ content=~'' @ nonce @ h ''~></body></html>''))))"

definition not_found :: reply where
  "not_found = RJson 404 (JObj [(u ''detail'', JStr (u ''not found''))])"

definition product_detail ::
  "printer \<Rightarrow> site \<Rightarrow> int \<Rightarrow> int \<Rightarrow> int option \<Rightarrow> int \<Rightarrow> rat \<Rightarrow> pystr \<Rightarrow> reply result" where
  "product_detail pr s pid day v chaos wall nonce =
     (if map_of (products s) pid = None then Inr not_found
      else
        bind_result (resolved_record pr s pid day) (\<lambda>p.
        bind_result (render pr (resolve_version s pid v chaos wall) p nonce) (\<lambda>html.
        Inr (RHtml 200 html))))"

definition shipping_keys :: "pystr list" where
  "shipping_keys = [u ''shipping_free'', u ''shipping_eta_days'', u ''shipping_carrier'']"

definition product_api :: "printer \<Rightarrow> site \<Rightarrow> int \<Rightarrow> int \<Rightarrow> pystr \<Rightarrow> reply result" where
  "product_api pr s pid day nonce =
     (if map_of (products s) pid = None then Inr not_found
      else
        bind_result (resolved_record pr s pid day) (\<lambda>p.
        let out = filter (\<lambda>kv. fst kv \<notin> set shipping_keys) p;
            info = JObj [(u ''free'', field (u ''shipping_free'') JNull p),
                         (u ''eta_days'', field (u ''shipping_eta_days'') JNull p),
                         (u ''carrier'', field (u ''shipping_carrier'') JNull p)]
        in Inr (RJson 200 (JObj (alist_set (u ''_nonce'') (JStr nonce)
                  (alist_set (u ''shipping_info'') info out))))))"

definition header_required :: reply where
  "header_required = RJson 400 (JObj [(u ''detail'', JStr (u ''X-Client-Id header required''))])"

definition debug_client :: "site \<Rightarrow> clients \<Rightarrow> pystr option \<Rightarrow> rat \<Rightarrow> reply" where
  "debug_client s cs cid now =
     (case cid of
        Some (a # b) \<Rightarrow>
          let c = get_client s cs (a # b) now in
          RJson 200 (JObj
            [(u ''client_id'', JStr (a # b)), (u ''requests'', JInt (int (c_requests c))),
             (u ''honeypot_hits'', JInt (int (c_honeypot_hits c))),
             (u ''rate_limit_violations'', JInt (int (c_violations c))),
             (u ''header_rejections'', JInt (int (c_header_rejections c))), (u ''banned'', JBool (c_banned c))])
      | _ \<Rightarrow> header_required)"

definition debug_reset :: "site \<Rightarrow> clients \<Rightarrow> pystr option \<Rightarrow> rat \<Rightarrow> clients \<times> reply" where
  "debug_reset s cs cid now =
     (case cid of
        Some (a # b) \<Rightarrow>
          (alist_set (a # b) (new_client s now) cs,
           RJson 200 (JObj [(u ''client_id'', JStr (a # b)), (u ''reset'', JBool True)]))
      | _ \<Rightarrow> (cs, header_required))"

definition run_route ::
  "printer \<Rightarrow> site \<Rightarrow> clients \<Rightarrow> request \<Rightarrow> rat \<Rightarrow> rat \<Rightarrow> pystr \<Rightarrow> clients \<times> reply result" where
  "run_route pr s cs r now wall nonce =
     (case rq_route r of
        Landing \<Rightarrow> (cs, Inr (landing s))
      | Robots \<Rightarrow> (cs, Inr robots)
      | Catalog page day v chaos \<Rightarrow> (cs, catalog pr s (nat page) day v nonce)
      | ProductPage pid day v chaos \<Rightarrow> (cs, product_detail pr s pid day v chaos wall nonce)
      | ProductApi pid day \<Rightarrow> (cs, product_api pr s pid day nonce)
      | DebugClient \<Rightarrow> (cs, Inr (debug_client s cs (rq_client_id r) now))
      | DebugReset \<Rightarrow> (case debug_reset s cs (rq_client_id r) now of (cs', out) \<Rightarrow> (cs', Inr out))
      | NoRoute \<Rightarrow> (cs, Inr not_found))"

text \<open>One request: the middleware, then the route if the middleware passes it on.\<close>

definition serve ::
  "printer \<Rightarrow> site \<Rightarrow> clients \<Rightarrow> request \<Rightarrow> rat \<Rightarrow> rat \<Rightarrow> pystr \<Rightarrow> clients \<times> reply result" where
  "serve pr s cs r now wall nonce =
     (case defense_middleware s cs r now nonce of
        (cs', Some out) \<Rightarrow> (cs', Inr out)
      | (cs', None) \<Rightarrow> run_route pr s cs' r now wall nonce)"

end
