(* ===== verification/TargetDefence.thy ===== *)
theory TargetDefence
  imports TargetPages
begin

text \<open>
  What the defences of the target site (13-scraping-at-scale/docker/target/app.py) guarantee over
  sequences of requests: the burst gate of the token bucket, and the finality of a ban.
\<close>

section \<open>The token bucket\<close>











subsection \<open>The bucket\<close>








subsection \<open>Runs of one client\<close>














section \<open>Bans\<close>

type_synonym call = "request \<times> rat \<times> rat \<times> pystr"

fun serve_all :: "printer \<Rightarrow> site \<Rightarrow> clients \<Rightarrow> call list \<Rightarrow> clients \<times> reply result list" where
  "serve_all pr s cs [] = (cs, [])"
| "serve_all pr s cs ((r, now, wall, nonce) # calls) =
     (case serve pr s cs r now wall nonce of (cs1, out) \<Rightarrow>
        (case serve_all pr s cs1 calls of (cs2, outs) \<Rightarrow> (cs2, out # outs)))"

definition banned :: "clients \<Rightarrow> pystr \<Rightarrow> bool" where
  "banned cs cid \<longleftrightarrow> (case map_of cs cid of None \<Rightarrow> False | Some c \<Rightarrow> c_banned c)"

definition resets :: "pystr \<Rightarrow> call \<Rightarrow> bool" where
  "resets cid call \<longleftrightarrow> rq_route (fst call) = DebugReset \<and> rq_client_id (fst call) = Some cid"

lemma banned_alist_set: "banned (alist_set k c cs) cid = (if k = cid then c_banned c else banned cs cid)"
  by (simp add: banned_def map_of_alist_set)

lemma banned_middleware:
  assumes "banned cs cid"
  shows "banned (fst (defense_middleware s cs r now nonce)) cid"
    and "client_key r = cid \<Longrightarrow> \<not> is_debug r \<Longrightarrow> snd (defense_middleware s cs r now nonce) = Some banned_reply"
proof -
  obtain c where c: "map_of cs cid = Some c" "c_banned c"
    using assms by (auto simp: banned_def split: option.splits)
  have g: "get_client s cs cid now = c" using c(1) by (simp add: get_client_def get_or_def)
  have d: "defend s c r now nonce = (c \<lparr>c_requests := c_requests c + 1\<rparr>, Some banned_reply)"
    using c(2) by (simp add: defend_def Let_def)
  show "banned (fst (defense_middleware s cs r now nonce)) cid"
  proof (cases "is_debug r")
    case True
    then show ?thesis using assms by (simp add: defense_middleware_def)
  next
    case nd: False
    show ?thesis
    proof (cases "client_key r = cid")
      case True
      then show ?thesis using nd c(2) by (simp add: defense_middleware_def g d banned_alist_set)
    next
      case False
      then show ?thesis using nd assms
        by (simp add: defense_middleware_def Let_def banned_alist_set case_prod_unfold)
    qed
  qed
  show "snd (defense_middleware s cs r now nonce) = Some banned_reply" if "client_key r = cid" "\<not> is_debug r"
    using that by (simp add: defense_middleware_def g d)
qed

lemma banned_route:
  assumes "banned cs cid" "\<not> resets cid (r, now, wall, nonce)"
  shows "banned (fst (run_route pr s cs r now wall nonce)) cid"
proof (cases "rq_route r")
  case DebugReset
  then have "rq_client_id r \<noteq> Some cid" using assms(2) by (simp add: resets_def)
  then show ?thesis
    using assms(1) DebugReset
    by (auto simp: run_route_def debug_reset_def banned_alist_set split: option.splits list.splits)
qed (use assms(1) in \<open>simp_all add: run_route_def\<close>)

lemma banned_serve:
  assumes "banned cs cid" "\<not> resets cid (r, now, wall, nonce)"
  shows "banned (fst (serve pr s cs r now wall nonce)) cid"
    and "client_key r = cid \<Longrightarrow> \<not> is_debug r \<Longrightarrow> snd (serve pr s cs r now wall nonce) = Inr banned_reply"
proof -
  obtain cs' out where m: "defense_middleware s cs r now nonce = (cs', out)"
    by (cases "defense_middleware s cs r now nonce")
  have b: "banned cs' cid" using banned_middleware(1) [OF assms(1), of s r now nonce] m by simp
  show "banned (fst (serve pr s cs r now wall nonce)) cid"
    using b banned_route [OF b assms(2), of pr s] by (cases out) (simp_all add: serve_def m)
  show "snd (serve pr s cs r now wall nonce) = Inr banned_reply" if "client_key r = cid" "\<not> is_debug r"
    using banned_middleware(2) [OF assms(1) that, of s now nonce] m by (simp add: serve_def)
qed

text \<open>
  C24.  A ban is final.  Once a client is banned, no sequence of requests by anyone lifts the ban
  except the debug reset with that client's own id: the client stays banned, and each of its
  requests outside the debug endpoints is answered with 403 banned.
\<close>

theorem ban_is_final:
  assumes "banned cs cid" "\<forall>call \<in> set calls. \<not> resets cid call" "serve_all pr s cs calls = (cs', outs)"
  shows "banned cs' cid \<and>
    list_all2 (\<lambda>call out. client_key (fst call) = cid \<and> \<not> is_debug (fst call) \<longrightarrow> out = Inr banned_reply) calls outs"
  using assms
proof (induction calls arbitrary: cs outs)
  case Nil
  then show ?case by simp
next
  case (Cons call calls)
  obtain r now wall nonce where call: "call = (r, now, wall, nonce)" by (cases call) auto
  obtain cs1 out where s1: "serve pr s cs r now wall nonce = (cs1, out)" by (cases "serve pr s cs r now wall nonce")
  obtain outs1 where s2: "serve_all pr s cs1 calls = (cs', outs1)" and o: "outs = out # outs1"
    using Cons.prems(3) by (auto simp: call s1 split: prod.splits)
  have nr: "\<not> resets cid (r, now, wall, nonce)" using Cons.prems(2) call by simp
  have b1: "banned cs1 cid"
    using banned_serve(1) [OF Cons.prems(1) nr, of pr s] s1 by simp
  have "client_key r = cid \<and> \<not> is_debug r \<longrightarrow> out = Inr banned_reply"
    using banned_serve(2) [OF Cons.prems(1) nr, of pr s] s1 by simp
  then show ?case
    using Cons.IH [OF b1 _ s2] Cons.prems(2) by (simp add: call o)
qed

section \<open>Witnesses\<close>

definition tiny_site :: site where
  "tiny_site = two_changes \<lparr>capacity := 1, ban_after := 1, honeypots := [9]\<rparr>"

definition home_request :: request where
  "home_request = \<lparr>rq_path = [47], rq_client_id = Some [99], rq_peer = None, rq_user_agent = [],
     rq_accept_language = [], rq_route = Landing\<rparr>"





definition printer0 :: printer where
  "printer0 = \<lparr>pr_str = (\<lambda>_. []), pr_float = (\<lambda>_. None)\<rparr>"

definition banned_now :: clients where
  "banned_now = [([99], (new_client tiny_site 0) \<lparr>c_banned := True\<rparr>)]"

lemma ban_is_final_witness:
  "\<exists>cs' outs. serve_all printer0 tiny_site banned_now [(home_request, 5, 5, []), (home_request, 9, 9, [])] = (cs', outs) \<and>
     banned cs' [99]"
proof -
  define calls where "calls = [(home_request, 5 :: rat, 5 :: rat, [] :: pystr), (home_request, 9, 9, [])]"
  obtain cs' outs where e: "serve_all printer0 tiny_site banned_now calls = (cs', outs)"
    by (cases "serve_all printer0 tiny_site banned_now calls")
  have b: "banned banned_now [99]" by (simp add: banned_def banned_now_def)
  have n: "\<forall>call \<in> set calls. \<not> resets [99] call" by (simp add: calls_def resets_def home_request_def)
  show ?thesis using ban_is_final [OF b n e] e unfolding calls_def by blast
qed

end
