(* ===== verification/NumpyRng.thy ===== *)
theory NumpyRng
  imports PyDict "HOL-Library.State_Monad"
begin

text \<open>
  The random generators the data generators draw from.  \<open>numpy.random.Generator\<close> is not part of the
  repository: it is a record of the methods the code calls, each a computation in the state monad
  over the state of the generator, and \<open>default_rng\<close> gives the state for a seed.  A draw takes the
  requested size, \<open>None\<close> for a single value, and returns the drawn values in order.  The locale
  \<open>numpy_rng\<close> states the documented ranges; a generator that counts meets them.

  A \<open>choice\<close> from an array is a choice of positions.  The functions \<open>exp\<close>, \<open>log\<close>, \<open>sin\<close>, the power of
  two floats and the sum of an array belong to the same library.
\<close>

type_synonym ('g, 'a) draw = "('g, 'a) state"

record 'g numpy =
  default_rng :: "int \<Rightarrow> 'g"
  np_integers :: "int \<Rightarrow> int \<Rightarrow> nat option \<Rightarrow> ('g, int list) draw"
  np_random :: "nat option \<Rightarrow> ('g, rat list) draw"
  np_uniform :: "rat \<Rightarrow> rat \<Rightarrow> nat option \<Rightarrow> ('g, rat list) draw"
  np_normal :: "rat \<Rightarrow> rat \<Rightarrow> nat option \<Rightarrow> ('g, rat list) draw"
  np_poisson :: "rat \<Rightarrow> nat option \<Rightarrow> ('g, nat list) draw"
  np_exponential :: "rat \<Rightarrow> nat option \<Rightarrow> ('g, rat list) draw"
  np_beta :: "rat \<Rightarrow> rat \<Rightarrow> nat option \<Rightarrow> ('g, rat list) draw"
  np_zipf :: "rat \<Rightarrow> nat option \<Rightarrow> ('g, nat list) draw"
  np_choice :: "nat \<Rightarrow> rat list option \<Rightarrow> nat option \<Rightarrow> ('g, nat list) draw"
  np_sample :: "nat \<Rightarrow> rat list option \<Rightarrow> nat \<Rightarrow> ('g, nat list) draw"
  np_permutation :: "nat \<Rightarrow> ('g, nat list) draw"
  np_shuffle :: "nat \<Rightarrow> ('g, nat list) draw"
  np_exp :: "rat \<Rightarrow> rat"
  np_log :: "rat \<Rightarrow> rat"
  np_sin :: "rat \<Rightarrow> rat"
  np_pow :: "rat \<Rightarrow> rat \<Rightarrow> rat"
  np_sum :: "rat list \<Rightarrow> rat"

definition draws :: "nat option \<Rightarrow> nat" where
  "draws sz = (case sz of None \<Rightarrow> 1 | Some n \<Rightarrow> n)"

text \<open>A draw without a size gives one value.\<close>

definition one :: "('g, 'a list) draw \<Rightarrow> ('g, 'a) draw" where
  "one m = map_state hd m"

text \<open>What a builder that starts from its own seed returns.\<close>

definition seeded :: "'g numpy \<Rightarrow> int \<Rightarrow> ('g, 'a) draw \<Rightarrow> 'a" where
  "seeded np seed m = fst (run_state m (default_rng np seed))"

section \<open>The documented ranges\<close>

locale numpy_rng =
  fixes np :: "'g numpy"
  assumes integers: "lo < hi \<Longrightarrow>
      pred_state (\<lambda>xs. length xs = draws sz \<and> (\<forall>x \<in> set xs. lo \<le> x \<and> x < hi)) (np_integers np lo hi sz)"
    and random: "pred_state (\<lambda>xs. length xs = draws sz \<and> (\<forall>x \<in> set xs. 0 \<le> x \<and> x < 1 \<and> fl x = x)) (np_random np sz)"
    and uniform: "a \<le> b \<Longrightarrow>
      pred_state (\<lambda>xs. length xs = draws sz \<and> (\<forall>x \<in> set xs. a \<le> x \<and> x \<le> b)) (np_uniform np a b sz)"
    and normal: "pred_state (\<lambda>xs. length xs = draws sz) (np_normal np mu sigma sz)"
    and poisson: "pred_state (\<lambda>xs. length xs = draws sz) (np_poisson np lam sz)"
    and exponential: "pred_state (\<lambda>xs. length xs = draws sz \<and> (\<forall>x \<in> set xs. 0 \<le> x \<and> fl x = x)) (np_exponential np scale sz)"
    and beta: "pred_state (\<lambda>xs. length xs = draws sz \<and> (\<forall>x \<in> set xs. 0 \<le> x \<and> x \<le> 1)) (np_beta np a b sz)"
    and zipf: "pred_state (\<lambda>xs. length xs = draws sz \<and> (\<forall>x \<in> set xs. 1 \<le> x)) (np_zipf np a sz)"
    and choice: "0 < n \<Longrightarrow>
      pred_state (\<lambda>xs. length xs = draws sz \<and> (\<forall>x \<in> set xs. x < n)) (np_choice np n p sz)"
    and sample: "k \<le> n \<Longrightarrow>
      pred_state (\<lambda>xs. length xs = k \<and> distinct xs \<and> (\<forall>x \<in> set xs. x < n)) (np_sample np n p k)"
    and permutation: "pred_state (\<lambda>xs. distinct xs \<and> set xs = {..<n}) (np_permutation np n)"
    and shuffle: "pred_state (\<lambda>xs. distinct xs \<and> set xs = {..<n}) (np_shuffle np n)"
    and exp_mono: "x \<le> y \<Longrightarrow> 0 \<le> np_exp np x \<and> np_exp np x \<le> np_exp np y"

section \<open>Every outcome of a computation\<close>

text \<open>\<open>pred_state P m\<close>: whatever the generator, \<open>m\<close> returns a value with \<open>P\<close>.\<close>

lemma pred_return [simp]: "pred_state P (State_Monad.return x) \<longleftrightarrow> P x"
proof
  assume "pred_state P (State_Monad.return x)"
  then show "P x" by (rule pred_stateD [OF _ run_state_return])
next
  assume "P x"
  then show "pred_state P (State_Monad.return x)" by (intro pred_stateI) simp
qed

lemma pred_bind:
  assumes "pred_state Q m" "\<And>x. Q x \<Longrightarrow> pred_state P (f x)"
  shows "pred_state P (m \<bind> f)"
proof (rule bind_predI, rule pred_stateI)
  fix x s s' assume "run_state m s = (x, s')"
  with assms(1) have "Q x" by (rule pred_stateD)
  then show "pred_state P (f x)" by (rule assms(2))
qed

lemma pred_weaken: "pred_state Q m \<Longrightarrow> (\<And>x. Q x \<Longrightarrow> P x) \<Longrightarrow> pred_state P m"
  by (rule pred_stateI) (drule pred_stateD, auto)

lemma pred_any: "pred_state (\<lambda>_. True) m"
  by (rule pred_stateI) simp

lemma pred_map: "pred_state P (map_state f m) \<longleftrightarrow> pred_state (\<lambda>x. P (f x)) m"
  by (simp add: state.pred_map o_def)

lemma pred_conj: "pred_state P m \<Longrightarrow> pred_state Q m \<Longrightarrow> pred_state (\<lambda>x. P x \<and> Q x) m"
  by (rule pred_stateI) (blast dest: pred_stateD)

lemma pred_one:
  "pred_state (\<lambda>xs. length xs = draws None \<and> (\<forall>x \<in> set xs. P x)) m \<Longrightarrow> pred_state P (one m)"
  unfolding one_def pred_map by (erule pred_weaken) (auto simp: draws_def length_Suc_conv)

lemma pred_seeded: "pred_state P m \<Longrightarrow> P (seeded np seed m)"
  by (simp add: seeded_def pred_state_run_state)

lemma pred_traverse:
  "(\<And>x. x \<in> set xs \<Longrightarrow> pred_state (P x) (f x)) \<Longrightarrow> pred_state (list_all2 P xs) (State_Monad.traverse_list f xs)"
proof (induction xs)
  case Nil
  then show ?case by simp
next
  case (Cons x xs)
  have "pred_state (P x) (f x)" using Cons.prems by simp
  moreover have "pred_state (list_all2 P xs) (State_Monad.traverse_list f xs)" using Cons by simp
  ultimately show ?case
    by (auto intro!: pred_bind [of "P x"] pred_bind [of "list_all2 P xs"])
qed

section \<open>A generator that counts\<close>

definition counting :: "nat option \<Rightarrow> (nat \<Rightarrow> 'a) \<Rightarrow> (nat, 'a list) draw" where
  "counting sz f = State (\<lambda>g. (map f [g..<g + draws sz], g + draws sz))"

definition counter_rng :: "nat numpy" where
  "counter_rng =
     \<lparr>default_rng = nat,
      np_integers = \<lambda>lo hi sz. counting sz (\<lambda>k. lo + int k mod (hi - lo)),
      np_random = \<lambda>sz. counting sz (\<lambda>k. of_nat (k mod 4) / 4),
      np_uniform = \<lambda>a b sz. counting sz (\<lambda>k. if k mod 2 = 0 then a else b),
      np_normal = \<lambda>mu sigma sz. counting sz (\<lambda>k. mu),
      np_poisson = \<lambda>lam sz. counting sz (\<lambda>k. k mod 3),
      np_exponential = \<lambda>scale sz. counting sz (\<lambda>k. of_nat (k mod 4)),
      np_beta = \<lambda>a b sz. counting sz (\<lambda>k. of_nat (k mod 4) / 4),
      np_zipf = \<lambda>a sz. counting sz (\<lambda>k. 1 + k mod 5),
      np_choice = \<lambda>n p sz. counting sz (\<lambda>k. k mod n),
      np_sample = \<lambda>n p k. State (\<lambda>g. (take k (rotate g [0..<n]), g + 1)),
      np_permutation = \<lambda>n. State (\<lambda>g. (rotate g [0..<n], g + 1)),
      np_shuffle = \<lambda>n. State (\<lambda>g. (rotate g [0..<n], g + 1)),
      np_exp = \<lambda>x. if x \<le> 0 then 1 else 1 + x, np_log = \<lambda>x. 0, np_sin = \<lambda>x. 0, np_pow = \<lambda>x y. x, np_sum = sum_list\<rparr>"

lemma pred_counting:
  "(\<And>k. P (f k)) \<Longrightarrow> pred_state (\<lambda>xs. length xs = draws sz \<and> (\<forall>x \<in> set xs. P x)) (counting sz f)"
  unfolding counting_def by (rule pred_stateI) auto

lemma pred_counting_length: "pred_state (\<lambda>xs. length xs = draws sz) (counting sz f)"
  by (rule pred_weaken [OF pred_counting [of "\<lambda>_. True"]]) auto

lemma fl_quarter: "fl (of_nat (k mod 4) / 4) = (of_nat (k mod 4) / 4 :: rat)"
proof -
  have "fl (of_int (int (k mod 4)) * 2 powi (- 2)) = of_int (int (k mod 4)) * 2 powi (- 2)"
    by (rule fl_scaled) auto
  then show ?thesis by (simp add: power_int_minus field_simps)
qed

interpretation counter: numpy_rng counter_rng
proof
  show "pred_state (\<lambda>xs. length xs = draws sz \<and> (\<forall>x \<in> set xs. lo \<le> x \<and> x < hi)) (np_integers counter_rng lo hi sz)"
    if "lo < hi" for lo hi sz
    unfolding counter_rng_def numpy.simps using that
    by (intro pred_counting) (metis add_less_cancel_left diff_add_cancel add.commute diff_gt_0_iff_gt le_add_same_cancel1 pos_mod_bound pos_mod_sign)
  show "pred_state (\<lambda>xs. length xs = draws sz \<and> (\<forall>x \<in> set xs. 0 \<le> x \<and> x < 1 \<and> fl x = x)) (np_random counter_rng sz)" for sz
    unfolding counter_rng_def numpy.simps by (intro pred_counting) (simp add: fl_quarter)
  show "pred_state (\<lambda>xs. length xs = draws sz \<and> (\<forall>x \<in> set xs. a \<le> x \<and> x \<le> b)) (np_uniform counter_rng a b sz)"
    if "a \<le> b" for a b sz
    unfolding counter_rng_def numpy.simps using that by (intro pred_counting) auto
  show "pred_state (\<lambda>xs. length xs = draws sz) (np_normal counter_rng mu sigma sz)" for mu sigma sz
    unfolding counter_rng_def numpy.simps by (rule pred_counting_length)
  show "pred_state (\<lambda>xs. length xs = draws sz) (np_poisson counter_rng lam sz)" for lam sz
    unfolding counter_rng_def numpy.simps by (rule pred_counting_length)
  show "pred_state (\<lambda>xs. length xs = draws sz \<and> (\<forall>x \<in> set xs. 0 \<le> x \<and> fl x = x)) (np_exponential counter_rng scale sz)" for scale sz
    unfolding counter_rng_def numpy.simps by (intro pred_counting) (use fl_of_int [of "int (k mod 4)" for k] in auto)
  show "pred_state (\<lambda>xs. length xs = draws sz \<and> (\<forall>x \<in> set xs. 0 \<le> x \<and> x \<le> 1)) (np_beta counter_rng a b sz)" for a b sz
    unfolding counter_rng_def numpy.simps by (intro pred_counting) simp
  show "pred_state (\<lambda>xs. length xs = draws sz \<and> (\<forall>x \<in> set xs. 1 \<le> x)) (np_zipf counter_rng a sz)" for a sz
    unfolding counter_rng_def numpy.simps by (intro pred_counting) simp
  show "pred_state (\<lambda>xs. length xs = draws sz \<and> (\<forall>x \<in> set xs. x < n)) (np_choice counter_rng n p sz)" if "0 < n" for n p sz
    unfolding counter_rng_def numpy.simps using that by (intro pred_counting) simp
  show "pred_state (\<lambda>xs. length xs = k \<and> distinct xs \<and> (\<forall>x \<in> set xs. x < n)) (np_sample counter_rng n p k)" if "k \<le> n" for k n p
    unfolding counter_rng_def numpy.simps using that
    by (intro pred_stateI) (auto dest: in_set_takeD)
  show "pred_state (\<lambda>xs. distinct xs \<and> set xs = {..<n}) (np_permutation counter_rng n)" for n
    unfolding counter_rng_def numpy.simps by (intro pred_stateI) auto
  show "pred_state (\<lambda>xs. distinct xs \<and> set xs = {..<n}) (np_shuffle counter_rng n)" for n
    unfolding counter_rng_def numpy.simps by (intro pred_stateI) auto
  show "0 \<le> np_exp counter_rng x \<and> np_exp counter_rng x \<le> np_exp counter_rng y" if "x \<le> y" for x y
    using that by (simp add: counter_rng_def)
qed

section \<open>Array operations\<close>

text \<open>\<open>numpy.round(x, d)\<close>, Python's \<open>round(x, d)\<close> and \<open>int(round(x))\<close>.\<close>

definition np_round :: "nat \<Rightarrow> rat \<Rightarrow> rat" where
  "np_round d x = fl (of_int (round_half_even (fl (x * 10 ^ d))) / 10 ^ d)"

definition py_round :: "nat \<Rightarrow> rat \<Rightarrow> rat" where
  "py_round d x = fl (of_int (round_half_even (x * 10 ^ d)) / 10 ^ d)"

text \<open>\<open>numpy.array_split(xs, k)\<close>: the first \<open>length xs mod k\<close> parts have one element more.\<close>

definition split_sizes :: "nat \<Rightarrow> nat \<Rightarrow> nat list" where
  "split_sizes n k = map (\<lambda>i. if i < n mod k then Suc (n div k) else n div k) [0..<k]"

fun split_by :: "nat list \<Rightarrow> 'a list \<Rightarrow> 'a list list" where
  "split_by [] xs = []"
| "split_by (m # ms) xs = take m xs # split_by ms (drop m xs)"

definition array_split :: "'a list \<Rightarrow> nat \<Rightarrow> 'a list list" where
  "array_split xs k = split_by (split_sizes (length xs) k) xs"

lemma sum_split_sizes:
  assumes "0 < k"
  shows "sum_list (split_sizes n k) = n"
proof -
  have c: "(\<Sum>i \<leftarrow> [0..<m]. if i < r then (1::nat) else 0) = min r m" for m r
    by (induction m) auto
  have "sum_list (split_sizes n k) = (\<Sum>i \<leftarrow> [0..<k]. n div k + (if i < n mod k then 1 else 0))"
    unfolding split_sizes_def by (intro arg_cong [where f = sum_list] map_cong) auto
  also have "\<dots> = n div k * k + min (n mod k) k"
    by (simp add: sum_list_addf c sum_list_triv)
  finally show ?thesis using assms by (simp add: min_def less_imp_le)
qed

lemma concat_split_by: "sum_list ms = length xs \<Longrightarrow> concat (split_by ms xs) = xs"
  by (induction ms xs rule: split_by.induct) auto

lemma split_by_lengths: "sum_list ms \<le> length xs \<Longrightarrow> map length (split_by ms xs) = ms"
  by (induction ms xs rule: split_by.induct) auto

lemma concat_array_split: "0 < k \<Longrightarrow> concat (array_split xs k) = xs"
  by (simp add: array_split_def concat_split_by sum_split_sizes)

lemma array_split_lengths: "0 < k \<Longrightarrow> map length (array_split xs k) = split_sizes (length xs) k"
  by (simp add: array_split_def split_by_lengths sum_split_sizes)

end
