(* ===== verification/ScrapeGen.thy ===== *)
theory ScrapeGen
  imports NumpyRng PyLines Json
begin

text \<open>
  The corpus generator of module 13 (13-scraping-at-scale/generate.py): categories, sellers,
  products, injected defects, honeypots, day-over-day changes and the cost model, each builder from
  its own seed, and the three files it writes.  The random generator is a parameter.  An array is a
  list; a missing rating (NaN) is \<open>None\<close>; a float is printed by the parameter \<open>fr\<close>.  Arguments for
  which numpy itself raises (an empty range, a sample larger than its population) are outside; the
  sizes \<open>generate\<close> computes are never such.
\<close>

section \<open>Constants\<close>

definition corpus_seed :: int where
  "corpus_seed = 131313"

definition N_PRODUCTS_BASE :: rat where
  "N_PRODUCTS_BASE = 4000"

definition N_SELLERS_BASE :: rat where
  "N_SELLERS_BASE = 140"

definition HONEYPOT_COUNT_BASE :: rat where
  "HONEYPOT_COUNT_BASE = 30"

definition TRAP_TOKENS_COUNT :: nat where
  "TRAP_TOKENS_COUNT = 5"

definition BAD_FRACTION :: rat where
  "BAD_FRACTION = fl (10 / 100)"

definition DEFECT_TYPES :: "pystr list" where
  "DEFECT_TYPES = [u ''missing_price'', u ''price_na'', u ''empty_title'',
     u ''negative_price'', u ''bad_currency'', u ''truncated'']"

definition N_DAYS :: nat where
  "N_DAYS = 5"

definition CHANGE_FRACTION :: rat where
  "CHANGE_FRACTION = fl (4 / 100)"

definition PRICE_CHANGE_PROB :: rat where
  "PRICE_CHANGE_PROB = fl (70 / 100)"

definition MARKUP_VERSION_COUNT :: int where
  "MARKUP_VERSION_COUNT = 4"

definition HTTP_COST :: rat where
  "HTTP_COST = 1"

definition API_EXTRA_COST :: rat where
  "API_EXTRA_COST = 7"

definition COMPLETENESS_TARGET :: rat where
  "COMPLETENESS_TARGET = fl (98 / 100)"

definition CATEGORIES :: "pystr list" where
  "CATEGORIES = [u ''electronics'', u ''home-goods'', u ''books'', u ''toys'', u ''sporting-goods'',
     u ''office-supplies'', u ''beauty'', u ''apparel'', u ''grocery'', u ''automotive'']"

text \<open>Median and sigma of the log-normal price of a category.\<close>

definition CATEGORY_PRICE_PROFILE :: "(pystr \<times> rat \<times> rat) list" where
  "CATEGORY_PRICE_PROFILE =
     [(u ''electronics'', 89, fl (9 / 10)), (u ''home-goods'', 39, fl (7 / 10)), (u ''books'', 14, fl (4 / 10)),
      (u ''toys'', 19, fl (6 / 10)), (u ''sporting-goods'', 49, fl (7 / 10)), (u ''office-supplies'', 12, 1 / 2),
      (u ''beauty'', 18, 1 / 2), (u ''apparel'', 28, fl (6 / 10)), (u ''grocery'', 8, fl (4 / 10)),
      (u ''automotive'', 59, fl (8 / 10))]"

definition NOUNS :: "(pystr \<times> pystr list) list" where
  "NOUNS =
     [(u ''electronics'', [u ''Headphones'', u ''Bluetooth Speaker'', u ''Power Bank'', u ''Webcam'', u ''Smartwatch'', u ''Router'']),
      (u ''home-goods'', [u ''Throw Pillow'', u ''Wall Clock'', u ''Area Rug'', u ''Storage Bin'', u ''Table Lamp'', u ''Curtain Set'']),
      (u ''books'', [u ''Novel'', u ''Cookbook'', u ''Field Guide'', u ''Journal'', u ''Anthology'', u ''Textbook'']),
      (u ''toys'', [u ''Building Blocks'', u ''Puzzle Set'', u ''Remote Car'', u ''Plush Toy'', u ''Board Game'', u ''Action Figure'']),
      (u ''sporting-goods'', [u ''Yoga Mat'', u ''Resistance Bands'', u ''Water Bottle'', u ''Running Shoes'', u ''Dumbbell Set'', u ''Bike Helmet'']),
      (u ''office-supplies'', [u ''Notebook Pack'', u ''Desk Organizer'', u ''Stapler'', u ''Sticky Notes'', u ''Pen Set'', u ''Whiteboard'']),
      (u ''beauty'', [u ''Face Serum'', u ''Lip Balm Set'', u ''Hair Dryer'', u ''Makeup Brush Set'', u ''Body Lotion'', u ''Nail Kit'']),
      (u ''apparel'', [u ''Cotton T-Shirt'', u ''Denim Jacket'', u ''Wool Scarf'', u ''Running Socks'', u ''Baseball Cap'', u ''Rain Jacket'']),
      (u ''grocery'', [u ''Coffee Beans'', u ''Pasta Pack'', u ''Olive Oil'', u ''Granola Bars'', u ''Spice Set'', u ''Tea Sampler'']),
      (u ''automotive'', [u ''Floor Mats'', u ''Car Charger'', u ''Dash Cam'', u ''Seat Cover Set'', u ''Tire Gauge'', u ''Roof Rack''])]"

definition ADJECTIVES :: "pystr list" where
  "ADJECTIVES = [u ''Premium'', u ''Classic'', u ''Pro'', u ''Essential'', u ''Deluxe'',
     u ''Compact'', u ''Ultra'', u ''Everyday'', u ''Signature'', u ''Basic'']"

definition BRANDS :: "pystr list" where
  "BRANDS = [u ''Kestrel'', u ''Orbiton'', u ''Fennwick'', u ''Trueline'', u ''Marlowe'', u ''Cinderpeak'', u ''Voxel'',
     u ''Pinegrove'', u ''Auralite'', u ''Basecamp'', u ''Northfield'', u ''Circuitry'', u ''Sablewood'',
     u ''Loomis'', u ''Verity'', u ''Highmark'', u ''Coastway'', u ''Ironpeak'', u ''Wrenfield'', u ''Lucent'']"

definition SELLER_WORD1 :: "pystr list" where
  "SELLER_WORD1 = [u ''Nova'', u ''Bright'', u ''Urban'', u ''Prime'', u ''Swift'', u ''True'', u ''Everyday'', u ''North'',
     u ''Vital'', u ''Metro'', u ''Silverline'', u ''Golden'', u ''Cedar'', u ''Harbor'', u ''Vertex'',
     u ''Bluewave'', u ''Solstice'', u ''Crown'', u ''Anchor'', u ''Cobalt'']"

definition SELLER_WORD2 :: "pystr list" where
  "SELLER_WORD2 = [u ''Market'', u ''Traders'', u ''Goods'', u ''Supply Co'', u ''Outlet'', u ''Emporium'',
     u ''Bazaar'', u ''Depot'', u ''Collective'', u ''Mercantile'', u ''Exchange'', u ''Warehouse'']"

definition CURRENCIES :: "pystr list" where
  "CURRENCIES = [u ''USD'', u ''EUR'', u ''GBP'', u ''CAD'']"

definition CURRENCY_WEIGHTS :: "rat list" where
  "CURRENCY_WEIGHTS = map fl [90 / 100, 5 / 100, 3 / 100, 2 / 100]"

definition CARRIERS :: "pystr list" where
  "CARRIERS = [u ''QuickShip'', u ''MetroPost'', u ''CargoLine'', u ''ParcelJet'']"

definition SHIPPING_ETA_CHOICES :: "int list" where
  "SHIPPING_ETA_CHOICES = [1, 2, 3, 5, 7, 10]"

definition SHIPPING_ETA_WEIGHTS :: "rat list" where
  "SHIPPING_ETA_WEIGHTS = map fl [10 / 100, 20 / 100, 25 / 100, 20 / 100, 15 / 100, 10 / 100]"

definition DESCRIPTION_FILLERS :: "pystr list" where
  "DESCRIPTION_FILLERS =
     [u ''Built for everyday use with a focus on reliability.'',
      u ''A customer favorite, restocked regularly.'',
      u ''Backed by a standard manufacturer warranty.'',
      u ''Designed to balance quality and value.'',
      u ''Ships in eco-friendly, minimal packaging.'',
      u ''Part of this season'' @ [39] @ u ''s curated selection.'']"

definition REVIEW_LAMBDA :: rat where
  "REVIEW_LAMBDA = fl (357 / 1000)"

section \<open>Builders\<close>

definition zipf_weights :: "'g numpy \<Rightarrow> nat \<Rightarrow> rat \<Rightarrow> rat list" where
  "zipf_weights np k s =
     (let w = map (\<lambda>r. fl (1 / np_pow np (of_nat (r + 1)) s)) [0..<k]; total = np_sum np w
      in map (\<lambda>x. fl (x / total)) w)"

text \<open>\<open>re.sub(r"[^a-z0-9]+", "-", s)\<close>.\<close>

definition slug_char :: "nat \<Rightarrow> bool" where
  "slug_char c \<longleftrightarrow> 97 \<le> c \<and> c \<le> 122 \<or> 48 \<le> c \<and> c \<le> 57"

fun dash_runs :: "pystr \<Rightarrow> pystr" where
  "dash_runs [] = []"
| "dash_runs (c # s) =
     (if slug_char c then c # dash_runs s
      else case s of
        [] \<Rightarrow> [45]
      | d # _ \<Rightarrow> if slug_char d then 45 # dash_runs s else dash_runs s)"

text \<open>Titles are ASCII, so their lower case is that of ASCII.\<close>

definition slugify :: "pystr \<Rightarrow> nat \<Rightarrow> pystr" where
  "slugify s max_len =
     rstrip_by (\<lambda>c. c = 45) (take max_len (strip_by (\<lambda>c. c = 45) (dash_runs (map ascii_lower s))))"

definition build_categories :: "(int \<times> pystr) list" where
  "build_categories = map (\<lambda>i. (int i + 1, CATEGORIES ! i)) [0..<length CATEGORIES]"

record sellers =
  seller_ids :: "int list"
  seller_names :: "pystr list"

definition build_sellers :: "'g numpy \<Rightarrow> int \<Rightarrow> int \<Rightarrow> sellers" where
  "build_sellers np seed n0 =
     (let n = nat (max 1 n0) in
      seeded np seed (do {
        w1_idx \<leftarrow> np_integers np 0 (int (length SELLER_WORD1)) (Some n);
        w2_idx \<leftarrow> np_integers np 0 (int (length SELLER_WORD2)) (Some n);
        State_Monad.return
          \<lparr>seller_ids = map int [1..<n + 1],
           seller_names = map (\<lambda>i. SELLER_WORD1 ! nat (w1_idx ! i) @ u '' '' @ SELLER_WORD2 ! nat (w2_idx ! i)) [0..<n]\<rparr>
      }))"

record corpus =
  p_id :: "int list"
  p_slug :: "pystr list"
  p_url :: "pystr list"
  p_title :: "pystr list"
  p_category :: "pystr list"
  p_brand :: "pystr list"
  p_price :: "rat list"
  p_currency :: "pystr list"
  p_in_stock :: "bool list"
  p_seller_id :: "int list"
  p_seller_name :: "pystr list"
  p_review_count :: "nat list"
  p_rating :: "rat option list"
  p_shipping_free :: "bool list"
  p_shipping_eta_days :: "int list"
  p_shipping_carrier :: "pystr list"
  p_description :: "pystr list"

text \<open>\<open>numpy.where(cat_pos == ci)[0]\<close>.\<close>

definition positions :: "nat list \<Rightarrow> nat \<Rightarrow> nat list" where
  "positions cat_pos ci = filter (\<lambda>i. cat_pos ! i = ci) [0..<length cat_pos]"

text \<open>
  The titles of the products of one category after the other.  The initial \<open>None\<close> of a title is
  the empty text; every category position is below the number of categories, so each is set.
\<close>

fun draw_titles :: "'g numpy \<Rightarrow> nat list \<Rightarrow> int list \<Rightarrow> (nat \<times> pystr) list \<Rightarrow> pystr list \<Rightarrow> ('g, pystr list) draw" where
  "draw_titles np cat_pos adj_idx [] titles = State_Monad.return titles"
| "draw_titles np cat_pos adj_idx ((ci, cat) # cats) titles =
     (let idx = positions cat_pos ci; nouns = get_or [] NOUNS cat in
      if idx = [] then draw_titles np cat_pos adj_idx cats titles
      else do {
        noun_choice \<leftarrow> np_integers np 0 (int (length nouns)) (Some (length idx));
        draw_titles np cat_pos adj_idx cats
          (foldl (\<lambda>ts (pi, k). ts[pi := ADJECTIVES ! nat (adj_idx ! pi) @ u '' '' @ nouns ! nat k])
             titles (zip idx noun_choice))
      })"

definition draw_price :: "'g numpy \<Rightarrow> nat \<Rightarrow> rat \<Rightarrow> rat" where
  "draw_price np c z =
     (let (median, sigma) = get_or (0, 0) CATEGORY_PRICE_PROFILE (CATEGORIES ! c)
      in max (1 / 2) (np_round 2 (np_exp np (fl (np_log np median + fl (sigma * z))))))"

definition draw_rating :: "nat \<Rightarrow> rat \<Rightarrow> rat option" where
  "draw_rating reviews z =
     (if 0 < reviews then Some (np_round 1 (min 5 (max 1 (fl (fl (43 / 10) + fl (1 / 2 * z)))))) else None)"

definition seller_weights :: "'g numpy \<Rightarrow> nat list \<Rightarrow> rat list" where
  "seller_weights np perm =
     (let w = map (\<lambda>r. fl (1 / np_pow np (of_nat (r + 1)) (fl (12 / 10)))) perm; total = np_sum np w
      in map (\<lambda>x. fl (x / total)) w)"

text \<open>\<open>[f(i) for i in range(n)]\<close>.\<close>

abbreviation each :: "nat \<Rightarrow> (nat \<Rightarrow> 'a) \<Rightarrow> 'a list" where
  "each n f \<equiv> map f [0..<n]"

definition build_products :: "'g numpy \<Rightarrow> int \<Rightarrow> int \<Rightarrow> nat \<Rightarrow> pystr list \<Rightarrow> (int \<times> pystr) list \<Rightarrow> corpus" where
  "build_products np seed n0 n_sellers names categories =
     (let n = nat (max 1 n0); n_cat = length categories in
      seeded np seed (do {
        cat_pos \<leftarrow> np_choice np n_cat (Some (zipf_weights np n_cat (fl (11 / 10)))) (Some n);
        perm \<leftarrow> np_permutation np n_sellers;
        seller_pos \<leftarrow> np_choice np n_sellers (Some (seller_weights np perm)) (Some n);
        z \<leftarrow> np_normal np 0 1 (Some n);
        currency_idx \<leftarrow> np_choice np (length CURRENCIES) (Some CURRENCY_WEIGHTS) (Some n);
        stock_draw \<leftarrow> np_random np (Some n);
        review_count \<leftarrow> np_poisson np REVIEW_LAMBDA (Some n);
        rating_z \<leftarrow> np_normal np 0 1 (Some n);
        free_draw \<leftarrow> np_random np (Some n);
        eta_idx \<leftarrow> np_choice np (length SHIPPING_ETA_CHOICES) (Some SHIPPING_ETA_WEIGHTS) (Some n);
        carrier_idx \<leftarrow> np_integers np 0 (int (length CARRIERS)) (Some n);
        brand_idx \<leftarrow> np_integers np 0 (int (length BRANDS)) (Some n);
        adj_idx \<leftarrow> np_integers np 0 (int (length ADJECTIVES)) (Some n);
        filler_idx \<leftarrow> np_integers np 0 (int (length DESCRIPTION_FILLERS)) (Some n);
        titles \<leftarrow> draw_titles np cat_pos adj_idx (zip [0..<length CATEGORIES] CATEGORIES) (replicate n []);
        State_Monad.return (let brands = each n (\<lambda>i. BRANDS ! nat (brand_idx ! i)); ids = map int [1..<n + 1] in
          \<lparr>p_id = ids,
           p_slug = each n (\<lambda>i. slugify (titles ! i) 40 @ [45] @ int_str (ids ! i)),
           p_url = map (\<lambda>i. u ''/product/'' @ int_str i) ids,
           p_title = titles,
           p_category = each n (\<lambda>i. CATEGORIES ! (cat_pos ! i)),
           p_brand = brands,
           p_price = each n (\<lambda>i. draw_price np (cat_pos ! i) (z ! i)),
           p_currency = each n (\<lambda>i. CURRENCIES ! (currency_idx ! i)),
           p_in_stock = each n (\<lambda>i. stock_draw ! i < fl (85 / 100)),
           p_seller_id = each n (\<lambda>i. int (seller_pos ! i) + 1),
           p_seller_name = each n (\<lambda>i. names ! (seller_pos ! i)),
           p_review_count = review_count,
           p_rating = each n (\<lambda>i. draw_rating (review_count ! i) (rating_z ! i)),
           p_shipping_free = each n (\<lambda>i. free_draw ! i < fl (60 / 100)),
           p_shipping_eta_days = each n (\<lambda>i. SHIPPING_ETA_CHOICES ! (eta_idx ! i)),
           p_shipping_carrier = each n (\<lambda>i. CARRIERS ! nat (carrier_idx ! i)),
           p_description = each n (\<lambda>i. titles ! i @ u '' by '' @ brands ! i @ u ''. '' @
                                   DESCRIPTION_FILLERS ! nat (filler_idx ! i))\<rparr>)
      }))"

text \<open>A dict built by assignments in order.\<close>

definition dict_of :: "('k \<times> 'v) list \<Rightarrow> ('k \<times> 'v) list" where
  "dict_of kvs = foldl (\<lambda>m (k, v). alist_set k v m) [] kvs"

text \<open>\<open>max(1, round(fraction * n))\<close>.\<close>

definition portion :: "rat \<Rightarrow> nat \<Rightarrow> nat" where
  "portion fraction n = nat (max 1 (round_half_even (fl (fraction * of_nat n))))"

definition build_bad_records :: "'g numpy \<Rightarrow> int \<Rightarrow> int list \<Rightarrow> rat \<Rightarrow> pystr list option \<Rightarrow> (int \<times> pystr) list" where
  "build_bad_records np seed product_ids fraction types =
     (let defect_types = (case types of None \<Rightarrow> DEFECT_TYPES | Some [] \<Rightarrow> DEFECT_TYPES | Some ts \<Rightarrow> ts);
          n = length product_ids; n_bad = portion fraction n in
      seeded np seed (do {
        picked \<leftarrow> np_sample np n None n_bad;
        order \<leftarrow> np_shuffle np n_bad;
        State_Monad.return (let chosen = map (\<lambda>k. product_ids ! (picked ! k)) order in
          dict_of (concat (map (\<lambda>(defect, ids). map (\<lambda>pid. (pid, defect)) ids)
            (zip defect_types (array_split chosen (length defect_types))))))
      }))"

record honeypot_spec =
  hp_ids :: "int list"
  hp_tokens :: "pystr list"

definition build_honeypots :: "'g numpy \<Rightarrow> int \<Rightarrow> int \<Rightarrow> int \<Rightarrow> nat \<Rightarrow> honeypot_spec" where
  "build_honeypots np seed n_products count n_trap_tokens =
     (let c = max 1 count in
      seeded np seed (do {
        hex_digits \<leftarrow> np_integers np 0 16 (Some (n_trap_tokens * 8));
        State_Monad.return
          \<lparr>hp_ids = [n_products + 1..n_products + c],
           hp_tokens = map (\<lambda>r. map (\<lambda>j. hex_digit (nat (hex_digits ! (8 * r + j)))) [0..<8]) [0..<n_trap_tokens]\<rparr>
      }))"

section \<open>Day-over-day changes\<close>

datatype change = NewPrice rat | NewStock bool

record running =
  run_price :: "rat list"
  run_stock :: "bool list"

text \<open>One changed product of a day: its id, whether the price changes, the factor of a price.\<close>

definition change_one :: "(int \<times> nat) list \<Rightarrow> running \<times> (int \<times> change) list \<Rightarrow> int \<times> bool \<times> rat \<Rightarrow> running \<times> (int \<times> change) list" where
  "change_one id_to_pos st pick =
     (case (st, pick) of ((r, changes), (pid, is_price, factor)) \<Rightarrow>
        let pos = get_or 0 id_to_pos pid in
        if is_price then
          (let new_price = py_round 2 (fl (run_price r ! pos * factor))
           in (r\<lparr>run_price := (run_price r)[pos := new_price]\<rparr>, alist_set pid (NewPrice new_price) changes))
        else
          (let new_stock = (\<not> run_stock r ! pos)
           in (r\<lparr>run_stock := (run_stock r)[pos := new_stock]\<rparr>, alist_set pid (NewStock new_stock) changes)))"

definition draw_day :: "'g numpy \<Rightarrow> int \<Rightarrow> int list \<Rightarrow> nat \<Rightarrow> (int \<times> bool \<times> rat) list" where
  "draw_day np seed product_ids n_change =
     seeded np seed (do {
       picked \<leftarrow> np_sample np (length product_ids) None n_change;
       price_draw \<leftarrow> np_random np (Some n_change);
       factors \<leftarrow> np_uniform np (fl (85 / 100)) (fl (120 / 100)) (Some n_change);
       State_Monad.return (map (\<lambda>k. (product_ids ! (picked ! k), price_draw ! k < PRICE_CHANGE_PROB, factors ! k)) [0..<n_change])
     })"

text \<open>The loop over the days \<open>1 .. d\<close>: the running state and the recorded changes of each day.\<close>

fun change_loop :: "'g numpy \<Rightarrow> int \<Rightarrow> int list \<Rightarrow> (int \<times> nat) list \<Rightarrow> nat \<Rightarrow> running \<Rightarrow> nat \<Rightarrow> running \<times> (nat \<times> (int \<times> change) list) list" where
  "change_loop np seed product_ids id_to_pos n_change r0 0 = (r0, [])"
| "change_loop np seed product_ids id_to_pos n_change r0 (Suc d) =
     (let (r, days) = change_loop np seed product_ids id_to_pos n_change r0 d;
          (r', changes) = foldl (change_one id_to_pos) (r, []) (draw_day np (seed + int (Suc d)) product_ids n_change)
      in (r', days @ [(Suc d, changes)]))"

definition positions_by_id :: "int list \<Rightarrow> (int \<times> nat) list" where
  "positions_by_id product_ids = dict_of (zip product_ids [0..<length product_ids])"

definition build_change_days ::
  "'g numpy \<Rightarrow> int \<Rightarrow> int list \<Rightarrow> rat list \<Rightarrow> bool list \<Rightarrow> nat \<Rightarrow> rat \<Rightarrow> (nat \<times> (int \<times> change) list) list" where
  "build_change_days np seed product_ids baseline_price baseline_in_stock n_days fraction =
     snd (change_loop np seed product_ids (positions_by_id product_ids) (portion fraction (length product_ids))
            \<lparr>run_price = baseline_price, run_stock = baseline_in_stock\<rparr> (n_days - 1))"

section \<open>The cost model\<close>

record cost_model =
  http_cost :: rat
  api_extra_cost :: rat
  render_cost :: rat
  completeness_target :: rat
  requires_detail_count :: nat
  requires_detail_fraction :: rat
  all_http_completeness :: rat
  all_render_completeness :: rat
  mixed_completeness :: rat
  all_http_cost :: rat
  all_render_cost :: rat
  mixed_cost :: rat

definition build_cost_model :: "nat \<Rightarrow> nat list \<Rightarrow> rat \<Rightarrow> rat \<Rightarrow> rat \<Rightarrow> cost_model" where
  "build_cost_model n_products review_count http extra target =
     (let required = length (filter (\<lambda>c. 0 < c) review_count);
          fraction = fl (of_nat required / of_nat n_products);
          render = fl (http + extra)
      in \<lparr>http_cost = http, api_extra_cost = extra, render_cost = render, completeness_target = target,
          requires_detail_count = required,
          requires_detail_fraction = py_round 4 fraction,
          all_http_completeness = py_round 4 (fl (1 - fraction)),
          all_render_completeness = 1, mixed_completeness = 1,
          all_http_cost = py_round 2 (fl (of_nat n_products * http)),
          all_render_cost = py_round 2 (fl (of_nat n_products * render)),
          mixed_cost = py_round 2 (fl (fl (of_nat n_products * http) + fl (of_nat required * extra)))\<rparr>)"

end
