(* ===== verification/ScrapeFiles.thy ===== *)
theory ScrapeFiles
  imports ScrapeGen
begin

text \<open>
  The files of 13-scraping-at-scale/generate.py: the catalog, the target specification and the ground
  truth as JSON, and \<open>generate\<close>, whose result is the list of files it writes.  What it prints is left
  out.  The parameter \<open>fr\<close> is the \<open>repr\<close> of a float.
\<close>

definition jstrs :: "pystr list \<Rightarrow> json" where
  "jstrs xs = JList (map JStr xs)"

definition jints :: "int list \<Rightarrow> json" where
  "jints xs = JList (map JInt xs)"

section \<open>The catalog\<close>

definition product_row :: "(rat \<Rightarrow> pystr) \<Rightarrow> corpus \<Rightarrow> nat \<Rightarrow> (pystr \<times> json) list" where
  "product_row fr p i =
     [(u ''id'', JInt (p_id p ! i)),
      (u ''slug'', JStr (p_slug p ! i)),
      (u ''url'', JStr (p_url p ! i)),
      (u ''title'', JStr (p_title p ! i)),
      (u ''category'', JStr (p_category p ! i)),
      (u ''brand'', JStr (p_brand p ! i)),
      (u ''price'', JFloat (fr (p_price p ! i))),
      (u ''currency'', JStr (p_currency p ! i)),
      (u ''in_stock'', JBool (p_in_stock p ! i)),
      (u ''seller_id'', JInt (p_seller_id p ! i)),
      (u ''seller_name'', JStr (p_seller_name p ! i)),
      (u ''review_count'', JInt (int (p_review_count p ! i))),
      (u ''rating'', case p_rating p ! i of None \<Rightarrow> JNull | Some r \<Rightarrow> JFloat (fr r)),
      (u ''shipping_free'', JBool (p_shipping_free p ! i)),
      (u ''shipping_eta_days'', JInt (p_shipping_eta_days p ! i)),
      (u ''shipping_carrier'', JStr (p_shipping_carrier p ! i)),
      (u ''description'', JStr (p_description p ! i))]"

definition catalog_dict :: "(rat \<Rightarrow> pystr) \<Rightarrow> rat \<Rightarrow> (int \<times> pystr) list \<Rightarrow> sellers \<Rightarrow> corpus \<Rightarrow> json" where
  "catalog_dict fr scale categories s p =
     (let n = length (p_id p) in
      JObj [(u ''seed'', JInt corpus_seed), (u ''scale'', JFloat (fr scale)),
            (u ''n_products'', JInt (int n)), (u ''n_sellers'', JInt (int (length (seller_ids s)))),
            (u ''categories'', JList (map (\<lambda>(i, name). JObj [(u ''id'', JInt i), (u ''name'', JStr name)]) categories)),
            (u ''sellers'', JList (map (\<lambda>i. JObj [(u ''id'', JInt (seller_ids s ! i)), (u ''name'', JStr (seller_names s ! i))])
                                   [0..<length (seller_ids s)])),
            (u ''products'', JList (map (\<lambda>i. JObj (product_row fr p i)) [0..<n]))])"

section \<open>The target specification\<close>

definition markup_version :: "string \<Rightarrow> pystr \<Rightarrow> json" where
  "markup_version name encoding = JObj [(u ''name'', JStr (u name)), (u ''encoding'', JStr encoding)]"

definition build_markup_versions :: json where
  "build_markup_versions =
     JObj [(u ''count'', JInt MARKUP_VERSION_COUNT),
           (u ''default_assignment'', JStr (u ''1 + (product_id % count)'')),
           (u ''versions'', JObj [
             (u ''1'', markup_version ''classic-div''
                (u ''plain div/span structure with descriptive class names '' @
                 u ''(.product-title, .price, .stock, .reviews); price as visible text '' @
                 [39] @ u ''CURRENCY AMOUNT'' @ [39] @ u ''.'')),
             (u ''2'', markup_version ''microdata''
                (u ''schema.org Product microdata (itemprop attributes); '' @
                 u ''price duplicated as a <meta itemprop=price content=...> '' @
                 u ''AND a separate visible '' @ [39] @ u ''.display-price'' @ [39] @ u '' span in a '' @
                 u ''DIFFERENT order (amount before currency).'')),
             (u ''3'', markup_version ''jsonld''
                (u ''price and currency exist ONLY inside a '' @
                 u ''<script type=application/ld+json> schema.org Product '' @
                 u ''block -- no visible price text anywhere else on the page.'')),
             (u ''4'', markup_version ''data-island''
                (u ''minimal semantic HTML shell; price/currency/'' @
                 u ''in_stock/seller live only inside '' @
                 u ''<script id=__DATA__ type=application/json>, '' @
                 u ''mimicking a client-side-rendered SPA shell.''))])]"

definition cost_dict :: "(rat \<Rightarrow> pystr) \<Rightarrow> cost_model \<Rightarrow> json" where
  "cost_dict fr c =
     JObj [(u ''http_cost'', JFloat (fr (http_cost c))),
           (u ''api_extra_cost'', JFloat (fr (api_extra_cost c))),
           (u ''render_cost'', JFloat (fr (render_cost c))),
           (u ''completeness_target'', JFloat (fr (completeness_target c))),
           (u ''requires_detail_count'', JInt (int (requires_detail_count c))),
           (u ''requires_detail_fraction'', JFloat (fr (requires_detail_fraction c))),
           (u ''all_http_completeness'', JFloat (fr (all_http_completeness c))),
           (u ''all_render_completeness'', JFloat (fr (all_render_completeness c))),
           (u ''mixed_completeness'', JFloat (fr (mixed_completeness c))),
           (u ''all_http_cost'', JFloat (fr (all_http_cost c))),
           (u ''all_render_cost'', JFloat (fr (all_render_cost c))),
           (u ''mixed_cost'', JFloat (fr (mixed_cost c)))]"

fun change_json :: "(rat \<Rightarrow> pystr) \<Rightarrow> change \<Rightarrow> json" where
  "change_json fr (NewPrice x) = JObj [(u ''price'', JFloat (fr x))]"
| "change_json fr (NewStock b) = JObj [(u ''in_stock'', JBool b)]"

definition headers_note :: pystr where
  "headers_note =
     u ''Missing/non-matching User-Agent OR a missing/empty '' @
     u ''Accept-Language header -> 403 on every non-debug route. '' @
     u ''This is the header/behavioral '' @ [39] @ u ''client fingerprint'' @ [39] @ u '' '' @
     u ''defense; real TLS/JA3 fingerprinting is out of scope '' @
     u ''(see design.md).''"

definition rate_note :: pystr where
  "rate_note =
     u ''Token bucket per X-Client-Id (or a per-connection '' @
     u ''fallback id if the header is absent). A request without '' @
     u ''a token gets 429 and counts as one violation. '' @
     u ''ban_after_violations is CUMULATIVE 429 count, not a '' @
     u ''rolling window -- once a client crosses it, banned=True '' @
     u ''and every further request gets 403 (until /__debug/reset). '' @
     u ''Tuned so a BOUNDED-concurrency polite crawler (~8-16 '' @
     u ''concurrent, or a modest fixed delay) sustains ~50-80 '' @
     u ''req/s with ~0 violations -- a full 4000-product sweep '' @
     u ''in roughly a minute -- while an UNBOUNDED-concurrency '' @
     u ''burst (asyncio.gather over hundreds of ids at once) '' @
     u ''instantly exhausts the capacity=25 burst budget and '' @
     u ''crosses the ban threshold. The BURST/CONCURRENCY gate '' @
     u ''(capacity), not the sustained rate, is what is meant to '' @
     u ''catch a naive scraper.''"

definition honeypot_note :: pystr where
  "honeypot_note =
     u ''Honeypot product ids render a convincing decoy detail '' @
     u ''page but are NEVER linked from a real product page -- '' @
     u ''only from hidden markup in /catalog listings (display:none '' @
     u ''/ class=hp / rel=nofollow). Any GET on a honeypot product '' @
     u ''id, or any /trap/* path, flags honeypot_hits and bans '' @
     u ''immediately (no violation threshold).''"

definition detail_rule :: pystr where
  "detail_rule =
     u ''rating/shipping_info are REQUIRED fields for '' @
     u ''completeness only when review_count > 0; '' @
     u ''review_count itself is HTML-visible.''"

definition nonce_note :: pystr where
  "nonce_note =
     u ''A fresh random value on EVERY response, html or json, '' @
     u ''unrelated to `day`/`v`. Unchanged pages must be '' @
     u ''byte-stable across requests EXCEPT this field -- '' @
     u ''fingerprints (task 03) must exclude it.''"

definition chaos_note :: pystr where
  "chaos_note =
     u ''When enabled, markup version cycles by wall-clock '' @
     u ''instead of the steady per-product default. ?v= always '' @
     u ''wins over both steady default and chaos.''"

definition js_only_fields :: json where
  "js_only_fields = jstrs [u ''rating'', u ''shipping_info'']"

text \<open>\<open>sorted(bad_map.items())\<close>: the pairs by id, and by defect for equal ids, which a dict has not.\<close>

definition bad_by_id :: "(int \<times> pystr) list \<Rightarrow> (pystr \<times> json) list" where
  "bad_by_id bad = map (\<lambda>(k, v). (int_str k, JStr v)) (sort bad)"

definition days_dict :: "(rat \<Rightarrow> pystr) \<Rightarrow> (nat \<times> (int \<times> change) list) list \<Rightarrow> (pystr \<times> json) list" where
  "days_dict fr days =
     map (\<lambda>(d, changes). (int_str (int d), JObj (map (\<lambda>(pid, v). (int_str pid, change_json fr v)) changes))) days"

definition target_spec_dict ::
  "(rat \<Rightarrow> pystr) \<Rightarrow> rat \<Rightarrow> (int \<times> pystr) list \<Rightarrow> honeypot_spec \<Rightarrow> (nat \<times> (int \<times> change) list) list \<Rightarrow> cost_model \<Rightarrow> json" where
  "target_spec_dict fr scale bad hp days cost =
     JObj [(u ''seed'', JInt corpus_seed), (u ''scale'', JFloat (fr scale)),
       (u ''required_headers'', JObj [
          (u ''user_agent_substring'', JStr (u ''Mozilla/5.0'')),
          (u ''accept_language_required'', JBool True),
          (u ''note'', JStr headers_note)]),
       (u ''rate_limit'', JObj [
          (u ''capacity'', JInt 25),
          (u ''refill_per_sec'', JFloat (fr 50)),
          (u ''ban_after_violations'', JInt 25),
          (u ''note'', JStr rate_note)]),
       (u ''honeypots'', JObj [
          (u ''product_ids'', jints (hp_ids hp)),
          (u ''trap_tokens'', jstrs (hp_tokens hp)),
          (u ''trap_path_prefix'', JStr (u ''/trap/'')),
          (u ''note'', JStr honeypot_note)]),
       (u ''markup_versions'', build_markup_versions),
       (u ''js_only_fields'', js_only_fields),
       (u ''requires_detail_rule'', JStr detail_rule),
       (u ''bad_records'', JObj [
          (u ''fraction'', JFloat (fr BAD_FRACTION)),
          (u ''total'', JInt (int (length bad))),
          (u ''defect_types'', jstrs DEFECT_TYPES),
          (u ''by_id'', JObj (bad_by_id bad))]),
       (u ''change_days'', JObj [
          (u ''n_days'', JInt (int N_DAYS)),
          (u ''change_fraction'', JFloat (fr CHANGE_FRACTION)),
          (u ''days'', JObj (days_dict fr days))]),
       (u ''cost_model'', cost_dict fr cost),
       (u ''nonce'', JObj [
          (u ''html_tag'', JStr (u ''<meta name='' @ [34] @ u ''x-nonce'' @ [34] @ u '' content='' @ [34] @ u ''...'' @ [34] @ u ''>'')),
          (u ''json_key'', JStr (u ''_nonce'')),
          (u ''note'', JStr nonce_note)]),
       (u ''chaos'', JObj [
          (u ''enabled_via'', JStr (u ''?chaos=1 query param (per-request) or TARGET_CHAOS=1 env (server-wide)'')),
          (u ''period_sec'', JInt 30),
          (u ''note'', JStr chaos_note)])]"

section \<open>The ground truth\<close>

definition by_defect :: "(int \<times> pystr) list \<Rightarrow> (pystr \<times> int list) list" where
  "by_defect bad =
     map (\<lambda>(d, ids). (d, sort ids))
       (foldl (\<lambda>m (pid, defect). dict_append defect [pid] m) (map (\<lambda>d. (d, [])) DEFECT_TYPES) bad)"

definition ground_truth ::
  "(rat \<Rightarrow> pystr) \<Rightarrow> 'g numpy \<Rightarrow> rat \<Rightarrow> nat \<Rightarrow> (int \<times> pystr) list \<Rightarrow> corpus \<Rightarrow> (int \<times> pystr) list \<Rightarrow> honeypot_spec \<Rightarrow>
   (nat \<times> (int \<times> change) list) list \<Rightarrow> cost_model \<Rightarrow> json" where
  "ground_truth fr np scale n_products categories p bad hp days cost =
     JObj [(u ''seed'', JInt corpus_seed), (u ''scale'', JFloat (fr scale)),
       (u ''n_products'', JInt (int n_products)),
       (u ''price_sum'', JFloat (fr (py_round 2 (np_sum np (p_price p))))),
       (u ''per_category_counts'',
          JObj (dict_of (map (\<lambda>(_, name). (name, JInt (int (length (filter (\<lambda>x. x = name) (p_category p)))))) categories))),
       (u ''js_only_fields'', js_only_fields),
       (u ''honeypot_ids'', jints (hp_ids hp)),
       (u ''trap_tokens'', jstrs (hp_tokens hp)),
       (u ''bad_records'', JObj [
          (u ''total'', JInt (int (length bad))),
          (u ''by_defect'', JObj (map (\<lambda>(d, ids). (d, jints ids)) (by_defect bad)))]),
       (u ''markup_version_count'', JInt MARKUP_VERSION_COUNT),
       (u ''change_days'', JObj (map (\<lambda>(d, changes). (int_str (int d), jints (sort (map fst changes)))) days)),
       (u ''cost_model'', cost_dict fr cost)]"

section \<open>Generation\<close>

datatype artifact = GroundTruthFile | CatalogFile | TargetSpecFile

text \<open>\<open>max(least, int(round(base * scale)))\<close>.\<close>

definition scaled_count :: "int \<Rightarrow> rat \<Rightarrow> rat \<Rightarrow> int" where
  "scaled_count least base scale = max least (round_half_even (fl (base * scale)))"

text \<open>All that is built for a scale.\<close>

record scrape_data =
  d_sellers :: sellers
  d_products :: corpus
  d_bad :: "(int \<times> pystr) list"
  d_honeypots :: honeypot_spec
  d_days :: "(nat \<times> (int \<times> change) list) list"
  d_cost :: cost_model

definition build_all :: "'g numpy \<Rightarrow> rat \<Rightarrow> scrape_data" where
  "build_all np scale =
     (let n_products = scaled_count 50 N_PRODUCTS_BASE scale;
          n_sellers = scaled_count 5 N_SELLERS_BASE scale;
          honeypot_count = scaled_count 5 HONEYPOT_COUNT_BASE scale;
          categories = build_categories;
          s = build_sellers np (corpus_seed + 1) n_sellers;
          p = build_products np (corpus_seed + 2) n_products (nat n_sellers) (seller_names s) categories
      in \<lparr>d_sellers = s, d_products = p,
          d_bad = build_bad_records np (corpus_seed + 3) (p_id p) BAD_FRACTION None,
          d_honeypots = build_honeypots np (corpus_seed + 4) n_products honeypot_count TRAP_TOKENS_COUNT,
          d_days = build_change_days np (corpus_seed + 5) (p_id p) (p_price p) (p_in_stock p) N_DAYS CHANGE_FRACTION,
          d_cost = build_cost_model (nat n_products) (p_review_count p) HTTP_COST API_EXTRA_COST COMPLETENESS_TARGET\<rparr>)"

definition generate :: "(rat \<Rightarrow> pystr) \<Rightarrow> 'g numpy \<Rightarrow> rat \<Rightarrow> pystr \<Rightarrow> (artifact \<times> json) list" where
  "generate fr np scale ground_truth_only =
     (let d = build_all np scale; categories = build_categories;
          n_products = nat (scaled_count 50 N_PRODUCTS_BASE scale);
          gt = ground_truth fr np scale n_products categories (d_products d) (d_bad d) (d_honeypots d) (d_days d) (d_cost d);
          only = ground_truth_only \<notin> {[], u ''0'', u ''false''}
      in (GroundTruthFile, gt) #
         (if only then [] else
           [(CatalogFile, catalog_dict fr scale categories (d_sellers d) (d_products d)),
            (TargetSpecFile, target_spec_dict fr scale (d_bad d) (d_honeypots d) (d_days d) (d_cost d))]))"

end
