(* ===== verification/ScrapeCorpus.thy ===== *)
theory ScrapeCorpus
  imports ScrapeFiles
begin

text \<open>
  What every run of the generator of module 13 produces, whatever its random generator draws: the
  invariants of the corpus, the split of the injected defects, the sample of changed products of a
  day, and the running state that the recorded changes stand for.
\<close>

section \<open>Dicts\<close>

lemma dict_of_snoc: "dict_of (kvs @ [(k, v)]) = alist_set k v (dict_of kvs)"
  by (simp add: dict_of_def)

lemma map_of_dict_of: "map_of (dict_of kvs) k = map_of (rev kvs) k"
proof (induction kvs rule: rev_induct)
  case Nil
  then show ?case by (simp add: dict_of_def)
next
  case (snoc kv kvs)
  then show ?case by (cases kv) (simp add: dict_of_snoc map_of_alist_set)
qed

lemma dict_of_distinct: "distinct (map fst kvs) \<Longrightarrow> dict_of kvs = kvs"
proof (induction kvs rule: rev_induct)
  case Nil
  then show ?case by (simp add: dict_of_def)
next
  case (snoc kv kvs)
  have d: "distinct (map fst kvs)" "fst kv \<notin> fst ` set kvs" using snoc.prems by simp_all
  show ?case
    using alist_set_new [OF d(2), of "snd kv"] snoc.IH [OF d(1)]
      dict_of_snoc [of kvs "fst kv" "snd kv"] by simp
qed

lemma get_or_positions:
  assumes "distinct ids" "i < length ids"
  shows "get_or 0 (positions_by_id ids) (ids ! i) = i"
proof -
  have d: "distinct (map fst (zip ids [0..<length ids]))" using assms(1) by simp
  have m: "(ids ! i, i) \<in> set (zip ids [0..<length ids])"
    using assms(2) by (auto simp: set_zip)
  show ?thesis
    using map_of_eq_Some_iff [OF d, of "ids ! i" i] m
    by (simp add: positions_by_id_def dict_of_distinct [OF d] get_or_def)
qed

section \<open>Sizes\<close>

lemma portion_le:
  assumes "1 \<le> n" "n < 2 ^ 53" "fraction \<le> 1"
  shows "portion fraction n \<le> n"
proof -
  have "fraction * of_nat n \<le> of_int (int n)" using assms(3) mult_right_mono [of fraction 1 "of_nat n"] by simp
  then have "fl (fraction * of_nat n) \<le> of_int (int n)"
    using fl_mono [of "fraction * of_nat n" "of_int (int n)"] fl_of_int [of "int n"] assms(2) by simp
  then have "round_half_even (fl (fraction * of_nat n)) \<le> int n"
    using round_half_even_mono round_half_even_of_int by metis
  then show ?thesis using assms(1) by (simp add: portion_def)
qed

lemma fl_fraction: "0 \<le> k \<Longrightarrow> k \<le> m \<Longrightarrow> 0 < m \<Longrightarrow> fl (k / m) \<le> 1"
  using fl_mono [of "k / m" 1] by simp

lemma scaled_count_bounds:
  assumes "0 \<le> scale" "scale \<le> 1000000" "0 \<le> base" "base \<le> 4000" "0 \<le> least" "least < 2 ^ 53"
  shows "least \<le> scaled_count least base scale" "scaled_count least base scale < 2 ^ 53"
proof -
  have "base * scale \<le> 4000 * 1000000" by (intro mult_mono) (use assms in simp_all)
  then have "fl (base * scale) \<le> of_int 4000000000" using fl_mono [of "base * scale" 4000000000] by simp
  then have "round_half_even (fl (base * scale)) \<le> 4000000000"
    using round_half_even_mono round_half_even_of_int by metis
  then show "scaled_count least base scale < 2 ^ 53" using assms(6) by (simp add: scaled_count_def)
  show "least \<le> scaled_count least base scale" by (simp add: scaled_count_def)
qed

section \<open>Titles and slugs\<close>

definition title_of :: "pystr \<Rightarrow> pystr \<Rightarrow> bool" where
  "title_of cat t \<longleftrightarrow> (\<exists>a \<in> set ADJECTIVES. \<exists>m \<in> set (get_or [] NOUNS cat). t = a @ u '' '' @ m)"

lemma nouns_nonempty: "cat \<in> set CATEGORIES \<Longrightarrow> get_or [] NOUNS cat \<noteq> []"
  unfolding CATEGORIES_def NOUNS_def by (auto simp: get_or_def)

lemma fold_set_nth:
  assumes "distinct (map fst kvs)" "i < length ts"
  shows "foldl (\<lambda>ts (k, v). ts[k := f k v]) ts kvs ! i =
    (case map_of kvs i of None \<Rightarrow> ts ! i | Some v \<Rightarrow> f i v)"
  using assms
proof (induction kvs arbitrary: ts)
  case Nil
  then show ?case by simp
next
  case (Cons kv kvs)
  obtain k v where kv: "kv = (k, v)" by force
  have "map_of kvs k = None" using Cons.prems(1) kv by (simp add: map_of_eq_None_iff)
  then show ?case using Cons by (auto simp: kv nth_list_update split: option.split)
qed

lemma fold_set_length: "length (foldl (\<lambda>ts (k, v). ts[k := f k v]) ts kvs) = length ts"
  by (induction kvs arbitrary: ts) auto

context numpy_rng
begin

lemma draw_titles_ok:
  assumes "length adj = length cat_pos" "\<forall>a \<in> set adj. 0 \<le> a \<and> a < int (length ADJECTIVES)"
    and "\<forall>(ci, cat) \<in> set cats. cat = CATEGORIES ! ci \<and> ci < length CATEGORIES" "length titles = length cat_pos"
  shows "pred_state (\<lambda>ts. length ts = length cat_pos \<and>
    (\<forall>i < length cat_pos. if cat_pos ! i \<in> fst ` set cats then title_of (CATEGORIES ! (cat_pos ! i)) (ts ! i)
       else ts ! i = titles ! i)) (draw_titles np cat_pos adj cats titles)"
  using assms(3,4)
proof (induction cats arbitrary: titles)
  case Nil
  then show ?case by simp
next
  case (Cons c cats)
  obtain ci cat where c: "c = (ci, cat)" by force
  have cat: "cat = CATEGORIES ! ci" "ci < length CATEGORIES" using Cons.prems(1) c by auto
  define nouns where "nouns = get_or [] NOUNS cat"
  have ne: "nouns \<noteq> []" unfolding nouns_def by (rule nouns_nonempty) (simp add: cat)
  define idx where "idx = positions cat_pos ci"
  have tl: "\<forall>(ci, cat) \<in> set cats. cat = CATEGORIES ! ci \<and> ci < length CATEGORIES" using Cons.prems(1) by simp
  show ?case
  proof (cases "idx = []")
    case True
    then have "cat_pos ! i \<noteq> ci" if "i < length cat_pos" for i
      using that by (auto simp: idx_def positions_def filter_empty_conv)
    then show ?thesis
      using Cons.IH [OF tl Cons.prems(2)] True
      by (auto simp: c idx_def nouns_def Let_def elim!: pred_weaken)
  next
    case False
    define upd where "upd ks = foldl (\<lambda>ts (pi, k). ts[pi := ADJECTIVES ! nat (adj ! pi) @ u '' '' @ nouns ! nat k])
        titles (zip idx ks)" for ks
    have step: "pred_state (\<lambda>ts. length ts = length cat_pos \<and>
        (\<forall>i < length cat_pos. if cat_pos ! i \<in> fst ` set (c # cats) then title_of (CATEGORIES ! (cat_pos ! i)) (ts ! i)
           else ts ! i = titles ! i)) (draw_titles np cat_pos adj cats (upd ks))"
      if ks: "length ks = length idx \<and> (\<forall>k \<in> set ks. 0 \<le> k \<and> k < int (length nouns))" for ks
    proof -
      have len: "length (upd ks) = length cat_pos" by (simp add: upd_def fold_set_length Cons.prems(2))
      have d: "distinct (map fst (zip idx ks))" using ks by (simp add: idx_def positions_def)
      have u1: "upd ks ! i = titles ! i" if "i < length cat_pos" "cat_pos ! i \<noteq> ci" for i
      proof -
        have "map_of (zip idx ks) i = None"
          using that ks by (auto simp: map_of_zip_is_None idx_def positions_def)
        then show ?thesis using that(1) Cons.prems(2) by (simp add: upd_def fold_set_nth [OF d])
      qed
      have u2: "title_of (CATEGORIES ! ci) (upd ks ! i)" if i: "i < length cat_pos" "cat_pos ! i = ci" for i
      proof -
        have "i \<in> set idx" using i by (simp add: idx_def positions_def)
        then obtain k where k: "map_of (zip idx ks) i = Some k" using ks by (metis map_of_zip_is_Some)
        then have "k \<in> set ks" by (meson map_of_SomeD set_zip_rightD)
        then have "nouns ! nat k \<in> set nouns" using ks by (metis nat_less_iff nth_mem)
        moreover have "ADJECTIVES ! nat (adj ! i) \<in> set ADJECTIVES"
          using assms(1,2) i(1) by (metis nat_less_iff nth_mem)
        ultimately show ?thesis
          unfolding title_of_def using k i(1) Cons.prems(2)
          by (auto simp: upd_def fold_set_nth [OF d] nouns_def cat(1))
      qed
      show ?thesis
      proof (rule pred_weaken [OF Cons.IH [OF tl len]], intro conjI allI impI)
        fix ts i
        assume ts: "length ts = length cat_pos \<and> (\<forall>i < length cat_pos. if cat_pos ! i \<in> fst ` set cats
            then title_of (CATEGORIES ! (cat_pos ! i)) (ts ! i) else ts ! i = upd ks ! i)"
        show "length ts = length cat_pos" using ts by simp
        assume i: "i < length cat_pos"
        consider "cat_pos ! i \<in> fst ` set cats" | "cat_pos ! i \<notin> fst ` set cats" "cat_pos ! i = ci"
          | "cat_pos ! i \<notin> fst ` set (c # cats)" by (auto simp: c)
        then show "if cat_pos ! i \<in> fst ` set (c # cats) then title_of (CATEGORIES ! (cat_pos ! i)) (ts ! i)
            else ts ! i = titles ! i"
          by cases (use ts i u1 [OF i] u2 [OF i] in \<open>auto simp: c\<close>)
      qed
    qed
    show ?thesis
      unfolding c draw_titles.simps Let_def idx_def [symmetric] nouns_def [symmetric] if_not_P [OF False]
      by (rule pred_bind [OF integers]) (use ne step in \<open>auto simp: draws_def upd_def c\<close>)
  qed
qed

end

lemma after_dash: "45 \<notin> set s \<Longrightarrow> takeWhile (\<lambda>c. c \<noteq> 45) (rev (a @ [45] @ s)) = rev s" for a s :: pystr
  by (auto simp: takeWhile_append)

lemma dash_end: "45 \<notin> set s \<Longrightarrow> 45 \<notin> set t \<Longrightarrow> a @ [45] @ s = b @ [45] @ t \<Longrightarrow> s = t"
  for a b s t :: pystr
  using after_dash [of s a] after_dash [of t b] by (metis rev_rev_ident)

lemma nat_str_eq: "nat_str m = nat_str n \<longleftrightarrow> m = n"
proof
  assume e: "nat_str m = nat_str n"
  have "digits_value (nat_str k) = Some k" for k
    unfolding nat_str_def using digits_value_chars [of "digits_of k"] digits_of_nonempty digits_of_less
    by (simp add: num_of_digits_of)
  then show "m = n" using e by (metis option.inject)
qed simp

lemma no_dash: "0 \<le> i \<Longrightarrow> 45 \<notin> set (int_str i)"
  using nat_str_chars by (fastforce simp: int_str_def)

section \<open>The corpus\<close>

lemma np_round_mono: "x \<le> y \<Longrightarrow> np_round d x \<le> np_round d y"
  unfolding np_round_def
  by (intro fl_mono divide_right_mono) (simp_all add: fl_mono round_half_even_mono mult_right_mono)

lemma draw_rating_ok:
  "draw_rating k z = None \<longleftrightarrow> k = 0"
  "draw_rating k z = Some r \<Longrightarrow> 1 \<le> r \<and> r \<le> 5"
proof -
  show "draw_rating k z = None \<longleftrightarrow> k = 0" by (simp add: draw_rating_def)
  have "np_round 1 (of_int k) = of_int k" if "\<bar>k\<bar> < 100" for k
  proof -
    have "fl (of_int k * 10) = of_int (k * 10)" using fl_of_int [of "k * 10"] that by simp
    then show ?thesis using that by (simp add: np_round_def round_half_even_of_int del: of_int_mult) (simp)
  qed
  from this [of 1] this [of 5] have e: "np_round 1 1 = 1" "np_round 1 5 = 5" by simp_all
  assume "draw_rating k z = Some r"
  then obtain x where x: "r = np_round 1 x" "1 \<le> x" "x \<le> 5"
    by (auto simp: draw_rating_def split: if_splits)
  then show "1 \<le> r \<and> r \<le> 5" using np_round_mono [of 1 x 1] np_round_mono [of x 5 1] unfolding e by simp
qed

definition product_ok :: "nat \<Rightarrow> pystr list \<Rightarrow> corpus \<Rightarrow> nat \<Rightarrow> bool" where
  "product_ok n_sellers names p i \<longleftrightarrow>
     1 / 2 \<le> p_price p ! i \<and> p_currency p ! i \<in> set CURRENCIES \<and>
     p_category p ! i \<in> set CATEGORIES \<and> title_of (p_category p ! i) (p_title p ! i) \<and>
     (p_rating p ! i = None \<longleftrightarrow> p_review_count p ! i = 0) \<and>
     (\<forall>r. p_rating p ! i = Some r \<longrightarrow> 1 \<le> r \<and> r \<le> 5) \<and>
     1 \<le> p_seller_id p ! i \<and> p_seller_id p ! i \<le> int n_sellers \<and>
     p_seller_name p ! i = names ! nat (p_seller_id p ! i - 1)"

definition corpus_ok :: "nat \<Rightarrow> nat \<Rightarrow> pystr list \<Rightarrow> corpus \<Rightarrow> bool" where
  "corpus_ok n n_sellers names p \<longleftrightarrow>
     p_id p = map int [1..<n + 1] \<and> distinct (p_slug p) \<and> length (p_price p) = n \<and>
     length (p_in_stock p) = n \<and> length (p_review_count p) = n \<and>
     p_url p = map (\<lambda>i. u ''/product/'' @ int_str i) (p_id p) \<and>
     (\<forall>i < n. product_ok n_sellers names p i)"

lemma slugs_distinct: "distinct (map (\<lambda>i. f i @ [45] @ int_str (map int [1..<n + 1] ! i)) [0..<n])"
proof -
  have "i = j" if i: "i < n" "j < n"
    and e: "f i @ [45] @ int_str (map int [1..<n + 1] ! i) = f j @ [45] @ int_str (map int [1..<n + 1] ! j)" for i j
  proof -
    have n: "map int [1..<n + 1] ! k = int (Suc k)" if "k < n" for k using that by (simp del: upt_Suc)
    have "int_str (int (Suc i)) = int_str (int (Suc j))"
      using dash_end [OF no_dash no_dash e [unfolded n [OF i(1)] n [OF i(2)]]] by simp
    then show ?thesis by (simp add: int_str_def nat_str_eq)
  qed
  then show ?thesis by (auto simp: distinct_map inj_on_def)
qed

context numpy_rng
begin

lemma corpus_of_draws:
  assumes "length cat = n" "\<forall>c \<in> set cat. c < length CATEGORIES" "length sp = n" "\<forall>x \<in> set sp. x < ns"
    "length cur = n" "\<forall>c \<in> set cur. c < length CURRENCIES" "length rc = n"
    "length ts = n" "\<forall>i < n. if cat ! i < length CATEGORIES then title_of (CATEGORIES ! (cat ! i)) (ts ! i) else ts ! i = replicate n [] ! i"
    "p_id p = map int [1..<n + 1]"
    "p_slug p = each n (\<lambda>i. slugify (ts ! i) 40 @ [45] @ int_str (map int [1..<n + 1] ! i))"
    "p_url p = map (\<lambda>i. u ''/product/'' @ int_str i) (map int [1..<n + 1])" "p_title p = ts"
    "p_category p = each n (\<lambda>i. CATEGORIES ! (cat ! i))" "p_price p = each n (\<lambda>i. draw_price np (cat ! i) (z ! i))"
    "p_currency p = each n (\<lambda>i. CURRENCIES ! (cur ! i))" "length (p_in_stock p) = n"
    "p_seller_id p = each n (\<lambda>i. int (sp ! i) + 1)" "p_seller_name p = each n (\<lambda>i. names ! (sp ! i))"
    "p_review_count p = rc" "p_rating p = each n (\<lambda>i. draw_rating (rc ! i) (rz ! i))"
  shows "corpus_ok n ns names p"
proof -
  have "product_ok ns names p i" if i: "i < n" for i
  proof -
    have m: "cat ! i < length CATEGORIES" "sp ! i < ns" "cur ! i < length CURRENCIES"
      using assms(1-6) i by auto
    have "1 / 2 \<le> draw_price np (cat ! i) (z ! i)"
      unfolding draw_price_def Let_def by (split prod.split, intro allI impI, rule max.cobounded1)
    then show ?thesis
      using i m assms(9) draw_rating_ok [of "rc ! i" "rz ! i"]
      by (simp add: product_ok_def assms(10-) Suc_leI)
  qed
  then show ?thesis
    using assms(7) slugs_distinct [of "\<lambda>i. slugify (ts ! i) 40" n] by (simp add: corpus_ok_def assms(10-) del: upt_Suc)
qed

lemma build_products_ok:
  assumes "1 \<le> n0" "0 < ns"
  shows "corpus_ok (nat n0) ns names (build_products np seed n0 ns names build_categories)"
proof -
  define n where "n = nat n0"
  have n: "nat (max 1 n0) = n" using assms(1) by (simp add: n_def)
  have nc: "length build_categories = length CATEGORIES" by (simp add: build_categories_def)
  have pos: "0 < length CATEGORIES" "0 < length CURRENCIES" "0 < length SHIPPING_ETA_CHOICES"
    "0 < int (length CARRIERS)" "0 < int (length BRANDS)" "0 < int (length ADJECTIVES)"
    "0 < int (length DESCRIPTION_FILLERS)"
    by (simp_all add: CATEGORIES_def CURRENCIES_def SHIPPING_ETA_CHOICES_def CARRIERS_def BRANDS_def
        ADJECTIVES_def DESCRIPTION_FILLERS_def)
  have cats: "\<forall>(ci, cat) \<in> set (zip [0..<length CATEGORIES] CATEGORIES). cat = CATEGORIES ! ci \<and> ci < length CATEGORIES"
    by (auto simp: set_zip)
  have all: "fst ` set (zip [0..<length CATEGORIES] CATEGORIES) = {..<length CATEGORIES}"
    by (simp flip: set_map) auto
  show ?thesis
    unfolding build_products_def Let_def n nc n_def [symmetric]
    apply (rule pred_seeded)
    apply (rule pred_bind [OF choice [OF pos(1)]])
    apply (rule pred_bind [OF pred_any])
    apply (rule pred_bind [OF choice [OF assms(2)]])
    apply (rule pred_bind [OF pred_any])
    apply (rule pred_bind [OF choice [OF pos(2)]])
    apply (rule pred_bind [OF pred_any])
    apply (rule pred_bind [OF poisson])
    apply (rule pred_bind [OF pred_any])
    apply (rule pred_bind [OF pred_any])
    apply (rule pred_bind [OF pred_any])
    apply (rule pred_bind [OF pred_any])
    apply (rule pred_bind [OF pred_any])
    apply (rule pred_bind [OF integers [OF pos(6)]])
    apply (rule pred_bind [OF pred_any])
    subgoal for cat perm sp z cur stock rc rz free eta car br adj fil
      apply (rule pred_bind [OF draw_titles_ok [of adj cat "zip [0..<length CATEGORIES] CATEGORIES" "replicate n []"]])
          apply (simp_all only: draws_def option.simps length_replicate)
        apply (elim conjE, assumption)
       apply (rule cats)
      subgoal for ts
        unfolding pred_return all
        by (rule corpus_of_draws [of cat n sp ns cur rc ts _ z names rz]) (auto simp del: upt_Suc)
      done
    done
qed

end

text \<open>
  C20. A valid corpus.  Whatever the generator draws, the corpus of any scale up to a million has the
  ids 1 to n without gaps, pairwise different slugs and the product page of each id as its address;
  every price is at least 0.50, every category, currency and seller is a listed one, the title is an
  adjective and a noun of the product's category, and a rating, between 1 and 5, is present exactly
  when there are reviews.
\<close>

theorem corpus_valid:
  assumes "numpy_rng np" "0 \<le> scale" "scale \<le> 1000000"
  shows "corpus_ok (nat (scaled_count 50 N_PRODUCTS_BASE scale)) (nat (scaled_count 5 N_SELLERS_BASE scale))
    (seller_names (d_sellers (build_all np scale))) (d_products (build_all np scale))"
proof -
  have "50 \<le> scaled_count 50 N_PRODUCTS_BASE scale" "5 \<le> scaled_count 5 N_SELLERS_BASE scale"
    by (simp_all add: scaled_count_def)
  then show ?thesis
    unfolding build_all_def Let_def scrape_data.simps
    by (intro numpy_rng.build_products_ok [OF assms(1)]) simp_all
qed

lemma full_scale: "scaled_count 50 N_PRODUCTS_BASE 1 = 4000" "scaled_count 5 N_SELLERS_BASE 1 = 140"
  using round_half_even_of_int [of 4000] round_half_even_of_int [of 140]
  by (simp_all add: scaled_count_def N_PRODUCTS_BASE_def N_SELLERS_BASE_def)

lemma corpus_valid_witness:
  "corpus_ok 4000 140 (seller_names (d_sellers (build_all counter_rng 1))) (d_products (build_all counter_rng 1))"
  using corpus_valid [OF counter.numpy_rng_axioms, of 1] by (simp add: full_scale)

section \<open>The defects\<close>

lemma bucket_pairs:
  assumes "length types = length buckets"
  shows "map fst (concat (map (\<lambda>(d, ids). map (\<lambda>pid. (pid, d)) ids) (zip types buckets))) = concat buckets"
  using assms by (induction types buckets rule: list_induct2) (simp_all add: comp_def)

lemma bucket_filter:
  assumes "length types = length buckets" "distinct types" "j < length types"
  shows "filter (\<lambda>(pid, d). d = types ! j)
      (concat (map (\<lambda>(d, ids). map (\<lambda>pid. (pid, d)) ids) (zip types buckets))) = map (\<lambda>pid. (pid, types ! j)) (buckets ! j)"
  using assms
proof (induction types buckets arbitrary: j rule: list_induct2)
  case Nil
  then show ?case by simp
next
  case (Cons t ts b bs)
  have none: "filter (\<lambda>(pid, d). d = t) (concat (map (\<lambda>(d, ids). map (\<lambda>pid. (pid, d)) ids) (zip ts bs))) = []"
    using Cons.prems(1) by (auto simp: filter_empty_conv dest: set_zip_leftD)
  show ?case
  proof (cases j)
    case 0
    then show ?thesis using none by (simp add: filter_map comp_def)
  next
    case (Suc k)
    then have "ts ! k \<noteq> t" using Cons.prems by (auto dest: nth_mem)
    then show ?thesis using Suc Cons by (simp add: filter_map comp_def)
  qed
qed

lemma distinct_defects: "distinct DEFECT_TYPES" "length DEFECT_TYPES = 6"
  by (simp_all add: DEFECT_TYPES_def)

definition even_split :: "int list \<Rightarrow> nat \<Rightarrow> (int \<times> pystr) list \<Rightarrow> bool" where
  "even_split ids k bad \<longleftrightarrow>
     length bad = k \<and> distinct (map fst bad) \<and> fst ` set bad \<subseteq> set ids \<and>
     (\<forall>j < 6. length (filter (\<lambda>(pid, d). d = DEFECT_TYPES ! j) bad) = k div 6 + (if j < k mod 6 then 1 else 0))"

lemma even_split_chosen:
  assumes "distinct chosen" "set chosen \<subseteq> set ids"
  shows "even_split ids (length chosen)
    (dict_of (concat (map (\<lambda>(d, ids). map (\<lambda>pid. (pid, d)) ids) (zip DEFECT_TYPES (array_split chosen 6)))))"
proof -
  define buckets where "buckets = array_split chosen 6"
  define kvs where "kvs = concat (map (\<lambda>(d, ids). map (\<lambda>pid. (pid, d)) ids) (zip DEFECT_TYPES buckets))"
  have lens: "map length buckets = split_sizes (length chosen) 6" by (simp add: buckets_def array_split_lengths)
  then have "length buckets = 6" by (metis length_map length_upt minus_nat.diff_0 split_sizes_def)
  then have l: "length DEFECT_TYPES = length buckets" by (simp add: distinct_defects)
  have keys: "map fst kvs = chosen" using bucket_pairs [OF l] by (simp add: kvs_def buckets_def concat_array_split)
  have d: "dict_of kvs = kvs" by (rule dict_of_distinct) (simp add: keys assms(1))
  have "length (filter (\<lambda>(pid, d). d = DEFECT_TYPES ! j) kvs) = length chosen div 6 + (if j < length chosen mod 6 then 1 else 0)"
    if j: "j < 6" for j
  proof -
    have "length (filter (\<lambda>(pid, d). d = DEFECT_TYPES ! j) kvs) = length (buckets ! j)"
      using bucket_filter [OF l distinct_defects(1), of j] j by (simp add: kvs_def distinct_defects)
    also have "\<dots> = split_sizes (length chosen) 6 ! j"
      using j \<open>length buckets = 6\<close> by (simp flip: lens)
    finally show ?thesis using j by (simp add: split_sizes_def)
  qed
  moreover have "length kvs = length chosen" "fst ` set kvs \<subseteq> set ids"
    using keys assms(2) by (metis length_map, metis list.set_map)
  ultimately show ?thesis
    using assms(1) by (simp add: even_split_def d [unfolded kvs_def buckets_def] keys [unfolded kvs_def buckets_def]
        kvs_def buckets_def)
qed

context numpy_rng
begin

lemma build_bad_records_ok:
  assumes "distinct ids" "portion fraction (length ids) \<le> length ids"
  shows "even_split ids (portion fraction (length ids)) (build_bad_records np seed ids fraction None)"
  unfolding build_bad_records_def Let_def option.simps distinct_defects(2)
proof (rule pred_seeded, rule pred_bind [OF sample [OF assms(2)]], rule pred_bind [OF shuffle], unfold pred_return)
  fix picked order :: "nat list"
  define k where "k = portion fraction (length ids)"
  assume p: "length picked = portion fraction (length ids) \<and> distinct picked \<and> (\<forall>x \<in> set picked. x < length ids)"
    and o: "distinct order \<and> set order = {..<portion fraction (length ids)}"
  define chosen where "chosen = map (\<lambda>k. ids ! (picked ! k)) order"
  have len: "length order = k" using o distinct_card [of order] by (simp add: k_def)
  have "inj_on (\<lambda>k. ids ! (picked ! k)) (set order)"
    using p o assms(1) by (auto simp: inj_on_def nth_eq_iff_index_eq)
  then have "distinct chosen" using o by (simp add: chosen_def distinct_map)
  moreover have "set chosen \<subseteq> set ids" using p o by (auto simp: chosen_def)
  ultimately show "even_split ids (portion fraction (length ids))
     (dict_of (concat (map (\<lambda>(d, ids). map (\<lambda>pid. (pid, d)) ids)
       (zip DEFECT_TYPES (array_split (map (\<lambda>k. ids ! (picked ! k)) order) 6)))))"
    using even_split_chosen [of chosen ids] len by (simp add: chosen_def k_def)
qed

end

text \<open>The ids and lengths of the corpus, for the builders that come after it.\<close>

lemma build_all_fields:
  "d_bad (build_all np scale) =
     build_bad_records np (corpus_seed + 3) (p_id (d_products (build_all np scale))) BAD_FRACTION None"
  "d_days (build_all np scale) =
     build_change_days np (corpus_seed + 5) (p_id (d_products (build_all np scale)))
       (p_price (d_products (build_all np scale))) (p_in_stock (d_products (build_all np scale))) N_DAYS CHANGE_FRACTION"
  "d_honeypots (build_all np scale) =
     build_honeypots np (corpus_seed + 4) (scaled_count 50 N_PRODUCTS_BASE scale)
       (scaled_count 5 HONEYPOT_COUNT_BASE scale) TRAP_TOKENS_COUNT"
  by (simp_all add: build_all_def Let_def)

lemma corpus_sizes:
  assumes "numpy_rng np" "0 \<le> scale" "scale \<le> 1000000"
  defines "p \<equiv> d_products (build_all np scale)" and "n \<equiv> nat (scaled_count 50 N_PRODUCTS_BASE scale)"
  shows "p_id p = map int [1..<n + 1]" "length (p_price p) = n" "length (p_in_stock p) = n"
    "distinct (p_id p)" "length (p_id p) = n" "50 \<le> n" "n < 2 ^ 53"
    "portion BAD_FRACTION n \<le> n" "portion CHANGE_FRACTION n \<le> n"
    "p_url p = map (\<lambda>i. u ''/product/'' @ int_str i) (p_id p)"
proof -
  have ok: "corpus_ok n (nat (scaled_count 5 N_SELLERS_BASE scale)) (seller_names (d_sellers (build_all np scale))) p"
    unfolding n_def p_def using corpus_ok_def
    by (unfold build_all_def Let_def scrape_data.simps, intro numpy_rng.build_products_ok [OF assms(1)])
      (simp_all add: scaled_count_def)
  show "p_url p = map (\<lambda>i. u ''/product/'' @ int_str i) (p_id p)" using ok unfolding corpus_ok_def by blast
  show i: "p_id p = map int [1..<n + 1]" "length (p_price p) = n" "length (p_in_stock p) = n"
    using ok by (simp_all add: corpus_ok_def del: upt_Suc)
  show "distinct (p_id p)" "length (p_id p) = n" unfolding i(1) by (simp_all add: distinct_map del: upt_Suc)
  have b: "50 \<le> scaled_count 50 N_PRODUCTS_BASE scale" "scaled_count 50 N_PRODUCTS_BASE scale < 2 ^ 53"
    using scaled_count_bounds [of scale N_PRODUCTS_BASE 50] assms(2,3) by (simp_all add: N_PRODUCTS_BASE_def)
  then show n: "50 \<le> n" "n < 2 ^ 53" by (simp_all add: n_def)
  show "portion BAD_FRACTION n \<le> n" "portion CHANGE_FRACTION n \<le> n"
    by (rule portion_le; use n fl_fraction [of 10 100] fl_fraction [of 4 100] in \<open>simp add: BAD_FRACTION_def CHANGE_FRACTION_def\<close>)+
qed

text \<open>
  C29. The defects.  A tenth of the products, rounded half to even and at least one, is chosen without
  repetition, each gets one defect, and the six kinds share them evenly: their counts differ by at
  most one, the first kinds taking the remainder.
\<close>

theorem defects_evenly_split:
  assumes "numpy_rng np" "0 \<le> scale" "scale \<le> 1000000"
  shows "even_split (p_id (d_products (build_all np scale)))
    (portion BAD_FRACTION (nat (scaled_count 50 N_PRODUCTS_BASE scale))) (d_bad (build_all np scale))"
proof -
  note c = corpus_sizes [OF assms]
  show ?thesis
    unfolding build_all_fields(1)
    using numpy_rng.build_bad_records_ok [OF assms(1) c(4), of BAD_FRACTION] c(5,8) by simp
qed

lemma defects_evenly_split_witness:
  "even_split (p_id (d_products (build_all counter_rng 1))) (portion BAD_FRACTION 4000) (d_bad (build_all counter_rng 1))"
  using defects_evenly_split [OF counter.numpy_rng_axioms, of 1] by (simp add: full_scale)

section \<open>The running state of a day\<close>

lemma fold_changes:
  assumes "distinct ids" "length ids = length (run_price r0)" "length (run_stock r0) = length (run_price r0)"
    and "distinct (map fst picks)" "fst ` set picks \<subseteq> set ids"
    and "foldl (change_one (positions_by_id ids)) (r0, []) picks = (r, ch)"
  shows "fst ` set ch = fst ` set picks \<and> length (run_price r) = length (run_price r0) \<and>
    length (run_stock r) = length (run_stock r0) \<and>
    (\<forall>i < length ids.
       run_price r ! i = (case map_of ch (ids ! i) of Some (NewPrice x) \<Rightarrow> x | _ \<Rightarrow> run_price r0 ! i) \<and>
       run_stock r ! i = (case map_of ch (ids ! i) of Some (NewStock b) \<Rightarrow> b | _ \<Rightarrow> run_stock r0 ! i))"
  using assms(4-6)
proof (induction picks arbitrary: r ch rule: rev_induct)
  case Nil
  then show ?case by simp
next
  case (snoc pick picks)
  obtain pid is_price factor where pick: "pick = (pid, is_price, factor)" by (cases pick)
  obtain r1 ch1 where f: "foldl (change_one (positions_by_id ids)) (r0, []) picks = (r1, ch1)" by force
  have ih: "fst ` set ch1 = fst ` set picks" "length (run_price r1) = length (run_price r0)"
    "length (run_stock r1) = length (run_stock r0)"
    "\<And>i. i < length ids \<Longrightarrow> run_price r1 ! i = (case map_of ch1 (ids ! i) of Some (NewPrice x) \<Rightarrow> x | _ \<Rightarrow> run_price r0 ! i)"
    "\<And>i. i < length ids \<Longrightarrow> run_stock r1 ! i = (case map_of ch1 (ids ! i) of Some (NewStock b) \<Rightarrow> b | _ \<Rightarrow> run_stock r0 ! i)"
    using snoc.IH [OF _ _ f] snoc.prems(1,2) by simp_all
  obtain q where q: "q < length ids" "ids ! q = pid" using snoc.prems(2) pick by (auto simp: in_set_conv_nth)
  have pos: "get_or 0 (positions_by_id ids) pid = q" using get_or_positions [OF assms(1) q(1)] q(2) by simp
  have "pid \<notin> fst ` set ch1" using snoc.prems(1) ih(1) pick by auto
  then have new: "map_of ch1 pid = None" by (simp add: map_of_eq_None_iff)
  have other: "ids ! i = pid \<longleftrightarrow> i = q" if "i < length ids" for i
    using nth_eq_iff_index_eq [OF assms(1) that q(1)] q(2) by simp
  have step: "change_one (positions_by_id ids) (r1, ch1) pick = (r, ch)"
    using snoc.prems(3) f by simp
  show ?case
  proof (cases is_price)
    case True
    then have "r = r1\<lparr>run_price := (run_price r1)[q := py_round 2 (fl (run_price r1 ! q * factor))]\<rparr>"
      "ch = alist_set pid (NewPrice (py_round 2 (fl (run_price r1 ! q * factor)))) ch1"
      using step by (simp_all add: change_one_def pick pos Let_def)
    then show ?thesis
      using ih q(1) assms(2) other new
      by (auto simp: pick set_fst_alist_set map_of_alist_set nth_list_update ih(4,5) q(2))
  next
    case False
    then have "r = r1\<lparr>run_stock := (run_stock r1)[q := \<not> run_stock r1 ! q]\<rparr>"
      "ch = alist_set pid (NewStock (\<not> run_stock r1 ! q)) ch1"
      using step by (simp_all add: change_one_def pick pos Let_def)
    then show ?thesis
      using ih q(1) assms(2,3) other new
      by (auto simp: pick set_fst_alist_set map_of_alist_set nth_list_update ih(4,5) q(2))
  qed
qed

context numpy_rng
begin

lemma draw_day_ok:
  assumes "distinct ids" "k \<le> length ids"
  shows "distinct (map fst (draw_day np seed ids k)) \<and> fst ` set (draw_day np seed ids k) \<subseteq> set ids"
  unfolding draw_day_def
proof (rule pred_seeded, rule pred_bind [OF sample [OF assms(2)]], (rule pred_bind [OF pred_any])+, unfold pred_return)
  fix picked :: "nat list" and price_draw factors :: "rat list"
  assume p: "length picked = k \<and> distinct picked \<and> (\<forall>x \<in> set picked. x < length ids)"
  then have "inj_on (\<lambda>j. ids ! (picked ! j)) {..<k}"
    using assms(1) by (auto simp: inj_on_def nth_eq_iff_index_eq)
  then show "distinct (map fst (map (\<lambda>k. (ids ! (picked ! k), price_draw ! k < PRICE_CHANGE_PROB, factors ! k)) [0..<k])) \<and>
      fst ` set (map (\<lambda>k. (ids ! (picked ! k), price_draw ! k < PRICE_CHANGE_PROB, factors ! k)) [0..<k]) \<subseteq> set ids"
    using p by (auto simp: comp_def distinct_map lessThan_atLeast0)
qed

end

text \<open>The loop of \<open>build_change_days\<close> on a corpus: its state after a day, and what it records for the day.\<close>

definition day_loop :: "'g numpy \<Rightarrow> rat \<Rightarrow> nat \<Rightarrow> running \<times> (nat \<times> (int \<times> change) list) list" where
  "day_loop np scale d =
     (let p = d_products (build_all np scale) in
      change_loop np (corpus_seed + 5) (p_id p) (positions_by_id (p_id p)) (portion CHANGE_FRACTION (length (p_id p)))
        \<lparr>run_price = p_price p, run_stock = p_in_stock p\<rparr> d)"

definition running_on :: "'g numpy \<Rightarrow> rat \<Rightarrow> nat \<Rightarrow> running" where
  "running_on np scale d = fst (day_loop np scale d)"

definition changes_on :: "'g numpy \<Rightarrow> rat \<Rightarrow> nat \<Rightarrow> (int \<times> change) list" where
  "changes_on np scale d = get_or [] (d_days (build_all np scale)) d"

lemma loop_days: "map fst (snd (change_loop np seed ids idx k r0 d)) = [1..<Suc d]"
  by (induction d) (auto simp: Let_def split: prod.splits)

lemma loop_day_stable:
  "d \<le> D \<Longrightarrow> 1 \<le> d \<Longrightarrow>
     map_of (snd (change_loop np seed ids idx k r0 D)) d = map_of (snd (change_loop np seed ids idx k r0 d)) d"
proof (induction D)
  case 0
  then show ?case by simp
next
  case (Suc D)
  show ?case
  proof (cases "d = Suc D")
    case False
    obtain r days where e: "change_loop np seed ids idx k r0 D = (r, days)" by force
    have "d \<in> fst ` set days" using loop_days [of np seed ids idx k r0 D] False Suc.prems
      by (metis atLeastLessThan_iff e less_Suc_eq_le le_SucE list.set_map set_upt snd_conv)
    then have "map_of days d \<noteq> None" by (simp add: map_of_eq_None_iff)
    then show ?thesis
      using Suc False by (auto simp: e Let_def map_add_def split: prod.splits option.splits)
  qed simp
qed

lemma fold_changes_distinct:
  "distinct (map fst ch) \<Longrightarrow> foldl (change_one idx) (r, ch) picks = (r', ch') \<Longrightarrow> distinct (map fst ch')"
proof (induction picks arbitrary: r ch)
  case Nil
  then show ?case by simp
next
  case (Cons pick picks)
  obtain r1 ch1 where s: "change_one idx (r, ch) pick = (r1, ch1)" by force
  then have "distinct (map fst ch1)"
    using Cons.prems(1) by (auto simp: change_one_def Let_def distinct_alist_set split: prod.splits if_splits)
  then show ?case using Cons.IH Cons.prems(2) s by simp
qed

lemma day_loop_step:
  assumes "numpy_rng np" "0 \<le> scale" "scale \<le> 1000000"
    and lens: "length (run_price (running_on np scale d)) = length (p_id (d_products (build_all np scale)))"
      "length (run_stock (running_on np scale d)) = length (p_id (d_products (build_all np scale)))"
  defines "ids \<equiv> p_id (d_products (build_all np scale))"
  obtains ch where "day_loop np scale (Suc d) = (running_on np scale (Suc d), snd (day_loop np scale d) @ [(Suc d, ch)])"
    "distinct (map fst ch)" "fst ` set ch \<subseteq> set ids"
    "length (run_price (running_on np scale (Suc d))) = length ids" "length (run_stock (running_on np scale (Suc d))) = length ids"
    "\<And>i. i < length ids \<Longrightarrow> run_price (running_on np scale (Suc d)) ! i =
       (case map_of ch (ids ! i) of Some (NewPrice x) \<Rightarrow> x | _ \<Rightarrow> run_price (running_on np scale d) ! i)"
    "\<And>i. i < length ids \<Longrightarrow> run_stock (running_on np scale (Suc d)) ! i =
       (case map_of ch (ids ! i) of Some (NewStock b) \<Rightarrow> b | _ \<Rightarrow> run_stock (running_on np scale d) ! i)"
proof -
  note c = corpus_sizes [OF assms(1-3), folded ids_def]
  define k where "k = portion CHANGE_FRACTION (length ids)"
  define picks where "picks = draw_day np (corpus_seed + 5 + int (Suc d)) ids k"
  obtain r' ch where f: "foldl (change_one (positions_by_id ids)) (running_on np scale d, []) picks = (r', ch)" by force
  have loop: "day_loop np scale (Suc d) = (r', snd (day_loop np scale d) @ [(Suc d, ch)])"
    using f by (simp add: day_loop_def running_on_def Let_def ids_def picks_def k_def split_beta)
  then have r': "r' = running_on np scale (Suc d)" by (simp add: running_on_def)
  have "k \<le> length ids" using c(5,9) by (simp add: k_def)
  then have p: "distinct (map fst picks)" "fst ` set picks \<subseteq> set ids"
    using numpy_rng.draw_day_ok [OF assms(1) c(4)] by (simp_all add: picks_def)
  note fc = fold_changes [OF c(4) _ _ p f] and l = lens [folded ids_def]
  show thesis
    by (rule that [of ch]) (use loop r' fc l p fold_changes_distinct [OF _ f] in auto)
qed

lemma running_lengths:
  assumes "numpy_rng np" "0 \<le> scale" "scale \<le> 1000000"
  shows "length (run_price (running_on np scale d)) = length (p_id (d_products (build_all np scale))) \<and>
    length (run_stock (running_on np scale d)) = length (p_id (d_products (build_all np scale)))"
proof (induction d)
  case 0
  then show ?case using corpus_sizes [OF assms] by (simp add: running_on_def day_loop_def Let_def del: upt_Suc)
next
  case (Suc d)
  then show ?case by (auto elim: day_loop_step [OF assms])
qed

lemma running_step:
  assumes "numpy_rng np" "0 \<le> scale" "scale \<le> 1000000" "Suc d < N_DAYS"
  defines "ids \<equiv> p_id (d_products (build_all np scale))"
  shows "distinct (map fst (changes_on np scale (Suc d)))" "fst ` set (changes_on np scale (Suc d)) \<subseteq> set ids"
    "i < length ids \<Longrightarrow> run_price (running_on np scale (Suc d)) ! i =
       (case map_of (changes_on np scale (Suc d)) (ids ! i) of Some (NewPrice x) \<Rightarrow> x | _ \<Rightarrow> run_price (running_on np scale d) ! i)"
    "i < length ids \<Longrightarrow> run_stock (running_on np scale (Suc d)) ! i =
       (case map_of (changes_on np scale (Suc d)) (ids ! i) of Some (NewStock b) \<Rightarrow> b | _ \<Rightarrow> run_stock (running_on np scale d) ! i)"
proof -
  obtain ch where ch: "day_loop np scale (Suc d) = (running_on np scale (Suc d), snd (day_loop np scale d) @ [(Suc d, ch)])"
    "distinct (map fst ch)" "fst ` set ch \<subseteq> set ids"
    "\<And>i. i < length ids \<Longrightarrow> run_price (running_on np scale (Suc d)) ! i =
       (case map_of ch (ids ! i) of Some (NewPrice x) \<Rightarrow> x | _ \<Rightarrow> run_price (running_on np scale d) ! i)"
    "\<And>i. i < length ids \<Longrightarrow> run_stock (running_on np scale (Suc d)) ! i =
       (case map_of ch (ids ! i) of Some (NewStock b) \<Rightarrow> b | _ \<Rightarrow> run_stock (running_on np scale d) ! i)"
    using day_loop_step [OF assms(1-3), of d] running_lengths [OF assms(1-3), of d] unfolding ids_def by metis
  have days: "d_days (build_all np scale) = snd (day_loop np scale 4)"
    by (simp add: build_all_fields build_change_days_def day_loop_def Let_def N_DAYS_def)
  have "Suc d \<notin> fst ` set (snd (day_loop np scale d))"
    using loop_days [of np _ _ _ _ _ d] by (simp add: day_loop_def Let_def flip: set_map del: upt_Suc)
  then have "map_of (snd (day_loop np scale d)) (Suc d) = None" by (simp add: map_of_eq_None_iff)
  then have "map_of (snd (day_loop np scale (Suc d))) (Suc d) = Some ch" by (simp add: ch(1) map_add_def)
  moreover have "map_of (snd (day_loop np scale 4)) (Suc d) = map_of (snd (day_loop np scale (Suc d))) (Suc d)"
    unfolding day_loop_def Let_def by (rule loop_day_stable) (use assms(4) in \<open>simp_all add: N_DAYS_def\<close>)
  ultimately have e: "changes_on np scale (Suc d) = ch" by (simp add: changes_on_def get_or_def days)
  show "distinct (map fst (changes_on np scale (Suc d)))" "fst ` set (changes_on np scale (Suc d)) \<subseteq> set ids"
    using ch(2,3) by (simp_all add: e)
  show "i < length ids \<Longrightarrow> run_price (running_on np scale (Suc d)) ! i =
       (case map_of (changes_on np scale (Suc d)) (ids ! i) of Some (NewPrice x) \<Rightarrow> x | _ \<Rightarrow> run_price (running_on np scale d) ! i)"
    "i < length ids \<Longrightarrow> run_stock (running_on np scale (Suc d)) ! i =
       (case map_of (changes_on np scale (Suc d)) (ids ! i) of Some (NewStock b) \<Rightarrow> b | _ \<Rightarrow> run_stock (running_on np scale d) ! i)"
    using ch(4,5) by (simp_all add: e)
qed

end
