(* ===== verification/ScrapeSite.thy ===== *)
theory ScrapeSite
  imports ScrapeCorpus TargetSite
begin

text \<open>
  The generator of module 13 and the target site it feeds: the target reads the catalog and the
  specification when it starts (13-scraping-at-scale/docker/target/app.py), and serves them.  Shown
  are the corpus' invariants, the split of the defects, that no product of the catalog is a trap,
  and which price and stock the site shows on a day.  A file of another shape than the generator's
  is a \<open>TypeError\<close>; the parameter \<open>rd\<close> is the \<open>float\<close> of a number text.
\<close>

section \<open>Reading the files\<close>

fun jget :: "pystr \<Rightarrow> json \<Rightarrow> json result" where
  "jget k (JObj kvs) = lookup kvs k"
| "jget k _ = Inl TypeError"

fun jlist :: "json \<Rightarrow> json list result" where
  "jlist (JList xs) = Inr xs"
| "jlist _ = Inl TypeError"

fun jdict :: "json \<Rightarrow> (pystr \<times> json) list result" where
  "jdict (JObj kvs) = Inr kvs"
| "jdict _ = Inl TypeError"

fun jint :: "json \<Rightarrow> int result" where
  "jint (JInt i) = Inr i"
| "jint _ = Inl TypeError"

fun jstr :: "json \<Rightarrow> pystr result" where
  "jstr (JStr s) = Inr s"
| "jstr _ = Inl TypeError"

fun jbool :: "json \<Rightarrow> bool result" where
  "jbool (JBool b) = Inr b"
| "jbool _ = Inl TypeError"

fun jfloat :: "(pystr \<Rightarrow> rat) \<Rightarrow> json \<Rightarrow> rat result" where
  "jfloat rd (JInt i) = Inr (of_int i)"
| "jfloat rd (JFloat t) = Inr (rd t)"
| "jfloat rd _ = Inl TypeError"

definition int_key :: "pystr \<Rightarrow> int result" where
  "int_key k = (case int_of_str k of None \<Rightarrow> Inl ValueError | Some i \<Rightarrow> Inr i)"

text \<open>\<open>SPEC[a][b]\<close>.\<close>

definition jpath :: "pystr \<Rightarrow> pystr \<Rightarrow> json \<Rightarrow> json result" where
  "jpath a b j = bind_result (jget a j) (jget b)"

definition load_products :: "json \<Rightarrow> (int \<times> product_rec) list result" where
  "load_products catalog =
     bind_result (bind_result (jget (u ''products'') catalog) jlist) (\<lambda>ps.
     bind_result (map_result (\<lambda>p. bind_result (bind_result (jget (u ''id'') p) jint) (\<lambda>i.
        bind_result (jdict p) (\<lambda>kvs. Inr (i, kvs)))) ps) (\<lambda>kvs. Inr (dict_of kvs)))"

definition load_days :: "json \<Rightarrow> (int \<times> (int \<times> product_rec) list) list result" where
  "load_days spec =
     bind_result (bind_result (jpath (u ''change_days'') (u ''days'') spec) jdict) (\<lambda>days.
     bind_result (map_result (\<lambda>(d, changes).
        bind_result (int_key d) (\<lambda>d'. bind_result (jdict changes) (\<lambda>cs.
        bind_result (map_result (\<lambda>(pid, delta).
            bind_result (int_key pid) (\<lambda>i. bind_result (jdict delta) (\<lambda>kvs. Inr (i, kvs)))) cs)
          (\<lambda>kvs. Inr (d', dict_of kvs))))) days) (\<lambda>kvs. Inr (dict_of kvs)))"

definition load_bad :: "json \<Rightarrow> (int \<times> pystr) list result" where
  "load_bad spec =
     bind_result (bind_result (jpath (u ''bad_records'') (u ''by_id'') spec) jdict) (\<lambda>kvs.
     bind_result (map_result (\<lambda>(k, v). bind_result (int_key k) (\<lambda>i. bind_result (jstr v) (\<lambda>s. Inr (i, s)))) kvs)
       (\<lambda>kvs. Inr (dict_of kvs)))"

definition load_site :: "(pystr \<Rightarrow> rat) \<Rightarrow> json \<Rightarrow> json \<Rightarrow> pystr \<Rightarrow> site result" where
  "load_site rd catalog spec chaos =
     bind_result (load_products catalog) (\<lambda>ps.
     bind_result (bind_result (jpath (u ''honeypots'') (u ''product_ids'') spec) jlist) (\<lambda>hs.
     bind_result (map_result jint hs) (\<lambda>hps.
     bind_result (bind_result (jpath (u ''honeypots'') (u ''trap_tokens'') spec) jlist) (\<lambda>ts.
     bind_result (map_result jstr ts) (\<lambda>tokens.
     bind_result (load_bad spec) (\<lambda>bad.
     bind_result (bind_result (jpath (u ''change_days'') (u ''n_days'') spec) jint) (\<lambda>nd.
     bind_result (load_days spec) (\<lambda>days.
     bind_result (bind_result (jpath (u ''rate_limit'') (u ''capacity'') spec) (jfloat rd)) (\<lambda>cap.
     bind_result (bind_result (jpath (u ''rate_limit'') (u ''refill_per_sec'') spec) (jfloat rd)) (\<lambda>refill.
     bind_result (bind_result (jpath (u ''rate_limit'') (u ''ban_after_violations'') spec) jint) (\<lambda>ban.
     bind_result (bind_result (jpath (u ''required_headers'') (u ''user_agent_substring'') spec) jstr) (\<lambda>ua.
     bind_result (bind_result (jpath (u ''required_headers'') (u ''accept_language_required'') spec) jbool) (\<lambda>lang.
     bind_result (bind_result (jpath (u ''markup_versions'') (u ''count'') spec) jint) (\<lambda>mc.
     bind_result (bind_result (jpath (u ''chaos'') (u ''period_sec'') spec) jint) (\<lambda>period.
     Inr \<lparr>products = ps, honeypots = hps, trap_tokens = tokens, bad_map = bad, n_days = nd, change_days = days,
          capacity = cap, refill_per_sec = refill, ban_after = ban, ua_substring = ua, lang_required = lang,
          markup_count = mc, chaos_period = period, chaos_env = (chaos \<notin> {[], u ''0'', u ''false''})\<rparr>)))))))))))))))"

section \<open>The generated files are readable\<close>

lemma map_result_map: "map_result f (map g xs) = map_result (f \<circ> g) xs"
  by (induction xs) simp_all

lemma load_generated_products:
  "load_products (catalog_dict fr scale cats sl p) =
     Inr (dict_of (map (\<lambda>i. (p_id p ! i, product_row fr p i)) [0..<length (p_id p)]))"
proof -
  have "map_result (\<lambda>q. bind_result (bind_result (jget (u ''id'') q) jint) (\<lambda>i. bind_result (jdict q) (\<lambda>kvs. Inr (i, kvs))))
      (map (\<lambda>i. JObj (product_row fr p i)) [0..<length (p_id p)]) =
      Inr (map (\<lambda>i. (p_id p ! i, product_row fr p i)) [0..<length (p_id p)])"
    unfolding map_result_map by (rule map_result_total) (simp add: product_row_def lookup_def)
  then show ?thesis by (simp add: load_products_def catalog_dict_def Let_def lookup_def)
qed

definition short_id :: "int \<Rightarrow> bool" where
  "short_id i \<longleftrightarrow> 0 \<le> i \<and> i < 2 ^ 53"

lemma int_key_str:
  assumes "short_id i"
  shows "int_key (int_str i) = Inr i"
proof -
  have "nat \<bar>i\<bar> < 10 ^ 18" using assms by (auto simp: short_id_def nat_less_iff)
  then have "length (digits_of (nat \<bar>i\<bar>)) \<le> 18" by (rule digits_of_length) simp
  then show ?thesis by (simp add: int_key_def int_of_int_str)
qed

text \<open>The fields a change assigns.\<close>

fun change_rec :: "(rat \<Rightarrow> pystr) \<Rightarrow> change \<Rightarrow> product_rec" where
  "change_rec fr (NewPrice x) = [(u ''price'', JFloat (fr x))]"
| "change_rec fr (NewStock b) = [(u ''in_stock'', JBool b)]"

lemma change_json_rec: "change_json fr c = JObj (change_rec fr c)"
  by (cases c) simp_all

lemma spec_days: "jpath (u ''change_days'') (u ''days'') (target_spec_dict fr scale bad hp days cost) = Inr (JObj (days_dict fr days))"
  by (simp add: jpath_def target_spec_dict_def lookup_def)

lemma load_generated_days:
  assumes "\<forall>(d, changes) \<in> set days. short_id (int d) \<and> (\<forall>pid \<in> fst ` set changes. short_id pid)"
  shows "load_days (target_spec_dict fr scale bad hp days cost) =
    Inr (dict_of (map (\<lambda>(d, changes). (int d, dict_of (map (\<lambda>(pid, c). (pid, change_rec fr c)) changes))) days))"
proof -
  have inner: "map_result (\<lambda>(pid, delta). bind_result (int_key pid) (\<lambda>i. bind_result (jdict delta) (\<lambda>kvs. Inr (i, kvs))))
      (map (\<lambda>(pid, c). (int_str pid, change_json fr c)) changes) = Inr (map (\<lambda>(pid, c). (pid, change_rec fr c)) changes)"
    if "\<forall>pid \<in> fst ` set changes. short_id pid" for changes
    unfolding map_result_map
    by (rule map_result_total) (use that in \<open>auto simp: int_key_str change_json_rec\<close>)
  have "map_result (\<lambda>(d, changes).
      bind_result (int_key d) (\<lambda>d'. bind_result (jdict changes) (\<lambda>cs.
      bind_result (map_result (\<lambda>(pid, delta).
          bind_result (int_key pid) (\<lambda>i. bind_result (jdict delta) (\<lambda>kvs. Inr (i, kvs)))) cs)
        (\<lambda>kvs. Inr (d', dict_of kvs))))) (days_dict fr days) =
      Inr (map (\<lambda>(d, changes). (int d, dict_of (map (\<lambda>(pid, c). (pid, change_rec fr c)) changes))) days)"
    unfolding days_dict_def map_result_map
    by (rule map_result_total) (use assms in \<open>auto simp: int_key_str inner\<close>)
  then show ?thesis unfolding load_days_def spec_days by simp
qed

lemma load_generated_bad:
  assumes "\<forall>pid \<in> fst ` set bad. short_id pid"
  shows "load_bad (target_spec_dict fr scale bad hp days cost) = Inr (dict_of (sort bad))"
proof -
  have "map_result (\<lambda>(k, v). bind_result (int_key k) (\<lambda>i. bind_result (jstr v) (\<lambda>s. Inr (i, s)))) (bad_by_id bad) = Inr (map id (sort bad))"
    unfolding bad_by_id_def map_result_map
    by (rule map_result_total) (use assms in \<open>auto simp: int_key_str\<close>)
  then show ?thesis
    by (simp add: load_bad_def jpath_def target_spec_dict_def lookup_def)
qed

text \<open>The site as it starts on the files of a run of the generator.\<close>

definition generated_site :: "(pystr \<Rightarrow> rat) \<Rightarrow> (rat \<Rightarrow> pystr) \<Rightarrow> 'g numpy \<Rightarrow> rat \<Rightarrow> pystr \<Rightarrow> site result" where
  "generated_site rd fr np scale chaos =
     bind_result (lookup (generate fr np scale []) CatalogFile) (\<lambda>catalog.
     bind_result (lookup (generate fr np scale []) TargetSpecFile) (\<lambda>spec. load_site rd catalog spec chaos))"

section \<open>The site on the generated files\<close>

lemma generated_site_eq:
  "generated_site rd fr np scale chaos =
     (let d = build_all np scale in
      load_site rd (catalog_dict fr scale build_categories (d_sellers d) (d_products d))
        (target_spec_dict fr scale (d_bad d) (d_honeypots d) (d_days d) (d_cost d)) chaos)"
  by (simp add: generated_site_def generate_def Let_def lookup_def)

lemma map_result_ints: "map_result jint (map JInt xs) = Inr xs"
  by (induction xs) simp_all

lemma map_result_strs: "map_result jstr (map JStr xs) = Inr xs"
  by (induction xs) simp_all

lemma spec_paths:
  "jpath (u ''honeypots'') (u ''product_ids'') (target_spec_dict fr scale bad hp days cost) = Inr (jints (hp_ids hp))"
  "jpath (u ''honeypots'') (u ''trap_tokens'') (target_spec_dict fr scale bad hp days cost) = Inr (jstrs (hp_tokens hp))"
  "jpath (u ''change_days'') (u ''n_days'') (target_spec_dict fr scale bad hp days cost) = Inr (JInt (int N_DAYS))"
  "jpath (u ''rate_limit'') (u ''capacity'') (target_spec_dict fr scale bad hp days cost) = Inr (JInt 25)"
  "jpath (u ''rate_limit'') (u ''refill_per_sec'') (target_spec_dict fr scale bad hp days cost) = Inr (JFloat (fr 50))"
  "jpath (u ''rate_limit'') (u ''ban_after_violations'') (target_spec_dict fr scale bad hp days cost) = Inr (JInt 25)"
  "jpath (u ''required_headers'') (u ''user_agent_substring'') (target_spec_dict fr scale bad hp days cost) = Inr (JStr (u ''Mozilla/5.0''))"
  "jpath (u ''required_headers'') (u ''accept_language_required'') (target_spec_dict fr scale bad hp days cost) = Inr (JBool True)"
  "jpath (u ''markup_versions'') (u ''count'') (target_spec_dict fr scale bad hp days cost) = Inr (JInt MARKUP_VERSION_COUNT)"
  "jpath (u ''chaos'') (u ''period_sec'') (target_spec_dict fr scale bad hp days cost) = Inr (JInt 30)"
  by (simp_all add: jpath_def target_spec_dict_def lookup_def build_markup_versions_def)

lemma load_generated_site:
  assumes "load_products catalog = Inr ps" "load_bad (target_spec_dict fr scale bad hp days cost) = Inr bm"
    "load_days (target_spec_dict fr scale bad hp days cost) = Inr ds"
  shows "load_site rd catalog (target_spec_dict fr scale bad hp days cost) chaos =
    Inr \<lparr>products = ps, honeypots = hp_ids hp, trap_tokens = hp_tokens hp, bad_map = bm, n_days = int N_DAYS,
         change_days = ds, capacity = 25, refill_per_sec = rd (fr 50), ban_after = 25, ua_substring = u ''Mozilla/5.0'',
         lang_required = True, markup_count = MARKUP_VERSION_COUNT, chaos_period = 30,
         chaos_env = (chaos \<notin> {[], u ''0'', u ''false''})\<rparr>"
  unfolding load_site_def assms spec_paths jints_def jstrs_def
  by (simp only: bind_result.simps jlist.simps jint.simps jfloat.simps jstr.simps jbool.simps map_result_ints map_result_strs
      of_int_numeral)

definition last_change :: "'g numpy \<Rightarrow> rat \<Rightarrow> nat \<Rightarrow> int \<Rightarrow> change option" where
  "last_change np scale day pid =
     (case find (\<lambda>k. map_of (changes_on np scale k) pid \<noteq> None) (rev [1..<Suc day]) of
        None \<Rightarrow> None
      | Some k \<Rightarrow> map_of (changes_on np scale k) pid)"

lemma last_change_Suc:
  "last_change np scale (Suc day) pid =
     (case map_of (changes_on np scale (Suc day)) pid of None \<Rightarrow> last_change np scale day pid | Some c \<Rightarrow> Some c)"
  by (cases "map_of (changes_on np scale (Suc day)) pid") (simp_all add: last_change_def)

text \<open>The running value of a day is the one of the last change of its kind.\<close>

lemma running_last:
  assumes "numpy_rng np" "0 \<le> scale" "scale \<le> 1000000" "day < N_DAYS" "i < length (p_id (d_products (build_all np scale)))"
  shows "case last_change np scale day (p_id (d_products (build_all np scale)) ! i) of
      Some (NewPrice x) \<Rightarrow> run_price (running_on np scale day) ! i = x
    | Some (NewStock b) \<Rightarrow> run_stock (running_on np scale day) ! i = b
    | None \<Rightarrow> True"
  using assms(4)
proof (induction day)
  case 0
  then show ?case by (simp add: last_change_def)
next
  case (Suc day)
  then have ih: "case last_change np scale day (p_id (d_products (build_all np scale)) ! i) of
      Some (NewPrice x) \<Rightarrow> run_price (running_on np scale day) ! i = x
    | Some (NewStock b) \<Rightarrow> run_stock (running_on np scale day) ! i = b
    | None \<Rightarrow> True" by simp
  note step = running_step(3,4) [OF assms(1-3) Suc.prems assms(5)]
  show ?case
  proof (cases "map_of (changes_on np scale (Suc day)) (p_id (d_products (build_all np scale)) ! i)")
    case None
    then show ?thesis using ih step by (auto simp: last_change_Suc split: option.splits change.splits)
  next
    case (Some c)
    then show ?thesis using step by (cases c) (simp_all add: last_change_Suc)
  qed
qed

text \<open>The ids of the recorded days and changes, and their reading back.\<close>

lemma generated_days:
  assumes "numpy_rng np" "0 \<le> scale" "scale \<le> 1000000"
  shows "map fst (d_days (build_all np scale)) = [1..<N_DAYS]"
    and "(d, changes) \<in> set (d_days (build_all np scale)) \<Longrightarrow>
      0 < d \<and> d < N_DAYS \<and> changes = changes_on np scale d \<and> distinct (map fst changes) \<and>
      fst ` set changes \<subseteq> set (p_id (d_products (build_all np scale)))"
proof -
  show k: "map fst (d_days (build_all np scale)) = [1..<N_DAYS]"
    by (simp add: build_all_fields build_change_days_def N_DAYS_def loop_days eval_nat_numeral del: upt_Suc change_loop.simps)
  assume m: "(d, changes) \<in> set (d_days (build_all np scale))"
  have "d \<in> set (map fst (d_days (build_all np scale)))" using m by force
  then have d: "0 < d" "d < N_DAYS" unfolding k by simp_all
  have "distinct (map fst (d_days (build_all np scale)))" unfolding k by simp
  then have c: "changes = changes_on np scale d" using m by (simp add: changes_on_def get_or_def)
  obtain e where e: "d = Suc e" using d(1) by (cases d) simp_all
  show "0 < d \<and> d < N_DAYS \<and> changes = changes_on np scale d \<and> distinct (map fst changes) \<and>
      fst ` set changes \<subseteq> set (p_id (d_products (build_all np scale)))"
    using d c running_step(1,2) [OF assms, of e] by (simp add: e)
qed

lemma short_ids:
  assumes "numpy_rng np" "0 \<le> scale" "scale \<le> 1000000" "pid \<in> set (p_id (d_products (build_all np scale)))"
  shows "short_id pid"
  using corpus_sizes(1,7) [OF assms(1-3)] assms(4) by (auto simp: short_id_def simp del: upt_Suc)

text \<open>The site of a run, with what the properties need of it.\<close>

lemma generated_site_fields:
  assumes "numpy_rng np" "0 \<le> scale" "scale \<le> 1000000"
  obtains s where "generated_site rd fr np scale chaos = Inr s"
    "products s = map (\<lambda>i. (p_id (d_products (build_all np scale)) ! i, product_row fr (d_products (build_all np scale)) i))
       [0..<length (p_id (d_products (build_all np scale)))]"
    "honeypots s = hp_ids (d_honeypots (build_all np scale))" "n_days s = int N_DAYS"
    "change_days s = map (\<lambda>(d, changes). (int d, map (\<lambda>(pid, c). (pid, change_rec fr c)) changes)) (d_days (build_all np scale))"
    "ua_substring s = u ''Mozilla/5.0''" "lang_required s" "capacity s = 25"
    "map_of (bad_map s) = map_of (d_bad (build_all np scale))"
proof -
  define D where "D = build_all np scale"
  define ids where "ids = p_id (d_products D)"
  note c = corpus_sizes [OF assms, folded D_def, folded ids_def]
  have bad: "fst ` set (d_bad D) \<subseteq> set ids" "distinct (map fst (d_bad D))"
    using numpy_rng.build_bad_records_ok [OF assms(1) c(4)] c(5,8)
    by (simp_all add: even_split_def D_def build_all_fields(1) ids_def)
  have sorted_bad: "distinct (map fst (sort (d_bad D)))"
    using bad(2) by (simp add: distinct_map)
  then have bad_map: "map_of (dict_of (sort (d_bad D))) = map_of (d_bad D)"
    by (simp add: dict_of_distinct map_of_inject_set [OF sorted_bad bad(2)])
  have prods: "dict_of (map (\<lambda>i. (ids ! i, product_row fr (d_products D) i)) [0..<length ids]) =
      map (\<lambda>i. (ids ! i, product_row fr (d_products D) i)) [0..<length ids]"
    by (rule dict_of_distinct) (simp add: comp_def c(4) map_nth)
  have inner: "dict_of (map (\<lambda>(pid, c). (pid, change_rec fr c)) changes) = map (\<lambda>(pid, c). (pid, change_rec fr c)) changes"
    if "distinct (map fst changes)" for changes :: "(int \<times> change) list"
    by (rule dict_of_distinct) (use that in \<open>simp add: comp_def case_prod_beta'\<close>)
  have days: "dict_of (map (\<lambda>(d, changes). (int d, dict_of (map (\<lambda>(pid, c). (pid, change_rec fr c)) changes))) (d_days D)) =
      map (\<lambda>(d, changes). (int d, map (\<lambda>(pid, c). (pid, change_rec fr c)) changes)) (d_days D)"
  proof -
    have k: "map fst (map (\<lambda>(d, changes). (int d, dict_of (map (\<lambda>(pid, c). (pid, change_rec fr c)) changes))) (d_days D)) =
        map int (map fst (d_days D))" by (simp add: comp_def case_prod_beta')
    have "dict_of (map (\<lambda>(d, changes). (int d, dict_of (map (\<lambda>(pid, c). (pid, change_rec fr c)) changes))) (d_days D)) =
        map (\<lambda>(d, changes). (int d, dict_of (map (\<lambda>(pid, c). (pid, change_rec fr c)) changes))) (d_days D)"
      by (rule dict_of_distinct) (unfold k, simp add: D_def generated_days(1) [OF assms] distinct_map)
    also have "\<dots> = map (\<lambda>(d, changes). (int d, map (\<lambda>(pid, c). (pid, change_rec fr c)) changes)) (d_days D)"
      using generated_days(2) [OF assms] inner by (intro map_cong) (auto simp: D_def)
    finally show ?thesis .
  qed
  have shorts: "\<forall>(d, changes) \<in> set (d_days D). short_id (int d) \<and> (\<forall>pid \<in> fst ` set changes. short_id pid)"
    using generated_days(2) [OF assms] short_ids [OF assms] by (fastforce simp: D_def short_id_def N_DAYS_def)
  have loaded: "load_products (catalog_dict fr scale build_categories (d_sellers D) (d_products D)) =
      Inr (map (\<lambda>i. (ids ! i, product_row fr (d_products D) i)) [0..<length ids])"
    using prods by (simp add: load_generated_products ids_def)
  have "generated_site rd fr np scale chaos =
      load_site rd (catalog_dict fr scale build_categories (d_sellers D) (d_products D))
        (target_spec_dict fr scale (d_bad D) (d_honeypots D) (d_days D) (d_cost D)) chaos"
    by (simp add: generated_site_eq D_def Let_def)
  also note load_generated_site [OF loaded load_generated_bad load_generated_days [OF shorts]]
  finally show thesis
    by (rule that) (use bad(1) bad_map short_ids [OF assms] days in \<open>auto simp: ids_def D_def\<close>)
qed

section \<open>What the site shows\<close>

lemma map_of_int_keys: "map_of (map (\<lambda>(d, v). (int d, g v)) kvs) (int d) = map_option g (map_of kvs d)"
  by (induction kvs) auto

lemma map_of_map_snd: "map_of (map (\<lambda>(k, v). (k, g v)) kvs) k = map_option g (map_of kvs k)"
  by (induction kvs) auto

lemma map_of_rev_distinct: "distinct (map fst kvs) \<Longrightarrow> map_of (rev kvs) = map_of kvs"
  by (subst map_of_inject_set) (simp_all flip: rev_map)

lemma delta_generated:
  assumes "numpy_rng np" "0 \<le> scale" "scale \<le> 1000000"
    and "change_days s = map (\<lambda>(d, changes). (int d, map (\<lambda>(pid, c). (pid, change_rec fr c)) changes)) (d_days (build_all np scale))"
  shows "delta_on s d pid = map_option (change_rec fr) (map_of (changes_on np scale d) pid)"
proof (cases "map_of (d_days (build_all np scale)) d")
  case None
  then have "map_of (change_days s) (int d) = None"
    unfolding assms(4) map_of_int_keys by simp
  then show ?thesis using None by (simp add: delta_on_def get_or_def changes_on_def)
next
  case (Some changes)
  then have m: "map_of (change_days s) (int d) = Some (map (\<lambda>(pid, c). (pid, change_rec fr c)) changes)"
    unfolding assms(4) map_of_int_keys by simp
  have "(d, changes) \<in> set (d_days (build_all np scale))" using Some by (rule map_of_SomeD)
  then have "distinct (map fst changes)" "changes = changes_on np scale d"
    using generated_days(2) [OF assms(1-3)] by blast+
  moreover from this(1) have "distinct (map fst (map (\<lambda>(pid, c). (pid, change_rec fr c)) changes))"
    by (simp add: comp_def case_prod_beta')
  ultimately show ?thesis
    by (simp add: delta_on_def get_or_def m map_of_rev_distinct map_of_map_snd)
qed

lemma latest_generated:
  assumes "\<And>d. delta_on s d pid = map_option (change_rec fr) (map_of (changes_on np scale d) pid)"
  shows "latest_delta s day pid = (case last_change np scale day pid of None \<Rightarrow> [] | Some c \<Rightarrow> change_rec fr c)"
proof -
  have p: "(\<lambda>k. delta_on s k pid \<noteq> None) = (\<lambda>k. map_of (changes_on np scale k) pid \<noteq> None)" by (simp add: assms)
  show ?thesis
  proof (cases "find (\<lambda>k. map_of (changes_on np scale k) pid \<noteq> None) (rev [1..<Suc day])")
    case None
    then show ?thesis unfolding latest_delta_def last_change_def p by simp
  next
    case (Some k)
    then have "map_of (changes_on np scale k) pid \<noteq> None" unfolding find_Some_iff by blast
    then show ?thesis unfolding latest_delta_def last_change_def p Some by (auto simp: assms)
  qed
qed

lemma shown_fields:
  "map_of (merge (product_row fr p i) (case c of None \<Rightarrow> [] | Some c \<Rightarrow> change_rec fr c)) (u ''price'') =
     Some (JFloat (fr (case c of Some (NewPrice x) \<Rightarrow> x | _ \<Rightarrow> p_price p ! i)))"
  "map_of (merge (product_row fr p i) (case c of None \<Rightarrow> [] | Some c \<Rightarrow> change_rec fr c)) (u ''in_stock'') =
     Some (JBool (case c of Some (NewStock b) \<Rightarrow> b | _ \<Rightarrow> p_in_stock p ! i))"
  by (auto simp: map_of_merge product_row_def split: option.split change.split)

text \<open>The price the site shows for a product with a defect, from the text of its price.\<close>

definition shown_price :: "pystr option \<Rightarrow> pystr \<Rightarrow> json option" where
  "shown_price defect t =
     (if defect = Some (u ''missing_price'') then None
      else if defect = Some (u ''price_na'') then Some (JStr (u ''N/A''))
      else if defect = Some (u ''negative_price'') then Some (JFloat (if zero_text t then u ''-1.0'' else negate_text t))
      else Some (JFloat t))"

lemma defect_applied:
  assumes "map_of p (u ''price'') = Some (JFloat t)" "map_of p (u ''in_stock'') = Some (JBool b)" "map_of p (u ''description'') = Some (JStr d)"
  obtains q where "apply_defect pr s p pid = Inr q" "map_of q (u ''price'') = shown_price (map_of (bad_map s) pid) t"
    "map_of q (u ''in_stock'') = Some (JBool b)"
proof -
  have neq: "u ''missing_price'' \<noteq> u ''price_na''" "u ''missing_price'' \<noteq> u ''negative_price''" "u ''price_na'' \<noteq> u ''negative_price''"
    "u ''empty_title'' \<noteq> u ''negative_price''" "u ''empty_title'' \<noteq> u ''price_na''" "u ''empty_title'' \<noteq> u ''missing_price''"
    "u ''bad_currency'' \<noteq> u ''negative_price''" "u ''bad_currency'' \<noteq> u ''price_na''" "u ''bad_currency'' \<noteq> u ''missing_price''"
    "u ''truncated'' \<noteq> u ''negative_price''" "u ''truncated'' \<noteq> u ''price_na''" "u ''truncated'' \<noteq> u ''missing_price''"
    "u ''price'' \<noteq> u ''in_stock''" "u ''title'' \<noteq> u ''price''" "u ''title'' \<noteq> u ''in_stock''" "u ''currency'' \<noteq> u ''price''"
    "u ''currency'' \<noteq> u ''in_stock''" "u ''description'' \<noteq> u ''price''" "u ''description'' \<noteq> u ''in_stock''"
    by (simp_all add: u_def)
  note keys = neq neq [symmetric]
  have "\<exists>q. apply_defect pr s p pid = Inr q \<and> map_of q (u ''price'') = shown_price (map_of (bad_map s) pid) t \<and>
      map_of q (u ''in_stock'') = Some (JBool b)"
    using assms keys
    by (cases "map_of (bad_map s) pid")
       (simp_all add: apply_defect_def shown_price_def field_def get_or_def map_of_alist_set map_of_alist_del del: u_Cons)
  then show ?thesis using that by blast
qed

text \<open>Without a change of a kind, the running value of that kind is the one of day 0.\<close>

definition changed_price :: "'g numpy \<Rightarrow> rat \<Rightarrow> nat \<Rightarrow> int \<Rightarrow> bool" where
  "changed_price np scale day pid \<longleftrightarrow> (\<exists>k \<in> {1..day}. \<exists>x. map_of (changes_on np scale k) pid = Some (NewPrice x))"

definition changed_stock :: "'g numpy \<Rightarrow> rat \<Rightarrow> nat \<Rightarrow> int \<Rightarrow> bool" where
  "changed_stock np scale day pid \<longleftrightarrow> (\<exists>k \<in> {1..day}. \<exists>b. map_of (changes_on np scale k) pid = Some (NewStock b))"

lemma day_0: "run_price (running_on np scale 0) = p_price (d_products (build_all np scale))"
  "run_stock (running_on np scale 0) = p_in_stock (d_products (build_all np scale))"
  by (simp_all add: running_on_def day_loop_def Let_def)

lemma running_unchanged:
  assumes "numpy_rng np" "0 \<le> scale" "scale \<le> 1000000" "day < N_DAYS" "i < length (p_id (d_products (build_all np scale)))"
  defines "pid \<equiv> p_id (d_products (build_all np scale)) ! i"
  shows "(\<not> changed_price np scale day pid \<longrightarrow> run_price (running_on np scale day) ! i = p_price (d_products (build_all np scale)) ! i) \<and>
    (\<not> changed_stock np scale day pid \<longrightarrow> run_stock (running_on np scale day) ! i = p_in_stock (d_products (build_all np scale)) ! i)"
  using assms(4)
proof (induction day)
  case 0
  show ?case by (simp add: day_0)
next
  case (Suc day)
  note step = running_step(3,4) [OF assms(1-3) Suc.prems assms(5), folded pid_def]
  have sub: "changed_price np scale (Suc day) pid \<longleftrightarrow> changed_price np scale day pid \<or> (\<exists>x. map_of (changes_on np scale (Suc day)) pid = Some (NewPrice x))"
    "changed_stock np scale (Suc day) pid \<longleftrightarrow> changed_stock np scale day pid \<or> (\<exists>b. map_of (changes_on np scale (Suc day)) pid = Some (NewStock b))"
    by (auto simp: changed_price_def changed_stock_def atLeastAtMostSuc_conv)
  show ?case using Suc.IH Suc_lessD [OF Suc.prems] unfolding step sub by (auto split: option.split change.split)
qed

lemma last_change_kind:
  "last_change np scale day pid = Some (NewPrice x) \<Longrightarrow> changed_price np scale day pid"
  "last_change np scale day pid = Some (NewStock b) \<Longrightarrow> changed_stock np scale day pid"
  "last_change np scale day pid = None \<Longrightarrow> \<not> changed_price np scale day pid \<and> \<not> changed_stock np scale day pid"
proof (induction day)
  case 0
  { case 1 then show ?case by (simp add: last_change_def) }
  { case 2 then show ?case by (simp add: last_change_def) }
  { case 3 then show ?case by (simp add: changed_price_def changed_stock_def) }
next
  case (Suc day)
  note sub = changed_price_def changed_stock_def atLeastAtMostSuc_conv last_change_Suc
  { case 1 then show ?case using Suc.IH(1) by (fastforce simp: sub split: option.splits) }
  { case 2 then show ?case using Suc.IH(2) by (fastforce simp: sub split: option.splits) }
  { case 3 then show ?case using Suc.IH(3) by (fastforce simp: sub split: option.splits) }
qed

text \<open>
  C6. What the target site shows of the generated changes on a day.  The generator tracks a running
  price and stock per product over the days.  For a product whose changes up to the day are of one
  kind only, the site that starts on its files shows exactly these, the price altered by the product's
  injected defect if that is a price defect.  For a product with changes of both kinds the site shows
  the value of the last change, and the other of the two as on day 0, against the cumulative overlay
  its comment describes.
\<close>

theorem site_shows_last_change:
  assumes "numpy_rng np" "0 \<le> scale" "scale \<le> 1000000"
    and "i < length (p_id (d_products (build_all np scale)))" "day < N_DAYS"
  defines "p \<equiv> d_products (build_all np scale)"
  shows "\<exists>s shown price stock. generated_site rd fr np scale chaos = Inr s \<and>
    resolved_record pr s (p_id p ! i) (int day) = Inr shown \<and>
    map_of shown (u ''price'') = shown_price (map_of (d_bad (build_all np scale)) (p_id p ! i)) (fr price) \<and>
    map_of shown (u ''in_stock'') = Some (JBool stock) \<and>
    (\<not> (changed_price np scale day (p_id p ! i) \<and> changed_stock np scale day (p_id p ! i)) \<longrightarrow>
       price = run_price (running_on np scale day) ! i \<and> stock = run_stock (running_on np scale day) ! i) \<and>
    (case last_change np scale day (p_id p ! i) of
       Some (NewPrice _) \<Rightarrow> price = run_price (running_on np scale day) ! i \<and> stock = p_in_stock p ! i
     | Some (NewStock _) \<Rightarrow> price = p_price p ! i \<and> stock = run_stock (running_on np scale day) ! i
     | None \<Rightarrow> price = p_price p ! i \<and> stock = p_in_stock p ! i)"
proof -
  define pid where "pid = p_id p ! i"
  obtain s where s: "generated_site rd fr np scale chaos = Inr s"
    "products s = map (\<lambda>i. (p_id p ! i, product_row fr p i)) [0..<length (p_id p)]" "n_days s = int N_DAYS"
    "change_days s = map (\<lambda>(d, changes). (int d, map (\<lambda>(pid, c). (pid, change_rec fr c)) changes)) (d_days (build_all np scale))"
    "map_of (bad_map s) = map_of (d_bad (build_all np scale))"
    unfolding p_def by (rule generated_site_fields [OF assms(1-3)])
  have "distinct (map fst (products s))" by (simp add: s(2) comp_def map_nth p_def corpus_sizes(4) [OF assms(1-3)])
  moreover have "(pid, product_row fr p i) \<in> set (products s)" using assms(4) by (auto simp: s(2) p_def pid_def)
  ultimately have row: "map_of (products s) pid = Some (product_row fr p i)" by simp
  define c where "c = last_change np scale day pid"
  define q where "q = merge (product_row fr p i) (case c of None \<Rightarrow> [] | Some c \<Rightarrow> change_rec fr c)"
  define price where "price = (case c of Some (NewPrice x) \<Rightarrow> x | _ \<Rightarrow> p_price p ! i)"
  define stock where "stock = (case c of Some (NewStock b) \<Rightarrow> b | _ \<Rightarrow> p_in_stock p ! i)"
  have "nat (max 0 (min (int day) (n_days s - 1))) = day" using assms(5) by (simp add: s(3) N_DAYS_def)
  then have e: "effective_product s pid (int day) = Inr q"
    using latest_generated [of s pid fr np scale day, OF delta_generated [OF assms(1-3) s(4)]]
    by (simp add: overlay_is_latest_delta row q_def c_def)
  have f: "map_of q (u ''price'') = Some (JFloat (fr price))" "map_of q (u ''in_stock'') = Some (JBool stock)"
    using shown_fields [of fr p i c] by (simp_all add: q_def price_def stock_def)
  have d: "map_of q (u ''description'') = Some (JStr (p_description p ! i))"
  proof (cases c)
    case None
    then show ?thesis by (simp add: q_def map_of_merge product_row_def)
  next
    case (Some ch)
    then show ?thesis by (cases ch) (simp_all add: q_def map_of_merge product_row_def)
  qed
  obtain shown where shown: "apply_defect pr s q pid = Inr shown" "map_of shown (u ''in_stock'') = Some (JBool stock)"
      "map_of shown (u ''price'') = shown_price (map_of (bad_map s) pid) (fr price)"
    by (rule defect_applied [OF f d])
  have r: "resolved_record pr s pid (int day) = Inr shown" by (simp add: resolved_record_def e shown(1))
  note last = running_last [OF assms(1-3,5,4), folded p_def, folded pid_def]
  note un = running_unchanged [OF assms(1-3,5,4), folded p_def, folded pid_def]
  have v: "case c of
       Some (NewPrice _) \<Rightarrow> price = run_price (running_on np scale day) ! i \<and> stock = p_in_stock p ! i
     | Some (NewStock _) \<Rightarrow> price = p_price p ! i \<and> stock = run_stock (running_on np scale day) ! i
     | None \<Rightarrow> price = p_price p ! i \<and> stock = p_in_stock p ! i"
    using last by (auto simp: c_def price_def stock_def split: option.split change.split)
  have "price = run_price (running_on np scale day) ! i \<and> stock = run_stock (running_on np scale day) ! i"
    if "\<not> (changed_price np scale day pid \<and> changed_stock np scale day pid)"
  proof (cases c)
    case None
    then show ?thesis using v un last_change_kind(3) [of np scale day pid] by (simp add: c_def)
  next
    case (Some ch)
    then show ?thesis using v un that last_change_kind(1,2) [of np scale day pid] by (cases ch) (auto simp: c_def)
  qed
  then show ?thesis using s(1) r shown(2,3) v unfolding s(5) c_def pid_def by blast
qed

lemma site_shows_last_change_witness:
  "\<exists>s shown. generated_site (\<lambda>_. 50) (\<lambda>_. u ''50.0'') counter_rng 1 [] = Inr s \<and>
    resolved_record \<lparr>pr_str = (\<lambda>_. []), pr_float = (\<lambda>_. None)\<rparr> s (p_id (d_products (build_all counter_rng 1)) ! 7) (int 2) = Inr shown \<and>
    map_of shown (u ''price'') =
      shown_price (map_of (d_bad (build_all counter_rng 1)) (p_id (d_products (build_all counter_rng 1)) ! 7)) (u ''50.0'')"
proof -
  have "7 < length (p_id (d_products (build_all counter_rng 1)))" "2 < N_DAYS"
    using corpus_sizes(5,6) [OF counter.numpy_rng_axioms, of 1] by (simp_all add: N_DAYS_def)
  from site_shows_last_change [OF counter.numpy_rng_axioms _ _ this, of "\<lambda>_. 50" "\<lambda>_. u ''50.0''" "[]" "\<lparr>pr_str = (\<lambda>_. []), pr_float = (\<lambda>_. None)\<rparr>"]
  show ?thesis by fastforce
qed

section \<open>No product page is a trap\<close>

lemma path_digits: "0 \<le> k \<Longrightarrow> digits_value (int_str k) = Some k"
proof -
  assume k: "0 \<le> k"
  have f: "foldl (\<lambda>n c. 10 * n + the (digit_value c)) acc (chars_of_digits ds) = num_of_digits acc ds"
    if "\<forall>d \<in> set ds. d < 10" for acc ds
    using that
  proof (induction ds arbitrary: acc)
    case Nil
    then show ?case by (simp add: chars_of_digits_def)
  next
    case (Cons d ds)
    then show ?case using the_digit_value_chars [of "[d]"] by (simp add: chars_of_digits_def)
  qed
  have d: "\<forall>d \<in> set (digits_of (nat k)). d < 10" by (blast dest: digits_of_less)
  have "list_all is_digit (nat_str (nat k))"
  proof (unfold list_all_iff, rule ballI)
    fix x assume "x \<in> set (nat_str (nat k))"
    then have "48 \<le> x" "x < 58" using nat_str_chars by blast+
    then show "is_digit x" using is_digit_ascii [of "x - 48"] by simp
  qed
  then show ?thesis using k f [OF d, of 0] nat_str_nonempty [of "nat k", unfolded nat_str_def] by (simp add: digits_value_def int_str_def nat_str_def num_of_digits_of)
qed

lemma product_path:
  "0 \<le> k \<Longrightarrow> product_in_path (u ''/product/'' @ int_str k) = Some k"
  "0 \<le> k \<Longrightarrow> product_in_path (u ''/api/product/'' @ int_str k) = Some k"
  by (simp_all add: product_in_path_def path_digits startswith_def)

text \<open>
  C17. The pages of the catalog are safe.  For a client that is not banned and sends valid headers, a
  request for the page or the API record of any catalog product goes to the token bucket and
  springs no trap, while the page of every honeypot id of the specification bans at once: the
  honeypot ids are above all product ids.
\<close>

theorem catalog_pages_safe:
  assumes "numpy_rng np" "0 \<le> scale" "scale \<le> 1000000"
  defines "p \<equiv> d_products (build_all np scale)" and "hp \<equiv> hp_ids (d_honeypots (build_all np scale))"
  shows "\<exists>s. generated_site rd fr np scale chaos = Inr s \<and>
    (\<forall>c r now nonce. \<not> c_banned c \<and> headers_ok s r \<longrightarrow>
      (\<forall>i < length (p_url p). rq_path r \<in> {p_url p ! i, u ''/api'' @ p_url p ! i} \<longrightarrow>
         defend s c r now nonce = take_token s c now) \<and>
      (\<forall>k \<in> set hp. rq_path r = u ''/product/'' @ int_str k \<longrightarrow>
         defend s c r now nonce = (spring_trap c, Some (decoy_reply False nonce))))"
proof -
  obtain s where s: "generated_site rd fr np scale chaos = Inr s" "honeypots s = hp"
    unfolding hp_def by (rule generated_site_fields [OF assms(1-3)])
  define n where "n = scaled_count 50 N_PRODUCTS_BASE scale"
  note c = corpus_sizes [OF assms(1-3)]
  have hp: "hp = [n + 1..n + max 1 (scaled_count 5 HONEYPOT_COUNT_BASE scale)]"
    unfolding hp_def build_all_fields build_honeypots_def Let_def n_def
    by (rule pred_seeded [where P = "\<lambda>h. hp_ids h = _"], rule pred_bind [OF pred_any]) simp
  have real: "product_in_path (p_url p ! i) = Some (int i + 1) \<and> product_in_path (u ''/api'' @ p_url p ! i) = Some (int i + 1) \<and>
      int i + 1 \<notin> set hp \<and> \<not> startswith (p_url p ! i) (u ''/trap/'') \<and> \<not> startswith (u ''/api'' @ p_url p ! i) (u ''/trap/'')"
    if i: "i < length (p_url p)" for i
  proof -
    have u: "p_url p ! i = u ''/product/'' @ int_str (int i + 1)"
      using i c(1) unfolding p_def c(10) by (simp del: upt_Suc add: add.commute)
    have "int i + 1 \<le> n" using i c(5,6) unfolding p_def c(10) by (simp add: n_def)
    moreover have "u ''/api'' @ u ''/product/'' @ x = u ''/api/product/'' @ x" for x by simp
    ultimately show ?thesis
      using product_path [of "int i + 1"] by (simp add: u hp startswith_def)
  qed
  have trap: "product_in_path (u ''/product/'' @ int_str k) = Some k \<and> \<not> startswith (u ''/product/'' @ int_str k) (u ''/trap/'') \<and>
      \<not> startswith (u ''/product/'' @ int_str k) (u ''/api/'')" if "k \<in> set hp" for k
  proof -
    have "0 \<le> k" using that by (auto simp: hp n_def scaled_count_def)
    then show ?thesis using product_path(1) [of k] by (simp add: startswith_def)
  qed
  show ?thesis
    using s(1) real trap by (intro exI [of _ s]) (auto simp: defend_def s(2) Let_def)
qed

lemma catalog_pages_safe_witness:
  "\<exists>s. generated_site (\<lambda>_. 50) (\<lambda>_. u ''50.0'') counter_rng 1 [] = Inr s \<and>
    (\<forall>r. headers_ok s r \<and> rq_path r = p_url (d_products (build_all counter_rng 1)) ! 7 \<longrightarrow>
       defend s (new_client s 0) r 0 [] = take_token s (new_client s 0) 0)"
proof -
  have n: "7 < length (p_url (d_products (build_all counter_rng 1)))"
    using corpus_sizes(5,6,10) [OF counter.numpy_rng_axioms, of 1] by simp
  from catalog_pages_safe [OF counter.numpy_rng_axioms, of 1 "\<lambda>_. 50" "\<lambda>_. u ''50.0''" "[]"]
  obtain s where s: "generated_site (\<lambda>_. 50) (\<lambda>_. u ''50.0'') counter_rng 1 [] = Inr s"
    "\<forall>c r now nonce. \<not> c_banned c \<and> headers_ok s r \<longrightarrow>
      (\<forall>i < length (p_url (d_products (build_all counter_rng 1))).
         rq_path r \<in> {p_url (d_products (build_all counter_rng 1)) ! i, u ''/api'' @ p_url (d_products (build_all counter_rng 1)) ! i} \<longrightarrow>
         defend s c r now nonce = take_token s c now)"
    by auto
  have "\<not> c_banned (new_client s 0)" by (simp add: new_client_def)
  then show ?thesis using s n by blast
qed

end
