(* ===== verification/EventGen.thy ===== *)
theory EventGen
  imports NumpyRng Observations PyLines Json
begin

text \<open>
  The world behind the PriceWatch events (03-data-modeling/harness/events.py): shops, products,
  listings and their lifecycle, and the admin events.  One random generator is threaded through all
  builders.  Times are POSIX seconds as floats.  \<open>math.sin\<close>, \<open>exp\<close> and the power of floats are those
  of the numeric library.
\<close>

section \<open>Floats and loops\<close>

definition fadd :: "rat \<Rightarrow> rat \<Rightarrow> rat" where
  "fadd x y = fl (x + y)"

definition fsub :: "rat \<Rightarrow> rat \<Rightarrow> rat" where
  "fsub x y = fl (x - y)"

definition fmul :: "rat \<Rightarrow> rat \<Rightarrow> rat" where
  "fmul x y = fl (x * y)"

definition fquot :: "rat \<Rightarrow> rat \<Rightarrow> rat" where
  "fquot x y = fl (x / y)"

text \<open>\<open>int(x)\<close> of a float.\<close>

definition trunc :: "rat \<Rightarrow> int" where
  "trunc x = (if x < 0 then - \<lfloor>- x\<rfloor> else \<lfloor>x\<rfloor>)"

definition rnd :: "'g numpy \<Rightarrow> ('g, rat) draw" where
  "rnd np = one (np_random np None)"

definition pick :: "'g numpy \<Rightarrow> nat \<Rightarrow> ('g, nat) draw" where
  "pick np n = map_state nat (one (np_integers np 0 (int n) None))"

fun fold_draw :: "('s \<Rightarrow> 'a \<Rightarrow> ('g, 's) draw) \<Rightarrow> 's \<Rightarrow> 'a list \<Rightarrow> ('g, 's) draw" where
  "fold_draw f s [] = State_Monad.return s"
| "fold_draw f s (x # xs) = do { s' \<leftarrow> f s x; fold_draw f s' xs }"

text \<open>\<open>[x for x in xs if rng.random() < q]\<close>.\<close>

fun filter_draw :: "'g numpy \<Rightarrow> rat \<Rightarrow> 'a list \<Rightarrow> ('g, 'a list) draw" where
  "filter_draw np q [] = State_Monad.return []"
| "filter_draw np q (x # xs) = do {
     r \<leftarrow> rnd np;
     ys \<leftarrow> filter_draw np q xs;
     State_Monad.return (if r < q then x # ys else ys)
   }"

section \<open>Constants\<close>

definition DAY :: rat where
  "DAY = 86400"

definition HOUR :: rat where
  "HOUR = 3600"

definition T_start :: rat where
  "T_start = of_int (instant_of start_date 0)"

definition T_end :: rat where
  "T_end = of_int (instant_of end_date 0)"

text \<open>\<open>T0 + d * DAY\<close>, for whole days.\<close>

definition day_mark :: "int \<Rightarrow> rat" where
  "day_mark d = fadd T_start (fmul (of_int d) DAY)"

definition math_pi :: rat where
  "math_pi = 884279719003555 / 281474976710656"

definition CATEGORIES :: "pystr list" where
  "CATEGORIES = [u ''electronics'', u ''home-appliances'', u ''kitchen'', u ''toys'', u ''sporting-goods'',
     u ''office-supplies'', u ''beauty'', u ''grocery'', u ''pet-supplies'', u ''tools'', u ''furniture'',
     u ''footwear'', u ''apparel'', u ''books'', u ''garden'']"

definition BRANDS :: "pystr list" where
  "BRANDS = [u ''Northwind'', u ''Vertex'', u ''Solace'', u ''Marlowe'', u ''Iron Fox'', u ''Blue Harbor'',
     u ''Cedarline'', u ''Quartz'', u ''Redshift'', u ''Amberly'', u ''Foxglove'', u ''Greystone'', u ''Halcyon'',
     u ''Ivory Road'', u ''Junction'', u ''Kestrel'', u ''Lumen'', u ''Meridian'', u ''Novus'', u ''Outland'']"

definition COUNTRIES :: "pystr list" where
  "COUNTRIES = [u ''US'', u ''DE'', u ''GB'', u ''FR'', u ''NL'', u ''PL'', u ''ES'', u ''IT'']"

definition TIERS :: "pystr list" where
  "TIERS = [u ''bronze'', u ''silver'', u ''gold'']"

definition TIER_WEIGHTS :: "rat list" where
  "TIER_WEIGHTS = [1 / 2, fl (35 / 100), fl (15 / 100)]"

definition CATEGORY_PRICE_SCALE :: "(pystr \<times> rat) list" where
  "CATEGORY_PRICE_SCALE =
     [(u ''electronics'', 220), (u ''home-appliances'', 160), (u ''kitchen'', 55), (u ''toys'', 28),
      (u ''sporting-goods'', 60), (u ''office-supplies'', 18), (u ''beauty'', 22), (u ''grocery'', 8),
      (u ''pet-supplies'', 25), (u ''tools'', 70), (u ''furniture'', 240), (u ''footwear'', 75),
      (u ''apparel'', 45), (u ''books'', 16), (u ''garden'', 40)]"

definition SHOP_ADJ :: "pystr list" where
  "SHOP_ADJ = [u ''Prime'', u ''Metro'', u ''Alpine'', u ''Coastal'', u ''Urban'', u ''Golden'', u ''Rapid'', u ''Bright'',
     u ''Nordic'', u ''Central'', u ''Velvet'', u ''Summit'', u ''Harbor'', u ''Cobalt'', u ''Maple'', u ''Aurora'',
     u ''Falcon'', u ''Beacon'', u ''Cinder'', u ''Willow'', u ''Granite'', u ''Silver'', u ''Copper'', u ''Onyx'',
     u ''Ember'', u ''Frost'', u ''Lantern'', u ''Meadow'', u ''Orchard'', u ''Pioneer'', u ''Quarry'', u ''Ridge'']"

definition SHOP_NOUN :: "pystr list" where
  "SHOP_NOUN = [u ''Market'', u ''Depot'', u ''Outlet'', u ''Bazaar'', u ''Store'', u ''Trading'', u ''Goods'', u ''Supply'',
     u ''Mart'', u ''Exchange'', u ''Emporium'', u ''Warehouse'', u ''Corner'', u ''Hub'', u ''Cart'', u ''Shelf'']"

definition PRODUCT_NOUN :: "pystr list" where
  "PRODUCT_NOUN = [u ''Blender'', u ''Kettle'', u ''Lamp'', u ''Router'', u ''Headphones'', u ''Monitor'', u ''Keyboard'',
     u ''Drill'', u ''Backpack'', u ''Sneakers'', u ''Jacket'', u ''Mixer'', u ''Vacuum'', u ''Camera'',
     u ''Speaker'', u ''Charger'', u ''Desk'', u ''Chair'', u ''Mat'', u ''Bottle'', u ''Tent'', u ''Scale'',
     u ''Fan'', u ''Heater'', u ''Grinder'', u ''Toaster'', u ''Tripod'', u ''Notebook'', u ''Marker'', u ''Rack'']"

definition CLIENT_WORDS :: "pystr list" where
  "CLIENT_WORDS = [u ''Argon'', u ''Basalt'', u ''Corsair'', u ''Delta'', u ''Everest'', u ''Fathom'', u ''Glacier'',
     u ''Helix'', u ''Icarus'', u ''Juno'', u ''Krypton'', u ''Lattice'', u ''Mistral'', u ''Nimbus'',
     u ''Orbit'', u ''Pylon'', u ''Quasar'', u ''Rhombus'', u ''Sable'', u ''Tundra'', u ''Umbra'', u ''Vector'']"

definition home_currency :: "pystr \<Rightarrow> pystr" where
  "home_currency country = get_or (u ''EUR'') [(u ''US'', u ''USD''), (u ''GB'', u ''GBP'')] country"

section \<open>Shops, products and listings\<close>

text \<open>\<open>s.replace(a, "")\<close>, \<open>s.split(" ", 1)[1]\<close>, and \<open>upper\<close> on ASCII.\<close>

fun remove_from :: "pystr \<Rightarrow> nat \<Rightarrow> pystr \<Rightarrow> pystr" where
  "remove_from a k [] = []"
| "remove_from a k (c # s) =
     (case k of
        Suc k' \<Rightarrow> remove_from a k' s
      | 0 \<Rightarrow> if startswith (c # s) a then remove_from a (length a - 1) s else c # remove_from a 0 s)"

definition after_blank :: "pystr \<Rightarrow> pystr" where
  "after_blank s = tl (dropWhile (\<lambda>c. c \<noteq> 32) s)"

definition upper :: "pystr \<Rightarrow> pystr" where
  "upper s = map ascii_upper s"

definition title_variant :: "nat \<Rightarrow> pystr \<Rightarrow> pystr \<Rightarrow> pystr \<Rightarrow> pystr" where
  "title_variant kind canonical brand shop_code =
     (if kind = 0 then canonical
      else if kind = 1 then upper canonical
      else if kind = 2 then remove_from (brand @ u '' '') 0 canonical @ u '' by '' @ brand
      else if kind = 3 then canonical @ u '' ('' @ shop_code @ u '' exclusive)''
      else upper (take 3 brand) @ u ''. '' @ after_blank canonical)"

definition local_title_variant :: "'g numpy \<Rightarrow> pystr \<Rightarrow> pystr \<Rightarrow> pystr \<Rightarrow> ('g, pystr) draw" where
  "local_title_variant np canonical brand shop_code = do {
     kind \<leftarrow> pick np 5;
     State_Monad.return (title_variant kind canonical brand shop_code)
   }"

record shop =
  sh_code :: pystr
  sh_name :: pystr
  sh_country :: pystr
  sh_tier :: pystr
  sh_currency :: pystr
  sh_registered :: rat
  sh_factor :: rat
  sh_activity :: rat

definition registered_at :: "rat \<Rightarrow> rat \<Rightarrow> rat" where
  "registered_at r q =
     (if r < fl (6 / 10) then fadd T_start (fmul (fmul q 90) DAY)
      else if r < fl (9 / 10) then fadd T_start (fmul (fadd 90 (fmul q 150)) DAY)
      else fadd T_start (fmul (fadd 240 (fmul q 190)) DAY))"

definition build_shop :: "'g numpy \<Rightarrow> nat \<Rightarrow> ('g, shop) draw" where
  "build_shop np i = do {
     country \<leftarrow> pick np (length COUNTRIES);
     tier \<leftarrow> one (np_choice np (length TIERS) (Some TIER_WEIGHTS) None);
     r \<leftarrow> rnd np;
     q \<leftarrow> rnd np;
     factor \<leftarrow> rnd np;
     activity \<leftarrow> rnd np;
     State_Monad.return
       \<lparr>sh_code = u ''S'' @ pad 3 (i + 1),
        sh_name = SHOP_ADJ ! (i mod length SHOP_ADJ) @ u '' '' @ SHOP_NOUN ! (i * 7 mod length SHOP_NOUN),
        sh_country = COUNTRIES ! country, sh_tier = TIERS ! tier, sh_currency = home_currency (COUNTRIES ! country),
        sh_registered = registered_at r q,
        sh_factor = fadd (fl (8 / 10)) (fmul factor (1 / 2)), sh_activity = fadd (1 / 2) activity\<rparr>
   }"

definition build_shops :: "'g numpy \<Rightarrow> nat \<Rightarrow> ('g, shop list) draw" where
  "build_shops np n = State_Monad.traverse_list (build_shop np) [0..<n]"

record product =
  pr_code :: pystr
  pr_brand :: pystr
  pr_category :: pystr
  pr_title :: pystr
  pr_base :: rat
  pr_birth :: rat
  pr_popularity :: rat
  pr_repr_times :: "rat list"
  pr_repr_mults :: "rat list"

definition repr_mult :: "'g numpy \<Rightarrow> rat \<Rightarrow> rat \<Rightarrow> rat \<Rightarrow> rat \<Rightarrow> rat \<Rightarrow> ('g, rat) draw" where
  "repr_mult np season_amp phase drift birth t = do {
     w \<leftarrow> one (np_normal np 0 (fl (5 / 100)) None);
     State_Monad.return (let
         angle = fadd (fquot (fmul (fmul 2 math_pi) (fsub t T_start)) (fmul 365 DAY)) phase;
         seasonal = fadd 1 (fmul season_amp (np_sin np angle));
         wobble = fadd 1 w
       in fmul (fmul seasonal (fadd 1 (fmul drift (fsub t birth)))) wobble)
   }"

definition build_product :: "'g numpy \<Rightarrow> nat \<Rightarrow> ('g, product) draw" where
  "build_product np i = do {
     b \<leftarrow> pick np (length BRANDS);
     noun \<leftarrow> pick np (length PRODUCT_NOUN);
     l1 \<leftarrow> pick np 26;
     l2 \<leftarrow> pick np 26;
     num \<leftarrow> one (np_integers np 100 999 None);
     c \<leftarrow> pick np (length CATEGORIES);
     e \<leftarrow> one (np_normal np 0 (1 / 2) None);
     bt \<leftarrow> one (np_beta np (fl (12 / 10)) (5 / 2) None);
     f \<leftarrow> rnd np;
     let birth = fadd T_start (fmul (fmul bt 660) DAY);
     let n_repr = nat (1 + trunc (fquot (fsub T_end birth) (fmul (fmul 45 DAY) (max (fl (2 / 10)) (fadd f (fl (3 / 10)))))));
     rs \<leftarrow> np_random np (Some n_repr);
     let repr_times = birth # sort (map (\<lambda>r. fadd birth (fmul r (fsub T_end birth))) rs);
     amp \<leftarrow> rnd np;
     ph \<leftarrow> rnd np;
     dr \<leftarrow> rnd np;
     let drift = fquot (fsub (fmul dr (1 / 4)) (fl (1 / 10))) (fmul 365 DAY);
     mults \<leftarrow> State_Monad.traverse_list
       (repr_mult np (fmul amp (fl (12 / 100))) (fmul (fmul ph 2) math_pi) drift birth) repr_times;
     State_Monad.return
       \<lparr>pr_code = u ''P'' @ pad 5 (i + 1), pr_brand = BRANDS ! b, pr_category = CATEGORIES ! c,
        pr_title = BRANDS ! b @ u '' '' @ PRODUCT_NOUN ! noun @ u '' '' @ [65 + l1, 65 + l2] @ u ''-'' @ int_str num,
        pr_base = fmul (get_or 0 CATEGORY_PRICE_SCALE (CATEGORIES ! c)) (np_exp np e),
        pr_birth = birth,
        pr_popularity = fquot 1 (np_pow np (of_nat (i mod 997 + 1)) (fl (7 / 10))),
        pr_repr_times = repr_times, pr_repr_mults = mults\<rparr>
   }"

definition build_products :: "'g numpy \<Rightarrow> nat \<Rightarrow> ('g, product list) draw" where
  "build_products np n = State_Monad.traverse_list (build_product np) [0..<n]"

record listing_rec =
  li_s :: nat
  li_p :: nat
  li_discovered :: rat
  li_noise :: rat
  li_delist :: "rat option"
  li_relist :: "rat option"

fun product_listings :: "'g numpy \<Rightarrow> shop list \<Rightarrow> nat \<Rightarrow> product \<Rightarrow> nat list \<Rightarrow> ('g, listing_rec list) draw" where
  "product_listings np shops p_idx pd [] = State_Monad.return []"
| "product_listings np shops p_idx pd (s_idx # ss) = do {
     e \<leftarrow> one (np_exponential np (fmul 15 DAY) None);
     let disc = fadd (max (pr_birth pd) (fadd (sh_registered (shops ! s_idx)) (fmul 1 DAY))) e;
     if disc > fsub T_end (fmul 30 DAY) then product_listings np shops p_idx pd ss
     else do {
       z \<leftarrow> one (np_normal np 0 (fl (3 / 100)) None);
       rest \<leftarrow> product_listings np shops p_idx pd ss;
       State_Monad.return
         (\<lparr>li_s = s_idx, li_p = p_idx, li_discovered = disc, li_noise = fadd 1 z, li_delist = None, li_relist = None\<rparr> # rest)
     }
   }"

definition build_listings :: "'g numpy \<Rightarrow> shop list \<Rightarrow> product list \<Rightarrow> ('g, listing_rec list) draw" where
  "build_listings np shops prods =
     map_state concat (State_Monad.traverse_list (\<lambda>(p_idx, pd). do {
       z \<leftarrow> one (np_zipf np (fl (16 / 10)) None);
       shop_ids \<leftarrow> np_sample np (length shops) None (min (length shops) (2 + z mod 9));
       product_listings np shops p_idx pd shop_ids
     }) (zip [0..<length prods] prods))"


section \<open>Lifecycle\<close>

definition relist_after :: "rat \<Rightarrow> rat \<Rightarrow> rat \<Rightarrow> rat" where
  "relist_after d r days = fadd d (fmul (fadd 10 (fmul r days)) DAY)"

definition between :: "rat \<Rightarrow> rat \<Rightarrow> rat \<Rightarrow> rat" where
  "between lo hi r = fadd lo (fmul r (fsub hi lo))"

type_synonym lifecycle_state = "listing_rec list \<times> nat \<times> nat"

definition plain_delist :: "'g numpy \<Rightarrow> listing_rec list \<Rightarrow> nat \<Rightarrow> rat \<Rightarrow> ('g, listing_rec list) draw" where
  "plain_delist np ls k lo = do {
     r \<leftarrow> rnd np;
     let d = between lo (fsub T_end (fmul 20 DAY)) r;
     let ls' = ls[k := (ls ! k)\<lparr>li_delist := Some d\<rparr>];
     q \<leftarrow> rnd np;
     if q < fl (55 / 100) then do {
       r2 \<leftarrow> rnd np;
       let t = relist_after d r2 65;
       State_Monad.return (if t < fsub T_end (fmul 5 DAY) then ls'[k := (ls' ! k)\<lparr>li_relist := Some t\<rparr>] else ls')
     } else State_Monad.return ls'
   }"

definition lifecycle_step :: "'g numpy \<Rightarrow> lifecycle_state \<Rightarrow> nat \<Rightarrow> ('g, lifecycle_state) draw" where
  "lifecycle_step np st k =
     (case st of (ls, recover, churn) \<Rightarrow>
      let lo = fadd (li_discovered (ls ! k)) (fmul 30 DAY); d_lo = max lo (day_mark 400) in
      if lo > fsub T_end (fmul 20 DAY) then State_Monad.return st
      else if recover < 5 \<and> d_lo < day_mark 580 then do {
        r \<leftarrow> rnd np;
        let d = between d_lo (day_mark 580) r;
        r2 \<leftarrow> rnd np;
        State_Monad.return
          (ls[k := (ls ! k)\<lparr>li_delist := Some d, li_relist := Some (relist_after d r2 40)\<rparr>], recover + 1, churn)
      }
      else if churn < 4 \<and> d_lo < day_mark 700 then do {
        r \<leftarrow> rnd np;
        State_Monad.return (ls[k := (ls ! k)\<lparr>li_delist := Some (between d_lo (day_mark 700) r)\<rparr>], recover, churn + 1)
      }
      else do {
        ls' \<leftarrow> plain_delist np ls k lo;
        State_Monad.return (ls', recover, churn)
      })"

definition assign_lifecycle :: "'g numpy \<Rightarrow> listing_rec list \<Rightarrow> ('g, listing_rec list) draw" where
  "assign_lifecycle np ls = do {
     idx \<leftarrow> np_permutation np (length ls);
     (ls', recover, churn) \<leftarrow>
       fold_draw (lifecycle_step np) (ls, 0, 0) (take (nat (max 10 (trunc (fmul (fl (15 / 100)) (of_nat (length ls)))))) idx);
     State_Monad.return ls'
   }"

section \<open>Admin events\<close>

type_synonym fields = "(pystr \<times> json) list"

record admin =
  ad_ing :: rat
  ad_time :: rat
  ad_type :: pystr
  ad_fields :: fields

definition emit :: "'g numpy \<Rightarrow> rat \<Rightarrow> pystr \<Rightarrow> fields \<Rightarrow> rat \<Rightarrow> ('g, admin) draw" where
  "emit np t etype payload max_delay = do {
     r \<leftarrow> rnd np;
     State_Monad.return \<lparr>ad_ing = fadd (fadd t 1) (fmul r max_delay), ad_time = t, ad_type = etype, ad_fields = payload\<rparr>
   }"

definition registration :: "'g numpy \<Rightarrow> shop \<Rightarrow> ('g, admin) draw" where
  "registration np sh =
     emit np (sh_registered sh) (u ''shop_registered'')
       [(u ''shop_code'', JStr (sh_code sh)), (u ''name'', JStr (sh_name sh)), (u ''country'', JStr (sh_country sh)),
        (u ''tier'', JStr (sh_tier sh)), (u ''home_currency'', JStr (sh_currency sh))] 300"

text \<open>The time of a change of the \<open>i\<close>-th chosen shop; the first ones are kept early.\<close>

definition shop_change_time :: "rat \<Rightarrow> bool \<Rightarrow> int \<Rightarrow> rat \<Rightarrow> rat \<Rightarrow> rat" where
  "shop_change_time lo early mark days r =
     (if early then min (fadd (max lo (day_mark mark)) (fmul (fmul r days) DAY)) (day_mark 250)
      else fadd lo (fmul r (max DAY (fsub (fsub T_end (fmul 30 DAY)) lo))))"

definition out_of_range :: "shop \<Rightarrow> rat \<Rightarrow> bool" where
  "out_of_range sh t \<longleftrightarrow> t \<ge> fsub T_end (fmul 5 DAY) \<or> t \<le> sh_registered sh"

definition rename_shop :: "'g numpy \<Rightarrow> nat \<times> shop \<Rightarrow> ('g, admin list) draw" where
  "rename_shop np ish =
     (case ish of (i, sh) \<Rightarrow> do {
        r \<leftarrow> rnd np;
        let t = shop_change_time (fadd (sh_registered sh) (fmul 60 DAY)) (i < 2) 70 120 r;
        if out_of_range sh t then State_Monad.return []
        else do {
          e \<leftarrow> emit np t (u ''shop_renamed'')
            [(u ''shop_code'', JStr (sh_code sh)),
             (u ''new_name'', JStr (sh_name sh @ u '' '' @ [u ''Group'', u ''Online'', u ''Direct'', u ''Plus''] ! (i mod 4)))] 300;
          State_Monad.return [e]
        }
      })"

definition tier_event :: "'g numpy \<Rightarrow> rat \<Rightarrow> shop \<Rightarrow> pystr \<Rightarrow> ('g, admin) draw" where
  "tier_event np t sh tier =
     emit np t (u ''shop_tier_changed'') [(u ''shop_code'', JStr (sh_code sh)), (u ''new_tier'', JStr tier)] 300"

definition retier_shop :: "'g numpy \<Rightarrow> nat \<times> shop \<Rightarrow> ('g, admin list) draw" where
  "retier_shop np ish =
     (case ish of (i, sh) \<Rightarrow> do {
        r \<leftarrow> rnd np;
        let t = shop_change_time (fadd (sh_registered sh) (fmul 45 DAY)) (i < 3) 60 130 r;
        if out_of_range sh t then State_Monad.return []
        else do {
          let others = filter (\<lambda>x. x \<noteq> sh_tier sh) TIERS;
          k \<leftarrow> pick np (length others);
          let new_tier = others ! k;
          e \<leftarrow> tier_event np t sh new_tier;
          q \<leftarrow> rnd np;
          if q < fl (3 / 10) then do {
            r2 \<leftarrow> rnd np;
            let t2 = fadd t (fmul (fadd 60 (fmul r2 200)) DAY);
            if t2 < fsub T_end (fmul 5 DAY) then do {
              k2 \<leftarrow> pick np 2;
              e2 \<leftarrow> tier_event np t2 sh (filter (\<lambda>x. x \<noteq> new_tier) TIERS ! k2);
              State_Monad.return [e, e2]
            } else State_Monad.return [e]
          } else State_Monad.return [e]
        }
      })"

definition first_disc :: "listing_rec list \<Rightarrow> (nat \<times> rat) list" where
  "first_disc ls =
     foldl (\<lambda>m li. case map_of m (li_p li) of
         None \<Rightarrow> alist_set (li_p li) (li_discovered li) m
       | Some d \<Rightarrow> if li_discovered li < d then alist_set (li_p li) (li_discovered li) m else m) [] ls"

text \<open>The first occurrences, in order.\<close>

definition first_seen :: "'a list \<Rightarrow> 'a list" where
  "first_seen xs = rev (remdups (rev xs))"

definition attr_targets :: "(nat \<times> rat) list \<Rightarrow> nat \<Rightarrow> nat list \<Rightarrow> nat list" where
  "attr_targets fd n_attr order =
     (let early = map fst (filter (\<lambda>(i, d). d < day_mark 120) fd)
      in take n_attr (first_seen (take n_attr (take 4 early @ filter (\<lambda>i. i \<in> fst ` set fd) order))))"

definition attr_kind :: "'g numpy \<Rightarrow> nat \<Rightarrow> rat \<Rightarrow> ('g, rat \<times> pystr) draw" where
  "attr_kind np j lo = do {
     r \<leftarrow> rnd np;
     if j < 3 then State_Monad.return
       (fadd (max lo (day_mark 213)) (fmul r (max DAY (fsub (day_mark 480) (max lo (day_mark 213))))), u ''brand'')
     else do {
       q \<leftarrow> rnd np;
       State_Monad.return
         (fadd lo (fmul r (max DAY (fsub (fsub T_end (fmul 20 DAY)) lo))),
          if q < fl (4 / 10) then u ''canonical_title'' else if q < fl (7 / 10) then u ''brand'' else u ''category'')
     }
   }"

definition next_of :: "pystr list \<Rightarrow> pystr \<Rightarrow> nat \<Rightarrow> pystr" where
  "next_of xs x k = xs ! ((index_of x xs + 1 + k) mod length xs)"

definition attr_change :: "'g numpy \<Rightarrow> product \<Rightarrow> pystr \<Rightarrow> ('g, pystr \<times> pystr) draw" where
  "attr_change np pd kind =
     (if kind = u ''brand'' then map_state (\<lambda>k. (u ''brand'', next_of BRANDS (pr_brand pd) k)) (pick np 5)
      else if kind = u ''category'' then map_state (\<lambda>k. (u ''category'', next_of CATEGORIES (pr_category pd) k)) (pick np 4)
      else map_state (\<lambda>k. (u ''canonical_title'', pr_title pd @ u '' (rev. '' @ [66 + k] @ u '')'')) (pick np 3))"

definition attrs_event :: "'g numpy \<Rightarrow> rat \<Rightarrow> product \<Rightarrow> pystr \<times> pystr \<Rightarrow> ('g, admin) draw" where
  "attrs_event np t pd ch =
     emit np t (u ''product_attrs_changed'')
       [(u ''product_code'', JStr (pr_code pd)), (u ''changes'', JObj [(fst ch, JStr (snd ch))])] 300"

definition change_attrs :: "'g numpy \<Rightarrow> product list \<Rightarrow> (nat \<times> rat) list \<Rightarrow> nat \<times> nat \<Rightarrow> ('g, admin list) draw" where
  "change_attrs np prods fd target =
     (case target of (j, p_idx) \<Rightarrow> do {
        let pd = prods ! p_idx;
        (t, kind) \<leftarrow> attr_kind np j (fadd (get_or 0 fd p_idx) (fmul 30 DAY));
        if t \<ge> fsub T_end (fmul 5 DAY) then State_Monad.return []
        else do {
          ch \<leftarrow> attr_change np pd kind;
          e \<leftarrow> attrs_event np t pd ch;
          q \<leftarrow> rnd np;
          if q < 1 / 4 then do {
            r2 \<leftarrow> rnd np;
            let t2 = fadd t (fmul (fadd 40 (fmul r2 300)) DAY);
            if t2 < fsub T_end (fmul 10 DAY) then do {
              e2 \<leftarrow> attrs_event np t2 pd (u ''canonical_title'', pr_title pd @ u '' (rev. Z)'');
              State_Monad.return [e, e2]
            } else State_Monad.return [e]
          } else State_Monad.return [e]
        }
      })"

definition discovery_fields :: "shop \<Rightarrow> product \<Rightarrow> pystr \<Rightarrow> fields" where
  "discovery_fields sh pd title =
     [(u ''shop_code'', JStr (sh_code sh)), (u ''product_code'', JStr (pr_code pd)), (u ''local_title'', JStr title),
      (u ''canonical_title'', JStr (pr_title pd)), (u ''brand'', JStr (pr_brand pd)), (u ''category'', JStr (pr_category pd))]"

definition listing_events :: "'g numpy \<Rightarrow> shop list \<Rightarrow> product list \<Rightarrow> listing_rec \<Rightarrow> ('g, admin list) draw" where
  "listing_events np shops prods li = do {
     let sh = shops ! li_s li;
     let pd = prods ! li_p li;
     title \<leftarrow> local_title_variant np (pr_title pd) (pr_brand pd) (sh_code sh);
     d \<leftarrow> emit np (li_discovered li) (u ''product_discovered'') (discovery_fields sh pd title) 120;
     case li_delist li of
       None \<Rightarrow> State_Monad.return [d]
     | Some t \<Rightarrow> do {
         e \<leftarrow> emit np t (u ''product_delisted'') [(u ''shop_code'', JStr (sh_code sh)), (u ''product_code'', JStr (pr_code pd))] 300;
         case li_relist li of
           None \<Rightarrow> State_Monad.return [d, e]
         | Some t2 \<Rightarrow> do {
             title2 \<leftarrow> local_title_variant np (pr_title pd) (pr_brand pd) (sh_code sh);
             e2 \<leftarrow> emit np t2 (u ''product_relisted'')
               [(u ''shop_code'', JStr (sh_code sh)), (u ''product_code'', JStr (pr_code pd)), (u ''local_title'', JStr title2)] 300;
             State_Monad.return [d, e, e2]
           }
       }
   }"

definition enumerate_from_0 :: "'a list \<Rightarrow> (nat \<times> 'a) list" where
  "enumerate_from_0 xs = zip [0..<length xs] xs"

definition build_admin_events :: "'g numpy \<Rightarrow> shop list \<Rightarrow> product list \<Rightarrow> listing_rec list \<Rightarrow> ('g, admin list) draw" where
  "build_admin_events np shops prods ls = do {
     regs \<leftarrow> State_Monad.traverse_list (registration np) shops;
     renamed \<leftarrow> filter_draw np (fl (4 / 10)) shops;
     renames \<leftarrow> State_Monad.traverse_list (rename_shop np) (enumerate_from_0 renamed);
     tiered \<leftarrow> filter_draw np (1 / 2) shops;
     tiers \<leftarrow> State_Monad.traverse_list (retier_shop np) (enumerate_from_0 tiered);
     let fd = first_disc ls;
     order \<leftarrow> np_permutation np (length prods);
     let n_attr = nat (max 8 (trunc (fmul (fl (10 / 100)) (of_nat (length prods)))));
     attrs \<leftarrow> State_Monad.traverse_list (change_attrs np prods fd) (enumerate_from_0 (attr_targets fd n_attr order));
     lists \<leftarrow> State_Monad.traverse_list (listing_events np shops prods) ls;
     State_Monad.return (regs @ concat renames @ concat tiers @ concat attrs @ concat lists)
   }"

end
