(* ===== verification/EventStream.thy ===== *)
theory EventStream
  imports EventGen
begin

text \<open>
  The price observations of 03-data-modeling/harness/events.py and the merged stream in arrival
  order.  The parallel arrays of observations are one list of rows.  A line of a file is the record
  that is dumped; its text, the checksums and the metadata file are left out.  The square root of
  the scale is a parameter.
\<close>

section \<open>Price observations\<close>

record observed =
  ev_s :: nat
  ev_p :: nat
  ev_t :: rat
  ev_ing :: rat
  ev_amount :: rat
  ev_cur :: nat

definition listing_counts :: "'g numpy \<Rightarrow> shop list \<Rightarrow> product list \<Rightarrow> listing_rec list \<Rightarrow> int \<Rightarrow> nat list" where
  "listing_counts np shops prods ls total_obs =
     (let weights = map (\<lambda>li. fmul (pr_popularity (prods ! li_p li)) (sh_activity (shops ! li_s li))) ls;
          total = np_sum np weights
      in map (\<lambda>w. nat (max 3 (round_half_even (fmul (fquot w total) (of_int total_obs))))) weights)"

text \<open>The observation times of a listing: whole seconds, ascending, none while it is delisted.\<close>

definition hidden_at :: "listing_rec \<Rightarrow> rat \<Rightarrow> bool" where
  "hidden_at li t \<longleftrightarrow>
     (case li_delist li of
        None \<Rightarrow> False
      | Some d \<Rightarrow> d \<le> t \<and> t < fadd (case li_relist li of Some r \<Rightarrow> r | None \<Rightarrow> T_end) (fmul 6 HOUR))"

definition observation_times :: "listing_rec \<Rightarrow> rat \<Rightarrow> rat list \<Rightarrow> rat list" where
  "observation_times li lo rs =
     (let times = map (\<lambda>r. fadd lo (fmul r (fsub (fsub T_end HOUR) lo))) rs
      in sorted_set (map (\<lambda>t. of_int (round_half_even t)) (filter (\<lambda>t. \<not> hidden_at li t) times)))"

fun scatter :: "bool list \<Rightarrow> nat list \<Rightarrow> nat \<Rightarrow> nat list" where
  "scatter [] alts c = []"
| "scatter (False # bs) alts c = c # scatter bs alts c"
| "scatter (True # bs) [] c = c # scatter bs [] c"
| "scatter (True # bs) (a # alts) c = a # scatter bs alts c"

definition reference_price :: "product \<Rightarrow> rat \<Rightarrow> rat" where
  "reference_price pd t =
     fmul (pr_base pd) (pr_repr_mults pd ! (bisect_right (pr_repr_times pd) t - 1))"

definition observed_amount :: "rat \<Rightarrow> bool \<Rightarrow> rat \<Rightarrow> nat \<Rightarrow> rat" where
  "observed_amount usd promo q cur =
     (let usd' = (if promo then fmul usd (fadd (fl (65 / 100)) (fmul q (fl (15 / 100)))) else usd)
      in max (1 / 2) (np_round 2 (fquot usd' (fx_vec ! cur))))"

definition arrival_delay :: "rat \<Rightarrow> rat \<Rightarrow> rat \<Rightarrow> rat \<Rightarrow> rat \<Rightarrow> rat" where
  "arrival_delay r a b c d =
     (if r < fl (965 / 1000) then fadd 2 (fmul a 1800)
      else if r < fl (985 / 1000) then fmul (fadd 25 (fmul b 71)) HOUR
      else if r < fl (995 / 1000) then fmul (fadd 3 (fmul c 7)) DAY
      else fmul (fadd 1 (fmul d 23)) HOUR)"

definition observe_at :: "'g numpy \<Rightarrow> shop list \<Rightarrow> product list \<Rightarrow> listing_rec \<Rightarrow> rat list \<Rightarrow> ('g, observed list) draw" where
  "observe_at np shops prods li secs = do {
     let pd = prods ! li_p li;
     let sh = shops ! li_s li;
     let k = length secs;
     promo \<leftarrow> np_random np (Some k);
     q \<leftarrow> np_random np (Some k);
     sw \<leftarrow> np_random np (Some k);
     let switch = map (\<lambda>x. x < fl (3 / 100)) sw;
     alts \<leftarrow> (if True \<in> set switch then map_state (map nat) (np_integers np 0 (int (length currencies)) (Some (length (filter id switch))))
             else State_Monad.return []);
     let cur = scatter switch alts (index_of (sh_currency sh) currencies);
     r \<leftarrow> np_random np (Some k);
     a \<leftarrow> np_random np (Some k);
     b \<leftarrow> np_random np (Some k);
     c \<leftarrow> np_random np (Some k);
     d \<leftarrow> np_random np (Some k);
     State_Monad.return (map (\<lambda>i.
       \<lparr>ev_s = li_s li, ev_p = li_p li, ev_t = secs ! i,
        ev_ing = fadd (secs ! i) (arrival_delay (r ! i) (a ! i) (b ! i) (c ! i) (d ! i)),
        ev_amount = observed_amount (fmul (fmul (reference_price pd (secs ! i)) (sh_factor sh)) (li_noise li))
                      (promo ! i < fl (4 / 100)) (q ! i) (cur ! i),
        ev_cur = cur ! i\<rparr>) [0..<k])
   }"

definition listing_observations :: "'g numpy \<Rightarrow> shop list \<Rightarrow> product list \<Rightarrow> listing_rec \<times> nat \<Rightarrow> ('g, observed list) draw" where
  "listing_observations np shops prods li_n =
     (case li_n of (li, n) \<Rightarrow>
      let lo = fadd (li_discovered li) (fmul 6 HOUR) in
      if lo \<ge> fsub T_end HOUR then State_Monad.return []
      else do {
        rs \<leftarrow> np_random np (Some n);
        let secs = observation_times li lo rs;
        if secs = [] then State_Monad.return [] else observe_at np shops prods li secs
      })"

text \<open>One in a hundred arrives again, up to an hour later.\<close>

definition again :: "observed \<Rightarrow> rat \<Rightarrow> observed" where
  "again o1 q = o1\<lparr>ev_ing := fadd (fadd (ev_ing o1) 60) (fmul q 3540)\<rparr>"

definition arrive_again :: "'g numpy \<Rightarrow> observed list \<Rightarrow> ('g, observed list) draw" where
  "arrive_again np rows = do {
     mask \<leftarrow> np_random np (Some (length rows));
     let dup = filter (\<lambda>i. mask ! i < fl (1 / 100)) [0..<length rows];
     if dup = [] then State_Monad.return rows
     else do {
       q \<leftarrow> np_random np (Some (length dup));
       State_Monad.return (rows @ map (\<lambda>(i, x). again (rows ! i) x) (zip dup q))
     }
   }"

text \<open>Without any observation the arrays cannot be concatenated and the generator raises.\<close>

definition build_observations :: "'g numpy \<Rightarrow> shop list \<Rightarrow> product list \<Rightarrow> listing_rec list \<Rightarrow> int \<Rightarrow> ('g, observed list option) draw" where
  "build_observations np shops prods ls total_obs = do {
     chunks \<leftarrow> State_Monad.traverse_list (listing_observations np shops prods)
                 (zip ls (listing_counts np shops prods ls total_obs));
     let rows = concat chunks;
     if rows = [] then State_Monad.return None
     else map_state (\<lambda>all_rows. Some (sort_key ev_ing all_rows)) (arrive_again np rows)
   }"

section \<open>The stream\<close>

datatype item = Admin admin | Price observed

fun item_ing :: "item \<Rightarrow> rat" where
  "item_ing (Admin a) = ad_ing a"
| "item_ing (Price p) = ev_ing p"

text \<open>The loop of \<open>write_events\<close>: the admin event first when it is not later.\<close>

fun merge_items :: "admin list \<Rightarrow> observed list \<Rightarrow> item list" where
  "merge_items as [] = map Admin as"
| "merge_items [] ps = map Price ps"
| "merge_items (a # as) (p # ps) =
     (if ad_ing a \<le> ev_ing p then Admin a # merge_items as (p # ps) else Price p # merge_items (a # as) ps)"

definition ts :: "rat \<Rightarrow> pystr" where
  "ts t = fmt_instant (round_half_even t)"

fun line_of :: "(rat \<Rightarrow> pystr) \<Rightarrow> shop list \<Rightarrow> product list \<Rightarrow> item \<Rightarrow> fields" where
  "line_of fr shops prods (Admin a) =
     foldl (\<lambda>m (k, v). alist_set k v m)
       [(u ''event_type'', JStr (ad_type a)), (u ''event_time'', JStr (ts (ad_time a))), (u ''ingested_at'', JStr (ts (ad_ing a)))]
       (ad_fields a)"
| "line_of fr shops prods (Price p) =
     [(u ''event_type'', JStr (u ''price_observed'')), (u ''event_time'', JStr (ts (ev_t p))), (u ''ingested_at'', JStr (ts (ev_ing p))),
      (u ''shop_code'', JStr (sh_code (shops ! ev_s p))), (u ''product_code'', JStr (pr_code (prods ! ev_p p))),
      (u ''price'', JFloat (fr (ev_amount p))), (u ''currency'', JStr (currencies ! ev_cur p))]"

definition write_events :: "(rat \<Rightarrow> pystr) \<Rightarrow> shop list \<Rightarrow> product list \<Rightarrow> admin list \<Rightarrow> observed list \<Rightarrow> fields list" where
  "write_events fr shops prods as ps = map (line_of fr shops prods) (merge_items (sort_key ad_ing as) ps)"

definition client_code :: "nat \<Rightarrow> pystr" where
  "client_code i = u ''C'' @ pad 3 (i + 1)"

definition tracked_line :: "'g numpy \<Rightarrow> product list \<Rightarrow> nat \<Rightarrow> rat \<Rightarrow> nat \<Rightarrow> ('g, fields) draw" where
  "tracked_line np prods i created p_idx = do {
     r \<leftarrow> rnd np;
     let since = fadd created (fmul (fmul r 60) DAY);
     State_Monad.return
       [(u ''client_code'', JStr (client_code i)),
        (u ''client_name'', JStr (CLIENT_WORDS ! (i mod length CLIENT_WORDS) @ u '' '' @
            CLIENT_WORDS ! ((i * 5 + 3) mod length CLIENT_WORDS) @ u '' Ltd'')),
        (u ''created_at'', JStr (ts created)), (u ''product_code'', JStr (pr_code (prods ! p_idx))),
        (u ''tracked_since'', JStr (ts since))]
   }"

definition write_clients :: "'g numpy \<Rightarrow> (rat \<Rightarrow> rat) \<Rightarrow> product list \<Rightarrow> rat \<Rightarrow> ('g, nat \<times> fields list) draw" where
  "write_clients np root2 prods scale = (
     let n_clients = nat (max 6 (round_half_even (fmul 18 (root2 scale))));
         pops = map pr_popularity prods; total = np_sum np pops;
         weights = map (\<lambda>x. fquot x total) pops
     in do {
       rows \<leftarrow> State_Monad.traverse_list (\<lambda>i. do {
         r \<leftarrow> rnd np;
         let created = fadd (day_mark 366) (fmul (fmul r 200) DAY);
         z \<leftarrow> one (np_zipf np (3 / 2) None);
         tracked \<leftarrow> np_sample np (length prods) (Some weights) (min (length prods) (5 + z mod 36));
         State_Monad.traverse_list (tracked_line np prods i created) (sort tracked)
       }) [0..<n_clients];
       State_Monad.return (n_clients, concat rows)
     })"

text \<open>All that \<open>main\<close> builds, and the lines it writes.\<close>

record pricewatch =
  pw_shops :: "shop list"
  pw_products :: "product list"
  pw_listings :: "listing_rec list"
  pw_admin :: "admin list"
  pw_obs :: "observed list"
  pw_clients :: "nat \<times> fields list"

definition build_pricewatch :: "'g numpy \<Rightarrow> (rat \<Rightarrow> rat) \<Rightarrow> rat \<Rightarrow> ('g, pricewatch option) draw" where
  "build_pricewatch np root2 scale = do {
     shops \<leftarrow> build_shops np (nat (max 10 (round_half_even (fmul 50 (root2 scale)))));
     prods \<leftarrow> build_products np (nat (max 60 (round_half_even (fmul 2400 scale))));
     ls0 \<leftarrow> build_listings np shops prods;
     ls \<leftarrow> assign_lifecycle np ls0;
     as \<leftarrow> build_admin_events np shops prods ls;
     obs \<leftarrow> build_observations np shops prods ls (trunc (fmul 2400000 scale));
     case obs of
       None \<Rightarrow> State_Monad.return None
     | Some ps \<Rightarrow> map_state (\<lambda>cs. Some
         \<lparr>pw_shops = shops, pw_products = prods, pw_listings = ls, pw_admin = as, pw_obs = ps, pw_clients = cs\<rparr>)
         (write_clients np root2 prods scale)
   }"

definition event_items :: "pricewatch \<Rightarrow> item list" where
  "event_items w = merge_items (sort_key ad_ing (pw_admin w)) (pw_obs w)"

definition event_lines :: "(rat \<Rightarrow> pystr) \<Rightarrow> pricewatch \<Rightarrow> fields list" where
  "event_lines fr w = write_events fr (pw_shops w) (pw_products w) (pw_admin w) (pw_obs w)"

end
