(* ===== verification/EventFacts.thy ===== *)
theory EventFacts
  imports EventStream "HOL-Library.Multiset"
begin

text \<open>
  What every run of the PriceWatch generator (03-data-modeling/harness/events.py) guarantees,
  whatever is drawn: the guarantees its documentation gives the loader.
\<close>

section \<open>Bounds of float sums\<close>

lemma fl_le_int: "x \<le> of_int k \<Longrightarrow> \<bar>k\<bar> < 2 ^ 53 \<Longrightarrow> fl x \<le> of_int k"
  using fl_mono [of x "of_int k"] by simp

lemma fl_ge_int: "of_int k \<le> x \<Longrightarrow> \<bar>k\<bar> < 2 ^ 53 \<Longrightarrow> of_int k \<le> fl x"
  using fl_mono [of "of_int k" x] by simp

lemma float_fixed [simp]: "fl (fadd x y) = fadd x y" "fl (fmul x y) = fmul x y" "fl (fsub x y) = fsub x y" "fl (fquot x y) = fquot x y"
  by (simp_all add: fadd_def fmul_def fsub_def fquot_def)

lemma fmul_bounds: "0 \<le> r \<Longrightarrow> r \<le> 1 \<Longrightarrow> 0 \<le> k \<Longrightarrow> k < 2 ^ 53 \<Longrightarrow> 0 \<le> fmul r (of_int k) \<and> fmul r (of_int k) \<le> of_int k"
  unfolding fmul_def by (intro conjI fl_nonneg fl_le_int) (simp_all add: mult_left_le_one_le)

lemma fmul_nonneg: "0 \<le> x \<Longrightarrow> 0 \<le> y \<Longrightarrow> 0 \<le> fmul x y"
  by (simp add: fmul_def fl_nonneg)

lemma fmul_le: "0 \<le> x \<Longrightarrow> x \<le> of_int a \<Longrightarrow> 0 \<le> y \<Longrightarrow> y \<le> of_int b \<Longrightarrow> a * b < 2 ^ 53 \<Longrightarrow> fmul x y \<le> of_int (a * b)"
proof -
  assume h: "0 \<le> x" "x \<le> of_int a" "0 \<le> y" "y \<le> of_int b" "a * b < 2 ^ 53"
  have ab: "0 \<le> (of_int a :: rat)" "0 \<le> (of_int b :: rat)" using h by linarith+
  then have p: "0 \<le> a * b" by (metis mult_nonneg_nonneg of_int_0_le_iff)
  have "x * y \<le> of_int (a * b)" using mult_mono [OF h(2,4) ab(1) h(3)] by simp
  then show ?thesis unfolding fmul_def by (rule fl_le_int) (use p h(5) in simp)
qed

lemma fadd_le: "x \<le> of_int a \<Longrightarrow> y \<le> of_int b \<Longrightarrow> \<bar>a + b\<bar> < 2 ^ 53 \<Longrightarrow> fadd x y \<le> of_int (a + b)"
  unfolding fadd_def by (rule fl_le_int) simp_all

lemma fadd_ge: "of_int a \<le> x \<Longrightarrow> of_int b \<le> y \<Longrightarrow> \<bar>a + b\<bar> < 2 ^ 53 \<Longrightarrow> of_int (a + b) \<le> fadd x y"
  unfolding fadd_def by (rule fl_ge_int) simp_all

text \<open>Adding something non-negative to a double does not make it smaller.\<close>

lemma fadd_increasing: "fl x = x \<Longrightarrow> 0 \<le> y \<Longrightarrow> x \<le> fadd x y"
  using fl_mono [of x "x + y"] by (simp add: fadd_def)

section \<open>Merging\<close>

lemma mset_merge_items: "mset (merge_items as ps) = mset (map Admin as) + mset (map Price ps)"
  by (induction as ps rule: merge_items.induct) simp_all

lemma set_merge_items: "set (merge_items as ps) = Admin ` set as \<union> Price ` set ps"
  using arg_cong [OF mset_merge_items [of as ps], of set_mset] by simp

lemma sorted_merge_items:
  "sorted (map ad_ing as) \<Longrightarrow> sorted (map ev_ing ps) \<Longrightarrow> sorted (map item_ing (merge_items as ps))"
  by (induction as ps rule: merge_items.induct) (auto simp: set_merge_items comp_def)

lemma earlier_in_front:
  assumes "sorted (map f (xs @ p # ys))" "a \<in> set (xs @ p # ys)" "f a < f p"
  shows "a \<in> set xs"
  using assms by (auto simp: sorted_append)

section \<open>Outcomes of loops\<close>

lemma pred_fold_draw:
  assumes "P s" "\<And>s x. x \<in> set xs \<Longrightarrow> P s \<Longrightarrow> pred_state P (f s x)"
  shows "pred_state P (fold_draw f s xs)"
  using assms
proof (induction xs arbitrary: s)
  case Nil
  then show ?case by simp
next
  case (Cons x xs)
  have "pred_state P (f s x)" using Cons.prems by simp
  then show ?case unfolding fold_draw.simps by (rule pred_bind) (rule Cons.IH; use Cons.prems in simp)
qed

lemma pred_traverse_all:
  "(\<And>x. x \<in> set xs \<Longrightarrow> pred_state P (f x)) \<Longrightarrow> pred_state (\<lambda>ys. length ys = length xs \<and> (\<forall>y \<in> set ys. P y)) (State_Monad.traverse_list f xs)"
  by (rule pred_weaken [OF pred_traverse [of xs "\<lambda>_. P"]])
    (auto simp: list_all2_conv_all_nth in_set_conv_nth)

lemma list_all2_right: "list_all2 P xs ys \<Longrightarrow> y \<in> set ys \<Longrightarrow> \<exists>x \<in> set xs. P x y"
  by (induction rule: list_all2_induct) auto

lemma list_all2_left: "list_all2 P xs ys \<Longrightarrow> x \<in> set xs \<Longrightarrow> \<exists>y \<in> set ys. P x y"
  by (induction rule: list_all2_induct) auto

lemma pred_each: "(\<And>x. x \<in> set xs \<Longrightarrow> pred_state P (f x)) \<Longrightarrow> pred_state (\<lambda>ys. \<forall>y \<in> set ys. P y) (State_Monad.traverse_list f xs)"
  by (rule pred_weaken [OF pred_traverse_all [of xs P f]]) auto

lemma pred_if: "(b \<Longrightarrow> pred_state P m) \<Longrightarrow> (\<not> b \<Longrightarrow> pred_state P m') \<Longrightarrow> pred_state P (if b then m else m')"
  by simp

lemma pred_then: "(\<And>x. pred_state P (f x)) \<Longrightarrow> pred_state P (m \<bind> f)"
  by (rule pred_bind [OF pred_any])

context numpy_rng
begin

lemma rnd_range: "pred_state (\<lambda>r. 0 \<le> r \<and> r < 1 \<and> fl r = r) (rnd np)"
  unfolding rnd_def by (rule pred_one [OF random])

lemma pick_range: "0 < n \<Longrightarrow> pred_state (\<lambda>k. k < n) (pick np n)"
  unfolding pick_def pred_map by (rule pred_weaken [OF pred_one [OF integers]]) auto

lemma emit_range:
  assumes "fl t = t" "0 \<le> t" "t < 2 ^ 40" "0 \<le> m" "m < 1000"
  shows "pred_state (\<lambda>a. ad_time a = t \<and> ad_type a = etype \<and> ad_fields a = payload \<and>
      t \<le> ad_ing a \<and> ad_ing a \<le> of_int (\<lfloor>t\<rfloor> + 2 + m)) (emit np t etype payload (of_int m))"
  unfolding emit_def
proof (rule pred_bind [OF rnd_range], unfold pred_return, simp, intro conjI)
  fix r :: rat
  assume r: "0 \<le> r \<and> r < 1 \<and> fl r = r"
  have b: "0 \<le> fmul r (of_int m)" "fmul r (of_int m) \<le> of_int m"
    using fmul_bounds [of r m] r assms(4,5) by simp_all
  have k: "0 \<le> \<lfloor>t\<rfloor>" "\<lfloor>t\<rfloor> < 2 ^ 40" using assms(2,3) by (simp_all add: floor_less_iff)
  have kb: "\<lfloor>t\<rfloor> + m < 9007199254740990"
  proof -
    have "(2 :: int) ^ 40 = 1099511627776" by simp
    then show ?thesis using k(2) assms(5) by linarith
  qed
  have "t \<le> fadd t 1" using fadd_increasing [OF assms(1), of 1] by simp
  also have "\<dots> \<le> fadd (fadd t 1) (fmul r (of_int m))" by (rule fadd_increasing) (simp_all add: b)
  finally show "t \<le> fadd (fadd t 1) (fmul r (of_int m))" .
  have "t \<le> of_int (\<lfloor>t\<rfloor> + 1)" by linarith
  then have "fadd t 1 \<le> of_int (\<lfloor>t\<rfloor> + 1 + 1)" using fadd_le [of t "\<lfloor>t\<rfloor> + 1" 1 1] k by simp
  then show "fadd (fadd t 1) (fmul r (of_int m)) \<le> of_int \<lfloor>t\<rfloor> + 2 + of_int m"
    using fadd_le [of "fadd t 1" "\<lfloor>t\<rfloor> + 1 + 1" "fmul r (of_int m)" m] b(2) k assms(4,5) kb by (simp add: algebra_simps)
qed

end

section \<open>Shops and listings\<close>

lemma span_values: "T_start = 1704067200" "T_end = 1767225600"
  by (simp_all add: T_start_def T_end_def start_date_def end_date_def instant_of_def to_ordinal_def days_before_year_def
      days_before_month_def month_lengths_def leap_def epoch_ordinal_def)

text \<open>A time of the stream: a double of the two years.\<close>

definition stream_time :: "rat \<Rightarrow> bool" where
  "stream_time t \<longleftrightarrow> fl t = t \<and> T_start \<le> t \<and> t \<le> T_end"

lemma registered_at_ok:
  assumes "0 \<le> r" "0 \<le> q" "q < 1"
  shows "fl (registered_at r q) = registered_at r q \<and> T_start \<le> registered_at r q \<and> registered_at r q \<le> T_start + 37238400"
proof -
  have m: "0 \<le> fmul q (of_int k) \<and> fmul q (of_int k) \<le> of_int k" if "0 \<le> k" "k < 1000" for k
    using fmul_bounds [of q k] assms that by simp
  have d: "fadd T_start (fmul x DAY) \<le> of_int (1704067200 + k * 86400) \<and> T_start \<le> fadd T_start (fmul x DAY)"
    if "0 \<le> x" "x \<le> of_int k" "0 \<le> k" "k < 1000" for x k
  proof -
    have f: "fmul x DAY \<le> of_int (k * 86400)" "0 \<le> fmul x DAY"
      using fmul_le [of x k DAY 86400] that fmul_nonneg [of x DAY] by (simp_all add: DAY_def)
    have "fadd T_start (fmul x DAY) \<le> of_int (1704067200 + k * 86400)"
      using fadd_le [of T_start 1704067200 "fmul x DAY" "k * 86400"] f(1) that by (simp add: span_values)
    moreover have "T_start \<le> fadd T_start (fmul x DAY)"
      by (rule fadd_increasing) (simp_all add: f(2) span_values fl_numeral)
    ultimately show ?thesis by blast
  qed
  have a: "0 \<le> fadd (of_int b) (fmul q (of_int k)) \<and> fadd (of_int b) (fmul q (of_int k)) \<le> of_int (b + k)"
    if "0 \<le> b" "b < 1000" "0 \<le> k" "k < 1000" for b k
    using fadd_le [of "of_int b" b "fmul q (of_int k)" k] fadd_ge [of 0 "of_int b" 0 "fmul q (of_int k)"] m [of k] that by simp
  show ?thesis
    using d [of "fmul q 90" 90] d [of "fadd 90 (fmul q 150)" 240] d [of "fadd 240 (fmul q 190)" 430]
      m [of 90] a [of 90 150] a [of 240 190]
    by (auto simp: registered_at_def span_values)
qed

text \<open>A listing is delisted or relisted at least thirty days after its discovery.\<close>

definition aged :: "rat \<Rightarrow> rat \<Rightarrow> bool" where
  "aged disc t \<longleftrightarrow> fl t = t \<and> fadd disc (fmul 30 DAY) \<le> t"

definition life_ok :: "listing_rec \<Rightarrow> bool" where
  "life_ok li \<longleftrightarrow> pred_option (aged (li_discovered li)) (li_delist li) \<and> pred_option (aged (li_discovered li)) (li_relist li)"

definition listing_ok :: "shop list \<Rightarrow> product list \<Rightarrow> listing_rec \<Rightarrow> bool" where
  "listing_ok shops prods li \<longleftrightarrow>
     li_s li < length shops \<and> li_p li < length prods \<and> fl (li_discovered li) = li_discovered li \<and> T_start \<le> li_discovered li \<and>
     fadd (sh_registered (shops ! li_s li)) DAY \<le> li_discovered li \<and> li_discovered li \<le> fsub T_end (fmul 30 DAY) \<and> life_ok li"

definition shop_ok :: "shop \<Rightarrow> bool" where
  "shop_ok sh \<longleftrightarrow> fl (sh_registered sh) = sh_registered sh \<and> T_start \<le> sh_registered sh \<and>
     sh_registered sh \<le> T_start + 37238400 \<and> sh_currency sh \<in> set currencies"

context numpy_rng
begin

lemma build_shop_ok: "pred_state shop_ok (build_shop np i)"
  unfolding build_shop_def
  apply (rule pred_bind [OF pick_range])
   apply (simp add: COUNTRIES_def)
  apply (rule pred_bind [OF pred_any])
  apply (rule pred_bind [OF rnd_range])
  apply (rule pred_bind [OF rnd_range])
  apply (rule pred_bind [OF pred_any])
  apply (rule pred_bind [OF pred_any])
  subgoal for country tier r q factor activity
    using registered_at_ok [of r q] by (simp add: shop_ok_def home_currency_def get_or_def currencies_def)
  done

lemma product_listings_ok:
  assumes "distinct ss" "\<forall>s \<in> set ss. s < length shops \<and> shop_ok (shops ! s)" "p_idx < length prods"
  shows "pred_state (\<lambda>ls. (\<forall>l \<in> set ls. listing_ok shops prods l \<and> li_p l = p_idx \<and> li_s l \<in> set ss) \<and> distinct (map li_s ls))
    (product_listings np shops p_idx pd ss)"
  using assms(1,2)
proof (induction ss)
  case Nil
  then show ?case by simp
next
  case (Cons s ss)
  have ih: "pred_state (\<lambda>ls. (\<forall>l \<in> set ls. listing_ok shops prods l \<and> li_p l = p_idx \<and> li_s l \<in> set ss) \<and> distinct (map li_s ls))
      (product_listings np shops p_idx pd ss)"
    using Cons by simp
  show ?case
    unfolding product_listings.simps Let_def
  proof (rule pred_bind [OF pred_one [OF exponential]])
    fix e :: rat
    assume e: "0 \<le> e \<and> fl e = e"
    define disc where "disc = fadd (max (pr_birth pd) (fadd (sh_registered (shops ! s)) (fmul 1 DAY))) e"
    have one: "fmul 1 DAY = DAY" by (simp add: fmul_def DAY_def fl_numeral)
    have "fadd (sh_registered (shops ! s)) DAY \<le> disc"
    proof -
      have "fl (fadd (sh_registered (shops ! s)) DAY) \<le> fl (max (pr_birth pd) (fadd (sh_registered (shops ! s)) DAY) + e)"
        by (rule fl_mono) (use e in \<open>simp add: add_increasing2\<close>)
      then show ?thesis by (simp add: disc_def one fadd_def)
    qed
    moreover have "T_start \<le> fadd (sh_registered (shops ! s)) DAY"
      using fadd_increasing [of "sh_registered (shops ! s)" DAY] Cons.prems(2) by (simp add: shop_ok_def DAY_def)
    ultimately have ok: "listing_ok shops prods \<lparr>li_s = s, li_p = p_idx, li_discovered = disc, li_noise = z, li_delist = None, li_relist = None\<rparr>"
      if "\<not> disc > fsub T_end (fmul 30 DAY)" for z
      using that Cons.prems(2) assms(3) by (simp add: listing_ok_def life_ok_def disc_def not_less)
    show "pred_state (\<lambda>ls. (\<forall>l \<in> set ls. listing_ok shops prods l \<and> li_p l = p_idx \<and> li_s l \<in> set (s # ss)) \<and> distinct (map li_s ls))
      (if disc > fsub T_end (fmul 30 DAY) then product_listings np shops p_idx pd ss
       else do {
         z \<leftarrow> one (np_normal np 0 (fl (3 / 100)) None);
         rest \<leftarrow> product_listings np shops p_idx pd ss;
         State_Monad.return
           (\<lparr>li_s = s, li_p = p_idx, li_discovered = disc, li_noise = fadd 1 z, li_delist = None, li_relist = None\<rparr> # rest)
       })"
    proof (cases "disc > fsub T_end (fmul 30 DAY)")
      case True
      then show ?thesis using ih by (auto elim!: pred_weaken)
    next
      case False
      show ?thesis
        unfolding if_not_P [OF False]
        by (rule pred_bind [OF pred_any], rule pred_bind [OF ih]) (use ok [OF False] Cons.prems(1) in auto)
    qed
  qed
qed

end

lemma listing_time:
  assumes "listing_ok shops prods li"
  shows "fl (li_discovered li) = li_discovered li" "0 \<le> li_discovered li" "li_discovered li \<le> 1767225600"
proof -
  have "li_discovered li \<le> fsub T_end (fmul 30 DAY)" using assms by (simp add: listing_ok_def)
  also have "\<dots> \<le> of_int 1767225600" unfolding fsub_def by (rule fl_le_int) (simp_all add: span_values fmul_nonneg DAY_def)
  finally show "li_discovered li \<le> 1767225600" by simp
qed (use assms in \<open>simp_all add: listing_ok_def span_values\<close>)

text \<open>What identifies a listing and does not change when it is delisted.\<close>

definition offer :: "listing_rec \<Rightarrow> nat \<times> nat \<times> rat" where
  "offer li = (li_s li, li_p li, li_discovered li)"

definition listings_ok :: "shop list \<Rightarrow> product list \<Rightarrow> listing_rec list \<Rightarrow> bool" where
  "listings_ok shops prods ls \<longleftrightarrow>
     (\<forall>li \<in> set ls. listing_ok shops prods li) \<and> distinct (map (\<lambda>li. (li_s li, li_p li)) ls)"

lemma listings_ok_offers:
  assumes "map offer ls' = map offer ls" "\<forall>li \<in> set ls'. life_ok li" "listings_ok shops prods ls"
  shows "listings_ok shops prods ls'"
proof -
  have k: "map (\<lambda>li. (li_s li, li_p li)) ls' = map (\<lambda>li. (li_s li, li_p li)) ls"
    using arg_cong [OF assms(1), of "map (\<lambda>(s, p, d). (s, p))"] by (simp add: offer_def comp_def)
  have "listing_ok shops prods li'" if "li' \<in> set ls'" for li'
  proof -
    have "offer li' \<in> set (map offer ls)" using that by (simp flip: assms(1))
    then obtain li where "li \<in> set ls" "offer li = offer li'" by auto
    then show ?thesis using assms(2,3) that by (auto simp: listings_ok_def listing_ok_def offer_def)
  qed
  then show ?thesis using assms(3) k by (simp add: listings_ok_def)
qed

lemma distinct_product_listings:
  assumes "list_all2 (\<lambda>(p, _) ls. (\<forall>l \<in> set ls. li_p l = p) \<and> distinct (map li_s ls)) xs lss" "distinct (map fst xs)"
  shows "distinct (map (\<lambda>l. (li_s l, li_p l)) (concat lss)) \<and> (\<forall>l \<in> set (concat lss). li_p l \<in> fst ` set xs)"
  using assms
proof (induction xs lss rule: list_all2_induct)
  case Nil
  then show ?case by simp
next
  case (Cons x xs ls lss)
  obtain p pd where x: "x = (p, pd)" by force
  have h: "\<forall>l \<in> set ls. li_p l = p" "distinct (map li_s ls)" using Cons.hyps(1) x by simp_all
  have "distinct (map (\<lambda>l. (li_s l, li_p l)) ls)"
    using h by (auto simp: distinct_map inj_on_def)
  moreover have ih: "distinct (map (\<lambda>l. (li_s l, li_p l)) (concat lss))" "\<forall>l \<in> set (concat lss). li_p l \<in> fst ` set xs"
    using Cons.IH Cons.prems by simp_all
  moreover have "p \<notin> fst ` set xs" using Cons.prems x by simp
  ultimately show ?case using h(1) x by (auto simp del: set_concat)
qed

context numpy_rng
begin

lemma build_listings_ok:
  assumes "\<forall>sh \<in> set shops. shop_ok sh"
  shows "pred_state (listings_ok shops prods) (build_listings np shops prods)"
  unfolding build_listings_def pred_map
proof (rule pred_weaken [OF pred_traverse])
  fix x assume "x \<in> set (zip [0..<length prods] prods)"
  then obtain p pd where x: "x = (p, pd)" "p < length prods" by (auto simp: set_zip)
  show "pred_state ((\<lambda>(p, _) ls. (\<forall>l \<in> set ls. listing_ok shops prods l \<and> li_p l = p) \<and> distinct (map li_s ls)) x)
      (case x of (p_idx, pd) \<Rightarrow> do {
         z \<leftarrow> one (np_zipf np (fl (16 / 10)) None);
         shop_ids \<leftarrow> np_sample np (length shops) None (min (length shops) (2 + z mod 9));
         product_listings np shops p_idx pd shop_ids
       })"
    unfolding x prod.case
  proof (rule pred_bind [OF pred_any], rule pred_bind [OF sample])
    fix ids :: "nat list" and z :: nat
    assume "length ids = min (length shops) (2 + z mod 9) \<and> distinct ids \<and> (\<forall>x \<in> set ids. x < length shops)"
    then show "pred_state (\<lambda>ls. (\<forall>l \<in> set ls. listing_ok shops prods l \<and> li_p l = p) \<and> distinct (map li_s ls))
        (product_listings np shops p pd ids)"
      using assms by (intro pred_weaken [OF product_listings_ok [of ids shops p prods]]) (auto simp: x(2))
  qed simp
next
  fix lss
  assume l: "list_all2 (\<lambda>(p, _) ls. (\<forall>l \<in> set ls. listing_ok shops prods l \<and> li_p l = p) \<and> distinct (map li_s ls))
      (zip [0..<length prods] prods) lss"
  then have "list_all2 (\<lambda>(p, _) ls. (\<forall>l \<in> set ls. li_p l = p) \<and> distinct (map li_s ls)) (zip [0..<length prods] prods) lss"
    by (rule list_all2_mono) auto
  moreover have "distinct (map fst (zip [0..<length prods] prods))"
    by (subst map_fst_zip) simp_all
  ultimately have "distinct (map (\<lambda>l. (li_s l, li_p l)) (concat lss))"
    by (rule conjunct1 [OF distinct_product_listings])
  moreover have "listing_ok shops prods l" if "l \<in> set (concat lss)" for l
  proof -
    obtain ls where "ls \<in> set lss" "l \<in> set ls" using \<open>l \<in> set (concat lss)\<close> by auto
    then show ?thesis using l by (auto simp: list_all2_conv_all_nth in_set_conv_nth [of ls] split: prod.splits)
  qed
  ultimately show "listings_ok shops prods (concat lss)" by (simp add: listings_ok_def del: set_concat)
qed

end

lemma between_ge: "fl lo = lo \<Longrightarrow> lo \<le> hi \<Longrightarrow> 0 \<le> r \<Longrightarrow> lo \<le> between lo hi r"
  unfolding between_def by (rule fadd_increasing) (simp_all add: fmul_nonneg fsub_def fl_nonneg)

lemma relist_after_ge: "fl d = d \<Longrightarrow> 0 \<le> r \<Longrightarrow> 0 \<le> days \<Longrightarrow> d \<le> relist_after d r days"
  unfolding relist_after_def
  by (rule fadd_increasing) (simp_all add: fmul_nonneg fadd_def fl_nonneg DAY_def)

text \<open>What a step may do to a listing.\<close>

definition kept :: "(nat \<times> nat \<times> rat) list \<Rightarrow> listing_rec list \<Rightarrow> bool" where
  "kept os ls \<longleftrightarrow> map offer ls = os \<and> (\<forall>li \<in> set ls. life_ok li)"

lemma kept_update:
  assumes "kept os ls" "k < length ls \<Longrightarrow> offer li = offer (ls ! k) \<and> life_ok li"
  shows "kept os (ls[k := li])"
proof (cases "k < length ls")
  case True
  then have "offer li = map offer ls ! k" using assms(2) by simp
  then have "map offer (ls[k := li]) = map offer ls" by (simp add: map_update)
  then show ?thesis using assms True by (auto simp: kept_def dest: set_update_subset_insert [THEN subsetD])
next
  case False
  then show ?thesis using assms(1) by (simp add: list_update_beyond)
qed

lemma kept_delist:
  assumes "kept os ls" "fl d = d" "fadd (li_discovered (ls ! k)) (fmul 30 DAY) \<le> d"
  shows "kept os (ls[k := (ls ! k)\<lparr>li_delist := Some d\<rparr>])"
proof (rule kept_update [OF assms(1)])
  assume "k < length ls"
  then have "life_ok (ls ! k)" using assms(1) by (simp add: kept_def)
  then show "offer ((ls ! k)\<lparr>li_delist := Some d\<rparr>) = offer (ls ! k) \<and> life_ok ((ls ! k)\<lparr>li_delist := Some d\<rparr>)"
    using assms(2,3) by (simp add: offer_def life_ok_def aged_def)
qed

lemma kept_relist:
  assumes "kept os ls" "fl d = d" "fadd (li_discovered (ls ! k)) (fmul 30 DAY) \<le> d"
  shows "kept os (ls[k := (ls ! k)\<lparr>li_relist := Some d\<rparr>])"
proof (rule kept_update [OF assms(1)])
  assume "k < length ls"
  then have "life_ok (ls ! k)" using assms(1) by (simp add: kept_def)
  then show "offer ((ls ! k)\<lparr>li_relist := Some d\<rparr>) = offer (ls ! k) \<and> life_ok ((ls ! k)\<lparr>li_relist := Some d\<rparr>)"
    using assms(2,3) by (simp add: offer_def life_ok_def aged_def)
qed

lemma kept_both:
  assumes "kept os ls" "fl d = d" "fl t = t" "fadd (li_discovered (ls ! k)) (fmul 30 DAY) \<le> d" "d \<le> t"
  shows "kept os (ls[k := (ls ! k)\<lparr>li_delist := Some d, li_relist := Some t\<rparr>])"
  by (rule kept_update [OF assms(1)]) (use assms(2-) in \<open>simp add: offer_def life_ok_def aged_def\<close>)

context numpy_rng
begin

lemma plain_delist_kept:
  assumes "kept os ls" "lo = fadd (li_discovered (ls ! k)) (fmul 30 DAY)" "lo \<le> fsub T_end (fmul 20 DAY)"
  shows "pred_state (kept os) (plain_delist np ls k lo)"
  unfolding plain_delist_def Let_def
proof (rule pred_bind [OF rnd_range])
  fix r :: rat assume r: "0 \<le> r \<and> r < 1 \<and> fl r = r"
  define d where "d = between lo (fsub T_end (fmul 20 DAY)) r"
  have d: "fl d = d" "lo \<le> d" using r assms(2,3) by (simp_all add: d_def between_ge, simp add: between_def)
  let ?ls = "ls[k := (ls ! k)\<lparr>li_delist := Some d\<rparr>]"
  have k: "kept os ?ls" by (rule kept_delist [OF assms(1)]) (use d assms(2) in simp_all)
  have disc: "li_discovered (?ls ! k) = li_discovered (ls ! k)"
    by (cases "k < length ls") (simp_all add: list_update_beyond)
  have rel: "kept os (?ls[k := (?ls ! k)\<lparr>li_relist := Some (relist_after d r2 65)\<rparr>])" if "0 \<le> r2" for r2
    using relist_after_ge [OF d(1) that, of 65] d assms(2)
    by (intro kept_relist [OF k]) (unfold disc, simp_all add: relist_after_def)
  show "pred_state (kept os)
     (do {
        q \<leftarrow> rnd np;
        if q < fl (55 / 100) then do {
          r2 \<leftarrow> rnd np;
          State_Monad.return (if relist_after d r2 65 < fsub T_end (fmul 5 DAY)
            then ?ls[k := (?ls ! k)\<lparr>li_relist := Some (relist_after d r2 65)\<rparr>] else ?ls)
        } else State_Monad.return ?ls
      })"
    by (rule pred_bind [OF pred_any]) (auto simp: k rel simp del: list_update_overwrite intro!: pred_bind [OF rnd_range])
qed

lemma lifecycle_step_kept:
  assumes "kept os (fst st)"
  shows "pred_state (\<lambda>st. kept os (fst st)) (lifecycle_step np st k)"
proof -
  obtain ls recover churn where st: "st = (ls, recover, churn)" by (cases st)
  have kp: "kept os ls" using assms st by simp
  define lo where "lo = fadd (li_discovered (ls ! k)) (fmul 30 DAY)"
  define d_lo where "d_lo = max lo (day_mark 400)"
  have fx: "fl d_lo = d_lo" "lo \<le> d_lo" by (simp_all add: d_lo_def lo_def day_mark_def max_def)
  have b: "fl (between d_lo hi r) = between d_lo hi r" "d_lo < hi \<Longrightarrow> 0 \<le> r \<Longrightarrow> lo \<le> between d_lo hi r" for hi r
    using between_ge [OF fx(1), of hi r] fx(2) by (simp_all add: between_def)
  have recover: "kept os (ls[k := (ls ! k)\<lparr>li_delist := Some (between d_lo hi r), li_relist := Some (relist_after (between d_lo hi r) r2 40)\<rparr>])"
    if "d_lo < hi" "0 \<le> r" "0 \<le> r2" for hi r r2
    using b(2) [OF that(1,2)] relist_after_ge [OF b(1) that(3)]
    by (intro kept_both [OF kp b(1)]) (simp_all add: lo_def relist_after_def)
  have churn: "kept os (ls[k := (ls ! k)\<lparr>li_delist := Some (between d_lo hi r)\<rparr>])" if "d_lo < hi" "0 \<le> r" for hi r
    using b(2) [OF that] by (intro kept_delist [OF kp b(1)]) (simp add: lo_def)
  show ?thesis
    unfolding lifecycle_step_def st prod.case Let_def lo_def [symmetric] d_lo_def [symmetric]
    by (auto simp: kp recover churn lo_def
        intro!: pred_bind [OF rnd_range] pred_bind [OF plain_delist_kept [OF kp]])
qed

lemma assign_lifecycle_ok:
  assumes "listings_ok shops prods ls"
  shows "pred_state (listings_ok shops prods) (assign_lifecycle np ls)"
  unfolding assign_lifecycle_def
proof (rule pred_bind [OF pred_any], rule pred_bind [OF pred_fold_draw [where P = "\<lambda>st. kept (map offer ls) (fst st)"]])
  fix st :: lifecycle_state
  assume "kept (map offer ls) (fst st)"
  then show "pred_state (listings_ok shops prods) (case st of (ls', recover, churn) \<Rightarrow> State_Monad.return ls')"
    using listings_ok_offers [OF _ _ assms] by (cases st) (simp add: kept_def)
next
  show "kept (map offer ls) (fst (ls, 0, 0))"
    using assms by (auto simp: kept_def listings_ok_def listing_ok_def)
qed (simp_all add: lifecycle_step_kept)

end

end
