(* ===== verification/EventObs.thy ===== *)
theory EventObs
  imports EventFacts
begin

text \<open>
  The price observations of the PriceWatch generator (03-data-modeling/harness/events.py): each comes
  after the discovery of its listing, and no two prices share shop, product and time.
\<close>

section \<open>The observations of one listing\<close>

text \<open>An observation of a listing: a whole second, at least six hours after the discovery.\<close>

definition observes :: "listing_rec \<Rightarrow> observed \<Rightarrow> bool" where
  "observes li ob \<longleftrightarrow> ev_s ob = li_s li \<and> ev_p ob = li_p li \<and>
     of_int (\<lfloor>li_discovered li\<rfloor> + 21600) \<le> ev_t ob \<and> ev_t ob \<le> ev_ing ob \<and> fl (ev_ing ob) = ev_ing ob \<and> ev_t ob = of_int \<lfloor>ev_t ob\<rfloor>"

lemma observation_times_ok:
  assumes "listing_ok shops prods li" "\<forall>r \<in> set rs. 0 \<le> r \<and> r < 1"
    "t \<in> set (observation_times li (fadd (li_discovered li) (fmul 6 HOUR)) rs)"
    "fadd (li_discovered li) (fmul 6 HOUR) < fsub T_end HOUR"
  shows "of_int (\<lfloor>li_discovered li\<rfloor> + 21600) \<le> t \<and> t = of_int \<lfloor>t\<rfloor> \<and> fl t = t"
proof -
  define lo where "lo = fadd (li_discovered li) (fmul 6 HOUR)"
  note d = listing_time [OF assms(1)]
  obtain r where r: "r \<in> set rs" "t = of_int (round_half_even (fadd lo (fmul r (fsub (fsub T_end HOUR) lo))))"
    using assms(3) by (auto simp: observation_times_def lo_def)
  have rb: "0 \<le> r" "r < 1" using assms(2) r(1) by simp_all
  have six: "fmul 6 HOUR = 21600" by (simp add: fmul_def HOUR_def fl_numeral)
  have f: "0 \<le> \<lfloor>li_discovered li\<rfloor>" "\<lfloor>li_discovered li\<rfloor> \<le> 1767225600"
    using d by (simp_all add: floor_le_iff)
  have lo1: "of_int (\<lfloor>li_discovered li\<rfloor> + 21600) \<le> lo"
    unfolding lo_def six using fadd_ge [of "\<lfloor>li_discovered li\<rfloor>" "li_discovered li" 21600 21600] f by simp
  have e: "fsub T_end HOUR \<le> of_int 1767225600"
    unfolding fsub_def by (rule fl_le_int) (simp_all add: span_values HOUR_def)
  have lo2: "0 \<le> lo" "lo \<le> of_int 1767225600"
  proof -
    show "0 \<le> lo" using lo1 f(1) by linarith
    show "lo \<le> of_int 1767225600" using assms(4) e by (simp add: lo_def)
  qed
  have w: "0 \<le> fsub (fsub T_end HOUR) lo" "fsub (fsub T_end HOUR) lo \<le> of_int 1767225600"
  proof -
    show "0 \<le> fsub (fsub T_end HOUR) lo" unfolding fsub_def by (rule fl_nonneg) (use assms(4) in \<open>simp add: lo_def fsub_def\<close>)
    show "fsub (fsub T_end HOUR) lo \<le> of_int 1767225600"
      unfolding fsub_def [of "fsub T_end HOUR"] by (rule fl_le_int) (use e lo2 in simp_all)
  qed
  have m: "fmul r (fsub (fsub T_end HOUR) lo) \<le> of_int (1 * 1767225600)"
    by (rule fmul_le) (use rb w in simp_all)
  let ?t = "fadd lo (fmul r (fsub (fsub T_end HOUR) lo))"
  have "lo \<le> ?t" by (rule fadd_increasing) (use rb w in \<open>simp_all add: lo_def fmul_nonneg\<close>)
  then have a: "of_int (\<lfloor>li_discovered li\<rfloor> + 21600) \<le> ?t" using lo1 by linarith
  have b: "?t \<le> of_int (1767225600 + 1 * 1767225600)" by (rule fadd_le) (use lo2 m in simp_all)
  have "\<lfloor>li_discovered li\<rfloor> + 21600 \<le> round_half_even ?t"
    using round_half_even_mono [OF a] unfolding round_half_even_of_int .
  moreover have "round_half_even ?t \<le> 3534451200"
    using round_half_even_mono [OF b] unfolding round_half_even_of_int by simp
  moreover have "0 \<le> round_half_even ?t" using calculation(1) f(1) by linarith
  ultimately show ?thesis using r(2) by (simp del: of_int_add)
qed

lemma arrival_delay_nonneg:
  assumes "0 \<le> a" "0 \<le> b" "0 \<le> c" "0 \<le> d"
  shows "0 \<le> arrival_delay r a b c d"
  using assms by (simp add: arrival_delay_def fmul_nonneg fadd_def fl_nonneg HOUR_def DAY_def)

lemma draw_nth_range: "length xs = draws (Some k) \<and> (\<forall>x \<in> set xs. 0 \<le> x \<and> x < 1 \<and> fl x = x) \<Longrightarrow> i < k \<Longrightarrow> (0::rat) \<le> xs ! i"
  by (simp add: draws_def)

context numpy_rng
begin

lemma observe_at_ok:
  assumes "\<forall>t \<in> set secs. of_int (\<lfloor>li_discovered li\<rfloor> + 21600) \<le> t \<and> t = of_int \<lfloor>t\<rfloor> \<and> fl t = t"
  shows "pred_state (\<lambda>os. (\<forall>ob \<in> set os. observes li ob) \<and> map ev_t os = secs) (observe_at np shops prods li secs)"
  unfolding observe_at_def Let_def
proof (rule pred_then, rule pred_then, rule pred_then, rule pred_then, rule pred_then,
    rule pred_bind [OF random], rule pred_bind [OF random], rule pred_bind [OF random], rule pred_bind [OF random],
    unfold pred_return, intro conjI ballI)
  fix promo q sw alts r a b c d ob
  assume h: "length a = draws (Some (length secs)) \<and> (\<forall>x \<in> set a. 0 \<le> x \<and> x < 1 \<and> fl x = x)"
    "length b = draws (Some (length secs)) \<and> (\<forall>x \<in> set b. 0 \<le> x \<and> x < 1 \<and> fl x = x)"
    "length c = draws (Some (length secs)) \<and> (\<forall>x \<in> set c. 0 \<le> x \<and> x < 1 \<and> fl x = x)"
    "length d = draws (Some (length secs)) \<and> (\<forall>x \<in> set d. 0 \<le> x \<and> x < 1 \<and> fl x = x)"
  let ?row = "\<lambda>i. \<lparr>ev_s = li_s li, ev_p = li_p li, ev_t = secs ! i,
        ev_ing = fadd (secs ! i) (arrival_delay (r ! i) (a ! i) (b ! i) (c ! i) (d ! i)),
        ev_amount = observed_amount (fmul (fmul (reference_price (prods ! li_p li) (secs ! i)) (sh_factor (shops ! li_s li))) (li_noise li))
                      (promo ! i < fl (4 / 100)) (q ! i)
                      (scatter (map (\<lambda>x. x < fl (3 / 100)) sw) alts (index_of (sh_currency (shops ! li_s li)) currencies) ! i),
        ev_cur = scatter (map (\<lambda>x. x < fl (3 / 100)) sw) alts (index_of (sh_currency (shops ! li_s li)) currencies) ! i\<rparr>"
  show "observes li ob" if ob: "ob \<in> set (map ?row [0..<length secs])"
  proof -
    obtain i where i: "i < length secs" "ob = ?row i" using ob by auto
    have "secs ! i \<le> fadd (secs ! i) (arrival_delay (r ! i) (a ! i) (b ! i) (c ! i) (d ! i))"
      using fadd_increasing [of "secs ! i"] assms i(1) arrival_delay_nonneg [OF h [THEN draw_nth_range, OF i(1)]] by simp
    then show ?thesis using assms i by (simp add: observes_def)
  qed
  show "map ev_t (map ?row [0..<length secs]) = secs" by (simp add: comp_def map_nth)
qed

lemma listing_observations_ok:
  assumes "listing_ok shops prods (fst li_n)"
  shows "pred_state (\<lambda>os. (\<forall>ob \<in> set os. observes (fst li_n) ob) \<and> distinct (map ev_t os))
    (listing_observations np shops prods li_n)"
proof -
  obtain li n where ln: "li_n = (li, n)" by force
  define lo where "lo = fadd (li_discovered li) (fmul 6 HOUR)"
  show ?thesis
    unfolding listing_observations_def ln prod.case fst_conv Let_def lo_def [symmetric]
  proof (rule pred_if, simp, rule pred_bind [OF random], rule pred_if, simp)
    fix rs
    assume rs: "length rs = draws (Some n) \<and> (\<forall>x \<in> set rs. 0 \<le> x \<and> x < 1 \<and> fl x = x)" and lt: "\<not> fsub T_end HOUR \<le> lo"
    have t: "\<forall>t \<in> set (observation_times li lo rs). of_int (\<lfloor>li_discovered li\<rfloor> + 21600) \<le> t \<and> t = of_int \<lfloor>t\<rfloor> \<and> fl t = t"
      using observation_times_ok [of shops prods li rs] assms rs lt by (simp add: ln lo_def)
    have "distinct (observation_times li lo rs)" by (simp add: observation_times_def sorted_set_def)
    then show "pred_state (\<lambda>os. (\<forall>ob \<in> set os. observes li ob) \<and> distinct (map ev_t os))
        (observe_at np shops prods li (observation_times li lo rs))"
      by (intro pred_weaken [OF observe_at_ok [OF t]]) simp
  qed
qed

end

section \<open>All observations\<close>

definition price_key :: "observed \<Rightarrow> nat \<times> nat \<times> rat" where
  "price_key ob = (ev_s ob, ev_p ob, ev_t ob)"

definition seen_price :: "observed \<Rightarrow> rat \<times> nat" where
  "seen_price ob = (ev_amount ob, ev_cur ob)"

lemma distinct_keys:
  assumes "list_all2 (\<lambda>ln os. (\<forall>ob \<in> set os. observes (fst ln) ob) \<and> distinct (map ev_t os)) lns oss"
    "distinct (map (\<lambda>ln. (li_s (fst ln), li_p (fst ln))) lns)"
  shows "distinct (map price_key (concat oss)) \<and> (\<forall>ob \<in> set (concat oss). \<exists>ln \<in> set lns. observes (fst ln) ob)"
  using assms
proof (induction lns oss rule: list_all2_induct)
  case Nil
  then show ?case by simp
next
  case (Cons ln lns os oss)
  have ih: "distinct (map price_key (concat oss))" "\<forall>ob \<in> set (concat oss). \<exists>ln \<in> set lns. observes (fst ln) ob"
    using Cons.IH Cons.prems by simp_all
  have o: "\<forall>ob \<in> set os. observes (fst ln) ob" "distinct (map ev_t os)" using Cons.hyps(1) by simp_all
  have "distinct (map price_key os)"
    using o(2) by (auto simp: distinct_map inj_on_def price_key_def)
  moreover have "price_key x \<noteq> price_key y" if x: "x \<in> set os" and y: "y \<in> set (concat oss)" for x y
  proof
    assume k: "price_key x = price_key y"
    obtain ln' where "ln' \<in> set lns" "observes (fst ln') y" using ih(2) y by blast
    then show False using k o(1) x Cons.prems by (auto simp: price_key_def observes_def image_iff)
  qed
  ultimately show ?case using ih o(1) by (auto simp del: set_concat simp: image_iff) (metis)
qed

lemma again_ok: "observes li ob \<Longrightarrow> 0 \<le> q \<Longrightarrow> observes li (again ob q)"
proof -
  assume h: "observes li ob" "0 \<le> q"
  have "ev_ing ob \<le> fadd (ev_ing ob) 60" by (rule fadd_increasing) (use h in \<open>simp_all add: observes_def\<close>)
  also have "\<dots> \<le> fadd (fadd (ev_ing ob) 60) (fmul q 3540)" by (rule fadd_increasing) (use h in \<open>simp_all add: fmul_nonneg\<close>)
  finally show ?thesis using h(1) by (simp add: observes_def again_def)
qed

text \<open>One price for each shop, product and time.\<close>

definition one_price :: "observed list \<Rightarrow> bool" where
  "one_price obs \<longleftrightarrow> (\<forall>x \<in> set obs. \<forall>y \<in> set obs. price_key x = price_key y \<longrightarrow> seen_price x = seen_price y)"

definition observations_ok :: "listing_rec list \<Rightarrow> observed list \<Rightarrow> bool" where
  "observations_ok ls obs \<longleftrightarrow> (\<forall>ob \<in> set obs. \<exists>li \<in> set ls. observes li ob) \<and> one_price obs"

lemma observations_ok_set: "set xs = set ys \<Longrightarrow> observations_ok ls xs = observations_ok ls ys"
  by (simp add: observations_ok_def one_price_def)

lemma observations_ok_copies:
  assumes "observations_ok ls xs" "\<forall>y \<in> set ys. \<exists>x \<in> set xs. \<exists>q. 0 \<le> q \<and> y = again x q"
  shows "observations_ok ls (xs @ ys)"
proof -
  have c: "\<exists>x \<in> set xs. price_key y = price_key x \<and> seen_price y = seen_price x" if "y \<in> set (xs @ ys)" for y
    using assms(2) that by (auto simp: again_def price_key_def seen_price_def) (metis observed.simps observed.surjective)
  have "seen_price x = seen_price y" if "x \<in> set (xs @ ys)" "y \<in> set (xs @ ys)" "price_key x = price_key y" for x y
    using c [OF that(1)] c [OF that(2)] that(3) assms(1) by (metis observations_ok_def one_price_def)
  then have "one_price (xs @ ys)" unfolding one_price_def by blast
  moreover have "\<exists>li \<in> set ls. observes li y" if y: "y \<in> set (xs @ ys)" for y
  proof (cases "y \<in> set xs")
    case True
    then show ?thesis using assms(1) by (simp add: observations_ok_def)
  next
    case False
    then obtain x q where "x \<in> set xs" "0 \<le> q" "y = again x q" using assms(2) y by auto
    then show ?thesis using assms(1) again_ok by (metis observations_ok_def)
  qed
  ultimately show ?thesis by (simp add: observations_ok_def)
qed

context numpy_rng
begin

lemma arrive_again_ok:
  assumes "observations_ok ls rows"
  shows "pred_state (observations_ok ls) (arrive_again np rows)"
  unfolding arrive_again_def Let_def
proof (rule pred_then, rule pred_if, simp add: assms, rule pred_bind [OF random], unfold pred_return)
  fix mask q
  let ?dup = "filter (\<lambda>i. mask ! i < fl (1 / 100)) [0..<length rows]"
  assume q: "length q = draws (Some (length ?dup)) \<and> (\<forall>x \<in> set q. 0 \<le> x \<and> x < 1 \<and> fl x = x)"
  show "observations_ok ls (rows @ map (\<lambda>(i, x). again (rows ! i) x) (zip ?dup q))"
  proof (rule observations_ok_copies [OF assms], rule ballI)
    fix y assume "y \<in> set (map (\<lambda>(i, x). again (rows ! i) x) (zip ?dup q))"
    then obtain i x where ix: "(i, x) \<in> set (zip ?dup q)" "y = again (rows ! i) x" by auto
    then have "i < length rows" "0 \<le> x" using q by (auto dest: set_zip_leftD set_zip_rightD)
    then show "\<exists>x \<in> set rows. \<exists>q. 0 \<le> q \<and> y = again x q" using ix(2) by (metis nth_mem)
  qed
qed

lemma build_observations_ok:
  assumes "listings_ok shops prods ls"
  shows "pred_state (pred_option (\<lambda>obs. observations_ok ls obs \<and> sorted (map ev_ing obs)))
    (build_observations np shops prods ls total_obs)"
  unfolding build_observations_def Let_def
proof (rule pred_bind [OF pred_traverse [of _ "\<lambda>ln os. (\<forall>ob \<in> set os. observes (fst ln) ob) \<and> distinct (map ev_t os)"]])
  let ?lns = "zip ls (listing_counts np shops prods ls total_obs)"
  fix ln assume "ln \<in> set ?lns"
  then have "fst ln \<in> set ls" by (metis prod.collapse set_zip_leftD)
  then show "pred_state (\<lambda>os. (\<forall>ob \<in> set os. observes (fst ln) ob) \<and> distinct (map ev_t os)) (listing_observations np shops prods ln)"
    by (intro listing_observations_ok) (use assms in \<open>simp add: listings_ok_def\<close>)
next
  let ?lns = "zip ls (listing_counts np shops prods ls total_obs)"
  fix oss
  assume a: "list_all2 (\<lambda>ln os. (\<forall>ob \<in> set os. observes (fst ln) ob) \<and> distinct (map ev_t os)) ?lns oss"
  have l: "length (listing_counts np shops prods ls total_obs) = length ls" by (simp add: listing_counts_def Let_def)
  have "map (\<lambda>ln. (li_s (fst ln), li_p (fst ln))) ?lns = map (\<lambda>li. (li_s li, li_p li)) (map fst ?lns)" by simp
  also have "\<dots> = map (\<lambda>li. (li_s li, li_p li)) ls" by (simp add: l)
  finally have "distinct (map (\<lambda>ln. (li_s (fst ln), li_p (fst ln))) ?lns)" using assms by (simp add: listings_ok_def)
  then have k: "distinct (map price_key (concat oss))" "\<forall>ob \<in> set (concat oss). \<exists>ln \<in> set ?lns. observes (fst ln) ob"
    using distinct_keys [OF a] by simp_all
  have "observations_ok ls (concat oss)"
    unfolding observations_ok_def one_price_def
  proof (intro conjI ballI impI)
    fix ob assume "ob \<in> set (concat oss)"
    then obtain ln where "ln \<in> set ?lns" "observes (fst ln) ob" using k(2) by blast
    then show "\<exists>li \<in> set ls. observes li ob" by (metis prod.collapse set_zip_leftD)
  next
    fix x y assume "x \<in> set (concat oss)" "y \<in> set (concat oss)" "price_key x = price_key y"
    then show "seen_price x = seen_price y" using k(1) by (metis distinct_map inj_onD)
  qed
  then show "pred_state (pred_option (\<lambda>obs. observations_ok ls obs \<and> sorted (map ev_ing obs)))
     (if concat oss = [] then State_Monad.return None
      else map_state (\<lambda>all_rows. Some (sort_key ev_ing all_rows)) (arrive_again np (concat oss)))"
    by (intro pred_if, simp, unfold pred_map, intro pred_weaken [OF arrive_again_ok])
      (simp_all add: observations_ok_set [of "sort_key ev_ing _"])
qed

end

end
