(* ===== verification/EventOrder.thy ===== *)
theory EventOrder
  imports EventObs
begin

text \<open>
  The order of arrival of the PriceWatch events (03-data-modeling/harness/events.py): a loader that
  reads the lines in order knows the shop of every discovery and the listing of every observation.
\<close>

section \<open>A loader\<close>

text \<open>
  What a line refers to, and what it introduces: a shop is the list of its code, a listing that of
  the codes of its shop and its product.
\<close>

definition member :: "fields \<Rightarrow> string \<Rightarrow> json" where
  "member l k = get_or JNull l (u k)"

definition listing_key :: "fields \<Rightarrow> json list" where
  "listing_key l = [member l ''shop_code'', member l ''product_code'']"

definition needs :: "fields \<Rightarrow> json list list" where
  "needs l = (let e = member l ''event_type'' in
     if e = JStr (u ''product_discovered'') then [[member l ''shop_code'']]
     else if e = JStr (u ''price_observed'') \<or> e = JStr (u ''product_delisted'') \<or> e = JStr (u ''product_relisted'')
     then [listing_key l]
     else [])"

definition gives :: "fields \<Rightarrow> json list list" where
  "gives l = (let e = member l ''event_type'' in
     if e = JStr (u ''shop_registered'') then [[member l ''shop_code'']]
     else if e = JStr (u ''product_discovered'') then [listing_key l]
     else [])"

fun loadable :: "json list list \<Rightarrow> fields list \<Rightarrow> bool" where
  "loadable known [] = True"
| "loadable known (l # ls) = (set (needs l) \<subseteq> set known \<and> loadable (gives l @ known) ls)"

lemma loadable_if:
  assumes "\<And>ys x zs. xs = ys @ x # zs \<Longrightarrow> set (needs x) \<subseteq> set known \<union> (\<Union>y \<in> set ys. set (gives y))"
  shows "loadable known xs"
  using assms
proof (induction xs arbitrary: known)
  case Nil
  then show ?case by simp
next
  case (Cons x xs)
  have "set (needs x) \<subseteq> set known" using Cons.prems [of "[]" x xs] by simp
  moreover have "loadable (gives x @ known) xs"
  proof (rule Cons.IH)
    fix ys y zs assume "xs = ys @ y # zs"
    then show "set (needs y) \<subseteq> set (gives x @ known) \<union> (\<Union>y \<in> set ys. set (gives y))"
      using Cons.prems [of "x # ys" y zs] by auto
  qed
  ultimately show ?case by simp
qed

lemma loadable_sorted:
  assumes "sorted (map f xs)"
    "\<And>x k. x \<in> set xs \<Longrightarrow> k \<in> set (needs (g x)) \<Longrightarrow> \<exists>y \<in> set xs. f y < f x \<and> k \<in> set (gives (g y))"
  shows "loadable [] (map g xs)"
proof (rule loadable_if, rule subsetI)
  fix ls l ls' k
  assume "map g xs = ls @ l # ls'" and k: "k \<in> set (needs l)"
  then obtain ys x zs where xs: "xs = ys @ x # zs" "ls = map g ys" "l = g x"
    by (auto simp: map_eq_append_conv map_eq_Cons_conv)
  then obtain y where y: "y \<in> set xs" "f y < f x" "k \<in> set (gives (g y))"
    using assms(2) [of x k] k by auto
  then have "y \<in> set ys" using earlier_in_front [of f ys x zs y] assms(1) xs(1) by simp
  then show "k \<in> set [] \<union> (\<Union>y \<in> set ls. set (gives y))" using y(3) xs(2) by auto
qed

section \<open>The lines of the admin events\<close>

text \<open>An event of another kind that introduces nothing.\<close>

definition plain :: "admin \<Rightarrow> bool" where
  "plain a \<longleftrightarrow> needs (line_of (\<lambda>_. []) [] [] (Admin a)) = []"

lemmas line_facts = needs_def gives_def listing_key_def member_def u_def get_or_def Let_def

definition about_listing :: "shop list \<Rightarrow> product list \<Rightarrow> listing_rec \<Rightarrow> json list" where
  "about_listing shops prods li = [JStr (sh_code (shops ! li_s li)), JStr (pr_code (prods ! li_p li))]"

text \<open>The events of a listing: one introduces it, the others come long after.\<close>

definition listing_event_ok :: "shop list \<Rightarrow> product list \<Rightarrow> listing_rec \<Rightarrow> admin \<Rightarrow> bool" where
  "listing_event_ok shops prods li a \<longleftrightarrow>
     (needs (line_of (\<lambda>_. []) [] [] (Admin a)) = [[JStr (sh_code (shops ! li_s li))]] \<and> li_discovered li \<le> ad_ing a) \<or>
     (needs (line_of (\<lambda>_. []) [] [] (Admin a)) = [about_listing shops prods li] \<and>
      fadd (li_discovered li) (fmul 30 DAY) \<le> ad_ing a \<and> member (line_of (\<lambda>_. []) [] [] (Admin a)) ''event_type'' \<noteq> JStr (u ''price_observed''))"

text \<open>All that the order needs of the admin events.\<close>

definition admin_ok :: "(rat \<Rightarrow> pystr) \<Rightarrow> shop list \<Rightarrow> product list \<Rightarrow> listing_rec list \<Rightarrow> admin list \<Rightarrow> bool" where
  "admin_ok fr shops prods ls as \<longleftrightarrow>
     (\<forall>a \<in> set as. plain a \<or> (\<exists>li \<in> set ls. listing_event_ok shops prods li a)) \<and>
     (\<forall>sh \<in> set shops. \<exists>a \<in> set as. gives (line_of fr shops prods (Admin a)) = [[JStr (sh_code sh)]] \<and>
       ad_ing a \<le> of_int (\<lfloor>sh_registered sh\<rfloor> + 302)) \<and>
     (\<forall>li \<in> set ls. \<exists>a \<in> set as. gives (line_of fr shops prods (Admin a)) = [about_listing shops prods li] \<and>
       ad_ing a \<le> of_int (\<lfloor>li_discovered li\<rfloor> + 122))"

context numpy_rng
begin

lemma emit_content: "pred_state (\<lambda>a. ad_type a = etype \<and> ad_fields a = payload) (emit np t etype payload m)"
  unfolding emit_def by (rule pred_bind [OF pred_any]) simp

lemma tier_event_plain: "pred_state plain (tier_event np t sh tier)"
  unfolding tier_event_def by (rule pred_weaken [OF emit_content]) (simp add: plain_def line_facts)

lemma rename_event_plain:
  "pred_state plain (emit np t (u ''shop_renamed'') [(u ''shop_code'', JStr x), (u ''new_name'', JStr y)] m)"
  by (rule pred_weaken [OF emit_content]) (simp add: plain_def line_facts)

lemma rename_shop_plain: "pred_state (\<lambda>as. \<forall>a \<in> set as. plain a) (rename_shop np ish)"
  unfolding rename_shop_def Let_def
  by (cases ish, simp only: prod.case) ((rule pred_if pred_bind [OF rename_event_plain] pred_then) | simp)+

lemma retier_shop_plain: "pred_state (\<lambda>as. \<forall>a \<in> set as. plain a) (retier_shop np ish)"
  unfolding retier_shop_def Let_def
  by (cases ish, simp only: prod.case) ((rule pred_if pred_bind [OF tier_event_plain] pred_then) | simp)+

lemma attrs_event_plain: "pred_state plain (attrs_event np t pd ch)"
  unfolding attrs_event_def by (rule pred_weaken [OF emit_content]) (simp add: plain_def line_facts)

lemma change_attrs_plain: "pred_state (\<lambda>as. \<forall>a \<in> set as. plain a) (change_attrs np prods fd target)"
  unfolding change_attrs_def Let_def
  by (cases target, simp only: prod.case)
    ((rule pred_if pred_bind [OF attrs_event_plain] pred_then) | simp | simp only: split_beta)+

lemma registration_ok:
  assumes "shop_ok sh"
  shows "pred_state (\<lambda>a. plain a \<and> gives (line_of fr shops prods (Admin a)) = [[JStr (sh_code sh)]] \<and>
      ad_ing a \<le> of_int (\<lfloor>sh_registered sh\<rfloor> + 302)) (registration np sh)"
proof -
  have r: "fl (sh_registered sh) = sh_registered sh" "0 \<le> sh_registered sh" "sh_registered sh < 2 ^ 40"
    using assms by (simp_all add: shop_ok_def span_values)
  have m: "(300 :: rat) = of_int 300" by simp
  show ?thesis
    unfolding registration_def m
  proof (rule pred_weaken [OF emit_range [OF r]], simp, simp, elim conjE, intro conjI)
    fix a :: admin
    assume a: "ad_type a = u ''shop_registered''" "ad_fields a =
       [(u ''shop_code'', JStr (sh_code sh)), (u ''name'', JStr (sh_name sh)), (u ''country'', JStr (sh_country sh)),
        (u ''tier'', JStr (sh_tier sh)), (u ''home_currency'', JStr (sh_currency sh))]"
    show "plain a" "gives (line_of fr shops prods (Admin a)) = [[JStr (sh_code sh)]]"
      using a by (simp_all add: plain_def line_facts)
    assume "ad_ing a \<le> of_int (\<lfloor>sh_registered sh\<rfloor> + 2 + 300)"
    then show "ad_ing a \<le> of_int (\<lfloor>sh_registered sh\<rfloor> + 302)" by (simp only: add.assoc)
  qed
qed

lemma emit_later:
  assumes "fl t = t" "0 \<le> m"
  shows "pred_state (\<lambda>a. ad_type a = etype \<and> ad_fields a = payload \<and> t \<le> ad_ing a) (emit np t etype payload m)"
  unfolding emit_def
proof (rule pred_bind [OF rnd_range], simp)
  fix r :: rat assume r: "0 \<le> r \<and> r < 1 \<and> fl r = r"
  have "t \<le> fadd t 1" by (rule fadd_increasing) (use assms in simp_all)
  also have "\<dots> \<le> fadd (fadd t 1) (fmul r m)" by (rule fadd_increasing) (use r assms in \<open>simp_all add: fmul_nonneg\<close>)
  finally show "t \<le> fadd (fadd t 1) (fmul r m)" .
qed

lemma discovery_event:
  assumes "listing_ok shops prods li"
  shows "pred_state (\<lambda>a. gives (line_of fr shops prods (Admin a)) = [about_listing shops prods li] \<and>
      ad_ing a \<le> of_int (\<lfloor>li_discovered li\<rfloor> + 122) \<and> listing_event_ok shops prods li a)
    (emit np (li_discovered li) (u ''product_discovered'') (discovery_fields (shops ! li_s li) (prods ! li_p li) title) 120)"
proof -
  have r: "fl (li_discovered li) = li_discovered li" "0 \<le> li_discovered li" "li_discovered li < 2 ^ 40"
    using listing_time [OF assms] by simp_all
  have m: "(120 :: rat) = of_int 120" by simp
  show ?thesis
    unfolding m
  proof (rule pred_weaken [OF emit_range [OF r]], simp, simp, elim conjE, intro conjI)
    fix a :: admin
    assume a: "ad_type a = u ''product_discovered''" "ad_fields a = discovery_fields (shops ! li_s li) (prods ! li_p li) title"
    show "gives (line_of fr shops prods (Admin a)) = [about_listing shops prods li]"
      using a by (simp add: about_listing_def discovery_fields_def line_facts)
    assume b: "ad_ing a \<le> of_int (\<lfloor>li_discovered li\<rfloor> + 2 + 120)" "li_discovered li \<le> ad_ing a"
    show "ad_ing a \<le> of_int (\<lfloor>li_discovered li\<rfloor> + 122)" using b(1) by (simp only: add.assoc)
    show "listing_event_ok shops prods li a"
      using a b(2) by (simp add: listing_event_ok_def discovery_fields_def line_facts)
  qed
qed

lemma delisting_event:
  assumes "aged (li_discovered li) t" "etype = u ''product_delisted'' \<or> etype = u ''product_relisted''"
    "payload = [(u ''shop_code'', JStr (sh_code (shops ! li_s li))), (u ''product_code'', JStr (pr_code (prods ! li_p li)))] @ rest"
    "rest = [] \<or> rest = [(u ''local_title'', JStr title)]"
  shows "pred_state (listing_event_ok shops prods li) (emit np t etype payload 300)"
proof (rule pred_weaken [OF emit_later])
  fix a :: admin
  assume a: "ad_type a = etype \<and> ad_fields a = payload \<and> t \<le> ad_ing a"
  have "needs (line_of (\<lambda>_. []) [] [] (Admin a)) = [about_listing shops prods li]"
    using assms(2-4) a by (elim disjE) (simp_all add: about_listing_def line_facts)
  moreover have "member (line_of (\<lambda>_. []) [] [] (Admin a)) ''event_type'' \<noteq> JStr (u ''price_observed'')"
    using assms(2-4) a by (elim disjE) (simp_all add: line_facts)
  ultimately show "listing_event_ok shops prods li a"
    using assms(1) a by (simp add: listing_event_ok_def aged_def del: line_of.simps)
qed (use assms(1) in \<open>simp_all add: aged_def\<close>)

lemma listing_events_ok:
  assumes "listing_ok shops prods li"
  shows "pred_state (\<lambda>as. (\<forall>a \<in> set as. listing_event_ok shops prods li a) \<and>
      (\<exists>a \<in> set as. gives (line_of fr shops prods (Admin a)) = [about_listing shops prods li] \<and>
        ad_ing a \<le> of_int (\<lfloor>li_discovered li\<rfloor> + 122)))
    (listing_events np shops prods li)"
  unfolding listing_events_def Let_def
proof (rule pred_then, rule pred_bind [OF discovery_event [OF assms, of fr]])
  fix title d
  assume d: "gives (line_of fr shops prods (Admin d)) = [about_listing shops prods li] \<and>
      ad_ing d \<le> of_int (\<lfloor>li_discovered li\<rfloor> + 122) \<and> listing_event_ok shops prods li d"
  have life: "pred_option (aged (li_discovered li)) (li_delist li)" "pred_option (aged (li_discovered li)) (li_relist li)"
    using assms by (simp_all add: listing_ok_def life_ok_def)
  show "pred_state (\<lambda>as. (\<forall>a \<in> set as. listing_event_ok shops prods li a) \<and>
      (\<exists>a \<in> set as. gives (line_of fr shops prods (Admin a)) = [about_listing shops prods li] \<and>
        ad_ing a \<le> of_int (\<lfloor>li_discovered li\<rfloor> + 122)))
    (case li_delist li of
       None \<Rightarrow> State_Monad.return [d]
     | Some t \<Rightarrow> do {
         e \<leftarrow> emit np t (u ''product_delisted'') [(u ''shop_code'', JStr (sh_code (shops ! li_s li))), (u ''product_code'', JStr (pr_code (prods ! li_p li)))] 300;
         case li_relist li of
           None \<Rightarrow> State_Monad.return [d, e]
         | Some t2 \<Rightarrow> do {
             title2 \<leftarrow> local_title_variant np (pr_title (prods ! li_p li)) (pr_brand (prods ! li_p li)) (sh_code (shops ! li_s li));
             e2 \<leftarrow> emit np t2 (u ''product_relisted'')
               [(u ''shop_code'', JStr (sh_code (shops ! li_s li))), (u ''product_code'', JStr (pr_code (prods ! li_p li))), (u ''local_title'', JStr title2)] 300;
             State_Monad.return [d, e, e2]
           }
       })"
  proof (cases "li_delist li")
    case None
    then show ?thesis using d by simp
  next
    case (Some t)
    then have t: "aged (li_discovered li) t" using life(1) by simp
    show ?thesis
      unfolding Some option.case
    proof (rule pred_bind [OF delisting_event [OF t, where shops = shops and prods = prods and rest = "[]"]], simp, simp, simp)
      fix e assume e: "listing_event_ok shops prods li e"
      show "pred_state (\<lambda>as. (\<forall>a \<in> set as. listing_event_ok shops prods li a) \<and>
          (\<exists>a \<in> set as. gives (line_of fr shops prods (Admin a)) = [about_listing shops prods li] \<and>
            ad_ing a \<le> of_int (\<lfloor>li_discovered li\<rfloor> + 122)))
        (case li_relist li of
           None \<Rightarrow> State_Monad.return [d, e]
         | Some t2 \<Rightarrow> do {
             title2 \<leftarrow> local_title_variant np (pr_title (prods ! li_p li)) (pr_brand (prods ! li_p li)) (sh_code (shops ! li_s li));
             e2 \<leftarrow> emit np t2 (u ''product_relisted'')
               [(u ''shop_code'', JStr (sh_code (shops ! li_s li))), (u ''product_code'', JStr (pr_code (prods ! li_p li))), (u ''local_title'', JStr title2)] 300;
             State_Monad.return [d, e, e2]
           })"
      proof (cases "li_relist li")
        case None
        then show ?thesis using d e by simp
      next
        case relist: (Some t2)
        then have "aged (li_discovered li) t2" using life(2) by simp
        note later = delisting_event [OF this, where shops = shops and prods = prods]
        show ?thesis
          unfolding relist option.case
          by (rule pred_then, rule pred_bind [OF later]) (use d e in auto)
      qed
    qed
  qed
qed

lemma build_admin_ok:
  assumes "\<forall>sh \<in> set shops. shop_ok sh" "\<forall>li \<in> set ls. listing_ok shops prods li"
  shows "pred_state (admin_ok fr shops prods ls) (build_admin_events np shops prods ls)"
  unfolding admin_ok_def
  unfolding build_admin_events_def Let_def
proof (rule pred_bind [OF pred_traverse [of shops "\<lambda>sh a. plain a \<and> gives (line_of fr shops prods (Admin a)) = [[JStr (sh_code sh)]] \<and>
      ad_ing a \<le> of_int (\<lfloor>sh_registered sh\<rfloor> + 302)"]], rule registration_ok, use assms(1) in blast,
    rule pred_then, rule pred_bind [OF pred_each [OF rename_shop_plain]],
    rule pred_then, rule pred_bind [OF pred_each [OF retier_shop_plain]],
    rule pred_then, rule pred_bind [OF pred_each [OF change_attrs_plain]],
    rule pred_bind [OF pred_traverse [of ls "\<lambda>li as. (\<forall>a \<in> set as. listing_event_ok shops prods li a) \<and>
      (\<exists>a \<in> set as. gives (line_of fr shops prods (Admin a)) = [about_listing shops prods li] \<and>
        ad_ing a \<le> of_int (\<lfloor>li_discovered li\<rfloor> + 122))"]], rule listing_events_ok, use assms(2) in blast,
    unfold pred_return, intro conjI)
  fix regs renames tiers attrs lists and order :: "nat list"
  assume regs: "list_all2 (\<lambda>sh a. plain a \<and> gives (line_of fr shops prods (Admin a)) = [[JStr (sh_code sh)]] \<and>
      ad_ing a \<le> of_int (\<lfloor>sh_registered sh\<rfloor> + 302)) shops regs"
    and lists: "list_all2 (\<lambda>li as. (\<forall>a \<in> set as. listing_event_ok shops prods li a) \<and>
      (\<exists>a \<in> set as. gives (line_of fr shops prods (Admin a)) = [about_listing shops prods li] \<and>
        ad_ing a \<le> of_int (\<lfloor>li_discovered li\<rfloor> + 122))) ls lists"
    and rest: "\<forall>as \<in> set renames. \<forall>a \<in> set as. plain a"
      "\<forall>as \<in> set tiers. \<forall>a \<in> set as. plain a"
      "\<forall>as \<in> set attrs. \<forall>a \<in> set as. plain a"
  show "\<forall>a \<in> set (regs @ concat renames @ concat tiers @ concat attrs @ concat lists).
      plain a \<or> (\<exists>li \<in> set ls. listing_event_ok shops prods li a)"
  proof -
    have "plain a" if "a \<in> set regs" for a
      using list_all2_right [OF regs that] by blast
    moreover have "\<exists>li \<in> set ls. listing_event_ok shops prods li a" if "as \<in> set lists" "a \<in> set as" for a as
      using list_all2_right [OF lists that(1)] that(2) by blast
    ultimately show ?thesis using rest by auto
  qed
  show "\<forall>sh \<in> set shops. \<exists>a \<in> set (regs @ concat renames @ concat tiers @ concat attrs @ concat lists).
      gives (line_of fr shops prods (Admin a)) = [[JStr (sh_code sh)]] \<and> ad_ing a \<le> of_int (\<lfloor>sh_registered sh\<rfloor> + 302)"
  proof
    fix sh assume "sh \<in> set shops"
    then obtain a where "a \<in> set regs" "gives (line_of fr shops prods (Admin a)) = [[JStr (sh_code sh)]]"
        "ad_ing a \<le> of_int (\<lfloor>sh_registered sh\<rfloor> + 302)"
      using list_all2_left [OF regs] by blast
    then show "\<exists>a \<in> set (regs @ concat renames @ concat tiers @ concat attrs @ concat lists).
      gives (line_of fr shops prods (Admin a)) = [[JStr (sh_code sh)]] \<and> ad_ing a \<le> of_int (\<lfloor>sh_registered sh\<rfloor> + 302)"
      by (intro bexI [of _ a]) simp_all
  qed
  show "\<forall>li \<in> set ls. \<exists>a \<in> set (regs @ concat renames @ concat tiers @ concat attrs @ concat lists).
      gives (line_of fr shops prods (Admin a)) = [about_listing shops prods li] \<and> ad_ing a \<le> of_int (\<lfloor>li_discovered li\<rfloor> + 122)"
  proof
    fix li assume "li \<in> set ls"
    then obtain as a where a: "as \<in> set lists" "a \<in> set as" "gives (line_of fr shops prods (Admin a)) = [about_listing shops prods li]"
        "ad_ing a \<le> of_int (\<lfloor>li_discovered li\<rfloor> + 122)"
      using list_all2_left [OF lists] by blast
    then have "a \<in> set (concat lists)" by auto
    then show "\<exists>a \<in> set (regs @ concat renames @ concat tiers @ concat attrs @ concat lists).
      gives (line_of fr shops prods (Admin a)) = [about_listing shops prods li] \<and> ad_ing a \<le> of_int (\<lfloor>li_discovered li\<rfloor> + 122)"
      using a(3,4) by (intro bexI [of _ a]) simp_all
  qed
qed

end

section \<open>The whole stream\<close>

definition shop_code_at :: "nat \<Rightarrow> pystr" where
  "shop_code_at i = u ''S'' @ pad 3 (i + 1)"

definition product_code_at :: "nat \<Rightarrow> pystr" where
  "product_code_at i = u ''P'' @ pad 5 (i + 1)"

definition world_ok :: "(rat \<Rightarrow> pystr) \<Rightarrow> pricewatch \<Rightarrow> bool" where
  "world_ok fr w \<longleftrightarrow>
     (\<forall>sh \<in> set (pw_shops w). shop_ok sh) \<and>
     (\<forall>i < length (pw_shops w). sh_code (pw_shops w ! i) = shop_code_at i) \<and>
     (\<forall>i < length (pw_products w). pr_code (pw_products w ! i) = product_code_at i) \<and>
     listings_ok (pw_shops w) (pw_products w) (pw_listings w) \<and>
     admin_ok fr (pw_shops w) (pw_products w) (pw_listings w) (pw_admin w) \<and>
     observations_ok (pw_listings w) (pw_obs w) \<and> sorted (map ev_ing (pw_obs w))"

context numpy_rng
begin

lemma build_shop_code: "pred_state (\<lambda>sh. sh_code sh = shop_code_at i) (build_shop np i)"
  unfolding build_shop_def by (intro pred_then) (simp add: shop_code_at_def)

lemma build_product_code: "pred_state (\<lambda>pd. pr_code pd = product_code_at i) (build_product np i)"
  unfolding build_product_def Let_def by (intro pred_then) (simp add: product_code_at_def)

lemma build_pricewatch_ok: "pred_state (pred_option (world_ok fr)) (build_pricewatch np root2 scale)"
  unfolding build_pricewatch_def build_shops_def build_products_def
proof (rule pred_bind [OF pred_traverse [of _ "\<lambda>i sh. shop_ok sh \<and> sh_code sh = shop_code_at i"]],
    rule pred_conj [OF build_shop_ok build_shop_code],
    rule pred_bind [OF pred_traverse [of _ "\<lambda>i pd. pr_code pd = product_code_at i"]], rule build_product_code)
  fix shops and prods :: "product list" and n m
  assume "list_all2 (\<lambda>i sh. shop_ok sh \<and> sh_code sh = shop_code_at i) [0..<n] shops"
    "list_all2 (\<lambda>i pd. pr_code pd = product_code_at i) [0..<m] prods"
  then have s: "\<forall>sh \<in> set shops. shop_ok sh" and
    codes: "\<forall>i < length shops. sh_code (shops ! i) = shop_code_at i" "\<forall>i < length prods. pr_code (prods ! i) = product_code_at i"
    by (auto simp: list_all2_conv_all_nth in_set_conv_nth)
  show "pred_state (pred_option (world_ok fr)) (do {
     ls0 \<leftarrow> build_listings np shops prods;
     ls \<leftarrow> assign_lifecycle np ls0;
     as \<leftarrow> build_admin_events np shops prods ls;
     obs \<leftarrow> build_observations np shops prods ls (trunc (fmul 2400000 scale));
     case obs of
       None \<Rightarrow> State_Monad.return None
     | Some ps \<Rightarrow> map_state (\<lambda>cs. Some
         \<lparr>pw_shops = shops, pw_products = prods, pw_listings = ls, pw_admin = as, pw_obs = ps, pw_clients = cs\<rparr>)
         (write_clients np root2 prods scale)
   })"
  proof (rule pred_bind [OF build_listings_ok [OF s]], rule pred_bind [OF assign_lifecycle_ok], assumption)
    fix ls assume l: "listings_ok shops prods ls"
    then have "\<forall>li \<in> set ls. listing_ok shops prods li" by (simp add: listings_ok_def)
    note admin = build_admin_ok [OF s this, of fr]
    show "pred_state (pred_option (world_ok fr)) (do {
       as \<leftarrow> build_admin_events np shops prods ls;
       obs \<leftarrow> build_observations np shops prods ls (trunc (fmul 2400000 scale));
       case obs of
         None \<Rightarrow> State_Monad.return None
       | Some ps \<Rightarrow> map_state (\<lambda>cs. Some
           \<lparr>pw_shops = shops, pw_products = prods, pw_listings = ls, pw_admin = as, pw_obs = ps, pw_clients = cs\<rparr>)
           (write_clients np root2 prods scale)
     })"
    proof (rule pred_bind [OF admin], rule pred_bind [OF build_observations_ok [OF l]])
      fix as obs
      assume a: "admin_ok fr shops prods ls as"
        and o1: "pred_option (\<lambda>obs. observations_ok ls obs \<and> sorted (map ev_ing obs)) obs"
      show "pred_state (pred_option (world_ok fr)) (case obs of
         None \<Rightarrow> State_Monad.return None
       | Some ps \<Rightarrow> map_state (\<lambda>cs. Some
           \<lparr>pw_shops = shops, pw_products = prods, pw_listings = ls, pw_admin = as, pw_obs = ps, pw_clients = cs\<rparr>)
           (write_clients np root2 prods scale))"
        using s codes l a o1 by (cases obs) (auto simp: pred_map world_ok_def intro: pred_weaken [OF pred_any])
    qed
  qed
qed

end

lemma registered_first:
  assumes "admin_ok fr shops prods ls as" "listing_ok shops prods li" "\<forall>sh \<in> set shops. shop_ok sh"
  obtains a where "a \<in> set as" "ad_ing a < li_discovered li"
    "gives (line_of fr shops prods (Admin a)) = [[JStr (sh_code (shops ! li_s li))]]"
proof -
  have l: "li_s li < length shops" "fadd (sh_registered (shops ! li_s li)) DAY \<le> li_discovered li"
    using assms(2) by (simp_all add: listing_ok_def)
  have m: "shops ! li_s li \<in> set shops" using l(1) by simp
  have "\<exists>a \<in> set as. gives (line_of fr shops prods (Admin a)) = [[JStr (sh_code (shops ! li_s li))]] \<and>
      ad_ing a \<le> of_int (\<lfloor>sh_registered (shops ! li_s li)\<rfloor> + 302)"
    using assms(1) m unfolding admin_ok_def by blast
  then obtain a where a: "a \<in> set as" "gives (line_of fr shops prods (Admin a)) = [[JStr (sh_code (shops ! li_s li))]]"
    "ad_ing a \<le> of_int (\<lfloor>sh_registered (shops ! li_s li)\<rfloor> + 302)" by blast
  have r: "shop_ok (shops ! li_s li)" using assms(3) m by blast
  then have b: "0 \<le> \<lfloor>sh_registered (shops ! li_s li)\<rfloor>" "\<lfloor>sh_registered (shops ! li_s li)\<rfloor> \<le> 1741305600"
    by (simp_all add: shop_ok_def span_values floor_le_iff)
  have "of_int (\<lfloor>sh_registered (shops ! li_s li)\<rfloor> + 86400) \<le> fadd (sh_registered (shops ! li_s li)) DAY"
    by (rule fadd_ge) (use b in \<open>simp_all add: DAY_def\<close>)
  then have "ad_ing a < li_discovered li" using a(3) l(2) by simp
  then show thesis by (rule that [OF a(1) _ a(2)])
qed

lemma discovered_first:
  assumes "admin_ok fr shops prods ls as" "li \<in> set ls" "listing_ok shops prods li"
  obtains a where "a \<in> set as" "ad_ing a < of_int (\<lfloor>li_discovered li\<rfloor> + 21600)" "ad_ing a < fadd (li_discovered li) (fmul 30 DAY)"
    "gives (line_of fr shops prods (Admin a)) = [about_listing shops prods li]"
proof -
  have "\<exists>a \<in> set as. gives (line_of fr shops prods (Admin a)) = [about_listing shops prods li] \<and>
      ad_ing a \<le> of_int (\<lfloor>li_discovered li\<rfloor> + 122)"
    using assms(1,2) unfolding admin_ok_def by blast
  then obtain a where a: "a \<in> set as" "gives (line_of fr shops prods (Admin a)) = [about_listing shops prods li]"
    "ad_ing a \<le> of_int (\<lfloor>li_discovered li\<rfloor> + 122)" by blast
  have b: "0 \<le> \<lfloor>li_discovered li\<rfloor>" "\<lfloor>li_discovered li\<rfloor> \<le> 1767225600"
    using listing_time [OF assms(3)] by (simp_all add: floor_le_iff)
  have thirty: "fmul 30 DAY = of_int 2592000" by (simp add: fmul_def DAY_def fl_numeral)
  have "of_int (\<lfloor>li_discovered li\<rfloor> + 2592000) \<le> fadd (li_discovered li) (fmul 30 DAY)"
    unfolding thirty by (rule fadd_ge) (use b in simp_all)
  then have "ad_ing a < fadd (li_discovered li) (fmul 30 DAY)" using a(3) by simp
  moreover have "ad_ing a < of_int (\<lfloor>li_discovered li\<rfloor> + 21600)" using a(3) by simp
  ultimately show thesis using that a(1,2) by blast
qed

lemma needs_price: "observes li p \<Longrightarrow> needs (line_of fr shops prods (Price p)) = [about_listing shops prods li]"
  by (simp add: line_facts observes_def about_listing_def)

lemma world_loadable:
  assumes "world_ok fr w"
  shows "loadable [] (event_lines fr w)"
  unfolding event_lines_def write_events_def
proof (rule loadable_sorted [where f = item_ing])
  let ?shops = "pw_shops w" and ?prods = "pw_products w" and ?ls = "pw_listings w"
  let ?items = "merge_items (sort_key ad_ing (pw_admin w)) (pw_obs w)"
  have sh: "\<forall>sh \<in> set ?shops. shop_ok sh" and ls: "\<And>li. li \<in> set ?ls \<Longrightarrow> listing_ok ?shops ?prods li"
    and as: "admin_ok fr ?shops ?prods ?ls (pw_admin w)" and obs: "\<And>p. p \<in> set (pw_obs w) \<Longrightarrow> \<exists>li \<in> set ?ls. observes li p"
    using assms by (auto simp: world_ok_def listings_ok_def observations_ok_def)
  show "sorted (map item_ing ?items)"
    by (rule sorted_merge_items) (use assms in \<open>simp_all add: world_ok_def\<close>)
  have items: "set ?items = Admin ` set (pw_admin w) \<union> Price ` set (pw_obs w)" by (simp add: set_merge_items)
  fix x k
  assume x: "x \<in> set ?items" and k: "k \<in> set (needs (line_of fr ?shops ?prods x))"
  have found: "\<exists>y \<in> set ?items. item_ing y < t \<and> k \<in> set (gives (line_of fr ?shops ?prods y))"
    if "a \<in> set (pw_admin w)" "ad_ing a < t" "gives (line_of fr ?shops ?prods (Admin a)) = [k]" for a t
    using that by (intro bexI [of _ "Admin a"]) (simp_all add: items del: line_of.simps)
  show "\<exists>y \<in> set ?items. item_ing y < item_ing x \<and> k \<in> set (gives (line_of fr ?shops ?prods y))"
  proof (cases x)
    case (Admin a)
    have n: "needs (line_of fr ?shops ?prods (Admin a)) = needs (line_of (\<lambda>_. []) [] [] (Admin a))" by simp
    have "a \<in> set (pw_admin w)" using x Admin items by auto
    then have "plain a \<or> (\<exists>li \<in> set ?ls. listing_event_ok ?shops ?prods li a)" using as by (simp add: admin_ok_def)
    moreover have "\<not> plain a" using k unfolding Admin n plain_def by auto
    ultimately obtain li where li: "li \<in> set ?ls" "listing_event_ok ?shops ?prods li a" by blast
    from li(2) show ?thesis
      unfolding listing_event_ok_def n [symmetric]
    proof (elim disjE conjE)
      assume a: "needs (line_of fr ?shops ?prods (Admin a)) = [[JStr (sh_code (?shops ! li_s li))]]" "li_discovered li \<le> ad_ing a"
      obtain r where "r \<in> set (pw_admin w)" "ad_ing r < li_discovered li"
          "gives (line_of fr ?shops ?prods (Admin r)) = [[JStr (sh_code (?shops ! li_s li))]]"
        by (rule registered_first [OF as ls [OF li(1)] sh])
      then show ?thesis using found [of r "ad_ing a"] k a unfolding Admin by (simp del: line_of.simps)
    next
      assume a: "needs (line_of fr ?shops ?prods (Admin a)) = [about_listing ?shops ?prods li]"
        "fadd (li_discovered li) (fmul 30 DAY) \<le> ad_ing a"
      obtain r where "r \<in> set (pw_admin w)" "ad_ing r < fadd (li_discovered li) (fmul 30 DAY)"
          "gives (line_of fr ?shops ?prods (Admin r)) = [about_listing ?shops ?prods li]"
        by (rule discovered_first [OF as li(1) ls [OF li(1)]])
      then show ?thesis using found [of r "ad_ing a"] k a unfolding Admin by (simp del: line_of.simps)
    qed
  next
    case (Price p)
    have "p \<in> set (pw_obs w)" using x Price items by auto
    then obtain li where li: "li \<in> set ?ls" "observes li p" using obs by blast
    have "k = about_listing ?shops ?prods li" using k unfolding Price needs_price [OF li(2)] by simp
    moreover have "of_int (\<lfloor>li_discovered li\<rfloor> + 21600) \<le> ev_ing p" using li(2) by (simp add: observes_def)
    moreover obtain r where "r \<in> set (pw_admin w)" "ad_ing r < of_int (\<lfloor>li_discovered li\<rfloor> + 21600)"
        "gives (line_of fr ?shops ?prods (Admin r)) = [about_listing ?shops ?prods li]"
      by (rule discovered_first [OF as li(1) ls [OF li(1)]])
    ultimately show ?thesis using found [of r "ev_ing p"] unfolding Price by (simp del: line_of.simps)
  qed
qed

end
