(* ===== verification/EventKeys.thy ===== *)
theory EventKeys
  imports EventOrder
begin

text \<open>
  The written prices of the PriceWatch events (03-data-modeling/harness/events.py): the printed codes
  and times identify shop, product and second, so the lines of one key carry one price.
\<close>

section \<open>One price per key\<close>

definition price_lines :: "fields list \<Rightarrow> fields list" where
  "price_lines ls = filter (\<lambda>l. member l ''event_type'' = JStr (u ''price_observed'')) ls"

definition line_key :: "fields \<Rightarrow> json list" where
  "line_key l = listing_key l @ [member l ''event_time'']"

definition line_price :: "fields \<Rightarrow> json list" where
  "line_price l = [member l ''price'', member l ''currency'']"

lemma not_price:
  assumes "plain a \<or> listing_event_ok shops prods li a"
  shows "member (line_of fr sh pr (Admin a)) ''event_type'' \<noteq> JStr (u ''price_observed'')"
proof
  assume t: "member (line_of fr sh pr (Admin a)) ''event_type'' = JStr (u ''price_observed'')"
  then have n: "needs (line_of (\<lambda>_. []) [] [] (Admin a)) = [listing_key (line_of fr sh pr (Admin a))]"
    and t': "member (line_of (\<lambda>_. []) [] [] (Admin a)) ''event_type'' = JStr (u ''price_observed'')"
    by (simp_all add: needs_def u_def)
  then have "\<not> plain a" by (simp add: plain_def del: line_of.simps)
  moreover have "listing_key l \<noteq> [x]" for l x by (simp add: listing_key_def)
  ultimately show False using assms n t' by (auto simp: listing_event_ok_def simp del: line_of.simps)
qed

lemma code_inj: "shop_code_at i = shop_code_at j \<Longrightarrow> i = j" "product_code_at i = product_code_at j \<Longrightarrow> i = j"
  unfolding shop_code_at_def product_code_at_def by (auto dest: pad_inj)

lemma price_line:
  "listing_key (line_of fr shops prods (Price p)) = [JStr (sh_code (shops ! ev_s p)), JStr (pr_code (prods ! ev_p p))]"
  "line_price (line_of fr shops prods (Price p)) = [JFloat (fr (ev_amount p)), JStr (currencies ! ev_cur p)]"
  "member (line_of fr shops prods (Price p)) ''event_time'' = JStr (ts (ev_t p))"
  by (simp_all add: line_facts line_price_def)

lemma world_one_price:
  assumes "world_ok fr w" "x \<in> set (price_lines (event_lines fr w))" "y \<in> set (price_lines (event_lines fr w))"
    "line_key x = line_key y"
  shows "line_price x = line_price y"
proof -
  let ?shops = "pw_shops w" and ?prods = "pw_products w" and ?ls = "pw_listings w"
  have price: "\<exists>p \<in> set (pw_obs w). z = line_of fr ?shops ?prods (Price p)" if z: "z \<in> set (price_lines (event_lines fr w))" for z
  proof -
    obtain it where it: "it \<in> set (merge_items (sort_key ad_ing (pw_admin w)) (pw_obs w))" "z = line_of fr ?shops ?prods it"
        "member z ''event_type'' = JStr (u ''price_observed'')"
      using z by (auto simp: price_lines_def event_lines_def write_events_def)
    show ?thesis
    proof (cases it)
      case (Admin a)
      then have "a \<in> set (pw_admin w)" using it(1) by (auto simp: set_merge_items)
      moreover have "\<forall>a \<in> set (pw_admin w). plain a \<or> (\<exists>li \<in> set ?ls. listing_event_ok ?shops ?prods li a)"
        using assms(1) unfolding world_ok_def admin_ok_def by blast
      ultimately obtain li where "plain a \<or> listing_event_ok ?shops ?prods li a" by blast
      then show ?thesis using not_price it(2,3) Admin by blast
    next
      case (Price p)
      then show ?thesis using it by (auto simp: set_merge_items)
    qed
  qed
  obtain p q where p: "p \<in> set (pw_obs w)" "x = line_of fr ?shops ?prods (Price p)"
    and q: "q \<in> set (pw_obs w)" "y = line_of fr ?shops ?prods (Price q)"
    using price assms(2,3) by blast
  have obs: "ev_s o1 < length ?shops \<and> ev_p o1 < length ?prods \<and> (\<exists>n. 0 \<le> n \<and> ev_t o1 = of_int n)"
    if o1: "o1 \<in> set (pw_obs w)" for o1
  proof -
    obtain li where li: "li \<in> set ?ls" "observes li o1" using assms(1) o1 by (auto simp: world_ok_def observations_ok_def)
    have ok: "listing_ok ?shops ?prods li" using li(1) assms(1) by (simp add: world_ok_def listings_ok_def)
    have "0 \<le> \<lfloor>li_discovered li\<rfloor>" using listing_time [OF ok] by simp
    then have "0 \<le> \<lfloor>ev_t o1\<rfloor>" using li(2) unfolding observes_def by linarith
    moreover have "ev_t o1 = of_int \<lfloor>ev_t o1\<rfloor>" using li(2) unfolding observes_def by blast
    ultimately have "\<exists>n. 0 \<le> n \<and> ev_t o1 = of_int n" by blast
    moreover have "ev_s o1 = li_s li" "ev_p o1 = li_p li" using li(2) unfolding observes_def by blast+
    ultimately show ?thesis using ok by (simp add: listing_ok_def)
  qed
  have k: "sh_code (?shops ! ev_s p) = sh_code (?shops ! ev_s q)" "pr_code (?prods ! ev_p p) = pr_code (?prods ! ev_p q)" "ts (ev_t p) = ts (ev_t q)"
    using assms(4) unfolding p(2) q(2) line_key_def price_line by simp_all
  have codes: "sh_code (?shops ! i) = shop_code_at i" if "i < length ?shops" for i
    using assms(1) that unfolding world_ok_def by blast
  have pcodes: "pr_code (?prods ! i) = product_code_at i" if "i < length ?prods" for i
    using assms(1) that unfolding world_ok_def by blast
  have "ev_s p = ev_s q"
    by (rule code_inj) (use k(1) codes obs [OF p(1)] obs [OF q(1)] in simp)
  moreover have "ev_p p = ev_p q"
    by (rule code_inj) (use k(2) pcodes obs [OF p(1)] obs [OF q(1)] in simp)
  moreover have "ev_t p = ev_t q"
  proof -
    obtain n m where "0 \<le> n" "ev_t p = of_int n" "0 \<le> m" "ev_t q = of_int m"
      using obs [OF p(1)] obs [OF q(1)] by blast
    then show ?thesis using k(3) fmt_instant_inj [of n m] by (simp add: ts_def)
  qed
  ultimately have "price_key p = price_key q" by (simp add: price_key_def)
  moreover have "one_price (pw_obs w)" using assms(1) unfolding world_ok_def observations_ok_def by blast
  ultimately have "seen_price p = seen_price q" using p(1) q(1) unfolding one_price_def by blast
  then have "ev_amount p = ev_amount q" "ev_cur p = ev_cur q" by (simp_all add: seen_price_def)
  then show ?thesis unfolding p(2) q(2) price_line by simp
qed

end
