(* ===== verification/EventTotal.thy ===== *)
theory EventTotal
  imports EventKeys
begin

text \<open>
  The PriceWatch generator (03-data-modeling/harness/events.py) writes a stream: concatenating the
  observations of no listing raises, and this cannot happen while no gap before a discovery exceeds
  thirty days, because then most listings are never delisted and each of these is observed.
\<close>

lemma day_product: "fmul 30 DAY = 2592000" "fmul 1 DAY = 86400" "fmul 6 HOUR = 21600" "fsub T_end HOUR = 1767222000"
  by (simp_all add: fmul_def fsub_def DAY_def HOUR_def span_values fl_numeral)

lemma last_discovery: "fsub T_end (fmul 30 DAY) = 1764633600"
  by (simp add: day_product fsub_def span_values fl_numeral)

definition on_sale :: "listing_rec \<Rightarrow> bool" where
  "on_sale li \<longleftrightarrow> li_delist li = None"

text \<open>How many listings are delisted.\<close>

lemma delisted_count:
  assumes "11 \<le> n" "n < 2 ^ 50"
  shows "nat (max 10 (trunc (fmul (fl (15 / 100)) (of_nat n)))) < n"
proof -
  have c: "0 \<le> fl (15 / 100)" "fl (15 / 100) \<le> 1 / 4"
  proof -
    have "fl (1 / 4) = (1 / 4 :: rat)" using fl_quarter [of 1] by simp
    then show "fl (15 / 100) \<le> 1 / 4" using fl_mono [of "15 / 100" "1 / 4"] by simp
  qed (simp add: fl_nonneg)
  define x where "x = fmul (fl (15 / 100)) (of_nat n)"
  have "fl (15 / 100) * of_nat n \<le> 1 / 4 * of_nat n" using c by (intro mult_right_mono) simp_all
  also have "\<dots> \<le> of_int (int n div 4 + 1)"
  proof -
    have "int n \<le> 4 * (int n div 4 + 1)" by presburger
    then have "rat_of_int (int n) \<le> rat_of_int (4 * (int n div 4 + 1))" by (rule of_int_le_iff [THEN iffD2])
    then show ?thesis by simp
  qed
  finally have "x \<le> of_int (int n div 4 + 1)"
    unfolding x_def fmul_def by (rule fl_le_int) (use assms in simp)
  moreover have "0 \<le> x" using c(1) by (simp add: x_def fmul_nonneg)
  ultimately have "trunc x \<le> int n div 4 + 1" by (simp add: trunc_def floor_le_iff)
  then have "max 10 (trunc x) < int n" using assms(1) by (simp add: max_def) linarith
  then show ?thesis unfolding x_def [symmetric] by linarith
qed

context numpy_rng
begin

lemma build_product_birth: "pred_state (\<lambda>pd. pr_birth pd \<le> 1761091200) (build_product np i)"
proof -
  have b: "fadd T_start (fmul (fmul bt 660) DAY) \<le> 1761091200" if "0 \<le> bt" "bt \<le> 1" for bt
  proof -
    have "fmul bt 660 \<le> of_int (1 * 660)" by (rule fmul_le) (use that in simp_all)
    then have "fmul (fmul bt 660) DAY \<le> of_int (660 * 86400)"
      by (intro fmul_le) (use that in \<open>simp_all add: DAY_def fmul_nonneg\<close>)
    then have "fadd T_start (fmul (fmul bt 660) DAY) \<le> of_int (1704067200 + 660 * 86400)"
      by (intro fadd_le) (simp_all add: span_values)
    then show ?thesis by simp
  qed
  show ?thesis
    unfolding build_product_def Let_def
    by (rule pred_then, rule pred_then, rule pred_then, rule pred_then, rule pred_then, rule pred_then, rule pred_then,
        rule pred_bind [OF pred_one [OF beta]], intro pred_then) (simp add: b)
qed

lemma all_listed:
  assumes gaps: "pred_state (\<lambda>xs. \<forall>x \<in> set xs. x \<le> 2592000) (np_exponential np (fmul 15 DAY) None)"
    and "pr_birth pd \<le> 1761091200" "\<forall>s \<in> set ss. shop_ok (shops ! s)"
  shows "pred_state (\<lambda>ls. length ls = length ss \<and> (\<forall>li \<in> set ls. on_sale li)) (product_listings np shops p_idx pd ss)"
  using assms(3)
proof (induction ss)
  case Nil
  then show ?case by simp
next
  case (Cons s ss)
  have ih: "pred_state (\<lambda>ls. length ls = length ss \<and> (\<forall>li \<in> set ls. on_sale li)) (product_listings np shops p_idx pd ss)"
    using Cons by simp
  have e: "pred_state (\<lambda>x. x \<le> 2592000) (one (np_exponential np (fmul 15 DAY) None))"
    by (rule pred_one, rule pred_weaken [OF pred_conj [OF exponential gaps]]) auto
  have late: "\<not> fadd (max (pr_birth pd) (fadd (sh_registered (shops ! s)) (fmul 1 DAY))) e > fsub T_end (fmul 30 DAY)"
    if "e \<le> 2592000" for e
  proof -
    have "sh_registered (shops ! s) \<le> of_int 1741305600" using Cons.prems by (simp add: shop_ok_def span_values)
    then have "fadd (sh_registered (shops ! s)) 86400 \<le> of_int (1741305600 + 86400)" by (rule fadd_le) simp_all
    then have "max (pr_birth pd) (fadd (sh_registered (shops ! s)) (fmul 1 DAY)) \<le> of_int 1761091200"
      using assms(2) by (simp add: day_product)
    then have "fadd (max (pr_birth pd) (fadd (sh_registered (shops ! s)) (fmul 1 DAY))) e \<le> of_int (1761091200 + 2592000)"
      by (rule fadd_le) (use that in simp_all)
    then show ?thesis by (simp add: last_discovery)
  qed
  show ?case
    unfolding product_listings.simps Let_def
    by (rule pred_bind [OF e], unfold if_not_P [OF late], rule pred_then, rule pred_bind [OF ih]) (simp add: on_sale_def)
qed

lemma build_listings_count:
  assumes gaps: "pred_state (\<lambda>xs. \<forall>x \<in> set xs. x \<le> 2592000) (np_exponential np (fmul 15 DAY) None)"
    and "\<forall>pd \<in> set prods. pr_birth pd \<le> 1761091200" "\<forall>sh \<in> set shops. shop_ok sh" "2 \<le> length shops"
  shows "pred_state (\<lambda>ls. 2 * length prods \<le> length ls \<and> length ls \<le> 10 * length prods \<and> (\<forall>li \<in> set ls. on_sale li))
    (build_listings np shops prods)"
  unfolding build_listings_def pred_map
proof (rule pred_weaken [OF pred_traverse_all [where P = "\<lambda>ls. 2 \<le> length ls \<and> length ls \<le> 10 \<and> (\<forall>li \<in> set ls. on_sale li)"]])
  fix x assume "x \<in> set (zip [0..<length prods] prods)"
  then obtain p pd where x: "x = (p, pd)" "pd \<in> set prods" by (metis prod.collapse set_zip_rightD)
  show "pred_state (\<lambda>ls. 2 \<le> length ls \<and> length ls \<le> 10 \<and> (\<forall>li \<in> set ls. on_sale li))
      (case x of (p_idx, pd) \<Rightarrow> do {
         z \<leftarrow> one (np_zipf np (fl (16 / 10)) None);
         shop_ids \<leftarrow> np_sample np (length shops) None (min (length shops) (2 + z mod 9));
         product_listings np shops p_idx pd shop_ids
       })"
    unfolding x prod.case
  proof (rule pred_then, rule pred_bind [OF sample])
    fix ids and z :: nat
    assume i: "length ids = min (length shops) (2 + z mod 9) \<and> distinct ids \<and> (\<forall>x \<in> set ids. x < length shops)"
    have "z mod 9 < 9" by simp
    then have "2 \<le> length ids" "length ids \<le> 10" using i assms(4) by simp_all
    then show "pred_state (\<lambda>ls. 2 \<le> length ls \<and> length ls \<le> 10 \<and> (\<forall>li \<in> set ls. on_sale li)) (product_listings np shops p pd ids)"
      using i assms(2,3) x(2) by (intro pred_weaken [OF all_listed [OF gaps]]) auto
  qed simp
next
  fix lss :: "listing_rec list list"
  assume l: "length lss = length (zip [0..<length prods] prods) \<and>
    (\<forall>ls \<in> set lss. 2 \<le> length ls \<and> length ls \<le> 10 \<and> (\<forall>li \<in> set ls. on_sale li))"
  have "2 * length lss \<le> length (concat lss)" "length (concat lss) \<le> 10 * length lss"
    if "\<forall>ls \<in> set lss. 2 \<le> length ls \<and> length ls \<le> 10" for lss :: "listing_rec list list"
    using that by (induction lss) auto
  then show "2 * length prods \<le> length (concat lss) \<and> length (concat lss) \<le> 10 * length prods \<and> (\<forall>li \<in> set (concat lss). on_sale li)"
    using l by fastforce
qed

text \<open>Only the chosen listings are delisted.\<close>

definition untouched :: "nat \<Rightarrow> nat set \<Rightarrow> listing_rec list \<Rightarrow> bool" where
  "untouched n chosen ls \<longleftrightarrow> length ls = n \<and> (\<forall>i < n. i \<notin> chosen \<longrightarrow> on_sale (ls ! i))"

lemma untouched_update: "untouched n chosen ls \<Longrightarrow> k \<in> chosen \<Longrightarrow> untouched n chosen (ls[k := li])"
  unfolding untouched_def by (metis length_list_update nth_list_update_neq)

lemma plain_delist_untouched:
  assumes "untouched n chosen ls" "k \<in> chosen"
  shows "pred_state (untouched n chosen) (plain_delist np ls k lo)"
  unfolding plain_delist_def Let_def
  using assms untouched_update [OF untouched_update [OF assms(1,2)] assms(2)]
  by (auto intro!: pred_then untouched_update simp del: list_update_overwrite)

lemma lifecycle_step_untouched:
  assumes "untouched n chosen (fst st)" "k \<in> chosen"
  shows "pred_state (\<lambda>st. untouched n chosen (fst st)) (lifecycle_step np st k)"
proof -
  obtain ls recover churn where st: "st = (ls, recover, churn)" by (cases st)
  have ls: "untouched n chosen ls" using assms(1) st by simp
  show ?thesis
    unfolding lifecycle_step_def st prod.case Let_def
    by ((rule pred_if pred_bind [OF plain_delist_untouched [OF ls assms(2)]] pred_then) | simp add: ls untouched_update assms(2))+
qed

lemma some_on_sale:
  assumes "\<forall>li \<in> set ls. on_sale li" "11 \<le> length ls" "length ls < 2 ^ 50"
  shows "pred_state (\<lambda>ls. \<exists>li \<in> set ls. on_sale li) (assign_lifecycle np ls)"
  unfolding assign_lifecycle_def
proof (rule pred_then)
  fix idx :: "nat list"
  let ?m = "nat (max 10 (trunc (fmul (fl (15 / 100)) (of_nat (length ls)))))"
  let ?chosen = "set (take ?m idx)"
  show "pred_state (\<lambda>ls. \<exists>li \<in> set ls. on_sale li)
      (fold_draw (lifecycle_step np) (ls, 0, 0) (take ?m idx) \<bind> (\<lambda>(ls', recover, churn). State_Monad.return ls'))"
  proof (rule pred_bind [OF pred_fold_draw [where P = "\<lambda>st. untouched (length ls) ?chosen (fst st)"]])
    show "untouched (length ls) ?chosen (fst (ls, 0, 0))" using assms(1) by (simp add: untouched_def)
  next
    fix st :: lifecycle_state
    assume u: "untouched (length ls) ?chosen (fst st)"
    have "card ?chosen \<le> ?m" by (rule le_trans [OF card_length]) simp
    then have "card ?chosen < card {..<length ls}" using delisted_count [OF assms(2,3)] by simp
    then obtain i where "i < length ls" "i \<notin> ?chosen"
      by (metis List.finite_set card_mono finite_lessThan leD lessThan_iff subsetI)
    then have "fst st ! i \<in> set (fst st)" "on_sale (fst st ! i)" using u by (simp_all add: untouched_def)
    then show "pred_state (\<lambda>ls. \<exists>li \<in> set ls. on_sale li) (case st of (ls', recover, churn) \<Rightarrow> State_Monad.return ls')"
      by (cases st) auto
  qed (rule lifecycle_step_untouched)
qed

lemma always_observed:
  assumes "listing_ok shops prods li" "on_sale li" "0 < n"
  shows "pred_state (\<lambda>os. os \<noteq> []) (listing_observations np shops prods (li, n))"
proof -
  have "li_discovered li \<le> of_int 1764633600" using assms(1) by (simp add: listing_ok_def last_discovery)
  then have "fadd (li_discovered li) 21600 \<le> of_int (1764633600 + 21600)" by (rule fadd_le) simp_all
  then have lo: "\<not> fsub T_end HOUR \<le> fadd (li_discovered li) (fmul 6 HOUR)" by (simp add: day_product)
  show ?thesis
    unfolding listing_observations_def prod.case Let_def if_not_P [OF lo]
  proof (rule pred_bind [OF random])
    fix rs
    assume "length rs = draws (Some n) \<and> (\<forall>x \<in> set rs. 0 \<le> x \<and> x < 1 \<and> fl x = x)"
    then have "rs \<noteq> []" using assms(3) by (auto simp: draws_def)
    moreover have "filter (\<lambda>t. \<not> hidden_at li t) ts = ts" for ts using assms(2) by (simp add: hidden_at_def on_sale_def)
    ultimately have ne: "observation_times li (fadd (li_discovered li) (fmul 6 HOUR)) rs \<noteq> []"
      by (simp add: observation_times_def sorted_set_def flip: set_empty)
    show "pred_state (\<lambda>os. os \<noteq> [])
       (if observation_times li (fadd (li_discovered li) (fmul 6 HOUR)) rs = [] then State_Monad.return []
        else observe_at np shops prods li (observation_times li (fadd (li_discovered li) (fmul 6 HOUR)) rs))"
      unfolding if_not_P [OF ne] observe_at_def Let_def by (intro pred_then) (simp add: ne)
  qed
qed

lemma arrive_again_nonempty: "rows \<noteq> [] \<Longrightarrow> pred_state (\<lambda>xs. xs \<noteq> []) (arrive_again np rows)"
  unfolding arrive_again_def Let_def by ((rule pred_if pred_then) | simp)+

lemma observations_exist:
  assumes "listings_ok shops prods ls" "\<exists>li \<in> set ls. on_sale li"
  shows "pred_state (\<lambda>obs. \<exists>ps. obs = Some ps \<and> ps \<noteq> []) (build_observations np shops prods ls total_obs)"
  unfolding build_observations_def Let_def
proof (rule pred_bind [OF pred_traverse [of _ "\<lambda>ln os. on_sale (fst ln) \<longrightarrow> os \<noteq> []"]])
  let ?counts = "listing_counts np shops prods ls total_obs"
  have counts: "0 < n" if "n \<in> set ?counts" for n using that by (auto simp: listing_counts_def Let_def)
  fix ln assume ln: "ln \<in> set (zip ls ?counts)"
  obtain li n where l: "ln = (li, n)" by force
  then have "listing_ok shops prods li" "0 < n"
    using ln assms(1) counts by (auto simp: listings_ok_def dest: set_zip_leftD set_zip_rightD)
  then show "pred_state (\<lambda>os. on_sale (fst ln) \<longrightarrow> os \<noteq> []) (listing_observations np shops prods ln)"
    using always_observed l by (cases "on_sale li") (auto intro: pred_weaken [OF pred_any])
next
  let ?counts = "listing_counts np shops prods ls total_obs"
  fix oss :: "observed list list"
  assume a: "list_all2 (\<lambda>ln os. on_sale (fst ln) \<longrightarrow> os \<noteq> []) (zip ls ?counts) oss"
  obtain li where li: "li \<in> set ls" "on_sale li" using assms(2) by blast
  have "length ?counts = length ls" by (simp add: listing_counts_def Let_def)
  then have "map fst (zip ls ?counts) = ls" by simp
  then have "li \<in> fst ` set (zip ls ?counts)" using li(1) by (metis set_map)
  then obtain ln where "ln \<in> set (zip ls ?counts)" "fst ln = li" by auto
  then obtain os where "os \<in> set oss" "os \<noteq> []" using list_all2_left [OF a, of ln] li(2) by blast
  then have ne: "concat oss \<noteq> []" by auto
  show "pred_state (\<lambda>obs. \<exists>ps. obs = Some ps \<and> ps \<noteq> [])
     (if concat oss = [] then State_Monad.return None
      else map_state (\<lambda>all_rows. Some (sort_key ev_ing all_rows)) (arrive_again np (concat oss)))"
    unfolding if_not_P [OF ne] pred_map
    by (rule pred_weaken [OF arrive_again_nonempty [OF ne]]) (metis length_0_conv length_sort)
qed

end

definition wrote_prices :: "pricewatch option \<Rightarrow> bool" where
  "wrote_prices r = (case r of None \<Rightarrow> False | Some w \<Rightarrow> pw_obs w \<noteq> [])"

text \<open>At most a million times the full size: fewer than \<open>2 ^ 50\<close> listings.\<close>

lemma product_count:
  assumes "0 \<le> scale" "scale \<le> 1000000"
  shows "nat (max 60 (round_half_even (fmul 2400 scale))) \<le> 2400000000"
proof -
  have "fmul 2400 scale \<le> of_int (2400 * 1000000)" by (rule fmul_le) (use assms in simp_all)
  then have "round_half_even (fmul 2400 scale) \<le> 2400 * 1000000"
    using round_half_even_mono round_half_even_of_int by metis
  then show ?thesis by simp
qed

context numpy_rng
begin

lemma pricewatch_written:
  assumes gaps: "pred_state (\<lambda>xs. \<forall>x \<in> set xs. x \<le> 2592000) (np_exponential np (fmul 15 DAY) None)"
    and scale: "0 \<le> scale" "scale \<le> 1000000"
  shows "pred_state wrote_prices (build_pricewatch np root2 scale)"
  unfolding build_pricewatch_def build_shops_def build_products_def
proof (rule pred_bind [OF pred_traverse_all [OF build_shop_ok]], rule pred_bind [OF pred_traverse_all [OF build_product_birth]])
  fix shops and prods :: "product list"
  assume s: "length shops = length [0..<nat (max 10 (round_half_even (fmul 50 (root2 scale))))] \<and> (\<forall>sh \<in> set shops. shop_ok sh)"
    and p: "length prods = length [0..<nat (max 60 (round_half_even (fmul 2400 scale)))] \<and> (\<forall>pd \<in> set prods. pr_birth pd \<le> 1761091200)"
  have n: "60 \<le> length prods" "length prods \<le> 2400000000" "2 \<le> length shops"
    using p s product_count [OF scale] by simp_all
  show "pred_state wrote_prices (do {
     ls0 \<leftarrow> build_listings np shops prods;
     ls \<leftarrow> assign_lifecycle np ls0;
     as \<leftarrow> build_admin_events np shops prods ls;
     obs \<leftarrow> build_observations np shops prods ls (trunc (fmul 2400000 scale));
     case obs of
       None \<Rightarrow> State_Monad.return None
     | Some ps \<Rightarrow> map_state (\<lambda>cs. Some
         \<lparr>pw_shops = shops, pw_products = prods, pw_listings = ls, pw_admin = as, pw_obs = ps, pw_clients = cs\<rparr>)
         (write_clients np root2 prods scale)
   })"
  proof (rule pred_bind [OF pred_conj [OF build_listings_ok build_listings_count [OF gaps]]])
    fix ls0
    assume l0: "listings_ok shops prods ls0 \<and> 2 * length prods \<le> length ls0 \<and> length ls0 \<le> 10 * length prods \<and> (\<forall>li \<in> set ls0. on_sale li)"
    have b: "11 \<le> length ls0" "length ls0 < 2 ^ 50" using l0 n by simp_all
    have lives: "pred_state (\<lambda>ls. listings_ok shops prods ls \<and> (\<exists>li \<in> set ls. on_sale li)) (assign_lifecycle np ls0)"
      by (rule pred_conj [OF assign_lifecycle_ok some_on_sale]) (use l0 b in simp_all)
    show "pred_state wrote_prices (do {
       ls \<leftarrow> assign_lifecycle np ls0;
       as \<leftarrow> build_admin_events np shops prods ls;
       obs \<leftarrow> build_observations np shops prods ls (trunc (fmul 2400000 scale));
       case obs of
         None \<Rightarrow> State_Monad.return None
       | Some ps \<Rightarrow> map_state (\<lambda>cs. Some
           \<lparr>pw_shops = shops, pw_products = prods, pw_listings = ls, pw_admin = as, pw_obs = ps, pw_clients = cs\<rparr>)
           (write_clients np root2 prods scale)
     })"
    proof (rule pred_bind [OF lives], rule pred_then)
      fix ls and as :: "admin list"
      assume "listings_ok shops prods ls \<and> (\<exists>li \<in> set ls. on_sale li)"
      then have o1: "listings_ok shops prods ls" "\<exists>li \<in> set ls. on_sale li" by simp_all
      show "pred_state wrote_prices (do {
         obs \<leftarrow> build_observations np shops prods ls (trunc (fmul 2400000 scale));
         case obs of
           None \<Rightarrow> State_Monad.return None
         | Some ps \<Rightarrow> map_state (\<lambda>cs. Some
             \<lparr>pw_shops = shops, pw_products = prods, pw_listings = ls, pw_admin = as, pw_obs = ps, pw_clients = cs\<rparr>)
             (write_clients np root2 prods scale)
       })"
        by (rule pred_bind [OF observations_exist [OF o1]]) (auto simp: pred_map wrote_prices_def intro: pred_weaken [OF pred_any])
    qed
  qed (use s p n in simp_all)
qed

end

lemma counter_gaps: "pred_state (\<lambda>xs. \<forall>x \<in> set xs. x \<le> 2592000) (np_exponential counter_rng (fmul 15 DAY) None)"
  unfolding counter_rng_def numpy.simps
proof (rule pred_weaken [OF pred_counting])
  show "of_nat (k mod 4) \<le> (2592000 :: rat)" for k
  proof -
    have "k mod 4 \<le> 3" by simp
    then have "rat_of_nat (k mod 4) \<le> of_nat 3" by (simp only: of_nat_le_iff)
    then show ?thesis by simp
  qed
qed simp

lemma counter_written: "wrote_prices (seeded counter_rng 42 (build_pricewatch counter_rng (\<lambda>x. x) 1))"
  by (rule pred_seeded [OF counter.pricewatch_written [OF counter_gaps]]) simp_all

section \<open>What the lines guarantee\<close>

text \<open>
  C7.  The order of arrival: in the lines of the event file, read from the top, a shop is registered
  before its products are discovered, and a listing is discovered before it is observed, delisted or
  relisted.  This holds for every behaviour of the random generator within its documented ranges.
\<close>

theorem stream_loadable:
  assumes "numpy_rng np"
  shows "pred_option (\<lambda>w. loadable [] (event_lines fr w)) (seeded np seed (build_pricewatch np root2 scale))"
  using pred_seeded [OF numpy_rng.build_pricewatch_ok [OF assms, of fr root2 scale], of np seed] world_loadable
  by (auto elim!: option.pred_mono_strong)

lemma stream_loadable_witness:
  "wrote_prices (seeded counter_rng 42 (build_pricewatch counter_rng (\<lambda>x. x) 1)) \<and>
   pred_option (\<lambda>w. loadable [] (event_lines (\<lambda>_. []) w)) (seeded counter_rng 42 (build_pricewatch counter_rng (\<lambda>x. x) 1))"
  using counter_written stream_loadable [OF counter.numpy_rng_axioms, of "\<lambda>_. []" 42 "\<lambda>x. x" 1] by simp

text \<open>
  C12.  No two distinct prices share shop, product and time: in the lines of the event file, price
  observations with the same three texts carry the same price and the same currency, duplicates and
  late arrivals included.
\<close>

theorem one_price_per_key:
  assumes "numpy_rng np"
  shows "pred_option (\<lambda>w. \<forall>x \<in> set (price_lines (event_lines fr w)). \<forall>y \<in> set (price_lines (event_lines fr w)).
      line_key x = line_key y \<longrightarrow> line_price x = line_price y) (seeded np seed (build_pricewatch np root2 scale))"
  using pred_seeded [OF numpy_rng.build_pricewatch_ok [OF assms, of fr root2 scale], of np seed] world_one_price
  by (auto elim!: option.pred_mono_strong)

lemma one_price_per_key_witness:
  "wrote_prices (seeded counter_rng 42 (build_pricewatch counter_rng (\<lambda>x. x) 1)) \<and>
   pred_option (\<lambda>w. \<forall>x \<in> set (price_lines (event_lines (\<lambda>_. []) w)). \<forall>y \<in> set (price_lines (event_lines (\<lambda>_. []) w)).
      line_key x = line_key y \<longrightarrow> line_price x = line_price y) (seeded counter_rng 42 (build_pricewatch counter_rng (\<lambda>x. x) 1))"
  using counter_written one_price_per_key [OF counter.numpy_rng_axioms, of "\<lambda>_. []" 42 "\<lambda>x. x" 1] by simp

section \<open>A rename before the registration\<close>

text \<open>
  Renames of the first two chosen shops are moved back to day 250 at the latest and are dropped only
  when they do not come after the registration.  A shop registered a second before day 250 is
  renamed in the second after, and that event may arrive first.
\<close>

definition late_shop :: shop where
  "late_shop = \<lparr>sh_code = u ''S001'', sh_name = u ''Prime Market'', sh_country = u ''US'', sh_tier = u ''gold'',
     sh_currency = u ''USD'', sh_registered = 1725667199, sh_factor = 1, sh_activity = 1\<rparr>"

lemma late_shop_possible: "shop_ok late_shop"
  by (simp add: shop_ok_def late_shop_def span_values currencies_def fl_numeral)

lemma rename_overtakes_registration:
  "map ad_ing (fst (run_state (do {
     r \<leftarrow> registration counter_rng late_shop;
     rs \<leftarrow> rename_shop counter_rng (0, late_shop);
     State_Monad.return (r # rs)
   }) 3)) = [1725667425, 1725667276]"
  by (simp add: registration_def rename_shop_def emit_def rnd_def counter_rng_def counting_def draws_def one_def late_shop_def
    fadd_def fmul_def fsub_def fl_numeral shop_change_time_def out_of_range_def day_mark_def span_values DAY_def Let_def)

end
