(* ===== verification/K8sApp.thy ===== *)
theory K8sApp
  imports PyDict Json PyAscii
begin

text \<open>
  The workload of module 20 (20-kubernetes/app/app.py): its environment knobs, the startup checks
  and background effects, the queue clients with their reconnects, the probes and the metrics
  page, and the process with its request threads and its shutdown as a step relation.  Redis,
  RabbitMQ and the clocks are parameters.
\<close>

section \<open>Environment knobs\<close>

type_synonym environ = "(pystr \<times> pystr) list"

definition env_str :: "environ \<Rightarrow> pystr \<Rightarrow> pystr \<Rightarrow> pystr" where
  "env_str e name dflt = get_or dflt e name"

definition env_int :: "environ \<Rightarrow> pystr \<Rightarrow> int \<Rightarrow> int result" where
  "env_int e name dflt =
     (case map_of e name of
        None \<Rightarrow> Inr dflt
      | Some v \<Rightarrow> if v = [] then Inr dflt
                  else (case int_of_str v of None \<Rightarrow> Inl ValueError | Some i \<Rightarrow> Inr i))"

text \<open>\<open>float\<close> of a text is a parameter.\<close>

definition env_float :: "(pystr \<Rightarrow> rat option) \<Rightarrow> environ \<Rightarrow> pystr \<Rightarrow> rat \<Rightarrow> rat result" where
  "env_float pf e name dflt =
     (case map_of e name of
        None \<Rightarrow> Inr dflt
      | Some v \<Rightarrow> if v = [] then Inr dflt
                  else (case pf v of None \<Rightarrow> Inl ValueError | Some x \<Rightarrow> Inr x))"

definition ascii_lower :: "pystr \<Rightarrow> pystr" where
  "ascii_lower s = map (\<lambda>c. if 65 \<le> c \<and> c \<le> 90 then c + 32 else c) s"

definition env_bool :: "environ \<Rightarrow> pystr \<Rightarrow> bool \<Rightarrow> bool" where
  "env_bool e name dflt =
     (case map_of e name of
        None \<Rightarrow> dflt
      | Some v \<Rightarrow> ascii_lower (strip_by is_space v) \<in> {u ''1'', u ''true'', u ''yes''})"

record knobs =
  k_port :: int
  k_version :: pystr
  k_start_delay :: rat
  k_ready_delay :: rat
  k_fail_ready :: bool
  k_fail_health_after :: rat
  k_crash_on_start :: bool
  k_crash_after :: rat
  k_exit_code :: int
  k_mem_mb :: int
  k_leak :: rat
  k_burn_threads :: int
  k_required_env :: pystr
  k_term_ignore :: bool
  k_term_grace :: rat
  k_work_mode :: pystr
  k_queue_backend :: pystr
  k_process_ms :: int
  k_rate :: rat

definition load_knobs :: "(pystr \<Rightarrow> rat option) \<Rightarrow> environ \<Rightarrow> knobs result" where
  "load_knobs pf e =
     bind_result (env_int e (u ''PORT'') 8080) (\<lambda>port.
     bind_result (env_float pf e (u ''START_DELAY_S'') 0) (\<lambda>start_delay.
     bind_result (env_float pf e (u ''READY_DELAY_S'') 0) (\<lambda>ready_delay.
     bind_result (env_float pf e (u ''FAIL_HEALTH_AFTER_S'') 0) (\<lambda>fail_health.
     bind_result (env_float pf e (u ''CRASH_AFTER_S'') 0) (\<lambda>crash_after.
     bind_result (env_int e (u ''EXIT_CODE'') 1) (\<lambda>exit_code.
     bind_result (env_int e (u ''MEM_MB'') 0) (\<lambda>mem.
     bind_result (env_float pf e (u ''LEAK_MB_PER_S'') 0) (\<lambda>leak.
     bind_result (env_int e (u ''CPU_BURN_THREADS'') 0) (\<lambda>burn.
     bind_result (env_float pf e (u ''TERM_GRACE_S'') 25) (\<lambda>grace.
     bind_result (env_int e (u ''PROCESS_MS'') 100) (\<lambda>process_ms.
     bind_result (env_float pf e (u ''RATE_PER_S'') 1) (\<lambda>rate.
     Inr \<lparr>k_port = port, k_version = env_str e (u ''APP_VERSION'') (u ''dev''), k_start_delay = start_delay,
          k_ready_delay = ready_delay, k_fail_ready = env_bool e (u ''FAIL_READY'') False,
          k_fail_health_after = fail_health, k_crash_on_start = env_bool e (u ''CRASH_ON_START'') False,
          k_crash_after = crash_after, k_exit_code = exit_code, k_mem_mb = mem, k_leak = leak,
          k_burn_threads = burn, k_required_env = env_str e (u ''REQUIRED_ENV'') [],
          k_term_ignore = env_bool e (u ''TERM_IGNORE'') False, k_term_grace = grace,
          k_work_mode = env_str e (u ''WORK_MODE'') (u ''server''),
          k_queue_backend = env_str e (u ''QUEUE_BACKEND'') (u ''redis''),
          k_process_ms = process_ms, k_rate = rate\<rparr>))))))))))))"

section \<open>Startup\<close>

definition required_names :: "knobs \<Rightarrow> pystr list" where
  "required_names k = filter (\<lambda>n. n \<noteq> []) (map (strip_by is_space) (split_on 44 (k_required_env k)))"

definition missing_env :: "knobs \<Rightarrow> environ \<Rightarrow> pystr list" where
  "missing_env k e = filter (\<lambda>n. map_of e n = None) (required_names k)"

datatype effect = HoldMemory int | LeakLoop | BurnLoop nat | CrashTimer rat | ConsumerLoop | ProducerLoop

definition background_effects :: "knobs \<Rightarrow> effect list" where
  "background_effects k =
     (if 0 < k_mem_mb k then [HoldMemory (k_mem_mb k * 1024 * 1024)] else []) @
     (if 0 < k_leak k then [LeakLoop] else []) @
     (if 0 < k_burn_threads k then map BurnLoop [0..<nat (k_burn_threads k)] else []) @
     (if 0 < k_crash_after k then [CrashTimer (k_crash_after k)] else [])"

definition leak_chunk :: "knobs \<Rightarrow> int" where
  "leak_chunk k = \<lfloor>fl (fl (k_leak k * 1024) * 1024)\<rfloor>"

definition burn_step :: "nat \<Rightarrow> nat" where
  "burn_step x = (x * 1103515245 + 12345) mod 2 ^ 32"

definition worker_effects :: "knobs \<Rightarrow> effect list" where
  "worker_effects k =
     (if k_work_mode k = u ''consumer'' then [ConsumerLoop]
      else if k_work_mode k = u ''producer'' then [ProducerLoop] else [])"

datatype startup = Exit int "pystr list" | Serving int "effect list"

definition app_main :: "knobs \<Rightarrow> environ \<Rightarrow> startup" where
  "app_main k e =
     (if missing_env k e \<noteq> [] then Exit 1 (missing_env k e)
      else if k_crash_on_start k then Exit (k_exit_code k) []
      else Serving (k_port k) (background_effects k @ worker_effects k))"

section \<open>Queue clients\<close>

text \<open>
  The calls of a broker client: each answers or raises, and changes the state of the outside
  world.  \<open>connect\<close> retries until it succeeds, so it takes fuel; it returns the delays slept.
\<close>

record 's broker =
  b_open :: "'s \<Rightarrow> bool \<times> 's"
  b_push :: "pystr \<Rightarrow> 's \<Rightarrow> bool \<times> 's"
  b_pop :: "'s \<Rightarrow> pystr option option \<times> 's"
  b_depth :: "'s \<Rightarrow> int option \<times> 's"

fun connect :: "nat \<Rightarrow> 's broker \<Rightarrow> nat \<Rightarrow> 's \<Rightarrow> (nat list \<times> 's) option" where
  "connect 0 b backoff s = None"
| "connect (Suc fuel) b backoff s =
     (case b_open b s of
        (True, s') \<Rightarrow> Some ([], s')
      | (False, s') \<Rightarrow>
          (case connect fuel b (min (backoff * 2) 15) s' of
             None \<Rightarrow> None
           | Some (delays, s'') \<Rightarrow> Some (backoff # delays, s'')))"

definition queue_push :: "nat \<Rightarrow> 's broker \<Rightarrow> pystr \<Rightarrow> 's \<Rightarrow> 's option" where
  "queue_push fuel b item s =
     (case b_push b item s of
        (True, s') \<Rightarrow> Some s'
      | (False, s') \<Rightarrow> map_option snd (connect fuel b 1 s'))"

definition queue_pop :: "nat \<Rightarrow> 's broker \<Rightarrow> 's \<Rightarrow> (pystr option \<times> 's) option" where
  "queue_pop fuel b s =
     (case b_pop b s of
        (Some item, s') \<Rightarrow> Some (item, s')
      | (None, s') \<Rightarrow> map_option (\<lambda>(_, s''). (None, s'')) (connect fuel b 1 s'))"

definition queue_depth :: "'s broker \<Rightarrow> 's \<Rightarrow> int \<times> 's" where
  "queue_depth b s = (case b_depth b s of (Some n, s') \<Rightarrow> (n, s') | (None, s') \<Rightarrow> (- 1, s'))"

text \<open>
  The calls the two backends make.  The world answers a call or raises; \<open>redis\<close> and \<open>pika\<close> are
  outside.
\<close>

datatype broker_call =
    RedisPing pystr int
  | RedisRpush pystr pystr
  | RedisBlpop pystr nat
  | RedisLlen pystr
  | PikaOpen pystr int pystr pystr pystr
  | PikaPublish pystr pystr
  | PikaGet pystr
  | PikaCount pystr

datatype broker_answer = Done | Item "pystr option" | Count int

type_synonym 's world = "broker_call \<Rightarrow> 's \<Rightarrow> broker_answer option \<times> 's"

definition call_ok :: "'s world \<Rightarrow> broker_call \<Rightarrow> 's \<Rightarrow> bool \<times> 's" where
  "call_ok w c s = (case w c s of (a, s') \<Rightarrow> (a \<noteq> None, s'))"

definition call_item :: "'s world \<Rightarrow> broker_call \<Rightarrow> 's \<Rightarrow> pystr option option \<times> 's" where
  "call_item w c s =
     (case w c s of (Some (Item i), s') \<Rightarrow> (Some i, s') | (Some _, s') \<Rightarrow> (Some None, s') | (None, s') \<Rightarrow> (None, s'))"

definition call_count :: "'s world \<Rightarrow> broker_call \<Rightarrow> 's \<Rightarrow> int option \<times> 's" where
  "call_count w c s =
     (case w c s of (Some (Count n), s') \<Rightarrow> (Some n, s') | (Some _, s') \<Rightarrow> (None, s') | (None, s') \<Rightarrow> (None, s'))"

definition redis_queue :: "environ \<Rightarrow> 's world \<Rightarrow> 's broker result" where
  "redis_queue e w =
     bind_result (env_int e (u ''REDIS_PORT'') 6379) (\<lambda>port.
     let host = env_str e (u ''REDIS_HOST'') (u ''localhost'');
         key = env_str e (u ''QUEUE_KEY'') (u ''sandbox20:queue'')
     in Inr \<lparr>b_open = call_ok w (RedisPing host port), b_push = (\<lambda>item. call_ok w (RedisRpush key item)),
             b_pop = call_item w (RedisBlpop key 1), b_depth = call_count w (RedisLlen key)\<rparr>)"

definition rabbit_queue :: "environ \<Rightarrow> 's world \<Rightarrow> 's broker result" where
  "rabbit_queue e w =
     bind_result (env_int e (u ''RABBIT_PORT'') 5672) (\<lambda>port.
     let host = env_str e (u ''RABBIT_HOST'') (u ''localhost'');
         user = env_str e (u ''RABBIT_USER'') (u ''guest'');
         password = env_str e (u ''RABBIT_PASS'') (u ''guest'');
         queue = env_str e (u ''QUEUE'') (u ''sandbox20-queue'')
     in Inr \<lparr>b_open = call_ok w (PikaOpen host port user password queue),
             b_push = (\<lambda>item. call_ok w (PikaPublish queue item)),
             b_pop = call_item w (PikaGet queue), b_depth = call_count w (PikaCount queue)\<rparr>)"

definition make_queue ::
  "nat \<Rightarrow> knobs \<Rightarrow> environ \<Rightarrow> 's world \<Rightarrow> 's \<Rightarrow> ('s broker \<times> 's) option result" where
  "make_queue fuel k e w s =
     bind_result (if k_queue_backend k = u ''rabbitmq'' then rabbit_queue e w else redis_queue e w) (\<lambda>b.
     Inr (map_option (\<lambda>(_, s'). (b, s')) (connect fuel b 1 s)))"

record consumer =
  processed :: nat
  depth_seen :: int
  last_poll :: rat

definition consumer_step :: "nat \<Rightarrow> 's broker \<Rightarrow> rat \<Rightarrow> consumer \<Rightarrow> 's \<Rightarrow> (consumer \<times> 's) option" where
  "consumer_step fuel b now c s =
     (case queue_pop fuel b s of
        None \<Rightarrow> None
      | Some (item, s1) \<Rightarrow>
          let c1 = (if item = None then c else c \<lparr>processed := processed c + 1\<rparr>) in
          if 2 < fl (now - last_poll c1) then
            (case queue_depth b s1 of (n, s2) \<Rightarrow> Some (c1 \<lparr>depth_seen := n, last_poll := now\<rparr>, s2))
          else Some (c1, s1))"

definition producer_interval :: "knobs \<Rightarrow> rat" where
  "producer_interval k = (if 0 < k_rate k then fl (1 / k_rate k) else 1)"

definition producer_step :: "nat \<Rightarrow> 's broker \<Rightarrow> pystr \<Rightarrow> nat \<Rightarrow> 's \<Rightarrow> (nat \<times> 's) option" where
  "producer_step fuel b ts i s =
     map_option (\<lambda>s'. (i + 1, s'))
       (queue_push fuel b (json_dumps (JObj [(u ''i'', JInt (int (i + 1))), (u ''ts'', JFloat ts)])) s)"

end
