(* ===== verification/K8sServer.thy ===== *)
theory K8sServer
  imports K8sApp
begin

text \<open>
  The HTTP side of 20-kubernetes/app/app.py: the metrics page, the routes, and the process as a
  step relation over its request threads, the SIGTERM handler and the draining threads.
\<close>

section \<open>Replies\<close>

record counters =
  n_requests :: nat
  n_inflight :: nat
  n_processed :: nat
  n_depth :: int

definition metric :: "string \<Rightarrow> string \<Rightarrow> string \<Rightarrow> pystr \<Rightarrow> pystr list" where
  "metric name help kind v =
     [u ''# HELP '' @ u name @ [32] @ u help, u ''# TYPE '' @ u name @ [32] @ u kind, u name @ [32] @ v]"

definition render_metrics :: "knobs \<Rightarrow> counters \<Rightarrow> pystr" where
  "render_metrics k c =
     join [10]
       (metric ''app_requests_total'' ''Total HTTP requests served.'' ''counter'' (nat_str (n_requests c)) @
        metric ''app_inflight'' ''In-flight HTTP requests.'' ''gauge'' (nat_str (n_inflight c)) @
        (if k_work_mode k = u ''consumer'' \<or> k_work_mode k = u ''producer'' then
           metric ''app_queue_depth'' ''Last observed queue depth.'' ''gauge'' (int_str (n_depth c)) else []) @
        (if k_work_mode k = u ''consumer'' then
           metric ''app_processed_total'' ''Total queue items processed.'' ''counter'' (nat_str (n_processed c))
         else [])) @ [10]"

record http_reply =
  h_status :: nat
  h_json :: bool
  h_body :: pystr

definition text_reply :: "nat \<Rightarrow> pystr \<Rightarrow> http_reply" where
  "text_reply code body = \<lparr>h_status = code, h_json = False, h_body = body\<rparr>"

text \<open>A parsed request: the path and the query parameters with their lists of values.\<close>

record http_request =
  q_path :: pystr
  q_params :: "(pystr \<times> pystr list) list"

definition first_param :: "http_request \<Rightarrow> pystr \<Rightarrow> pystr \<Rightarrow> pystr" where
  "first_param r name dflt = hd (get_or [dflt] (q_params r) name)"

definition healthz :: "knobs \<Rightarrow> rat \<Rightarrow> http_reply" where
  "healthz k uptime =
     (if 0 < k_fail_health_after k \<and> k_fail_health_after k < uptime
      then text_reply 500 (u ''unhealthy: FAIL_HEALTH_AFTER_S exceeded'' @ [10])
      else text_reply 200 (u ''ok'' @ [10]))"

definition readyz :: "knobs \<Rightarrow> rat \<Rightarrow> bool \<Rightarrow> http_reply" where
  "readyz k uptime stopping =
     (if stopping then text_reply 503 (u ''not ready: shutting down'' @ [10])
      else if k_fail_ready k then text_reply 503 (u ''not ready: FAIL_READY=1'' @ [10])
      else if uptime < k_ready_delay k then text_reply 503 (u ''not ready: warming up'' @ [10])
      else text_reply 200 (u ''ready'' @ [10]))"

definition work_ms :: "http_request \<Rightarrow> int" where
  "work_ms r = (case int_of_str (first_param r (u ''ms'') (u ''0'')) of None \<Rightarrow> 0 | Some i \<Rightarrow> max i 0)"

definition env_reply :: "environ \<Rightarrow> pystr \<Rightarrow> http_reply" where
  "env_reply e name =
     (if startswith name (u ''APP_'') \<or> startswith name (u ''CONFIG_'')
      then text_reply 200 (name @ [61] @ get_or [] e name @ [10])
      else text_reply 403 (u ''forbidden: only APP_* or CONFIG_* env vars are exposed'' @ [10]))"

definition app_route ::
  "knobs \<Rightarrow> environ \<Rightarrow> pystr \<Rightarrow> counters \<Rightarrow> rat \<Rightarrow> bool \<Rightarrow> http_request \<Rightarrow> http_reply" where
  "app_route k e host c uptime stopping r =
     (let path = q_path r in
      if path = [47] then
        \<lparr>h_status = 200, h_json = True,
         h_body = json_dumps (JObj [(u ''app_version'', JStr (k_version k)), (u ''hostname'', JStr host),
                    (u ''request_count'', JInt (int (n_requests c)))])\<rparr>
      else if path = u ''/healthz'' then healthz k uptime
      else if path = u ''/readyz'' then readyz k uptime stopping
      else if path = u ''/work'' then text_reply 200 (u ''worked '' @ int_str (work_ms r) @ u ''ms'' @ [10])
      else if path = u ''/env'' then env_reply e (first_param r (u ''name'') [])
      else if path = u ''/metrics'' then text_reply 200 (render_metrics k c)
      else text_reply 404 (u ''not found'' @ [10]))"

section \<open>The process\<close>

text \<open>
  A connection is accepted (\<open>Accepted\<close>) before its thread has read a request; \<open>do_GET\<close> counts it as in
  flight (\<open>Entered\<close>), then as a request (\<open>Counted\<close>), then has its reply; when it leaves, with a reply or
  with an exception of the route, it is no longer in flight.

  The handler of SIGTERM sets the flag and then starts a draining thread, which computes its deadline
  after it has started, leaves its waiting loop when it reads a gauge of zero or a clock past the
  deadline, logs, and only then ends the process.  Meanwhile another thread has the server stop; when
  \<open>serve_forever\<close> has returned, so does \<open>main\<close>, and as all other threads are daemons this ends the process.
\<close>

datatype drainer = Starting | Waiting rat | Leaving rat

datatype pc = Accepted | Entered http_request | Counted http_request | Replied http_request http_reply

datatype exit_reason = Drained | Returned | Crashed int

record process =
  pr_knobs :: knobs
  pr_env :: environ
  pr_start :: rat
  pr_now :: rat
  pr_counters :: counters
  pr_threads :: "(nat \<times> pc) list"
  pr_done :: nat
  pr_listening :: bool
  pr_stopping :: bool
  pr_handlers :: nat
  pr_drainers :: "drainer list"
  pr_exited :: "exit_reason option"

definition init_process :: "knobs \<Rightarrow> environ \<Rightarrow> rat \<Rightarrow> process" where
  "init_process k e t =
     \<lparr>pr_knobs = k, pr_env = e, pr_start = t, pr_now = t,
      pr_counters = \<lparr>n_requests = 0, n_inflight = 0, n_processed = 0, n_depth = - 1\<rparr>, pr_threads = [],
      pr_done = 0, pr_listening = True, pr_stopping = False, pr_handlers = 0, pr_drainers = [], pr_exited = None\<rparr>"

definition uptime :: "process \<Rightarrow> rat" where
  "uptime p = fl (pr_now p - pr_start p)"

definition accept :: "nat \<Rightarrow> process \<Rightarrow> process" where
  "accept t p = p \<lparr>pr_threads := alist_set t Accepted (pr_threads p)\<rparr>"

definition hang_up :: "nat \<Rightarrow> process \<Rightarrow> process" where
  "hang_up t p = p \<lparr>pr_threads := alist_del t (pr_threads p)\<rparr>"

definition enter :: "nat \<Rightarrow> http_request \<Rightarrow> process \<Rightarrow> process" where
  "enter t r p = p \<lparr>pr_threads := alist_set t (Entered r) (pr_threads p),
     pr_counters := (pr_counters p) \<lparr>n_inflight := n_inflight (pr_counters p) + 1\<rparr>\<rparr>"

definition count :: "nat \<Rightarrow> http_request \<Rightarrow> process \<Rightarrow> process" where
  "count t r p = p \<lparr>pr_threads := alist_set t (Counted r) (pr_threads p),
     pr_counters := (pr_counters p) \<lparr>n_requests := n_requests (pr_counters p) + 1\<rparr>\<rparr>"

definition reply_now :: "pystr \<Rightarrow> process \<Rightarrow> http_request \<Rightarrow> http_reply" where
  "reply_now host p r = app_route (pr_knobs p) (pr_env p) host (pr_counters p) (uptime p) (pr_stopping p) r"

definition respond :: "pystr \<Rightarrow> nat \<Rightarrow> http_request \<Rightarrow> process \<Rightarrow> process" where
  "respond host t r p = p \<lparr>pr_threads := alist_set t (Replied r (reply_now host p r)) (pr_threads p)\<rparr>"

definition leave :: "nat \<Rightarrow> process \<Rightarrow> process" where
  "leave t p = p \<lparr>pr_threads := alist_del t (pr_threads p), pr_done := pr_done p + 1,
     pr_counters := (pr_counters p) \<lparr>n_inflight := n_inflight (pr_counters p) - 1\<rparr>\<rparr>"

definition handle_sigterm :: "process \<Rightarrow> process" where
  "handle_sigterm p =
     (if k_term_ignore (pr_knobs p) then p else p \<lparr>pr_stopping := True, pr_handlers := pr_handlers p + 1\<rparr>)"

definition start_drainer :: "process \<Rightarrow> process" where
  "start_drainer p = p \<lparr>pr_handlers := pr_handlers p - 1, pr_drainers := pr_drainers p @ [Starting]\<rparr>"

definition set_deadline :: "nat \<Rightarrow> process \<Rightarrow> process" where
  "set_deadline i p = p \<lparr>pr_drainers := (pr_drainers p)[i := Waiting (fl (pr_now p + k_term_grace (pr_knobs p)))]\<rparr>"

definition must_wait :: "process \<Rightarrow> rat \<Rightarrow> bool" where
  "must_wait p d \<longleftrightarrow> 0 < n_inflight (pr_counters p) \<and> pr_now p < d"

inductive app_step :: "pystr \<Rightarrow> process \<Rightarrow> process \<Rightarrow> bool" for host where
  Accept: "pr_exited p = None \<Longrightarrow> pr_listening p \<Longrightarrow> t \<notin> set (map fst (pr_threads p)) \<Longrightarrow> app_step host p (accept t p)"
| HangUp: "pr_exited p = None \<Longrightarrow> map_of (pr_threads p) t = Some Accepted \<Longrightarrow> app_step host p (hang_up t p)"
| Enter: "pr_exited p = None \<Longrightarrow> map_of (pr_threads p) t = Some Accepted \<Longrightarrow> app_step host p (enter t r p)"
| CountStep: "pr_exited p = None \<Longrightarrow> map_of (pr_threads p) t = Some (Entered r) \<Longrightarrow> app_step host p (count t r p)"
| Respond: "pr_exited p = None \<Longrightarrow> map_of (pr_threads p) t = Some (Counted r) \<Longrightarrow> app_step host p (respond host t r p)"
| Raise: "pr_exited p = None \<Longrightarrow> map_of (pr_threads p) t = Some (Counted r) \<Longrightarrow> app_step host p (leave t p)"
| Leave: "pr_exited p = None \<Longrightarrow> map_of (pr_threads p) t = Some (Replied r out) \<Longrightarrow> app_step host p (leave t p)"
| Sigterm: "pr_exited p = None \<Longrightarrow> app_step host p (handle_sigterm p)"
| StartDrainer: "pr_exited p = None \<Longrightarrow> 0 < pr_handlers p \<Longrightarrow> app_step host p (start_drainer p)"
| SetDeadline: "pr_exited p = None \<Longrightarrow> i < length (pr_drainers p) \<Longrightarrow> pr_drainers p ! i = Starting \<Longrightarrow> app_step host p (set_deadline i p)"
| StopListening: "pr_exited p = None \<Longrightarrow> pr_drainers p \<noteq> [] \<Longrightarrow> app_step host p (p \<lparr>pr_listening := False\<rparr>)"
| MainReturns: "pr_exited p = None \<Longrightarrow> \<not> pr_listening p \<Longrightarrow> app_step host p (p \<lparr>pr_exited := Some Returned\<rparr>)"
| EndWait: "pr_exited p = None \<Longrightarrow> i < length (pr_drainers p) \<Longrightarrow> pr_drainers p ! i = Waiting d \<Longrightarrow> \<not> must_wait p d \<Longrightarrow>
     app_step host p (p \<lparr>pr_drainers := (pr_drainers p)[i := Leaving d]\<rparr>)"
| Exit: "pr_exited p = None \<Longrightarrow> Leaving d \<in> set (pr_drainers p) \<Longrightarrow> app_step host p (p \<lparr>pr_exited := Some Drained\<rparr>)"
| Crash: "pr_exited p = None \<Longrightarrow> 0 < k_crash_after (pr_knobs p) \<Longrightarrow>
     k_crash_after (pr_knobs p) \<le> pr_now p - pr_start p \<Longrightarrow>
     app_step host p (p \<lparr>pr_exited := Some (Crashed (k_exit_code (pr_knobs p)))\<rparr>)"
| Consume: "pr_exited p = None \<Longrightarrow>
     app_step host p (p \<lparr>pr_counters := (pr_counters p) \<lparr>n_processed := n, n_depth := m\<rparr>\<rparr>)"
| Tick: "pr_exited p = None \<Longrightarrow> pr_now p \<le> t \<Longrightarrow> app_step host p (p \<lparr>pr_now := t\<rparr>)"

inductive reachable :: "pystr \<Rightarrow> process \<Rightarrow> process \<Rightarrow> bool" for host p0 where
  Start: "reachable host p0 p0"
| Step: "reachable host p0 p \<Longrightarrow> app_step host p p' \<Longrightarrow> reachable host p0 p'"

section \<open>Invariant\<close>

fun counted :: "pc \<Rightarrow> bool" where
  "counted Accepted = False"
| "counted (Entered r) = False"
| "counted _ = True"

fun in_flight :: "pc \<Rightarrow> bool" where
  "in_flight Accepted = False"
| "in_flight _ = True"

definition process_inv :: "process \<Rightarrow> bool" where
  "process_inv p \<longleftrightarrow>
     distinct (map fst (pr_threads p)) \<and>
     n_inflight (pr_counters p) = length (filter (in_flight \<circ> snd) (pr_threads p)) \<and>
     n_requests (pr_counters p) = pr_done p + length (filter (counted \<circ> snd) (pr_threads p)) \<and>
     (pr_stopping p \<longleftrightarrow> 0 < pr_handlers p \<or> pr_drainers p \<noteq> []) \<and>
     (\<not> pr_listening p \<longrightarrow> pr_stopping p) \<and>
     (k_term_ignore (pr_knobs p) \<longrightarrow> \<not> pr_stopping p) \<and>
     (pr_exited p = Some Drained \<longrightarrow> (\<exists>d. Leaving d \<in> set (pr_drainers p))) \<and>
     (pr_exited p = Some Returned \<longrightarrow> pr_stopping p)"

lemma alist_set_filter:
  assumes "distinct (map fst m)" "map_of m k = Some v0"
  shows "length (filter (P \<circ> snd) (alist_set k v m)) + (if P v0 then 1 else 0) =
    length (filter (P \<circ> snd) m) + (if P v then 1 else 0)"
  using assms by (induction m) (auto dest: map_of_SomeD split: if_splits)

lemma alist_set_filter_new:
  assumes "k \<notin> fst ` set m"
  shows "filter (P \<circ> snd) (alist_set k v m) = filter (P \<circ> snd) m @ (if P v then [(k, v)] else [])"
  using assms by (induction m) auto

lemma thread_del_length:
  assumes "distinct (map fst m)" "map_of m k = Some v"
  shows "length (filter (P \<circ> snd) (alist_del k m)) + (if P v then 1 else 0) = length (filter (P \<circ> snd) m)"
  using assms by (induction m) (auto simp: alist_del_Cons alist_del_id split: if_splits)

lemma some_in_dom: "map_of m k = Some v \<Longrightarrow> k \<in> fst ` set m"
  by (metis map_of_eq_None_iff option.distinct(1))

text \<open>A thread that changes its stage, starts or ends.\<close>

lemma thread_set:
  assumes "process_inv p" "map_of (pr_threads p) t = Some v0"
  shows "distinct (map fst (alist_set t v (pr_threads p)))"
    "length (filter (P \<circ> snd) (alist_set t v (pr_threads p))) + (if P v0 then 1 else 0) =
     length (filter (P \<circ> snd) (pr_threads p)) + (if P v then 1 else 0)"
  using assms alist_set_filter [of "pr_threads p" t v0 P v] by (simp_all add: process_inv_def distinct_alist_set)

lemma thread_del:
  assumes "process_inv p" "map_of (pr_threads p) t = Some v0"
  shows "distinct (map fst (alist_del t (pr_threads p)))"
    "length (filter (P \<circ> snd) (alist_del t (pr_threads p))) + (if P v0 then 1 else 0) = length (filter (P \<circ> snd) (pr_threads p))"
proof -
  have d: "distinct (map fst (pr_threads p))" using assms(1) by (simp add: process_inv_def)
  show "distinct (map fst (alist_del t (pr_threads p)))" unfolding alist_del_def by (rule distinct_filter_fst [OF d])
  show "length (filter (P \<circ> snd) (alist_del t (pr_threads p))) + (if P v0 then 1 else 0) = length (filter (P \<circ> snd) (pr_threads p))"
    by (rule thread_del_length [OF d assms(2)])
qed

lemma leave_preserves:
  assumes "process_inv p" "map_of (pr_threads p) t = Some v" "in_flight v" "counted v" "pr_exited p = None"
  shows "process_inv (leave t p)"
  using assms(1,3-5) thread_del(1) [OF assms(1,2)] thread_del(2) [OF assms(1,2), of in_flight] thread_del(2) [OF assms(1,2), of counted]
  by (auto simp: process_inv_def leave_def)

lemma step_preserves:
  assumes "process_inv p" "app_step host p p'"
  shows "process_inv p'"
  using assms(2,1)
proof (cases rule: app_step.cases)
  case (Accept t)
  then show ?thesis
    using assms(1) alist_set_filter_new [of t "pr_threads p" counted Accepted] alist_set_filter_new [of t "pr_threads p" in_flight Accepted]
    by (auto simp: process_inv_def accept_def distinct_alist_set)
next
  case (HangUp t)
  then show ?thesis
    using assms(1) thread_del(1) [OF assms(1) HangUp(3)] thread_del(2) [OF assms(1) HangUp(3), of in_flight] thread_del(2) [OF assms(1) HangUp(3), of counted]
    by (auto simp: process_inv_def hang_up_def)
next
  case (Enter t r)
  then show ?thesis
    using assms(1) thread_set(1) [OF assms(1) Enter(3)] thread_set(2) [OF assms(1) Enter(3), of in_flight "Entered r"]
      thread_set(2) [OF assms(1) Enter(3), of counted "Entered r"]
    by (auto simp: process_inv_def enter_def)
next
  case (CountStep t r)
  then show ?thesis
    using assms(1) thread_set(1) [OF assms(1) CountStep(3)] thread_set(2) [OF assms(1) CountStep(3), of in_flight "Counted r"]
      thread_set(2) [OF assms(1) CountStep(3), of counted "Counted r"]
    by (auto simp: process_inv_def count_def)
next
  case (Respond t r)
  then show ?thesis
    using assms(1) thread_set(1) [OF assms(1) Respond(3)] thread_set(2) [OF assms(1) Respond(3), of in_flight "Replied r (reply_now host p r)"]
      thread_set(2) [OF assms(1) Respond(3), of counted "Replied r (reply_now host p r)"]
    by (auto simp: process_inv_def respond_def)
next
  case (Raise t r)
  then show ?thesis using leave_preserves [OF assms(1) Raise(3)] by simp
next
  case (Leave t r out)
  then show ?thesis using leave_preserves [OF assms(1) Leave(3)] by simp
qed (auto simp: process_inv_def handle_sigterm_def start_drainer_def set_deadline_def)

lemma process_invariant: "reachable host p0 p \<Longrightarrow> process_inv p0 \<Longrightarrow> process_inv p"
  by (induction rule: reachable.induct) (auto intro: step_preserves)

section \<open>The end of the waiting\<close>

text \<open>
  The waiting is over in \<open>q\<close>: no request is in flight there, or the grace period of a draining thread
  that set its deadline in an earlier state \<open>s\<close>, after a SIGTERM, has passed.
\<close>

definition wait_over :: "pystr \<Rightarrow> process \<Rightarrow> process \<Rightarrow> bool" where
  "wait_over host p0 q \<longleftrightarrow> reachable host p0 q \<and> pr_stopping q \<and>
     (filter (in_flight \<circ> snd) (pr_threads q) = [] \<or>
      (\<exists>s. reachable host p0 s \<and> reachable host s q \<and> pr_stopping s \<and> fl (pr_now s + k_term_grace (pr_knobs s)) \<le> pr_now q))"

fun drainer_ok :: "pystr \<Rightarrow> process \<Rightarrow> process \<Rightarrow> drainer \<Rightarrow> bool" where
  "drainer_ok host p0 p Starting \<longleftrightarrow> True"
| "drainer_ok host p0 p (Waiting d) \<longleftrightarrow>
     (\<exists>s. reachable host p0 s \<and> reachable host s p \<and> pr_stopping s \<and> d = fl (pr_now s + k_term_grace (pr_knobs s)))"
| "drainer_ok host p0 p (Leaving d) \<longleftrightarrow> (\<exists>q. wait_over host p0 q \<and> reachable host q p)"

lemma drainer_ok_step: "drainer_ok host p0 p x \<Longrightarrow> app_step host p p' \<Longrightarrow> drainer_ok host p0 p' x"
  by (cases x) (auto intro: reachable.Step)

lemma all_updated: "(\<And>x. x \<in> set xs \<Longrightarrow> P x) \<Longrightarrow> P y \<Longrightarrow> \<forall>x \<in> set (xs[i := y]). P x"
  using set_update_subset_insert [of xs i y] by blast

lemma drainers_ok:
  assumes "reachable host p0 p" "process_inv p0" "pr_drainers p0 = []"
  shows "\<forall>x \<in> set (pr_drainers p). drainer_ok host p0 p x"
  using assms
proof (induction rule: reachable.induct)
  case Start
  then show ?case by simp
next
  case (Step p p')
  have inv: "process_inv p" using process_invariant Step by blast
  have old: "drainer_ok host p0 p' x" if "x \<in> set (pr_drainers p)" for x
    using drainer_ok_step [OF _ Step.hyps(2)] Step.IH [OF Step.prems] that by blast
  from Step.hyps(2) show ?case
  proof (cases rule: app_step.cases)
    case (SetDeadline i)
    have "pr_stopping p" using inv SetDeadline(3) by (auto simp: process_inv_def)
    moreover have "reachable host p p'" using reachable.Step [OF reachable.Start Step.hyps(2)] .
    ultimately have "drainer_ok host p0 p' (Waiting (fl (pr_now p + k_term_grace (pr_knobs p))))" using Step.hyps(1) by auto
    from all_updated [of "pr_drainers p" "drainer_ok host p0 p'", OF old this] show ?thesis by (simp add: SetDeadline(1) set_deadline_def)
  next
    case (EndWait i d)
    have w: "Waiting d \<in> set (pr_drainers p)" using EndWait(3,4) by (metis nth_mem)
    then have "drainer_ok host p0 p (Waiting d)" using Step.IH [OF Step.prems] by blast
    moreover have "pr_stopping p" using inv w by (auto simp: process_inv_def)
    ultimately have "wait_over host p0 p"
      using EndWait(5) Step.hyps(1) inv by (auto simp: wait_over_def must_wait_def process_inv_def not_less)
    moreover have "reachable host p p'" using reachable.Step [OF reachable.Start Step.hyps(2)] .
    ultimately have "drainer_ok host p0 p' (Leaving d)" by auto
    from all_updated [of "pr_drainers p" "drainer_ok host p0 p'", OF old this] show ?thesis by (simp add: EndWait(1))
  qed (use old in \<open>auto simp: accept_def hang_up_def enter_def count_def respond_def leave_def handle_sigterm_def start_drainer_def\<close>)
qed

text \<open>
  C14.  The process over every interleaving of its request threads, signals and background loops.
  The in-flight gauge is the number of threads between entry and exit of the handler; the request
  counter is the number of requests that have counted themselves, finished or not, answered or left
  by an exception; the readiness flag is set exactly when a SIGTERM has been accepted, never when
  SIGTERM is ignored; a process that exits by draining has, after a SIGTERM, been in a state in which
  no request was in flight or the grace period was over; and one that ends because \<open>main\<close> returns
  has accepted a SIGTERM, but waits for nothing.
\<close>

theorem shutdown_drains:
  assumes "reachable host (init_process k e t) p"
  shows "n_inflight (pr_counters p) = length (filter (in_flight \<circ> snd) (pr_threads p)) \<and>
    n_requests (pr_counters p) = pr_done p + length (filter (counted \<circ> snd) (pr_threads p)) \<and>
    (pr_stopping p \<longleftrightarrow> 0 < pr_handlers p \<or> pr_drainers p \<noteq> []) \<and>
    (pr_stopping p \<longrightarrow> \<not> k_term_ignore (pr_knobs p)) \<and>
    (pr_exited p = Some Drained \<longrightarrow> (\<exists>q. wait_over host (init_process k e t) q \<and> reachable host q p)) \<and>
    (pr_exited p = Some Returned \<longrightarrow> pr_stopping p)"
proof -
  have i: "process_inv (init_process k e t)" "pr_drainers (init_process k e t) = []" by (simp_all add: process_inv_def init_process_def)
  have "\<exists>q. wait_over host (init_process k e t) q \<and> reachable host q p" if "Leaving d \<in> set (pr_drainers p)" for d
    using drainers_ok [OF assms i] that by force
  then show ?thesis using process_invariant [OF assms i(1)] unfolding process_inv_def by blast
qed

text \<open>The reconnect delays double from one second and stay at fifteen.\<close>

lemma connect_backoff:
  assumes "connect fuel b backoff s = Some (delays, s')" "1 \<le> backoff" "backoff \<le> 15" "i < length delays"
  shows "delays ! i = min (backoff * 2 ^ i) 15"
  using assms
proof (induction fuel arbitrary: backoff s delays i)
  case 0
  then show ?case by simp
next
  case (Suc fuel)
  obtain ok s1 where o: "b_open b s = (ok, s1)" by (cases "b_open b s")
  show ?case
  proof (cases ok)
    case True
    then show ?thesis using Suc.prems(1,4) o by simp
  next
    case False
    then obtain ds where ds: "connect fuel b (min (backoff * 2) 15) s1 = Some (ds, s')" "delays = backoff # ds"
      using Suc.prems(1) o by (auto split: option.splits)
    show ?thesis
    proof (cases i)
      case 0
      then show ?thesis using ds(2) Suc.prems(3) by simp
    next
      case (Suc j)
      have "ds ! j = min (min (backoff * 2) 15 * 2 ^ j) 15"
        using Suc.prems(2,4) Suc ds(2) by (intro Suc.IH [OF ds(1)]) auto
      moreover have "min (min (backoff * 2) 15 * 2 ^ j) 15 = min (backoff * 2 ^ Suc j) 15"
      proof (cases "backoff * 2 \<le> 15")
        case True
        then show ?thesis by (simp add: min_absorb1 ac_simps)
      next
        case big: False
        have "1 \<le> (2 :: nat) ^ j" by simp
        then have "15 * 1 \<le> 15 * (2 :: nat) ^ j" by (rule mult_le_mono2)
        moreover have "15 * (2 :: nat) ^ j \<le> (backoff * 2) * 2 ^ j" using big by (intro mult_le_mono1) simp
        moreover have "backoff * 2 ^ Suc j = (backoff * 2) * 2 ^ j" by simp
        ultimately have "15 \<le> backoff * 2 ^ Suc j" "15 \<le> 15 * (2 :: nat) ^ j" by linarith+
        then show ?thesis using big by simp
      qed
      ultimately show ?thesis using ds(2) Suc by simp
    qed
  qed
qed

section \<open>Witness\<close>

definition default_knobs :: knobs where
  "default_knobs =
     \<lparr>k_port = 8080, k_version = [], k_start_delay = 0, k_ready_delay = 0, k_fail_ready = False,
      k_fail_health_after = 0, k_crash_on_start = False, k_crash_after = 0, k_exit_code = 1, k_mem_mb = 0,
      k_leak = 0, k_burn_threads = 0, k_required_env = [], k_term_ignore = False, k_term_grace = 25,
      k_work_mode = [], k_queue_backend = [], k_process_ms = 100, k_rate = 1\<rparr>"

text \<open>A run: SIGTERM, the waiting ends with no request in flight, and the process exits.\<close>

definition sigterm_run :: "process list" where
  "sigterm_run =
     (let p0 = init_process default_knobs [] 0; p1 = handle_sigterm p0; p2 = start_drainer p1; p3 = set_deadline 0 p2;
          p4 = p3 \<lparr>pr_drainers := [Leaving (fl (0 + 25))]\<rparr>
      in [p0, p1, p2, p3, p4])"

lemma waiting_ended: "reachable [] (init_process default_knobs [] 0) (last sigterm_run)"
proof -
  note run = handle_sigterm_def start_drainer_def set_deadline_def init_process_def default_knobs_def must_wait_def
  let ?p0 = "init_process default_knobs [] 0"
  have "reachable [] ?p0 (handle_sigterm ?p0)" by (rule reachable.Step [OF reachable.Start Sigterm]) (simp add: run)
  then have "reachable [] ?p0 (start_drainer (handle_sigterm ?p0))" by (rule reachable.Step [OF _ StartDrainer]) (simp_all add: run)
  then have "reachable [] ?p0 (set_deadline 0 (start_drainer (handle_sigterm ?p0)))" by (rule reachable.Step [OF _ SetDeadline]) (simp_all add: run)
  then have "reachable [] ?p0 ((set_deadline 0 (start_drainer (handle_sigterm ?p0)))
      \<lparr>pr_drainers := (pr_drainers (set_deadline 0 (start_drainer (handle_sigterm ?p0))))[0 := Leaving (fl (0 + 25))]\<rparr>)"
    by (rule reachable.Step [OF _ EndWait]) (simp_all add: run)
  then show ?thesis by (simp add: sigterm_run_def Let_def run)
qed

lemma shutdown_drains_witness:
  "reachable [] (init_process default_knobs [] 0) ((last sigterm_run) \<lparr>pr_exited := Some Drained\<rparr>) \<and>
   pr_stopping ((last sigterm_run) \<lparr>pr_exited := Some Drained\<rparr>) \<and>
   (\<exists>q. wait_over [] (init_process default_knobs [] 0) q \<and> reachable [] q ((last sigterm_run) \<lparr>pr_exited := Some Drained\<rparr>))"
proof -
  have r: "reachable [] (init_process default_knobs [] 0) ((last sigterm_run) \<lparr>pr_exited := Some Drained\<rparr>)"
    by (rule reachable.Step [OF waiting_ended Exit [of _ "fl (0 + 25)"]])
       (simp_all add: sigterm_run_def Let_def handle_sigterm_def start_drainer_def set_deadline_def init_process_def)
  moreover have "pr_stopping ((last sigterm_run) \<lparr>pr_exited := Some Drained\<rparr>)"
    by (simp add: sigterm_run_def Let_def handle_sigterm_def start_drainer_def set_deadline_def init_process_def default_knobs_def)
  ultimately show ?thesis using shutdown_drains [OF r] by simp
qed

text \<open>
  What is not so, in two ways.  Between the end of the waiting and the exit the server may still
  accept, so the process can cut a request in flight.  And when the server has stopped, \<open>main\<close>
  returns whatever is in flight, so a request is cut long before the deadline.
\<close>

abbreviation home :: http_request where
  "home \<equiv> \<lparr>q_path = [47], q_params = []\<rparr>"

definition cut_process :: process where
  "cut_process = (count 0 home (enter 0 home (accept 0 (last sigterm_run)))) \<lparr>pr_exited := Some Drained\<rparr>"

lemma exit_cuts_request:
  "reachable [] (init_process default_knobs [] 0) cut_process \<and> pr_exited cut_process = Some Drained \<and>
   n_inflight (pr_counters cut_process) = 1 \<and> pr_now cut_process = 0 \<and> pr_drainers cut_process = [Leaving 25]"
proof -
  let ?p0 = "init_process default_knobs [] 0"
  note run = sigterm_run_def Let_def handle_sigterm_def start_drainer_def set_deadline_def init_process_def default_knobs_def
    accept_def enter_def count_def
  have "reachable [] ?p0 (accept 0 (last sigterm_run))" by (rule reachable.Step [OF waiting_ended Accept]) (simp_all add: run)
  then have "reachable [] ?p0 (enter 0 home (accept 0 (last sigterm_run)))" by (rule reachable.Step [OF _ Enter]) (simp_all add: run)
  then have "reachable [] ?p0 (count 0 home (enter 0 home (accept 0 (last sigterm_run))))" by (rule reachable.Step [OF _ CountStep]) (simp_all add: run)
  then have "reachable [] ?p0 cut_process"
    unfolding cut_process_def by (rule reachable.Step [OF _ Exit [of _ "fl (0 + 25)"]]) (simp_all add: run)
  moreover have "fl 25 = (25 :: rat)" by (simp add: fl_numeral)
  ultimately show ?thesis by (simp add: cut_process_def run)
qed

definition served_process :: process where
  "served_process = set_deadline 0 (start_drainer (handle_sigterm (enter 0 home (accept 0 (init_process default_knobs [] 0)))))"

lemma return_cuts_request:
  "reachable [] (init_process default_knobs [] 0) (served_process \<lparr>pr_listening := False, pr_exited := Some Returned\<rparr>) \<and>
   n_inflight (pr_counters served_process) = 1 \<and> pr_now served_process = 0 \<and> pr_drainers served_process = [Waiting 25] \<and>
   must_wait served_process 25"
proof -
  let ?p0 = "init_process default_knobs [] 0"
  note run = handle_sigterm_def start_drainer_def set_deadline_def init_process_def default_knobs_def accept_def enter_def
  have "reachable [] ?p0 (accept 0 ?p0)" by (rule reachable.Step [OF reachable.Start Accept]) (simp_all add: run)
  then have "reachable [] ?p0 (enter 0 home (accept 0 ?p0))" by (rule reachable.Step [OF _ Enter]) (simp_all add: run)
  then have "reachable [] ?p0 (handle_sigterm (enter 0 home (accept 0 ?p0)))" by (rule reachable.Step [OF _ Sigterm]) (simp add: run)
  then have "reachable [] ?p0 (start_drainer (handle_sigterm (enter 0 home (accept 0 ?p0))))"
    by (rule reachable.Step [OF _ StartDrainer]) (simp_all add: run)
  then have "reachable [] ?p0 served_process" unfolding served_process_def by (rule reachable.Step [OF _ SetDeadline]) (simp_all add: run)
  then have "reachable [] ?p0 (served_process \<lparr>pr_listening := False\<rparr>)"
    by (rule reachable.Step [OF _ StopListening]) (simp_all add: served_process_def run)
  then have "reachable [] ?p0 ((served_process \<lparr>pr_listening := False\<rparr>) \<lparr>pr_exited := Some Returned\<rparr>)"
    by (rule reachable.Step [OF _ MainReturns]) (simp_all add: served_process_def run)
  moreover have "fl 25 = (25 :: rat)" by (simp add: fl_numeral)
  ultimately show ?thesis by (simp add: served_process_def must_wait_def run)
qed

end
