(* ===== verification/PlanCheck.thy ===== *)
theory PlanCheck
  imports PyDict PyAscii "HOL-Library.Multiset"
begin

text \<open>
  The plan assertions of 02-sql-optimization/tools/plan_check.py: the walk over the nodes of an
  EXPLAIN plan, the node matchers, the worst row misestimation, and the command line.  A plan node
  is the JSON object PostgreSQL 16 prints, with the keys the tool reads; a missing key is \<open>None\<close>
  and the row counts are integers.  PostgreSQL and the file system are parameters.
\<close>

section \<open>Plan trees\<close>

datatype plan_node = PlanNode
  (n_type: "pystr option") (n_relation: "pystr option") (n_alias: "pystr option") (n_index: "pystr option")
  (n_actual: "int option") (n_rows: "int option") (n_loops: "int option") (n_children: "plan_node list")

text \<open>
  The generator \<open>iter_nodes\<close>: the last node pushed is visited first, so the stack is kept with its
  top in front.
\<close>

lemma children_size: "size_list size (n_children n) < size n"
  by (cases n) simp

lemma member_size [termination_simp]: "m \<in> set (n_children n) \<Longrightarrow> size m < size n"
  by (cases n) (auto simp: less_Suc_eq_le intro: size_list_estimation')

lemma size_list_rev: "size_list f (rev xs) = size_list f xs"
  by (induction xs) (simp_all add: size_list_append)

function iter_stack :: "plan_node list \<Rightarrow> plan_node list" where
  "iter_stack [] = []"
| "iter_stack (n # stack) = n # iter_stack (rev (n_children n) @ stack)"
  by pat_completeness auto
termination
  by (relation "measure (size_list size)") (auto simp: size_list_append size_list_rev intro: less_SucI [OF children_size])

definition iter_nodes :: "plan_node \<Rightarrow> plan_node list" where
  "iter_nodes plan = iter_stack [plan]"

section \<open>Matching\<close>

definition families :: "(pystr \<times> pystr list) list" where
  "families =
     [(u ''Index Scan'', [u ''Index Scan'', u ''Index Only Scan'', u ''Bitmap Index Scan'']),
      (u ''Index Only Scan'', [u ''Index Only Scan'']),
      (u ''Bitmap Index Scan'', [u ''Bitmap Index Scan'']),
      (u ''Seq Scan'', [u ''Seq Scan''])]"

definition node_types :: "pystr \<Rightarrow> bool \<Rightarrow> pystr list" where
  "node_types node_type family = (if family then get_or [node_type] families node_type else [node_type])"

definition node_matches :: "plan_node \<Rightarrow> pystr \<Rightarrow> pystr option \<Rightarrow> pystr option \<Rightarrow> bool \<Rightarrow> bool" where
  "node_matches n node_type tbl index family \<longleftrightarrow>
     (case n_type n of None \<Rightarrow> False | Some t \<Rightarrow> t \<in> set (node_types node_type family)) \<and>
     (case tbl of None \<Rightarrow> True | Some t \<Rightarrow> n_relation n = Some t \<or> n_alias n = Some t) \<and>
     (case index of None \<Rightarrow> True | Some i \<Rightarrow> n_index n = Some i)"

definition find_nodes :: "plan_node \<Rightarrow> pystr \<Rightarrow> pystr option \<Rightarrow> pystr option \<Rightarrow> bool \<Rightarrow> plan_node list" where
  "find_nodes plan node_type tbl index family =
     filter (\<lambda>n. node_matches n node_type tbl index family) (iter_nodes plan)"

text \<open>The assertions of the library: what they report is the number of hits or the types seen.\<close>

datatype plan_error = ForbiddenPresent nat "pystr list" | RequiredMissing "pystr list"

definition or_else :: "pystr option \<Rightarrow> pystr \<Rightarrow> pystr" where
  "or_else v d = (case v of None \<Rightarrow> d | Some s \<Rightarrow> if s = [] then d else s)"

definition forbid_node :: "plan_node \<Rightarrow> pystr \<Rightarrow> pystr option \<Rightarrow> pystr option \<Rightarrow> plan_error option" where
  "forbid_node plan node_type tbl index =
     (let hits = find_nodes plan node_type tbl index False in
      if hits \<noteq> [] then
        Some (ForbiddenPresent (length hits)
          (sort (remdups (map (\<lambda>h. or_else (n_relation h) (or_else (n_index h) (u ''?''))) hits))))
      else None)"

definition require_node :: "plan_node \<Rightarrow> pystr \<Rightarrow> pystr option \<Rightarrow> pystr option \<Rightarrow> plan_error + plan_node list" where
  "require_node plan node_type tbl index =
     (let hits = find_nodes plan node_type tbl index True in
      if hits = [] then
        Inl (RequiredMissing (sort (remdups (map (\<lambda>n. case n_type n of None \<Rightarrow> u ''?'' | Some t \<Rightarrow> t) (iter_nodes plan)))))
      else Inr hits)"

definition require_join :: "plan_node \<Rightarrow> pystr \<Rightarrow> plan_error + plan_node list" where
  "require_join plan join_type = require_node plan join_type None None"

section \<open>Row estimates\<close>

definition node_factor :: "plan_node \<Rightarrow> rat option" where
  "node_factor n =
     (case (n_actual n, n_rows n) of
        (Some a, Some r) \<Rightarrow>
          (let loops = (case n_loops n of None \<Rightarrow> 1 | Some l \<Rightarrow> l);
               actual = max (a * max loops 1) 1; est = max r 1
           in Some (max (fdiv (of_int actual) est) (fdiv (of_int est) actual)))
      | _ \<Rightarrow> None)"

definition estimate_step :: "rat \<times> plan_node option \<Rightarrow> plan_node \<Rightarrow> rat \<times> plan_node option" where
  "estimate_step worst n =
     (case node_factor n of
        None \<Rightarrow> worst
      | Some f \<Rightarrow> if fst worst < f then (f, Some n) else worst)"

definition rows_estimate_error :: "plan_node \<Rightarrow> rat \<times> plan_node option" where
  "rows_estimate_error plan = foldl estimate_step (1, None) (iter_nodes plan)"

section \<open>The command line\<close>

definition sql_comment_line :: "pystr \<Rightarrow> bool" where
  "sql_comment_line l \<longleftrightarrow> startswith (strip_by is_space l) [45, 45]"

definition strip_sql :: "pystr list \<Rightarrow> pystr" where
  "strip_sql ls = rstrip_by (\<lambda>c. c = 59) (strip_by is_space (join [10] (filter (\<lambda>l. \<not> sql_comment_line l) ls)))"

definition parse_spec :: "pystr \<Rightarrow> pystr \<times> pystr option" where
  "parse_spec spec =
     (if 58 \<in> set spec then
        (strip_by is_space (takeWhile (\<lambda>c. c \<noteq> 58) spec),
         Some (strip_by is_space (tl (dropWhile (\<lambda>c. c \<noteq> 58) spec))))
      else (strip_by is_space spec, None))"

definition spec_hits :: "plan_node \<Rightarrow> pystr \<Rightarrow> bool \<Rightarrow> plan_node list" where
  "spec_hits plan spec family =
     (case parse_spec spec of
        (t, None) \<Rightarrow> find_nodes plan t None None family
      | (t, Some q) \<Rightarrow> find_nodes plan t (Some q) None family @ find_nodes plan t None (Some q) family)"

datatype check_line = PassLine | ForbidFail pystr nat | RequireFail pystr | JoinFail pystr plan_error | EstimateFail rat

record plan_args =
  a_forbid :: "pystr list"
  a_require :: "pystr list"
  a_require_join :: "pystr list"
  a_max_error :: "rat option"

definition forbid_line :: "plan_node \<Rightarrow> pystr \<Rightarrow> check_line" where
  "forbid_line plan spec =
     (let hits = spec_hits plan spec False in if hits \<noteq> [] then ForbidFail spec (length hits) else PassLine)"

definition require_line :: "plan_node \<Rightarrow> pystr \<Rightarrow> check_line" where
  "require_line plan spec = (if spec_hits plan spec True \<noteq> [] then PassLine else RequireFail spec)"

definition join_line :: "plan_node \<Rightarrow> pystr \<Rightarrow> check_line" where
  "join_line plan jt = (case require_join plan jt of Inr _ \<Rightarrow> PassLine | Inl e \<Rightarrow> JoinFail jt e)"

definition estimate_line :: "plan_node \<Rightarrow> rat \<Rightarrow> check_line" where
  "estimate_line plan bound =
     (let f = fst (rows_estimate_error plan) in if bound < f then EstimateFail f else PassLine)"

definition plan_main :: "(pystr \<Rightarrow> plan_node option) \<Rightarrow> pystr list \<Rightarrow> plan_args \<Rightarrow> check_line list \<times> int" where
  "plan_main explain sql_lines a =
     (case explain (strip_sql sql_lines) of
        None \<Rightarrow> ([], 2)
      | Some plan \<Rightarrow>
          let out = map (forbid_line plan) (a_forbid a) @ map (require_line plan) (a_require a) @
                map (join_line plan) (a_require_join a) @
                (case a_max_error a of None \<Rightarrow> [] | Some b \<Rightarrow> [estimate_line plan b])
          in (out, if list_all (\<lambda>l. l = PassLine) out then 0 else 1))"

section \<open>Every node is visited once\<close>

fun all_nodes :: "plan_node \<Rightarrow> plan_node list" where
  "all_nodes n = n # concat (map all_nodes (n_children n))"

declare all_nodes.simps [simp del]

lemma mset_iter_stack: "mset (iter_stack stack) = mset (concat (map all_nodes stack))"
proof (induction stack rule: iter_stack.induct)
  case 1
  then show ?case by simp
next
  case (2 n stack)
  have "mset (concat (map all_nodes (rev xs))) = mset (concat (map all_nodes xs))" for xs
    by (induction xs) (simp_all add: ac_simps)
  then show ?case using 2 by (simp add: all_nodes.simps [of n])
qed

lemma mset_iter_nodes: "mset (iter_nodes plan) = mset (all_nodes plan)"
  unfolding iter_nodes_def mset_iter_stack by simp

lemma set_iter_nodes: "set (iter_nodes plan) = set (all_nodes plan)"
  using mset_iter_nodes [of plan] by (rule mset_eq_setD)

lemma spec_hits_empty:
  "spec_hits plan spec family = [] \<longleftrightarrow>
     \<not> (\<exists>n \<in> set (all_nodes plan).
        node_matches n (fst (parse_spec spec)) None None family \<and>
        (case snd (parse_spec spec) of
           None \<Rightarrow> True
         | Some q \<Rightarrow> n_relation n = Some q \<or> n_alias n = Some q \<or> n_index n = Some q))"
proof (cases "parse_spec spec")
  case (Pair t q)
  show ?thesis
    by (cases q) (auto simp: Pair spec_hits_def find_nodes_def filter_empty_conv set_iter_nodes node_matches_def)
qed

lemma estimate_fold:
  "fst (foldl estimate_step acc ns) \<le> b \<longleftrightarrow> fst acc \<le> b \<and> (\<forall>n \<in> set ns. \<forall>f. node_factor n = Some f \<longrightarrow> f \<le> b)"
proof (induction ns arbitrary: acc)
  case Nil
  then show ?case by simp
next
  case (Cons n ns)
  have "fst (estimate_step acc n) \<le> b \<longleftrightarrow> fst acc \<le> b \<and> (\<forall>f. node_factor n = Some f \<longrightarrow> f \<le> b)"
    by (cases "node_factor n") (auto simp: estimate_step_def)
  then show ?case using Cons.IH [of "estimate_step acc n"] by auto
qed

definition spec_present :: "plan_node \<Rightarrow> pystr \<Rightarrow> bool \<Rightarrow> bool" where
  "spec_present plan spec family \<longleftrightarrow>
     list_ex (\<lambda>n. node_matches n (fst (parse_spec spec)) None None family \<and>
        (case snd (parse_spec spec) of
           None \<Rightarrow> True
         | Some q \<Rightarrow> n_relation n = Some q \<or> n_alias n = Some q \<or> n_index n = Some q)) (all_nodes plan)"

lemma spec_hits_present: "spec_hits plan spec family \<noteq> [] \<longleftrightarrow> spec_present plan spec family"
  unfolding spec_present_def list_ex_iff using spec_hits_empty [of plan spec family] by blast

text \<open>
  C27.  The exit code of the plan checker.  It is 2 when no plan could be obtained.  Otherwise it is
  0 exactly when, over all nodes of the plan tree, no node has a forbidden type with its qualifier
  on the relation, alias or index name; every required type and join occurs, an index scan of any
  kind counting as Index Scan; and the planner's estimate is within the given factor, which must be at
  least 1, of the actual rows at every node that has both; otherwise it is 1.
\<close>

theorem plan_main_exact:
  "snd (plan_main explain sql_lines a) =
     (case explain (strip_sql sql_lines) of
        None \<Rightarrow> 2
      | Some plan \<Rightarrow>
          if list_all (\<lambda>spec. \<not> spec_present plan spec False) (a_forbid a) \<and>
             list_all (\<lambda>spec. spec_present plan spec True) (a_require a) \<and>
             list_all (\<lambda>jt. list_ex (\<lambda>n. node_matches n jt None None True) (all_nodes plan)) (a_require_join a) \<and>
             (case a_max_error a of
                None \<Rightarrow> True
              | Some b \<Rightarrow> 1 \<le> b \<and> list_all (\<lambda>n. case node_factor n of None \<Rightarrow> True | Some f \<Rightarrow> f \<le> b) (all_nodes plan))
          then 0 else 1)"
proof (cases "explain (strip_sql sql_lines)")
  case None
  then show ?thesis by (simp add: plan_main_def)
next
  case (Some plan)
  have f: "forbid_line plan spec = PassLine \<longleftrightarrow> \<not> spec_present plan spec False" for spec
    unfolding spec_hits_present [symmetric] by (simp add: forbid_line_def Let_def)
  have r: "require_line plan spec = PassLine \<longleftrightarrow> spec_present plan spec True" for spec
    unfolding spec_hits_present [symmetric] by (simp add: require_line_def)
  have j: "join_line plan jt = PassLine \<longleftrightarrow> list_ex (\<lambda>n. node_matches n jt None None True) (all_nodes plan)" for jt
    by (auto simp: join_line_def require_join_def require_node_def Let_def find_nodes_def filter_empty_conv
        set_iter_nodes list_ex_iff)
  have e: "estimate_line plan b = PassLine \<longleftrightarrow>
      1 \<le> b \<and> list_all (\<lambda>n. case node_factor n of None \<Rightarrow> True | Some f \<Rightarrow> f \<le> b) (all_nodes plan)" for b
  proof -
    have "estimate_line plan b = PassLine \<longleftrightarrow> fst (rows_estimate_error plan) \<le> b"
      by (auto simp: estimate_line_def Let_def)
    also have "\<dots> \<longleftrightarrow> 1 \<le> b \<and> (\<forall>n \<in> set (all_nodes plan). \<forall>f. node_factor n = Some f \<longrightarrow> f \<le> b)"
      unfolding rows_estimate_error_def estimate_fold set_iter_nodes by simp
    also have "(\<forall>n \<in> set (all_nodes plan). \<forall>f. node_factor n = Some f \<longrightarrow> f \<le> b) \<longleftrightarrow>
        list_all (\<lambda>n. case node_factor n of None \<Rightarrow> True | Some f \<Rightarrow> f \<le> b) (all_nodes plan)"
      unfolding list_all_iff by (intro ball_cong refl) (simp split: option.split)
    finally show ?thesis .
  qed
  show ?thesis
    unfolding plan_main_def Some option.case Let_def
    by (cases "a_max_error a") (simp_all add: list_all_iff f r j e ball_Un)
qed

end
