(* ===== verification/MutationGrader.thy ===== *)
theory MutationGrader
  imports PyDict PyLines
begin

text \<open>
  The mutant-killing grader of 16-testing-engineering/harness/mutation.py: reading the test count
  off the pytest output, running a suite against an implementation, the choice of the mutant
  files, and the grading protocol.  The pytest subprocess is a parameter: for the test paths, the
  environment and the fail-fast flag it times out or ends with an exit code and its output.
\<close>

section \<open>Pytest output\<close>

definition summary_words :: "pystr list" where
  "summary_words = [u ''passed'', u ''failed'', u ''error'', u ''skipped'', u ''xfailed'', u ''xpassed'']"

text \<open>The sum of the numbers matched by \<open>(\d+) (passed|failed|errors?|skipped|xfailed|xpassed)\<close>.\<close>

function count_tests :: "pystr \<Rightarrow> nat" where
  "count_tests s =
     (case s of
        [] \<Rightarrow> 0
      | c # t \<Rightarrow>
          (let ds = takeWhile is_digit s; rest = dropWhile is_digit s in
           if ds \<noteq> [] \<and> startswith rest [32] \<and> list_ex (\<lambda>w. startswith (tl rest) w) summary_words then
             foldl (\<lambda>n d. 10 * n + the (digit_value d)) 0 ds + count_tests (tl rest)
           else count_tests t))"
  by pat_completeness auto
termination
proof (relation "measure length")
  fix s c t and ds rest :: pystr
  assume s: "s = c # t" and r: "rest = dropWhile is_digit s"
    and m: "ds \<noteq> [] \<and> startswith rest [32] \<and> list_ex (\<lambda>w. startswith (tl rest) w) summary_words"
  have "rest \<noteq> []" using m by auto
  then show "(tl rest, s) \<in> measure length"
    using length_dropWhile_le [of is_digit s] r s by (cases rest) auto
qed auto

declare count_tests.simps [simp del]

definition parse_collected :: "pystr \<Rightarrow> nat" where
  "parse_collected out = count_tests (join [10] (last_lines 5 (split_lines out)))"

definition tail_text :: "pystr \<Rightarrow> pystr" where
  "tail_text out = join [10] (last_lines 40 (split_lines out))"

section \<open>Running a suite\<close>

record suite_result =
  s_passed :: bool
  s_returncode :: int
  s_collected :: nat
  s_tail :: pystr
  s_timed_out :: bool

datatype pytest_outcome = TimedOut pystr | Ended int pystr pystr

text \<open>An environment variable is set, or removed when no implementation is given.\<close>

definition suite_env :: "(pystr \<times> pystr) list \<Rightarrow> pystr option \<Rightarrow> (pystr \<times> pystr) list \<Rightarrow> (pystr \<times> pystr) list" where
  "suite_env base impl extra =
     (let env = (case impl of
                   None \<Rightarrow> alist_del (u ''SUT_IMPL_PATH'') base
                 | Some p \<Rightarrow> alist_set (u ''SUT_IMPL_PATH'') p base)
      in foldl (\<lambda>m (k, v). alist_set k v m) env extra)"

type_synonym pytest = "pystr list \<Rightarrow> (pystr \<times> pystr) list \<Rightarrow> bool \<Rightarrow> nat \<Rightarrow> pytest_outcome"

definition run_suite ::
  "pytest \<Rightarrow> (pystr \<times> pystr) list \<Rightarrow> pystr list \<Rightarrow> pystr option \<Rightarrow> (pystr \<times> pystr) list \<Rightarrow> nat \<Rightarrow> bool \<Rightarrow> suite_result" where
  "run_suite pytest base tests impl extra timeout fail_fast =
     (case pytest tests (suite_env base impl extra) fail_fast timeout of
        TimedOut stdout \<Rightarrow>
          \<lparr>s_passed = False, s_returncode = - 1, s_collected = parse_collected stdout,
           s_tail = tail_text (stdout @ [10] @ u ''[TIMEOUT after '' @ nat_str timeout @ u ''s]''), s_timed_out = True\<rparr>
      | Ended rc stdout stderr \<Rightarrow>
          \<lparr>s_passed = (rc = 0), s_returncode = rc, s_collected = parse_collected (stdout @ stderr),
           s_tail = tail_text (stdout @ stderr), s_timed_out = False\<rparr>)"

definition mutant_files :: "pystr list \<Rightarrow> pystr list" where
  "mutant_files names =
     filter (\<lambda>n. n \<noteq> u ''__init__.py'' \<and> \<not> startswith n [95]) (sort (filter (\<lambda>n. endswith n (u ''.py'')) names))"

text \<open>\<open>Path.stem\<close> of a name that ends in \<open>.py\<close>.\<close>

definition stem :: "pystr \<Rightarrow> pystr" where
  "stem n = (if length n \<le> 3 then n else take (length n - 3) n)"

section \<open>Grading\<close>

datatype failure =
    BaselineTimeout nat
  | BaselineFails int pystr
  | TooFewTests nat nat
  | NoMutants
  | Survivors "pystr list"

datatype verdict = NotPassed failure | PassedWith nat nat "pystr list"

definition grade_mutant ::
  "pytest \<Rightarrow> (pystr \<times> pystr) list \<Rightarrow> pystr list \<Rightarrow> pystr \<Rightarrow> (pystr \<times> pystr) list \<Rightarrow> nat \<Rightarrow>
     pystr list \<times> pystr list \<Rightarrow> pystr \<Rightarrow> pystr list \<times> pystr list" where
  "grade_mutant pytest base tests dir extra timeout acc n =
     (let r = run_suite pytest base tests (Some (dir @ [47] @ n)) extra timeout True in
      if s_timed_out r then (fst acc, snd acc @ [stem n])
      else if s_passed r then (fst acc @ [stem n], snd acc)
      else acc)"

definition grade ::
  "pytest \<Rightarrow> (pystr \<times> pystr) list \<Rightarrow> pystr list \<Rightarrow> pystr \<Rightarrow> pystr \<Rightarrow> pystr list \<Rightarrow> nat \<Rightarrow> rat \<Rightarrow>
     (pystr \<times> pystr) list \<Rightarrow> nat \<Rightarrow> verdict" where
  "grade pytest base tests correct dir names min_tests required extra timeout =
     (let r = run_suite pytest base tests (Some correct) extra timeout False in
      if s_timed_out r then NotPassed (BaselineTimeout timeout)
      else if \<not> s_passed r then NotPassed (BaselineFails (s_returncode r) (s_tail r))
      else if s_collected r < min_tests then NotPassed (TooFewTests (s_collected r) min_tests)
      else
        let files = mutant_files names in
        if files = [] then NotPassed NoMutants
        else
          let (survivors, timeouts) = foldl (grade_mutant pytest base tests dir extra timeout) ([], []) files;
              total = length files; killed = total - length survivors;
              ratio = fdiv (of_nat killed) (int total)
          in if ratio < required then NotPassed (Survivors survivors)
             else PassedWith killed total timeouts)"

section \<open>Correctness\<close>

lemma fl_fraction_less_1:
  assumes "k < n" "n < 2 ^ 53"
  shows "fdiv (of_nat k) (int n) < 1"
proof (cases "k = 0")
  case True
  then show ?thesis by (simp add: fdiv_def)
next
  case False
  define b :: rat where "b = of_int (2 ^ 53 - 1) * 2 powi (- 53)"
  have b: "b = 1 - 1 / 2 ^ 53" by (simp add: b_def power_int_def field_simps)
  have flb: "fl b = b" unfolding b_def by (rule fl_scaled_pos) simp_all
  have n: "(0 :: rat) < of_nat n" using assms(1) by simp
  have "(of_nat k :: rat) \<le> of_nat (n - 1)" using assms(1) by (intro of_nat_mono) simp
  then have "(of_nat k :: rat) \<le> of_nat n - 1" using assms(1) by (simp add: of_nat_diff)
  then have "(of_nat k :: rat) / of_nat n \<le> (of_nat n - 1) / of_nat n"
    using n by (intro divide_right_mono) simp_all
  also have "\<dots> = 1 - 1 / of_nat n" using n by (simp add: diff_divide_distrib)
  also have "\<dots> \<le> b"
  proof -
    have "(of_nat n :: rat) \<le> of_nat (2 ^ 53)" using assms(2) by (intro of_nat_mono) simp
    then have "(of_nat n :: rat) \<le> 2 ^ 53" by simp
    then have "1 / 2 ^ 53 \<le> 1 / (of_nat n :: rat)" using n by (intro divide_left_mono) simp_all
    then show ?thesis unfolding b by simp
  qed
  finally have "fl (of_nat k / of_nat n) \<le> fl b"
    using False n by (intro fl_mono_pos) simp_all
  then show ?thesis unfolding flb fdiv_def using b by simp
qed

lemma fdiv_self: "0 < n \<Longrightarrow> fdiv (of_nat n) (int n) = 1"
  by (simp add: fdiv_def)

definition survives :: "pytest \<Rightarrow> (pystr \<times> pystr) list \<Rightarrow> pystr list \<Rightarrow> pystr \<Rightarrow> (pystr \<times> pystr) list \<Rightarrow> nat \<Rightarrow> pystr \<Rightarrow> bool" where
  "survives pytest base tests dir extra timeout n \<longleftrightarrow>
     (case pytest tests (suite_env base (Some (dir @ [47] @ n)) extra) True timeout of
        TimedOut _ \<Rightarrow> False | Ended rc _ _ \<Rightarrow> rc = 0)"

lemma grade_mutant_survivors:
  "fst (foldl (grade_mutant pytest base tests dir extra timeout) acc files) =
     fst acc @ map stem (filter (survives pytest base tests dir extra timeout) files)"
proof (induction files arbitrary: acc)
  case Nil
  then show ?case by simp
next
  case (Cons n files)
  have "fst (grade_mutant pytest base tests dir extra timeout acc n) =
      fst acc @ (if survives pytest base tests dir extra timeout n then [stem n] else [])"
    by (simp add: grade_mutant_def survives_def run_suite_def Let_def split: pytest_outcome.split)
  then show ?case using Cons.IH by simp
qed

text \<open>The two outcomes of the protocol, by the run against the correct implementation.\<close>

definition baseline_ok :: "pytest_outcome \<Rightarrow> nat \<Rightarrow> bool" where
  "baseline_ok b min_tests \<longleftrightarrow>
     (case b of TimedOut _ \<Rightarrow> False | Ended rc out err \<Rightarrow> rc = 0 \<and> min_tests \<le> parse_collected (out @ err))"

lemma mutant_files_length: "length (mutant_files names) \<le> length names"
  unfolding mutant_files_def by (metis (no_types, lifting) length_filter_le length_sort le_trans)

lemma kill_ratio:
  assumes "files \<noteq> []" "length files < 2 ^ 53" "length surv \<le> length files"
  shows "fdiv (of_nat (length files - length surv)) (int (length files)) < 1 \<longleftrightarrow> surv \<noteq> []"
proof (cases "surv = []")
  case True
  then show ?thesis using assms(1) fdiv_self [of "length files"] by simp
next
  case False
  then have "length files - length surv < length files" using assms(1) by (cases files; cases surv) auto
  then show ?thesis using False fl_fraction_less_1 assms(2) by blast
qed

lemma grade_ok:
  assumes "length names < 2 ^ 53"
    "baseline_ok (pytest tests (suite_env base (Some correct) extra) False timeout) min_tests"
  shows "\<exists>k ts. grade pytest base tests correct dir names min_tests 1 extra timeout =
    (let files = mutant_files names; surv = filter (survives pytest base tests dir extra timeout) files in
     if files = [] then NotPassed NoMutants
     else if surv \<noteq> [] then NotPassed (Survivors (map stem surv)) else PassedWith k (length files) ts)"
proof -
  define files where "files = mutant_files names"
  define surv where "surv = filter (survives pytest base tests dir extra timeout) files"
  define st where "st = foldl (grade_mutant pytest base tests dir extra timeout) ([], []) files"
  have fst_st: "fst st = map stem surv" unfolding st_def surv_def grade_mutant_survivors by simp
  have "length files < 2 ^ 53" using mutant_files_length [of names] assms(1) by (simp add: files_def)
  then have ratio: "files \<noteq> [] \<Longrightarrow> fdiv (of_nat (length files - length surv)) (int (length files)) < 1 \<longleftrightarrow> surv \<noteq> []"
    by (intro kill_ratio) (simp_all add: surv_def)
  obtain rc out err where b: "pytest tests (suite_env base (Some correct) extra) False timeout = Ended rc out err"
    "rc = 0" "\<not> parse_collected (out @ err) < min_tests"
    using assms(2) by (cases "pytest tests (suite_env base (Some correct) extra) False timeout") (auto simp: baseline_ok_def)
  have rs: "run_suite pytest base tests (Some correct) extra timeout False =
      \<lparr>s_passed = True, s_returncode = 0, s_collected = parse_collected (out @ err),
       s_tail = tail_text (out @ err), s_timed_out = False\<rparr>"
    using b by (simp add: run_suite_def)
  have "grade pytest base tests correct dir names min_tests 1 extra timeout =
      (if files = [] then NotPassed NoMutants else if surv \<noteq> [] then NotPassed (Survivors (map stem surv))
       else PassedWith (length files - length surv) (length files) (snd st))"
    unfolding grade_def rs Let_def files_def [symmetric] st_def [symmetric]
    using b(3) ratio fst_st by (simp add: case_prod_unfold)
  then show ?thesis unfolding Let_def files_def [symmetric] surv_def [symmetric] by blast
qed

lemma grade_bad:
  assumes "\<not> baseline_ok (pytest tests (suite_env base (Some correct) extra) False timeout) min_tests"
  shows "grade pytest base tests correct dir names min_tests required extra timeout \<noteq> PassedWith k n ts"
    and "grade pytest base tests correct dir names min_tests required extra timeout \<noteq> NotPassed (Survivors ss)"
  using assms
  by (cases "pytest tests (suite_env base (Some correct) extra) False timeout";
      auto simp: grade_def run_suite_def baseline_ok_def Let_def not_le)+

text \<open>
  C31.  The grading protocol with the default ratio of 1.  The outcome is a pass exactly when the
  suite ends with exit code 0 against the correct implementation, reports at least the required
  number of tests, there is a mutant, and against every mutant the suite fails or times out; a
  suite that passes so far and lets some mutant survive is told exactly the survivors, in file order.
\<close>

theorem grade_exact:
  assumes "length names < 2 ^ 53"
  shows "let baseline = pytest tests (suite_env base (Some correct) extra) False timeout;
      ok = (case baseline of TimedOut _ \<Rightarrow> False | Ended rc out err \<Rightarrow> rc = 0 \<and> min_tests \<le> parse_collected (out @ err));
      survivors = filter (survives pytest base tests dir extra timeout) (mutant_files names);
      result = grade pytest base tests correct dir names min_tests 1 extra timeout
    in ((\<exists>k n ts. result = PassedWith k n ts) \<longleftrightarrow> ok \<and> mutant_files names \<noteq> [] \<and> survivors = []) \<and>
       (result = NotPassed (Survivors (map stem survivors)) \<longleftrightarrow> ok \<and> survivors \<noteq> [])"
proof -
  define ok where "ok = baseline_ok (pytest tests (suite_env base (Some correct) extra) False timeout) min_tests"
  define files where "files = mutant_files names"
  define surv where "surv = filter (survives pytest base tests dir extra timeout) files"
  define result where "result = grade pytest base tests correct dir names min_tests 1 extra timeout"
  have "((\<exists>k n ts. result = PassedWith k n ts) \<longleftrightarrow> ok \<and> files \<noteq> [] \<and> surv = []) \<and>
       (result = NotPassed (Survivors (map stem surv)) \<longleftrightarrow> ok \<and> surv \<noteq> [])"
  proof (cases ok)
    case True
    then obtain k ts where "result = (if files = [] then NotPassed NoMutants
        else if surv \<noteq> [] then NotPassed (Survivors (map stem surv)) else PassedWith k (length files) ts)"
      using grade_ok [OF assms, of pytest tests base correct extra timeout min_tests dir]
      unfolding ok_def result_def files_def surv_def Let_def by blast
    then show ?thesis using True by (cases "files = []") (auto simp: surv_def)
  next
    case False
    then show ?thesis
      using grade_bad [of pytest tests base correct extra timeout min_tests] unfolding ok_def result_def by blast
  qed
  then show ?thesis
    unfolding Let_def ok_def result_def surv_def files_def baseline_ok_def .
qed

definition sample_pytest :: pytest where
  "sample_pytest = (\<lambda>_ env _ _. if map_of env (u ''SUT_IMPL_PATH'') = Some [99] then Ended 0 [] [] else Ended 1 [] [])"

lemma grade_exact_witness:
  "\<exists>k n ts. grade sample_pytest [] [] [99] [109] [u ''m01.py''] 0 1 [] 300 = PassedWith k n ts"
proof -
  have l: "length [u ''m01.py''] < 2 ^ 53" by simp
  have files: "mutant_files [u ''m01.py''] = [u ''m01.py'']"
    by (simp add: mutant_files_def endswith_def)
  have base: "sample_pytest [] (suite_env [] (Some [99]) []) False 300 = Ended 0 [] []"
    by (simp add: sample_pytest_def suite_env_def)
  have killed: "\<not> survives sample_pytest [] [] [109] [] 300 (u ''m01.py'')"
    by (simp add: survives_def sample_pytest_def suite_env_def)
  show ?thesis
    using grade_exact [OF l, of sample_pytest "[]" "[]" "[99]" "[]" 300 0 "[109]"] files base killed
    by (simp add: Let_def del: u_Cons)
qed

end
