(* ===== verification/Pricing.thy ===== *)
theory Pricing
  imports PyDict
begin

text \<open>
  The calculator of 16-testing-engineering/06-mutation-testing-taste/src/target.py: discount, price
  tier, SKU check and shipping cost, in doubles.  The character classes outside ASCII are a
  parameter.
\<close>

section \<open>Prices\<close>

definition round2 :: "rat \<Rightarrow> rat" where
  "round2 x = fl (of_int (round_half_even (x * 100)) / 100)"

definition apply_discount :: "rat \<Rightarrow> rat \<Rightarrow> rat \<Rightarrow> rat result" where
  "apply_discount price pct min_price =
     (if price < 0 then Inl ValueError
      else if pct < 0 \<or> 100 < pct then Inl ValueError
      else Inr (round2 (max (fl (price * fl (1 - fl (pct / 100)))) min_price)))"

definition classify_price_tier :: "rat \<Rightarrow> pystr" where
  "classify_price_tier price =
     (if price < 20 then u ''budget'' else if price < 100 then u ''standard''
      else if price < 500 then u ''premium'' else u ''luxury'')"

definition shipping_cost :: "rat \<Rightarrow> rat \<Rightarrow> bool \<Rightarrow> rat result" where
  "shipping_cost weight distance express =
     (if weight \<le> 0 then Inl ValueError
      else if distance < 0 then Inl ValueError
      else
        let subtotal = fl (fl (weight * (5 / 2)) + fl (distance * fl (1 / 10)));
            total = (if express then fl (subtotal * (7 / 4)) else subtotal)
        in Inr (round2 (max total 5)))"

section \<open>SKUs\<close>

record char_classes =
  cc_alpha :: "nat \<Rightarrow> bool"
  cc_upper :: "nat \<Rightarrow> bool"
  cc_lower :: "nat \<Rightarrow> bool"
  cc_digit :: "nat \<Rightarrow> bool"

definition upper_char :: "char_classes \<Rightarrow> nat \<Rightarrow> bool" where
  "upper_char cc c \<longleftrightarrow> (65 \<le> c \<and> c \<le> 90) \<or> (128 \<le> c \<and> cc_upper cc c)"

definition lower_char :: "char_classes \<Rightarrow> nat \<Rightarrow> bool" where
  "lower_char cc c \<longleftrightarrow> (97 \<le> c \<and> c \<le> 122) \<or> (128 \<le> c \<and> cc_lower cc c)"

definition alpha_char :: "char_classes \<Rightarrow> nat \<Rightarrow> bool" where
  "alpha_char cc c \<longleftrightarrow> (65 \<le> c \<and> c \<le> 90) \<or> (97 \<le> c \<and> c \<le> 122) \<or> (128 \<le> c \<and> cc_alpha cc c)"

definition digit_class :: "char_classes \<Rightarrow> nat \<Rightarrow> bool" where
  "digit_class cc c \<longleftrightarrow> (48 \<le> c \<and> c \<le> 57) \<or> (128 \<le> c \<and> cc_digit cc c)"

definition isupper :: "char_classes \<Rightarrow> pystr \<Rightarrow> bool" where
  "isupper cc s \<longleftrightarrow> list_ex (upper_char cc) s \<and> \<not> list_ex (lower_char cc) s"

definition is_valid_sku :: "char_classes \<Rightarrow> pystr \<Rightarrow> bool" where
  "is_valid_sku cc sku =
     (if 45 \<notin> set sku then False
      else
        let letters = takeWhile (\<lambda>c. c \<noteq> 45) sku; digits = tl (dropWhile (\<lambda>c. c \<noteq> 45) sku) in
        if length letters \<noteq> 3 \<or> \<not> list_all (alpha_char cc) letters \<or> \<not> isupper cc letters then False
        else if digits = [] \<or> \<not> list_all (digit_class cc) digits \<or> length digits < 4 \<or> 6 < length digits then False
        else True)"

section \<open>Lemmas\<close>

lemma fl_mono_nonneg: "0 \<le> x \<Longrightarrow> x \<le> y \<Longrightarrow> fl x \<le> fl y"
  using fl_mono_pos [of x y] fl_nonneg [of y] by (cases "x = 0") auto

lemma round2_mono: "0 \<le> x \<Longrightarrow> x \<le> y \<Longrightarrow> round2 x \<le> round2 y"
  unfolding round2_def
proof (rule fl_mono_nonneg)
  assume x: "0 \<le> x"
  have "round_half_even 0 \<le> round_half_even (x * 100)" by (rule round_half_even_mono) (simp add: x)
  then show "0 \<le> of_int (round_half_even (x * 100)) / (100 :: rat)" by simp
next
  assume "x \<le> y"
  then have "round_half_even (x * 100) \<le> round_half_even (y * 100)" by (intro round_half_even_mono) simp
  then show "of_int (round_half_even (x * 100)) / (100 :: rat) \<le> of_int (round_half_even (y * 100)) / 100" by simp
qed

text \<open>The floor price and the minimum charge hold after rounding.\<close>

lemma discount_floor: "apply_discount price pct m = Inr r \<Longrightarrow> 0 \<le> m \<Longrightarrow> round2 m \<le> r"
  by (auto simp: apply_discount_def intro: round2_mono split: if_splits)

lemma shipping_minimum:
  assumes "shipping_cost w d e = Inr r"
  shows "5 \<le> r"
proof -
  have "round_half_even (of_int 500) = 500" by (rule round_half_even_of_int)
  then have five: "round2 5 = 5" by (simp add: round2_def)
  have "round2 5 \<le> r" using assms by (auto simp: shipping_cost_def Let_def intro: round2_mono split: if_splits)
  then show ?thesis by (simp add: five)
qed

text \<open>On ASCII text the check is the documented pattern: three capitals, a hyphen, four to six digits.\<close>

lemma is_valid_sku_ascii:
  assumes "\<forall>c \<in> set sku. c < 128"
  shows "is_valid_sku cc sku \<longleftrightarrow>
    (\<exists>l d. sku = l @ 45 # d \<and> length l = 3 \<and> (\<forall>c \<in> set l. 65 \<le> c \<and> c \<le> 90) \<and>
       4 \<le> length d \<and> length d \<le> 6 \<and> (\<forall>c \<in> set d. 48 \<le> c \<and> c \<le> 57))"
proof
  assume v: "is_valid_sku cc sku"
  define l d where "l = takeWhile (\<lambda>c. c \<noteq> 45) sku" and "d = tl (dropWhile (\<lambda>c. c \<noteq> 45) sku)"
  have mem: "45 \<in> set sku" using v by (simp add: is_valid_sku_def split: if_splits)
  then have "dropWhile (\<lambda>c. c \<noteq> 45) sku \<noteq> []" by (simp add: dropWhile_eq_Nil_conv)
  then have dw: "dropWhile (\<lambda>c. c \<noteq> 45) sku = 45 # d"
    using hd_dropWhile [of "\<lambda>c. c \<noteq> 45" sku] by (cases "dropWhile (\<lambda>c. c \<noteq> 45) sku") (auto simp: d_def)
  have sku: "sku = l @ 45 # d" unfolding l_def using takeWhile_dropWhile_id [of "\<lambda>c. c \<noteq> 45" sku] dw by simp
  have c: "length l = 3" "list_all (alpha_char cc) l" "isupper cc l" "list_all (digit_class cc) d"
    "4 \<le> length d" "length d \<le> 6"
    using v mem by (auto simp: is_valid_sku_def l_def [symmetric] d_def [symmetric] Let_def not_less split: if_splits)
  have a: "\<forall>c \<in> set l. c < 128" "\<forall>c \<in> set d. c < 128" using assms sku by auto
  have "\<forall>c \<in> set l. 65 \<le> c \<and> c \<le> 90"
    using c(2,3) a(1) by (auto simp: list_all_iff alpha_char_def isupper_def list_ex_iff lower_char_def) fastforce+
  moreover have "\<forall>c \<in> set d. 48 \<le> c \<and> c \<le> 57"
    using c(4) a(2) by (fastforce simp: list_all_iff digit_class_def)
  ultimately show "\<exists>l d. sku = l @ 45 # d \<and> length l = 3 \<and> (\<forall>c \<in> set l. 65 \<le> c \<and> c \<le> 90) \<and>
       4 \<le> length d \<and> length d \<le> 6 \<and> (\<forall>c \<in> set d. 48 \<le> c \<and> c \<le> 57)"
    using sku c(1,5,6) by blast
next
  assume "\<exists>l d. sku = l @ 45 # d \<and> length l = 3 \<and> (\<forall>c \<in> set l. 65 \<le> c \<and> c \<le> 90) \<and>
       4 \<le> length d \<and> length d \<le> 6 \<and> (\<forall>c \<in> set d. 48 \<le> c \<and> c \<le> 57)"
  then obtain l d where s: "sku = l @ 45 # d" "length l = 3" "\<forall>c \<in> set l. 65 \<le> c \<and> c \<le> 90"
    "4 \<le> length d" "length d \<le> 6" "\<forall>c \<in> set d. 48 \<le> c \<and> c \<le> 57" by blast
  have n: "\<forall>c \<in> set l. c \<noteq> 45" using s(3) by force
  have t: "takeWhile (\<lambda>c. c \<noteq> 45) sku = l" "dropWhile (\<lambda>c. c \<noteq> 45) sku = 45 # d"
    unfolding s(1) using n by (simp_all add: takeWhile_append2 dropWhile_append2)
  have up: "isupper cc l" using s(2,3) by (cases l) (auto simp: isupper_def list_ex_iff upper_char_def lower_char_def)
  show "is_valid_sku cc sku"
    unfolding is_valid_sku_def Let_def t
    using s up by (auto simp: list_all_iff alpha_char_def digit_class_def)
qed

text \<open>A text outside ASCII can pass it: three Greek capitals and four Arabic-Indic digits.\<close>

definition unicode_classes :: char_classes where
  "unicode_classes = \<lparr>cc_alpha = (\<lambda>c. 913 \<le> c \<and> c \<le> 937), cc_upper = (\<lambda>c. 913 \<le> c \<and> c \<le> 937),
     cc_lower = (\<lambda>_. False), cc_digit = (\<lambda>c. 1632 \<le> c \<and> c \<le> 1641)\<rparr>"

lemma sku_accepts_unicode: "is_valid_sku unicode_classes [913, 914, 915, 45, 1633, 1634, 1635, 1636]"
  by (simp add: is_valid_sku_def isupper_def alpha_char_def upper_char_def lower_char_def digit_class_def
      unicode_classes_def)

end
