(* ===== verification/Spec2Isabelle.thy ===== *)
theory Spec2Isabelle
  imports TtlCache DesignDoc MockPeer LoadTest TextMetrics LlmClient IngestWorker PriceParser PriceRepo ContractApi CatalogApi RateLimiter ModuleCi RepoGuards SqlGrader TargetDefence ScrapeSite EventTotal K8sServer PlanCheck MutationGrader Pricing
begin

text \<open>
  The repository is a set of Python exercises around one business: shops, products, prices and
  their history.  Modelled is the code that runs and decides something: the reference
  implementations of module 16, the answer keys, generators, graders and target services the
  exercises run against, and the CI that runs over all modules.  Learner stubs, whose bodies raise
  \<open>NotImplementedError\<close>, have no behaviour and are left out.

  How the parts interact.
  \<^item> Prices.  \<open>PriceParser\<close> (16/01) and \<open>CatalogRecord\<close> (16/07) turn scraped text into amounts;
    \<open>PriceRepo\<close> (16/03) and \<open>CatalogRepo\<close> (16/07) store them through \<open>SqlTable\<close>, the shared
    semantics of an upsert; \<open>ContractApi\<close> (16/05) and \<open>CatalogApi\<close> (16/07) serve them in pages.
    The three paging endpoints interpret one locale, \<open>keyset\<close> (\<open>Keyset\<close>), in which the client's
    walk is proved complete.  \<open>CatalogRepo\<close> reads through a cache over a Redis client, which is a
    parameter constrained by the locale \<open>redis\<close> (\<open>RedisClient\<close>); \<open>RateLimiter\<close> (16/04) uses the
    same locale.  \<open>TtlCache\<close> (16/02) and \<open>Pricing\<close> (16/06) stand alone, and \<open>MutationGrader\<close>
    (16 harness/mutation.py) grades test suites against mutants of them.
  \<^item> The PriceWatch history (module 03).  \<open>PriceEvents\<close>, \<open>Observations\<close>, \<open>Enrichment\<close> and
    \<open>GroundTruth\<close> are harness/ground_truth.py from the event lines to the answers q01 to q15;
    \<open>SqlGrader\<close> is harness/validate.py, which compares a learner's SQL with those answers.
    \<open>PlanCheck\<close> is the plan checker of module 02.
  \<^item> Services.  \<open>TargetSite\<close>, \<open>TargetPages\<close> and \<open>TargetDefence\<close> are the scraping target of module 13
    (docker/target/app.py); \<open>K8sApp\<close> and \<open>K8sServer\<close> the workload of module 20 (app/app.py);
    \<open>MockPeer\<close> and \<open>IngestWorker\<close> the asyncio programs of module 11; \<open>LoadTest\<close> the load generator
    of module 12.
  \<^item> Graders and CI.  \<open>DesignDoc\<close> (17 harness/common.py), \<open>TextMetrics\<close> and \<open>LlmClient\<close> (15 harness),
    and \<open>Registry\<close>, \<open>ModuleCi\<close>, \<open>RepoGuards\<close> over \<open>FileTree\<close> (ci-meta).
  \<^item> Generators.  \<open>NumpyRng\<close> holds numpy's random generator as a parameter, the locale \<open>numpy_rng\<close> with
    the documented ranges of its draws, and a counting instance.  \<open>ScrapeGen\<close> and \<open>ScrapeFiles\<close> are
    13 generate.py with the files it writes; \<open>ScrapeCorpus\<close> shows that they are well formed for
    every generator, and \<open>ScrapeSite\<close> starts the target site on them.  \<open>EventGen\<close> and \<open>EventStream\<close>
    are 03 harness/events.py, the event stream that \<open>PriceEvents\<close> reads; \<open>EventFacts\<close>, \<open>EventObs\<close>,
    \<open>EventOrder\<close>, \<open>EventKeys\<close> and \<open>EventTotal\<close> show its order, its keys and when it has prices.

  State and operations.  A class or an object of the code is a record whose fields are its
  attributes; a method is a function from the state (and its arguments) to the new state and its
  result.  Every \<open>raise\<close> is \<open>Inl\<close> of an error of \<open>PyPrelude\<close>; an exit of a grader is a constructor
  of \<open>run\<close> (\<open>PassFail\<close>).  Concurrent programs (\<open>K8sServer\<close>, \<open>MockPeer\<close>, \<open>LoadTest\<close>,
  \<open>IngestWorker\<close>, the capstone's client beside a writer) are step relations whose steps are the
  code between two suspension points, in any order.  Clock readings, random draws, subprocesses,
  databases, HTTP and the file system are arguments.

  Python itself.  \<open>PyText\<close> and \<open>PyLines\<close> hold strings as lists of code points, white space, digits
  and \<open>decimal.Decimal\<close>; \<open>PyAscii\<close> strings below code point 256; \<open>Float64\<close> doubles as the rationals
  they denote, each operation rounded by \<open>fl\<close>; \<open>PyConv\<close> conversions between text and numbers;
  \<open>Json\<close> the printer and the parser of the \<open>json\<close> module with their round trip; \<open>PyTime\<close> dates;
  \<open>PyDict\<close> dicts, stable sorts, fallible loops and float sums.

  What the lemmas show.  For each component: the invariant of its state and that every operation
  keeps it; what each operation returns on each branch, errors included; and the property the
  component exists for.  Among these: a paging client sees every row once, also beside a concurrent
  writer; the cache is never staler than its time to live; the as-of attributes of an observation
  are the fold of the events up to its time; a result accepted by a grader is a perfect matching
  within tolerance, or an answer set with no copied answer; a client of the target site passes at most
  the capacity of its bucket and the refill of its time; all records of a workload are processed under
  every interleaving.  Where the code does less than it means to, the theorems say what it does, and a
  lemma beside them shows the gap: the server of module 20 ends with requests in flight
  (\<open>return_cuts_request\<close>, \<open>exit_cuts_request\<close>), the module CI takes no container down when
  \<open>docker compose up\<close> itself raises, and the target site forgets a price change after a later stock
  change (\<open>overlay_loses_price\<close>).

  What the steps are.  A request of the catalog service is one step, so the race between the read of
  the database and the fill of the cache is outside.  The steps of the server of module 20 are finer:
  accepting, entering, counting, replying and leaving, the handler of SIGTERM, the start, the
  deadline, the end of the wait and the exit of the draining thread, the stop of the server and the
  return of \<open>main\<close> are separate, and a route may raise.

  Bounds and fuel.  Recursions are structural or have a termination proof, with three exceptions.
  The client walks of \<open>Keyset\<close> take fuel, and the walk theorems give the number of requests that is
  enough.  \<open>json_loads\<close> runs with the length of its text as fuel, and the round trip shows that
  this is enough for every printed value.  The reconnect loop of \<open>K8sApp\<close> retries until it
  succeeds, so it returns \<open>None\<close> while every attempt within its fuel fails.
  \<open>IngestWorker\<close> takes record numbers below 10 to the 18, so that the text of one is within the
  limit Python sets on converting digits.  Infinities and NaN are outside \<open>Float64\<close>.

  Not modelled.  Learner stubs; the SQL, Rust, TypeScript and shell tracks; wrappers whose whole
  content is calls to Kafka, Debezium, ClickHouse, MongoDB, Kubernetes or subprocesses; printing
  and file output; the validators of single tasks, which run learner code against live services.
\<close>

end
